(* ===== verification/Prelude.thy ===== *)
theory Prelude
  imports Main "HOL-Library.Word"
begin

text \<open>
  The vocabulary every component shares: the machine types of the native code, its
  exceptions as values, a small state-and-exception calculus for member functions that
  change an object and may throw half way, and the generic facts on lists and words that
  more than one component needs.

  A C++ member function of an object of type \<open>'s\<close> is an action
  \<open>'s \<Rightarrow> (exn + 'a) \<times> 's\<close>: it ends with an exception (\<open>Inl\<close>) or a
  result (\<open>Inr\<close>), and in both cases with the object as it was left at that point, so
  that what a throwing function had already changed stays changed, as in C++.
\<close>

section \<open>Machine types\<close>

type_synonym u8 = "8 word"
type_synonym u16 = "16 word"
type_synonym u32 = "32 word"
type_synonym u64 = "64 word"

type_synonym byte = u8
type_synonym bytes = "byte list"

text \<open>A pointer with a size, as the data arguments of the native code come: the null pointer
  still has the size the caller passed; a valid pointer has exactly \<open>size\<close> readable bytes.\<close>

datatype span = NullSpan nat | Span bytes

fun span_size :: "span \<Rightarrow> nat" where
  "span_size (NullSpan n) = n"
| "span_size (Span bs) = length bs"

fun span_is_null :: "span \<Rightarrow> bool" where
  "span_is_null (NullSpan _) = True"
| "span_is_null (Span _) = False"

fun span_bytes :: "span \<Rightarrow> bytes" where
  "span_bytes (NullSpan _) = []"
| "span_bytes (Span bs) = bs"

section \<open>Exceptions\<close>

text \<open>The exception classes the native code throws, with their message, and one value for what
  the C++ standard leaves undefined (a null or dangling dereference): the theorems show that no
  execution of the model ends in it.\<close>

datatype exn =
    InvalidArgument string
  | LengthError string
  | OutOfRange string
  | LogicError string
  | RuntimeError string
  | Undefined

fun what :: "exn \<Rightarrow> string" where
  "what (InvalidArgument m) = m"
| "what (LengthError m) = m"
| "what (OutOfRange m) = m"
| "what (LogicError m) = m"
| "what (RuntimeError m) = m"
| "what Undefined = ''undefined behaviour''"

section \<open>Actions: state and exceptions\<close>

type_synonym ('s, 'a) act = "'s \<Rightarrow> (exn + 'a) \<times> 's"

definition ret :: "'a \<Rightarrow> ('s, 'a) act" where
  "ret x = (\<lambda>s. (Inr x, s))"

definition throw :: "exn \<Rightarrow> ('s, 'a) act" where
  "throw e = (\<lambda>s. (Inl e, s))"

definition bindA :: "('s, 'a) act \<Rightarrow> ('a \<Rightarrow> ('s, 'b) act) \<Rightarrow> ('s, 'b) act" where
  "bindA m f = (\<lambda>s. case m s of (Inl e, s') \<Rightarrow> (Inl e, s') | (Inr x, s') \<Rightarrow> f x s')"

definition gets :: "('s \<Rightarrow> 'a) \<Rightarrow> ('s, 'a) act" where
  "gets f = (\<lambda>s. (Inr (f s), s))"

definition modify :: "('s \<Rightarrow> 's) \<Rightarrow> ('s, unit) act" where
  "modify f = (\<lambda>s. (Inr (), f s))"

definition whenA :: "bool \<Rightarrow> ('s, unit) act \<Rightarrow> ('s, unit) act" where
  "whenA b m = (if b then m else ret ())"

text \<open>A block of statements, executed in order up to the first exception.\<close>

fun blockA :: "('s, unit) act list \<Rightarrow> ('s, unit) act" where
  "blockA [] = ret ()"
| "blockA [m] = m"
| "blockA (m # n # ms) = bindA m (\<lambda>_. blockA (n # ms))"

text \<open>\<open>try m catch (e) h\<close>: the handler runs on the object as the exception left it.\<close>

definition catchA :: "('s, 'a) act \<Rightarrow> (exn \<Rightarrow> ('s, 'a) act) \<Rightarrow> ('s, 'a) act" where
  "catchA m h = (\<lambda>s. case m s of (Inl e, s') \<Rightarrow> h e s' | (Inr x, s') \<Rightarrow> (Inr x, s'))"

named_theorems act_simps \<open>unfolding actions applied to a state\<close>

lemma ret_apply [act_simps]: "ret x s = (Inr x, s)"
  by (simp add: ret_def)

lemma throw_apply [act_simps]: "throw e s = (Inl e, s)"
  by (simp add: throw_def)

lemma gets_apply [act_simps]: "gets f s = (Inr (f s), s)"
  by (simp add: gets_def)

lemma modify_apply [act_simps]: "modify f s = (Inr (), f s)"
  by (simp add: modify_def)

lemma bindA_apply [act_simps]:
  "bindA m f s = (case m s of (Inl e, s') \<Rightarrow> (Inl e, s') | (Inr x, s') \<Rightarrow> f x s')"
  by (simp add: bindA_def)

lemma catchA_apply [act_simps]:
  "catchA m h s = (case m s of (Inl e, s') \<Rightarrow> h e s' | (Inr x, s') \<Rightarrow> (Inr x, s'))"
  by (simp add: catchA_def)

lemma whenA_apply [act_simps]: "whenA b m s = (if b then m s else (Inr (), s))"
  by (simp add: whenA_def ret_def)

lemma blockA_Cons [act_simps]:
  "blockA (m # ms) s = (case m s of (Inl e, s') \<Rightarrow> (Inl e, s') | (Inr x, s') \<Rightarrow> blockA ms s')"
  by (cases ms) (auto simp: bindA_def ret_def split: prod.splits sum.splits)

lemma bind_gets: "bindA (gets f) k s = k (f s) s"
  by (simp add: bindA_def gets_def)

lemma blockA_Nil [act_simps]: "blockA [] s = (Inr (), s)"
  by (simp add: ret_def)

subsection \<open>Hoare triples for actions\<close>

text \<open>\<open>triple P m Q E\<close>: from a state with \<open>P\<close>, the action ends with a result and state
  in \<open>Q\<close> or with an exception and state in \<open>E\<close>. \<open>preserves I m\<close> is the
  instance an invariant needs: \<open>I\<close> holds afterwards whichever way the action ends.\<close>

definition triple ::
  "('s \<Rightarrow> bool) \<Rightarrow> ('s, 'a) act \<Rightarrow> ('a \<Rightarrow> 's \<Rightarrow> bool) \<Rightarrow> (exn \<Rightarrow> 's \<Rightarrow> bool) \<Rightarrow> bool" where
  "triple P m Q E \<longleftrightarrow>
     (\<forall>s. P s \<longrightarrow> (case m s of (Inl e, s') \<Rightarrow> E e s' | (Inr x, s') \<Rightarrow> Q x s'))"

definition preserves :: "('s \<Rightarrow> bool) \<Rightarrow> ('s, 'a) act \<Rightarrow> bool" where
  "preserves I m \<longleftrightarrow> (\<forall>s. I s \<longrightarrow> I (snd (m s)))"

named_theorems preserves_intros \<open>rules that build an invariant proof along the code\<close>

lemma preservesD: "preserves I m \<Longrightarrow> I s \<Longrightarrow> I (snd (m s))"
  by (simp add: preserves_def)

lemma preservesD2: "preserves I m \<Longrightarrow> I s \<Longrightarrow> m s = (r, s') \<Longrightarrow> I s'"
  by (metis preserves_def snd_conv)

lemma preserves_triple: "preserves I m \<longleftrightarrow> triple I m (\<lambda>_. I) (\<lambda>_. I)"
  unfolding preserves_def triple_def
  by (rule all_cong1) (simp add: case_prod_beta split: sum.split)

lemma tripleD_Inr: "triple P m Q E \<Longrightarrow> P s \<Longrightarrow> m s = (Inr x, s') \<Longrightarrow> Q x s'"
  by (auto simp: triple_def)

lemma tripleD_Inl: "triple P m Q E \<Longrightarrow> P s \<Longrightarrow> m s = (Inl e, s') \<Longrightarrow> E e s'"
  by (auto simp: triple_def)

lemma preserves_ret [preserves_intros]: "preserves I (ret x)"
  by (simp add: preserves_def ret_def)

lemma preserves_throw [preserves_intros]: "preserves I (throw e)"
  by (simp add: preserves_def throw_def)

lemma preserves_gets [preserves_intros]: "preserves I (gets f)"
  by (simp add: preserves_def gets_def)

lemma preserves_modify: "(\<And>s. I s \<Longrightarrow> I (f s)) \<Longrightarrow> preserves I (modify f)"
  by (simp add: preserves_def modify_def)

lemma preserves_bind [preserves_intros]:
  "preserves I m \<Longrightarrow> (\<And>x. preserves I (f x)) \<Longrightarrow> preserves I (bindA m f)"
  by (fastforce simp: preserves_def bindA_def split: prod.splits sum.splits)

lemma preserves_when [preserves_intros]:
  "(b \<Longrightarrow> preserves I m) \<Longrightarrow> preserves I (whenA b m)"
  by (simp add: preserves_def whenA_def ret_def)

lemma preserves_catch [preserves_intros]:
  "preserves I m \<Longrightarrow> (\<And>e. preserves I (h e)) \<Longrightarrow> preserves I (catchA m h)"
  by (fastforce simp: preserves_def catchA_def split: prod.splits sum.splits)

lemma preserves_block:
  "(\<And>m. m \<in> set ms \<Longrightarrow> preserves I m) \<Longrightarrow> preserves I (blockA ms)"
proof (induction ms)
  case Nil
  then show ?case by (simp add: preserves_ret)
next
  case (Cons m ms)
  then have "preserves I m" and "preserves I (blockA ms)"
    by auto
  then show ?case
    by (cases ms) (auto intro: preserves_bind)
qed

lemma preserves_if [preserves_intros]:
  "(b \<Longrightarrow> preserves I m) \<Longrightarrow> (\<not> b \<Longrightarrow> preserves I n) \<Longrightarrow> preserves I (if b then m else n)"
  by simp

lemma preserves_case_option [preserves_intros]:
  "(x = None \<Longrightarrow> preserves I m) \<Longrightarrow> (\<And>y. x = Some y \<Longrightarrow> preserves I (f y)) \<Longrightarrow>
   preserves I (case x of None \<Rightarrow> m | Some y \<Rightarrow> f y)"
  by (cases x) auto

lemma preserves_case_prod [preserves_intros]:
  "(\<And>a b. x = (a, b) \<Longrightarrow> preserves I (f a b)) \<Longrightarrow> preserves I (case x of (a, b) \<Rightarrow> f a b)"
  by (cases x) auto

lemma preserves_blockA_Nil [preserves_intros]: "preserves I (blockA [])"
  by (simp add: preserves_ret)

lemma preserves_blockA_Cons [preserves_intros]:
  "preserves I m \<Longrightarrow> preserves I (blockA ms) \<Longrightarrow> preserves I (blockA (m # ms))"
  by (cases ms) (auto intro: preserves_bind)

lemma preserves_case_sum [preserves_intros]:
  "(\<And>y. x = Inl y \<Longrightarrow> preserves I (f y)) \<Longrightarrow> (\<And>y. x = Inr y \<Longrightarrow> preserves I (g y)) \<Longrightarrow>
   preserves I (case x of Inl y \<Rightarrow> f y | Inr y \<Rightarrow> g y)"
  by (cases x) auto

lemma preserves_let [preserves_intros]: "preserves I (f x) \<Longrightarrow> preserves I (let y = x in f y)"
  by simp

subsection \<open>Postconditions of the normal end\<close>

text \<open>\<open>post P m Q\<close>: from \<open>P\<close>, an end without exception is in \<open>Q\<close>. It is what
  the parts of a handler are composed with when an exception is dealt with by the caller.\<close>

definition post :: "('s \<Rightarrow> bool) \<Rightarrow> ('s, 'a) act \<Rightarrow> ('a \<Rightarrow> 's \<Rightarrow> bool) \<Rightarrow> bool" where
  "post P m Q \<longleftrightarrow> (\<forall>s x s'. P s \<longrightarrow> m s = (Inr x, s') \<longrightarrow> Q x s')"

named_theorems post_intros \<open>rules that compose postconditions along the code\<close>

lemma postD: "post P m Q \<Longrightarrow> P s \<Longrightarrow> m s = (Inr x, s') \<Longrightarrow> Q x s'"
  by (simp add: post_def)

lemma postI: "(\<And>s x s'. P s \<Longrightarrow> m s = (Inr x, s') \<Longrightarrow> Q x s') \<Longrightarrow> post P m Q"
  by (simp add: post_def)

lemma preserves_post: "preserves I m \<Longrightarrow> post I m (\<lambda>_. I)"
  unfolding preserves_def post_def by (metis snd_conv)

lemma post_weaken: "post P m Q \<Longrightarrow> (\<And>s. P' s \<Longrightarrow> P s) \<Longrightarrow> (\<And>x s. Q x s \<Longrightarrow> Q' x s) \<Longrightarrow> post P' m Q'"
  by (simp add: post_def) metis

lemma post_bind [post_intros]:
  "post P m R \<Longrightarrow> (\<And>x. post (R x) (f x) Q) \<Longrightarrow> post P (bindA m f) Q"
  unfolding post_def by (auto simp: bindA_def split: prod.splits sum.splits)

lemma post_blockA_Cons [post_intros]:
  "post P m (\<lambda>_. R) \<Longrightarrow> post R (blockA (n # ms)) Q \<Longrightarrow> post P (blockA (m # n # ms)) Q"
  by (auto intro: post_bind)

lemma post_throw [post_intros]: "post P (throw e) Q"
  by (simp add: post_def throw_def)

lemma post_ret: "(\<And>s. P s \<Longrightarrow> Q x s) \<Longrightarrow> post P (ret x) Q"
  by (simp add: post_def ret_def)

lemma post_gets: "(\<And>s. P s \<Longrightarrow> Q (f s) s) \<Longrightarrow> post P (gets f) Q"
  by (simp add: post_def gets_def)

lemma post_modify: "(\<And>s. P s \<Longrightarrow> Q () (f s)) \<Longrightarrow> post P (modify f) Q"
  by (simp add: post_def modify_def)

lemma post_if:
  "(b \<Longrightarrow> post P m Q) \<Longrightarrow> (\<not> b \<Longrightarrow> post P n Q) \<Longrightarrow> post P (if b then m else n) Q"
  by simp

lemma post_when:
  "(b \<Longrightarrow> post P m Q) \<Longrightarrow> (\<And>s. \<not> b \<Longrightarrow> P s \<Longrightarrow> Q () s) \<Longrightarrow> post P (whenA b m) Q"
  by (auto simp: whenA_def intro: post_ret)

subsection \<open>Actions that do not throw\<close>

definition nothrow :: "('s, 'a) act \<Rightarrow> bool" where
  "nothrow m \<longleftrightarrow> (\<forall>s. \<exists>x s'. m s = (Inr x, s'))"

named_theorems nothrow_intros \<open>rules that show along the code that it does not throw\<close>

lemma nothrowD: "nothrow m \<Longrightarrow> m s \<noteq> (Inl e, s')"
  unfolding nothrow_def by (metis Inl_Inr_False prod.inject)

lemma nothrowE: "nothrow m \<Longrightarrow> (\<And>x s'. m s = (Inr x, s') \<Longrightarrow> thesis) \<Longrightarrow> thesis"
  unfolding nothrow_def by blast

lemma nothrow_ret [nothrow_intros]: "nothrow (ret x)"
  by (simp add: nothrow_def ret_def)

lemma nothrow_gets [nothrow_intros]: "nothrow (gets f)"
  by (simp add: nothrow_def gets_def)

lemma nothrow_modify [nothrow_intros]: "nothrow (modify f)"
  by (simp add: nothrow_def modify_def)

lemma nothrow_bind [nothrow_intros]: "nothrow m \<Longrightarrow> (\<And>x. nothrow (f x)) \<Longrightarrow> nothrow (bindA m f)"
  unfolding nothrow_def bindA_def by (metis (no_types, lifting) case_prod_conv sum.simps(6))

lemma nothrow_when [nothrow_intros]: "(b \<Longrightarrow> nothrow m) \<Longrightarrow> nothrow (whenA b m)"
  by (simp add: nothrow_def whenA_def ret_def)

lemma nothrow_if [nothrow_intros]:
  "(b \<Longrightarrow> nothrow m) \<Longrightarrow> (\<not> b \<Longrightarrow> nothrow n) \<Longrightarrow> nothrow (if b then m else n)"
  by simp

lemma nothrow_blockA [nothrow_intros]:
  "nothrow (blockA [])" "nothrow m \<Longrightarrow> nothrow (blockA ms) \<Longrightarrow> nothrow (blockA (m # ms))"
  by (simp add: nothrow_ret) (cases ms; auto intro: nothrow_bind)

subsection \<open>A member object\<close>

text \<open>An operation of a member object, run on the object that holds it.\<close>

definition zoomA :: "('s \<Rightarrow> 't) \<Rightarrow> ('t \<Rightarrow> 's \<Rightarrow> 's) \<Rightarrow> ('t, 'a) act \<Rightarrow> ('s, 'a) act" where
  "zoomA get put m = (\<lambda>s. case m (get s) of (r, t) \<Rightarrow> (r, put t s))"

lemma zoomA_apply [act_simps]: "zoomA get put m s = (case m (get s) of (r, t) \<Rightarrow> (r, put t s))"
  by (simp add: zoomA_def)

lemma preserves_zoom: "(\<And>s t. I s \<Longrightarrow> I (put t s)) \<Longrightarrow> preserves I (zoomA get put m)"
  by (simp add: preserves_def zoomA_def split: prod.split)

section \<open>Lists as memory\<close>

text \<open>\<open>std::memcpy\<close> of \<open>src\<close> to offset \<open>off\<close> of an array.\<close>

definition memcpy_at :: "'a list \<Rightarrow> nat \<Rightarrow> 'a list \<Rightarrow> 'a list" where
  "memcpy_at dst off src = take off dst @ src @ drop (off + length src) dst"

lemma length_memcpy_at [simp]:
  "off + length src \<le> length dst \<Longrightarrow> length (memcpy_at dst off src) = length dst"
  by (simp add: memcpy_at_def)

lemma memcpy_at_read:
  "off + length src \<le> length dst \<Longrightarrow> take (length src) (drop off (memcpy_at dst off src)) = src"
  by (simp add: memcpy_at_def)

lemma memcpy_at_frame:
  assumes "i + n \<le> off" and "off \<le> length dst"
  shows "take n (drop i (memcpy_at dst off src)) = take n (drop i dst)"
proof -
  have "drop i (take off dst @ ys) = drop i (take off dst) @ ys" for ys
    using assms by simp
  then show ?thesis using assms
    by (simp add: memcpy_at_def drop_take min_absorb1)
qed

lemma memcpy_at_prefix:
  "off \<le> length dst \<Longrightarrow> take (off + length src) (memcpy_at dst off src) = take off dst @ src"
  by (simp add: memcpy_at_def)

lemma memcpy_at_memcpy_at:
  assumes "off + length xs + length ys \<le> length dst"
  shows "memcpy_at (memcpy_at dst off xs) (off + length xs) ys = memcpy_at dst off (xs @ ys)"
proof -
  have "take (off + length xs) (memcpy_at dst off xs) = take off dst @ xs"
    using assms by (simp add: memcpy_at_prefix)
  then show ?thesis
    using assms by (simp add: memcpy_at_def ac_simps)
qed

lemma memcpy_at_Nil [simp]: "memcpy_at dst off [] = dst"
  by (simp add: memcpy_at_def)

section \<open>Words\<close>

lemma unat_of_nat_small: "n < 2 ^ LENGTH('a) \<Longrightarrow> unat (of_nat n :: 'a::len word) = n"
  by (simp add: unat_of_nat take_bit_nat_eq_self)

lemma unat_of_nat_u16: "n < 65536 \<Longrightarrow> unat (of_nat n :: u16) = n"
  by (rule unat_of_nat_small) simp

end
