(* ===== verification/Juice_Binding.thy ===== *)
theory Juice_Binding
  imports Prelude
begin

text \<open>
  Model of \<open>native/ice/JuiceBinding.{h,cpp}\<close>, of the data-sink part of the agent in
  \<open>native/P2P.c\<close> and of the send wrappers of \<open>native/Juice.c\<close>: how a connection
  attaches to the ICE agent and how its datagrams reach libjuice.

  libjuice is not part of the repository: its two send functions are the components of a
  record \<open>juice_env\<close> over an opaque external state \<open>'w\<close>, and its result codes are a
  datatype with one constructor per code the code compares with. An agent object is the record
  of the fields these functions use; \<open>agents\<close> maps the address of an agent to it.
\<close>

section \<open>libjuice\<close>

datatype juice_code =
    JUICE_ERR_SUCCESS | JUICE_ERR_INVALID | JUICE_ERR_NOT_AVAIL | JUICE_ERR_AGAIN | JUICE_ERR_TOO_LARGE
  | JuiceCode int

text \<open>\<open>juice_text\<close> is \<open>std::to_string\<close> of the code's number.\<close>

record 'w juice_env =
  juice_send :: "nat \<Rightarrow> bytes \<Rightarrow> 'w \<Rightarrow> juice_code \<times> 'w"
  juice_send_aggregate_progress :: "nat \<Rightarrow> bytes \<Rightarrow> nat \<Rightarrow> 'w \<Rightarrow> (juice_code \<times> nat) \<times> 'w"
  juice_text :: "juice_code \<Rightarrow> string"

text \<open>\<open>FFLP2PJuice\<close>: the wrapper object and the libjuice agent it points to.\<close>

record juice_handle =
  jh_agent :: "nat option"

definition sendFFLP2PJuice ::
  "'w juice_env \<Rightarrow> juice_handle option \<Rightarrow> bytes \<Rightarrow> 'w \<Rightarrow> juice_code \<times> 'w" where
  "sendFFLP2PJuice J juice data w =
     (case juice of
        None \<Rightarrow> (JUICE_ERR_INVALID, w)
      | Some jh \<Rightarrow> (case jh_agent jh of
            None \<Rightarrow> (JUICE_ERR_INVALID, w)
          | Some a \<Rightarrow> juice_send J a data w))"

text \<open>The progress output is 0 on entry (its only caller initialises it) and keeps that value when
  libjuice is not reached.\<close>

definition sendFFLP2PJuiceAggregateProgress ::
  "'w juice_env \<Rightarrow> juice_handle option \<Rightarrow> bytes \<Rightarrow> nat \<Rightarrow> 'w \<Rightarrow> (juice_code \<times> nat) \<times> 'w" where
  "sendFFLP2PJuiceAggregateProgress J juice data segmentSize w =
     (case juice of
        None \<Rightarrow> ((JUICE_ERR_INVALID, 0), w)
      | Some jh \<Rightarrow> (case jh_agent jh of
            None \<Rightarrow> ((JUICE_ERR_INVALID, 0), w)
          | Some a \<Rightarrow> juice_send_aggregate_progress J a data segmentSize w))"

section \<open>The data sink of an agent\<close>

record agent =
  agent_juice :: "juice_handle option"
  agent_lock :: bool
  agent_closed :: bool
  dataSink :: "nat option"
  dataSinkUserPtr :: "nat option"

text \<open>The functions return the C result and the agent afterwards; a handle is a pointer that may be
  null. Each runs under the agent's lock, so it is one atomic step.\<close>

definition setFFLP2PAgentNativeDataSink ::
  "nat option \<Rightarrow> nat option \<Rightarrow> nat option \<Rightarrow> (nat \<Rightarrow> agent) \<Rightarrow> int \<times> (nat \<Rightarrow> agent)" where
  "setFFLP2PAgentNativeDataSink agentHandle sink userPtr agents =
     (case agentHandle of
        None \<Rightarrow> (-1, agents)
      | Some h \<Rightarrow>
          let self = agents h in
          if sink = None \<or> \<not> agent_lock self then (-1, agents)
          else if agent_closed self \<or> agent_juice self = None \<or> dataSink self \<noteq> None then (-1, agents)
          else (0, agents(h := self\<lparr>dataSink := sink, dataSinkUserPtr := userPtr\<rparr>)))"

definition clearFFLP2PAgentNativeDataSink ::
  "nat option \<Rightarrow> nat option \<Rightarrow> nat option \<Rightarrow> (nat \<Rightarrow> agent) \<Rightarrow> (nat \<Rightarrow> agent)" where
  "clearFFLP2PAgentNativeDataSink agentHandle sink userPtr agents =
     (case agentHandle of
        None \<Rightarrow> agents
      | Some h \<Rightarrow>
          let self = agents h in
          if \<not> agent_lock self then agents
          else if dataSink self = sink \<and> dataSinkUserPtr self = userPtr
          then agents(h := self\<lparr>dataSink := None, dataSinkUserPtr := None\<rparr>)
          else agents)"

definition sendFFLP2PAgentNative ::
  "'w juice_env \<Rightarrow> nat option \<Rightarrow> bytes \<Rightarrow> (nat \<Rightarrow> agent) \<Rightarrow> 'w \<Rightarrow> juice_code \<times> 'w" where
  "sendFFLP2PAgentNative J agentHandle data agents w =
     (case agentHandle of
        None \<Rightarrow> (JUICE_ERR_INVALID, w)
      | Some h \<Rightarrow>
          if agent_closed (agents h) \<or> agent_juice (agents h) = None then (JUICE_ERR_INVALID, w)
          else sendFFLP2PJuice J (agent_juice (agents h)) data w)"

definition sendFFLP2PAgentNativeAggregateProgress ::
  "'w juice_env \<Rightarrow> nat option \<Rightarrow> bytes \<Rightarrow> nat \<Rightarrow> (nat \<Rightarrow> agent) \<Rightarrow> 'w \<Rightarrow> (juice_code \<times> nat) \<times> 'w" where
  "sendFFLP2PAgentNativeAggregateProgress J agentHandle data segmentSize agents w =
     (case agentHandle of
        None \<Rightarrow> ((JUICE_ERR_INVALID, 0), w)
      | Some h \<Rightarrow>
          if agent_closed (agents h) \<or> agent_juice (agents h) = None then ((JUICE_ERR_INVALID, 0), w)
          else sendFFLP2PJuiceAggregateProgress J (agent_juice (agents h)) data segmentSize w)"

section \<open>The binding\<close>

datatype send_status = Complete | Blocked | TooLarge

record send_result =
  status :: send_status
  sentSize :: nat

record binding =
  agentHandle :: "nat option"
  bconnection :: "nat option"
  datagramLimit :: nat

definition binding_new :: binding where
  "binding_new = \<lparr>agentHandle = None, bconnection = None, datagramLimit = 0\<rparr>"

text \<open>The binding with what it reaches: the agents and the external state.\<close>

record 'w io =
  io_binding :: binding
  io_agents :: "nat \<Rightarrow> agent"
  io_world :: 'w

text \<open>The address of the static member function \<open>onReceive\<close>.\<close>

definition onReceive_fn :: nat where "onReceive_fn = 1"

text \<open>\<open>self\<close> is the address of the binding, the user pointer of the sink.\<close>

definition binding_attach :: "nat \<Rightarrow> nat option \<Rightarrow> nat option \<Rightarrow> ('w io, unit) act" where
  "binding_attach self handle connection s =
     (if handle = None \<or> connection = None
      then (Inl (InvalidArgument ''ICE binding requires agent and connection''), s)
      else if agentHandle (io_binding s) \<noteq> None
      then (Inl (RuntimeError ''ICE binding is already attached''), s)
      else
        case setFFLP2PAgentNativeDataSink handle (Some onReceive_fn) (Some self) (io_agents s) of
          (r, agents) \<Rightarrow>
            if r \<noteq> 0
            then (Inl (RuntimeError ''unable to attach QUIC runtime to ICE agent''),
                  s\<lparr>io_agents := agents\<rparr>)
            else (Inr (), s\<lparr>io_agents := agents,
                    io_binding := (io_binding s)\<lparr>agentHandle := handle, bconnection := connection\<rparr>\<rparr>))"

definition binding_detach :: "nat \<Rightarrow> ('w io, unit) act" where
  "binding_detach self s =
     (if agentHandle (io_binding s) = None then (Inr (), s)
      else (Inr (), s\<lparr>
        io_agents := clearFFLP2PAgentNativeDataSink (agentHandle (io_binding s))
          (Some onReceive_fn) (Some self) (io_agents s),
        io_binding := (io_binding s)\<lparr>agentHandle := None, bconnection := None\<rparr>\<rparr>))"

definition binding_isAttached :: "binding \<Rightarrow> bool" where
  "binding_isAttached b \<longleftrightarrow> agentHandle b \<noteq> None"

definition binding_limitDatagramSize :: "nat \<Rightarrow> 'w io \<Rightarrow> 'w io" where
  "binding_limitDatagramSize limit s = s\<lparr>io_binding := (io_binding s)\<lparr>datagramLimit := limit\<rparr>\<rparr>"

definition translateSendResult ::
  "(juice_code \<Rightarrow> string) \<Rightarrow> juice_code \<Rightarrow> nat \<Rightarrow> nat \<Rightarrow> string \<Rightarrow> exn + send_result" where
  "translateSendResult text result sz sent op_name =
     (if sent > sz then Inl (RuntimeError (op_name @ '' reported invalid send progress''))
      else if result = JUICE_ERR_SUCCESS then
        (if sent \<noteq> sz then Inl (RuntimeError (op_name @ '' completed with a partial send''))
         else Inr \<lparr>status = Complete, sentSize = sent\<rparr>)
      else if result = JUICE_ERR_AGAIN then Inr \<lparr>status = Blocked, sentSize = sent\<rparr>
      else if result = JUICE_ERR_TOO_LARGE then Inr \<lparr>status = TooLarge, sentSize = sent\<rparr>
      else Inl (RuntimeError (op_name @ '' failed: '' @ text result)))"

definition binding_send :: "'w juice_env \<Rightarrow> bytes \<Rightarrow> ('w io, send_result) act" where
  "binding_send J data s =
     (let b = io_binding s; n = length data; op_name = ''libjuice QUIC send'' in
      if agentHandle b = None then (Inl (RuntimeError ''ICE binding is detached''), s)
      else if datagramLimit b \<noteq> 0 \<and> n > datagramLimit b
      then (translateSendResult (juice_text J) JUICE_ERR_TOO_LARGE n 0 op_name, s)
      else
        case sendFFLP2PAgentNative J (agentHandle b) data (io_agents s) (io_world s) of
          (result, w) \<Rightarrow>
            (translateSendResult (juice_text J) result n
               (if result = JUICE_ERR_SUCCESS then n else 0) op_name, s\<lparr>io_world := w\<rparr>))"

definition binding_sendAggregate :: "'w juice_env \<Rightarrow> bytes \<Rightarrow> nat \<Rightarrow> ('w io, send_result) act" where
  "binding_sendAggregate J data segmentSize s =
     (let b = io_binding s; n = length data; op_name = ''libjuice QUIC aggregate send'' in
      if agentHandle b = None then (Inl (RuntimeError ''ICE binding is detached''), s)
      else if datagramLimit b \<noteq> 0 \<and> segmentSize > datagramLimit b
      then (translateSendResult (juice_text J) JUICE_ERR_TOO_LARGE n 0 op_name, s)
      else
        case sendFFLP2PAgentNativeAggregateProgress J (agentHandle b) data segmentSize
               (io_agents s) (io_world s) of
          ((result, sent), w) \<Rightarrow>
            (translateSendResult (juice_text J) result n sent op_name, s\<lparr>io_world := w\<rparr>))"

section \<open>The contract of a send\<close>

text \<open>What the connection relies on: progress never exceeds the size, \<open>Complete\<close> means all of
  it, and the only exception is a \<open>runtime_error\<close>.\<close>

definition send_ok :: "nat \<Rightarrow> send_result \<Rightarrow> bool" where
  "send_ok n r \<longleftrightarrow> sentSize r \<le> n \<and> (status r = Complete \<longrightarrow> sentSize r = n)"

lemma translateSendResult_ok:
  "translateSendResult text result n sent op_name = Inr r \<Longrightarrow> send_ok n r"
  by (auto simp: translateSendResult_def send_ok_def split: if_splits)

lemma translateSendResult_error:
  "translateSendResult text result n sent op_name = Inl e \<Longrightarrow> \<exists>m. e = RuntimeError m"
  by (auto simp: translateSendResult_def split: if_splits)

lemma translateSendResult_unsent:
  "translateSendResult text JUICE_ERR_SUCCESS n k op_name = Inr r \<Longrightarrow> status r \<noteq> Complete \<Longrightarrow> sentSize r = 0"
  "translateSendResult text result n 0 op_name = Inr r \<Longrightarrow> status r \<noteq> Complete \<Longrightarrow> sentSize r = 0"
  by (auto simp: translateSendResult_def split: if_splits)

lemma binding_send_result:
  assumes "binding_send J data s = (res, s')"
  shows "(\<forall>r. res = Inr r \<longrightarrow> send_ok (length data) r \<and> (status r \<noteq> Complete \<longrightarrow> sentSize r = 0)) \<and>
    (\<forall>e. res = Inl e \<longrightarrow> (\<exists>m. e = RuntimeError m)) \<and>
    (\<exists>w. s' = s\<lparr>io_world := w\<rparr>)"
proof -
  have keep: "\<exists>w. s = s\<lparr>io_world := w\<rparr>"
    by (rule exI [of _ "io_world s"]) simp
  show ?thesis
    using assms keep
    by (auto simp: binding_send_def Let_def
        dest: translateSendResult_ok translateSendResult_error translateSendResult_unsent
        split: if_splits prod.splits)
qed

lemma binding_sendAggregate_result:
  assumes "binding_sendAggregate J data seg s = (res, s')"
  shows "(\<forall>r. res = Inr r \<longrightarrow> send_ok (length data) r) \<and>
    (\<forall>e. res = Inl e \<longrightarrow> (\<exists>m. e = RuntimeError m)) \<and>
    (\<exists>w. s' = s\<lparr>io_world := w\<rparr>)"
proof -
  have keep: "\<exists>w. s = s\<lparr>io_world := w\<rparr>"
    by (rule exI [of _ "io_world s"]) simp
  show ?thesis
    using assms keep
    by (auto simp: binding_sendAggregate_def Let_def
        dest: translateSendResult_ok translateSendResult_error
        split: if_splits prod.splits)
qed

text \<open>A connection never hands libjuice a datagram, or an aggregate with a segment, above the
  configured limit: it is reported as too large, nothing counts as sent and the outside world is
  untouched.\<close>

theorem binding_limit_enforced:
  assumes "agentHandle (io_binding s) \<noteq> None" and "datagramLimit (io_binding s) \<noteq> 0"
    and "datagramLimit (io_binding s) < length data" and "datagramLimit (io_binding s) < seg"
  shows "binding_send J data s = (Inr \<lparr>status = TooLarge, sentSize = 0\<rparr>, s) \<and>
    binding_sendAggregate J bs seg s = (Inr \<lparr>status = TooLarge, sentSize = 0\<rparr>, s)"
  using assms
  by (auto simp: binding_send_def binding_sendAggregate_def translateSendResult_def Let_def)

theorem binding_limit_enforced_witness:
  "let s = \<lparr>io_binding = \<lparr>agentHandle = Some 5, bconnection = Some 1, datagramLimit = 2\<rparr>,
             io_agents = (\<lambda>_. \<lparr>agent_juice = None, agent_lock = True, agent_closed = False,
               dataSink = None, dataSinkUserPtr = None\<rparr>),
             io_world = ()\<rparr>;
       J = \<lparr>juice_send = (\<lambda>_ _ w. (JUICE_ERR_SUCCESS, w)),
            juice_send_aggregate_progress = (\<lambda>_ d _ w. ((JUICE_ERR_SUCCESS, length d), w)),
            juice_text = (\<lambda>_. ''0'')\<rparr>
   in binding_send J [1, 2, 3] s = (Inr \<lparr>status = TooLarge, sentSize = 0\<rparr>, s)"
  unfolding Let_def by (rule conjunct1 [OF binding_limit_enforced [where bs = "[]" and seg = 3]]) simp_all

section \<open>Attaching and detaching\<close>

lemma attach_ok:
  assumes "agent_lock (io_agents s h)" and "\<not> agent_closed (io_agents s h)"
    and "agent_juice (io_agents s h) \<noteq> None" and "dataSink (io_agents s h) = None"
    and "agentHandle (io_binding s) = None"
  shows "binding_attach self (Some h) (Some c) s = (Inr (),
    s\<lparr>io_agents := (io_agents s)(h := (io_agents s h)
        \<lparr>dataSink := Some onReceive_fn, dataSinkUserPtr := Some self\<rparr>),
      io_binding := (io_binding s)\<lparr>agentHandle := Some h, bconnection := Some c\<rparr>\<rparr>)"
  using assms by (simp add: binding_attach_def setFFLP2PAgentNativeDataSink_def Let_def)

text \<open>The sink of an agent belongs to one binding at a time: while one is attached every other
  attach to the same agent is refused without an effect, a detach by someone else leaves the
  sink in place, and the owner's detach frees the agent for the next binding.\<close>

theorem binding_exclusive:
  assumes "agent_lock (io_agents s h)" and "dataSink (io_agents s h) = Some onReceive_fn"
    and "dataSinkUserPtr (io_agents s h) = Some self" and "other \<noteq> self"
    and "agentHandle (io_binding t) = None" and "io_agents t = io_agents s"
    and "agentHandle (io_binding s) = Some h"
  shows "binding_attach other (Some h) (Some c) t =
      (Inl (RuntimeError ''unable to attach QUIC runtime to ICE agent''), t) \<and>
    (\<forall>u. agentHandle (io_binding u) = Some h \<longrightarrow> io_agents u = io_agents s \<longrightarrow>
       dataSink (io_agents (snd (binding_detach other u)) h) = Some onReceive_fn) \<and>
    dataSink (io_agents (snd (binding_detach self s)) h) = None"
  using assms
  by (auto simp: binding_attach_def binding_detach_def setFFLP2PAgentNativeDataSink_def
      clearFFLP2PAgentNativeDataSink_def Let_def)

theorem binding_exclusive_witness:
  "let a = \<lparr>agent_juice = Some \<lparr>jh_agent = Some 9\<rparr>, agent_lock = True, agent_closed = False,
            dataSink = Some onReceive_fn, dataSinkUserPtr = Some 70\<rparr>;
       t = \<lparr>io_binding = binding_new, io_agents = (\<lambda>_. a), io_world = ()\<rparr>
   in binding_attach 80 (Some 5) (Some 2) t =
        (Inl (RuntimeError ''unable to attach QUIC runtime to ICE agent''), t)"
  unfolding Let_def
  by (rule conjunct1 [OF binding_exclusive [where self = 70 and s =
      "\<lparr>io_binding = \<lparr>agentHandle = Some 5, bconnection = Some 1, datagramLimit = 0\<rparr>,
        io_agents = (\<lambda>_. \<lparr>agent_juice = Some \<lparr>jh_agent = Some 9\<rparr>, agent_lock = True,
          agent_closed = False, dataSink = Some onReceive_fn, dataSinkUserPtr = Some 70\<rparr>),
        io_world = ()\<rparr>"]]) (simp_all add: binding_new_def)

end
