(* ===== verification/Timer_Wheel.thy ===== *)
theory Timer_Wheel
  imports Prelude
begin

text \<open>
  Model of \<open>native/core/TimerWheel.{h,cpp}\<close> and of the \<open>Timestamp\<close> type of
  \<open>native/platform/Platform.h\<close>: the deadline index a worker keeps for its connections.

  The \<open>unordered_map\<close> from raw pointer to entry is an association list in iteration
  order with distinct keys. A connection is named by its address (the key) and by its
  identity (what the \<open>weak_ptr\<close> of the entry refers to), since an address can be
  reused after the object is gone; whether an identity is still alive
  (\<open>weak_ptr::lock\<close>) is the argument \<open>alive\<close>.
\<close>

type_synonym timestamp = u64

definition InfiniteTimestamp :: timestamp where
  "InfiniteTimestamp = - 1"

lemma InfiniteTimestamp_top [simp]: "t \<le> InfiniteTimestamp"
  by (simp add: InfiniteTimestamp_def)

record conn_ref =
  cr_addr :: nat
  cr_id :: nat

record timer_entry =
  te_conn :: nat       \<comment> \<open>the identity the \<open>weak_ptr\<close> refers to\<close>
  te_expiry :: timestamp

type_synonym timer_wheel = "(nat \<times> timer_entry) list"

fun wheel_erase :: "nat \<Rightarrow> timer_wheel \<Rightarrow> timer_wheel" where
  "wheel_erase a [] = []"
| "wheel_erase a ((k, e) # w) = (if k = a then w else (k, e) # wheel_erase a w)"

text \<open>\<open>entries_[key] = entry\<close>: an existing entry is overwritten in place, a new one takes
  some place in the iteration order.\<close>

fun wheel_assign :: "nat \<Rightarrow> timer_entry \<Rightarrow> timer_wheel \<Rightarrow> timer_wheel" where
  "wheel_assign a e [] = [(a, e)]"
| "wheel_assign a e ((k, d) # w) = (if k = a then (k, e) # w else (k, d) # wheel_assign a e w)"

definition wheel_remove :: "nat option \<Rightarrow> timer_wheel \<Rightarrow> timer_wheel" where
  "wheel_remove connection w = (case connection of None \<Rightarrow> w | Some a \<Rightarrow> wheel_erase a w)"

definition wheel_update ::
  "conn_ref option \<Rightarrow> timestamp \<Rightarrow> timer_wheel \<Rightarrow> timer_wheel" where
  "wheel_update connection expiry w =
     (case connection of
        None \<Rightarrow> w
      | Some c \<Rightarrow>
          if expiry = InfiniteTimestamp then wheel_remove (Some (cr_addr c)) w
          else wheel_assign (cr_addr c) \<lparr>te_conn = cr_id c, te_expiry = expiry\<rparr> w)"

fun wheel_next_from :: "(nat \<Rightarrow> bool) \<Rightarrow> timestamp \<Rightarrow> timer_wheel \<Rightarrow> timestamp" where
  "wheel_next_from alive next [] = next"
| "wheel_next_from alive next ((k, e) # w) =
     (if \<not> alive (te_conn e) then wheel_next_from alive next w
      else if te_expiry e < next then wheel_next_from alive (te_expiry e) w
      else wheel_next_from alive next w)"

definition wheel_getNextExpiry :: "(nat \<Rightarrow> bool) \<Rightarrow> timer_wheel \<Rightarrow> timestamp" where
  "wheel_getNextExpiry alive w = wheel_next_from alive InfiniteTimestamp w"

text \<open>\<open>takeExpired\<close>: one pass with an erasing iterator. The result is the vector of
  expired connections and the entries that stay.\<close>

fun wheel_takeExpired ::
  "(nat \<Rightarrow> bool) \<Rightarrow> timestamp \<Rightarrow> timer_wheel \<Rightarrow> nat list \<times> timer_wheel" where
  "wheel_takeExpired alive now [] = ([], [])"
| "wheel_takeExpired alive now ((k, e) # w) =
     (let (expired, rest) = wheel_takeExpired alive now w in
      if \<not> alive (te_conn e) then (expired, rest)
      else if te_expiry e > now then (expired, (k, e) # rest)
      else (te_conn e # expired, rest))"

definition wheel_size :: "timer_wheel \<Rightarrow> nat" where
  "wheel_size w = length w"

section \<open>The keys of the map stay distinct\<close>

definition wheel_ok :: "timer_wheel \<Rightarrow> bool" where
  "wheel_ok w \<longleftrightarrow> distinct (map fst w) \<and> (\<forall>(k, e) \<in> set w. te_expiry e \<noteq> InfiniteTimestamp)"

lemma wheel_ok_Nil [simp]: "wheel_ok []"
  by (simp add: wheel_ok_def)

lemma set_wheel_erase: "distinct (map fst w) \<Longrightarrow> set (wheel_erase a w) = {p \<in> set w. fst p \<noteq> a}"
  by (induction a w rule: wheel_erase.induct) (auto simp: image_iff)

lemma set_wheel_erase_subset: "set (wheel_erase a w) \<subseteq> set w"
  by (induction a w rule: wheel_erase.induct) auto

lemma distinct_wheel_erase: "distinct (map fst w) \<Longrightarrow> distinct (map fst (wheel_erase a w))"
  by (induction a w rule: wheel_erase.induct) (use set_wheel_erase_subset in fastforce)+

lemma set_wheel_assign:
  "distinct (map fst w) \<Longrightarrow> set (wheel_assign a e w) = insert (a, e) {p \<in> set w. fst p \<noteq> a}"
  by (induction a e w rule: wheel_assign.induct) (auto simp: image_iff)

lemma keys_wheel_assign: "fst ` set (wheel_assign a e w) = insert a (fst ` set w)"
  by (induction a e w rule: wheel_assign.induct) auto

lemma distinct_wheel_assign: "distinct (map fst w) \<Longrightarrow> distinct (map fst (wheel_assign a e w))"
proof (induction a e w rule: wheel_assign.induct)
  case (2 a e k d w)
  then show ?case
    using keys_wheel_assign [of a e w] by (auto simp flip: set_map)
qed simp

lemma wheel_ok_remove: "wheel_ok w \<Longrightarrow> wheel_ok (wheel_remove c w)"
  by (auto simp: wheel_ok_def wheel_remove_def set_wheel_erase distinct_wheel_erase
      split: option.splits)

lemma wheel_ok_update: "wheel_ok w \<Longrightarrow> wheel_ok (wheel_update c t w)"
proof (cases "c = None \<or> t = InfiniteTimestamp")
  case True
  then show "wheel_ok w \<Longrightarrow> ?thesis"
    by (auto simp: wheel_update_def wheel_ok_remove split: option.splits)
next
  case False
  then show "wheel_ok w \<Longrightarrow> ?thesis"
    by (auto simp: wheel_update_def wheel_ok_def set_wheel_assign distinct_wheel_assign)
qed

lemma wheel_takeExpired_rest:
  "snd (wheel_takeExpired alive now w) =
     filter (\<lambda>(k, e). alive (te_conn e) \<and> now < te_expiry e) w"
  by (induction alive now w rule: wheel_takeExpired.induct) (auto simp: Let_def split: prod.splits)

lemma wheel_takeExpired_expired:
  "fst (wheel_takeExpired alive now w) =
     map (\<lambda>(k, e). te_conn e) (filter (\<lambda>(k, e). alive (te_conn e) \<and> te_expiry e \<le> now) w)"
  by (induction alive now w rule: wheel_takeExpired.induct)
    (auto simp: Let_def not_less split: prod.splits)

lemma wheel_ok_takeExpired: "wheel_ok w \<Longrightarrow> wheel_ok (snd (wheel_takeExpired alive now w))"
  unfolding wheel_takeExpired_rest wheel_ok_def by (auto simp: distinct_map_filter)

section \<open>The next deadline is the earliest one of a live connection\<close>

lemma wheel_next_from_le: "wheel_next_from alive t w \<le> t"
  by (induction alive t w rule: wheel_next_from.induct) (auto intro: order.trans)

lemma wheel_next_from_lower:
  "(k, e) \<in> set w \<Longrightarrow> alive (te_conn e) \<Longrightarrow> wheel_next_from alive t w \<le> te_expiry e"
  by (induction alive t w rule: wheel_next_from.induct)
    (auto intro: order.trans [OF wheel_next_from_le] simp: not_less)

lemma wheel_next_from_attained:
  "wheel_next_from alive t w \<noteq> t \<Longrightarrow>
     \<exists>k e. (k, e) \<in> set w \<and> alive (te_conn e) \<and> te_expiry e = wheel_next_from alive t w"
proof (induction alive t w rule: wheel_next_from.induct)
  case (2 alive t k e w)
  then show ?case by (simp split: if_splits) metis+
qed simp

lemma getNextExpiry_le_iff:
  assumes "wheel_ok w" and "now \<noteq> InfiniteTimestamp"
  shows "wheel_getNextExpiry alive w \<le> now \<longleftrightarrow>
    (\<exists>k e. (k, e) \<in> set w \<and> alive (te_conn e) \<and> te_expiry e \<le> now)"
proof
  assume le: "wheel_getNextExpiry alive w \<le> now"
  have "wheel_getNextExpiry alive w \<noteq> InfiniteTimestamp"
    using le assms(2) InfiniteTimestamp_top [of now] by (metis order_antisym)
  then show "\<exists>k e. (k, e) \<in> set w \<and> alive (te_conn e) \<and> te_expiry e \<le> now"
    using wheel_next_from_attained [of alive InfiniteTimestamp w] le
    unfolding wheel_getNextExpiry_def by metis
next
  assume "\<exists>k e. (k, e) \<in> set w \<and> alive (te_conn e) \<and> te_expiry e \<le> now"
  then show "wheel_getNextExpiry alive w \<le> now"
    unfolding wheel_getNextExpiry_def by (blast intro: wheel_next_from_lower order.trans)
qed

text \<open>A worker pass over its timers misses nothing and fires nothing early: the connections
  it takes are exactly the live ones whose deadline has passed, they and the dead entries
  leave the wheel, every other deadline stays, and the next deadline lies in the future.\<close>

theorem takeExpired_exact:
  assumes "wheel_ok w" and "now \<noteq> InfiniteTimestamp"
    and "wheel_takeExpired alive now w = (expired, rest)"
  shows "set expired = {te_conn e |k e. (k, e) \<in> set w \<and> alive (te_conn e) \<and> te_expiry e \<le> now}
    \<and> set rest = {(k, e). (k, e) \<in> set w \<and> alive (te_conn e) \<and> now < te_expiry e}
    \<and> wheel_ok rest \<and> now < wheel_getNextExpiry alive rest"
proof -
  have r: "rest = filter (\<lambda>(k, e). alive (te_conn e) \<and> now < te_expiry e) w"
    and x: "expired =
      map (\<lambda>(k, e). te_conn e) (filter (\<lambda>(k, e). alive (te_conn e) \<and> te_expiry e \<le> now) w)"
    using wheel_takeExpired_rest [of alive now w] wheel_takeExpired_expired [of alive now w] assms(3)
    by simp_all
  have ok: "wheel_ok rest"
    using wheel_ok_takeExpired [OF assms(1), of alive now] assms(3) by simp
  have "\<not> wheel_getNextExpiry alive rest \<le> now"
    unfolding getNextExpiry_le_iff [OF ok assms(2)] by (auto simp: r)
  then show ?thesis
    using ok by (auto simp: r x not_le image_iff)
qed

theorem takeExpired_exact_witness:
  "let e = (\<lambda>c t. \<lparr>te_conn = c, te_expiry = t\<rparr>);
       w = [(16, e 1 5), (32, e 2 9), (48, e 3 4)] in
   set (fst (wheel_takeExpired (\<lambda>c. c \<noteq> 3) 7 w)) = {1} \<and>
   7 < wheel_getNextExpiry (\<lambda>c. c \<noteq> 3) (snd (wheel_takeExpired (\<lambda>c. c \<noteq> 3) 7 w))"
proof -
  let ?e = "\<lambda>c t. \<lparr>te_conn = c, te_expiry = t\<rparr>"
  let ?w = "[(16, ?e 1 5), (32, ?e 2 9), (48, ?e 3 4)]"
  have "wheel_ok ?w" and now: "(7::timestamp) \<noteq> InfiniteTimestamp"
    by (simp_all add: wheel_ok_def InfiniteTimestamp_def)
  moreover have "wheel_takeExpired (\<lambda>c. c \<noteq> 3) 7 ?w = ([1], [(32, ?e 2 9)])"
    by simp
  ultimately show ?thesis
    using takeExpired_exact [of ?w 7 "\<lambda>c. c \<noteq> 3" "[1]" "[(32, ?e 2 9)]"] by simp
qed

end
