(* ===== verification/Fifo.thy ===== *)
theory Fifo
  imports Prelude
begin

text \<open>
  The queue contract. Four parts of the program are first-in first-out queues with a
  different representation each: the operation queue of a connection and the connection
  queue of a worker (\<open>std::deque\<close>), and the two linked lists of an agent. Their
  clients rely on the laws of this locale only; each providing theory interprets it on the
  definitions of its own model.
\<close>

text \<open>Pop up to \<open>n\<close> elements, as the draining loops of the code do.\<close>

fun pop_many :: "('q \<Rightarrow> ('a \<times> 'q) option) \<Rightarrow> nat \<Rightarrow> 'q \<Rightarrow> 'a list \<times> 'q" where
  "pop_many pop 0 q = ([], q)"
| "pop_many pop (Suc n) q =
     (case pop q of
        None \<Rightarrow> ([], q)
      | Some (x, q') \<Rightarrow> (let (xs, q'') = pop_many pop n q' in (x # xs, q'')))"

locale fifo =
  fixes emptyq :: "'q"
    and push :: "'a \<Rightarrow> 'q \<Rightarrow> 'q"
    and pop :: "'q \<Rightarrow> ('a \<times> 'q) option"
    and elems :: "'q \<Rightarrow> 'a list"
    and ok :: "'q \<Rightarrow> bool"
  assumes ok_empty: "ok emptyq"
    and ok_push: "ok q \<Longrightarrow> ok (push x q)"
    and ok_pop: "ok q \<Longrightarrow> pop q = Some (x, q') \<Longrightarrow> ok q'"
    and elems_empty: "elems emptyq = []"
    and elems_push: "ok q \<Longrightarrow> elems (push x q) = elems q @ [x]"
    and pop_None: "ok q \<Longrightarrow> pop q = None \<longleftrightarrow> elems q = []"
    and pop_Some: "ok q \<Longrightarrow> pop q = Some (x, q') \<Longrightarrow> elems q = x # elems q'"
begin

lemma fold_push: "ok q \<Longrightarrow> ok (fold push xs q) \<and> elems (fold push xs q) = elems q @ xs"
  by (induction xs arbitrary: q) (simp_all add: ok_push elems_push)

lemma pop_many_spec:
  "ok q \<Longrightarrow> pop_many pop n q = (xs, q') \<Longrightarrow>
     ok q' \<and> xs = take n (elems q) \<and> elems q' = drop n (elems q)"
proof (induction n arbitrary: q xs q')
  case 0
  then show ?case by simp
next
  case (Suc n)
  show ?case
  proof (cases "pop q")
    case None
    with Suc.prems pop_None show ?thesis by auto
  next
    case (Some p)
    obtain x q1 where p: "p = (x, q1)" by fastforce
    obtain ys q2 where rest: "pop_many pop n q1 = (ys, q2)" by fastforce
    have "ok q1" and "elems q = x # elems q1"
      using Suc.prems(1) Some p ok_pop pop_Some by auto
    with Suc.IH [OF _ rest] Suc.prems(2) Some p rest show ?thesis by simp
  qed
qed

text \<open>What goes in comes out, once and in order.\<close>

lemma push_pop_order:
  assumes "length xs \<le> n"
  shows "fst (pop_many pop n (fold push xs emptyq)) = xs"
    and "elems (snd (pop_many pop n (fold push xs emptyq))) = []"
  using pop_many_spec [of "fold push xs emptyq" n] fold_push [OF ok_empty, of xs] assms
  by (cases "pop_many pop n (fold push xs emptyq)"; simp add: elems_empty)+

end

end
