(* ===== verification/Operation.thy ===== *)
theory Operation
  imports Fifo
begin

text \<open>
  Model of \<open>native/core/Operation.{h,cpp}\<close>: the operation types a connection queues for
  its worker, the completion object an API call waits on, and the operation queue. Each
  member function holds the object's mutex from its first to its last statement, so one
  application of a definition here is one atomic step of the code.
\<close>

section \<open>Operation types\<close>

datatype operation_type =
    APIStart | APISend | FlushRecv | FlushStreamRecv | FlushSend | TimerExpired
  | Shutdown | ReleaseStreamRecvCredit

text \<open>The underlying \<open>uint8_t\<close> of the enumeration.\<close>

fun operation_type_code :: "operation_type \<Rightarrow> u8" where
  "operation_type_code APIStart = 0"
| "operation_type_code APISend = 1"
| "operation_type_code FlushRecv = 2"
| "operation_type_code FlushStreamRecv = 3"
| "operation_type_code FlushSend = 4"
| "operation_type_code TimerExpired = 5"
| "operation_type_code Shutdown = 6"
| "operation_type_code ReleaseStreamRecvCredit = 7"

lemma operation_type_code_inj: "operation_type_code s = operation_type_code t \<Longrightarrow> s = t"
  by (cases s; cases t) simp_all

text \<open>Operation types are ordered by their code.\<close>

instantiation operation_type :: linorder
begin

definition less_eq_operation_type :: "operation_type \<Rightarrow> operation_type \<Rightarrow> bool" where
  "less_eq_operation_type s t \<longleftrightarrow> operation_type_code s \<le> operation_type_code t"

definition less_operation_type :: "operation_type \<Rightarrow> operation_type \<Rightarrow> bool" where
  "less_operation_type s t \<longleftrightarrow> operation_type_code s < operation_type_code t"

instance
  by intro_classes
    (auto simp: less_eq_operation_type_def less_operation_type_def intro: operation_type_code_inj)

end

section \<open>Completion\<close>

record completion =
  completed :: bool
  error_msg :: string

definition completion_new :: completion where
  "completion_new = \<lparr>completed = False, error_msg = ''''\<rparr>"

text \<open>\<open>Completion::complete\<close>: only the first call has an effect.\<close>

definition completion_complete :: "string \<Rightarrow> completion \<Rightarrow> completion" where
  "completion_complete err c =
     (if completed c then c else c\<lparr>error_msg := err, completed := True\<rparr>)"

text \<open>
  \<open>Completion::wait\<close>. The condition variable is the environment's: \<open>woke\<close> is the
  object as it is when the predicate has become true, or \<open>None\<close> when that has not
  happened by the deadline. A wait without a deadline (\<open>timeoutSeconds < 0\<close>) that is
  never completed does not return.
\<close>

datatype wait_result = Returned string | TimedOut | NeverReturns

definition completion_wait :: "bool \<Rightarrow> completion option \<Rightarrow> completion \<Rightarrow> wait_result" where
  "completion_wait negativeTimeout woke c =
     (if completed c then Returned (error_msg c)
      else case woke of
             Some c' \<Rightarrow> Returned (error_msg c')
           | None \<Rightarrow> if negativeTimeout then NeverReturns else TimedOut)"

lemma completed_complete [simp]: "completed (completion_complete e c)"
  by (simp add: completion_complete_def)

lemma complete_completed [simp]: "completed c \<Longrightarrow> completion_complete e c = c"
  by (simp add: completion_complete_def)

lemma complete_error_msg [simp]:
  "\<not> completed c \<Longrightarrow> error_msg (completion_complete e c) = e"
  by (simp add: completion_complete_def)

text \<open>The error a waiter reads is the one of the first call, however many calls follow.\<close>

lemma fold_complete:
  "\<not> completed c \<Longrightarrow> es \<noteq> [] \<Longrightarrow>
     completed (fold completion_complete es c) \<and> error_msg (fold completion_complete es c) = hd es"
proof (induction es arbitrary: c)
  case (Cons e es)
  have "fold completion_complete es (completion_complete e c) = completion_complete e c"
    by (induction es) simp_all
  with Cons.prems show ?case by simp
qed simp

section \<open>Operations and their queue\<close>

record operation =
  op_type :: operation_type
  op_data :: bytes
  op_fin :: bool
  op_completion :: "nat option"  \<comment> \<open>\<open>shared_ptr\<close> to one of the connection's completions\<close>

definition operation_of :: "operation_type \<Rightarrow> operation" where
  "operation_of t = \<lparr>op_type = t, op_data = [], op_fin = False, op_completion = None\<rparr>"

lemma operation_of_sel [simp]:
  "op_type (operation_of t) = t" "op_data (operation_of t) = []"
  "op_fin (operation_of t) = False" "op_completion (operation_of t) = None"
  by (simp_all add: operation_of_def)

text \<open>\<open>OperationQueue\<close> keeps a \<open>std::deque\<close>; the list is the deque from front to back.\<close>

type_synonym operation_queue = "operation list"

definition queue_push :: "operation \<Rightarrow> operation_queue \<Rightarrow> operation_queue" where
  "queue_push oper q = q @ [oper]"

definition queue_pop :: "operation_queue \<Rightarrow> (operation \<times> operation_queue) option" where
  "queue_pop q = (if q = [] then None else Some (hd q, tl q))"

definition queue_empty :: "operation_queue \<Rightarrow> bool" where
  "queue_empty q \<longleftrightarrow> q = []"

definition queue_size :: "operation_queue \<Rightarrow> nat" where
  "queue_size q = length q"

lemma queue_pop_simps [simp]:
  "queue_pop [] = None"
  "queue_pop (x # q) = Some (x, q)"
  by (simp_all add: queue_pop_def)

lemma queue_pop_None [simp]: "queue_pop q = None \<longleftrightarrow> q = []"
  by (simp add: queue_pop_def)

interpretation opq: fifo "[]" queue_push queue_pop "\<lambda>q. q" "\<lambda>_. True"
  by unfold_locales (auto simp: queue_push_def queue_pop_def split: if_splits)

text \<open>Operations pushed on an empty queue are popped once each and in the order they were
  pushed; nothing is left when at least as many pops as pushes have been made.\<close>

theorem operation_queue_order:
  "fst (pop_many queue_pop (length xs + k) (fold queue_push xs [])) = xs \<and>
   snd (pop_many queue_pop (length xs + k) (fold queue_push xs [])) = []"
  using opq.push_pop_order [of xs "length xs + k"] by simp

text \<open>A waiter that finds its completion done reads the error of the first
  \<open>complete\<close> call, whatever calls raced with it.\<close>

theorem completion_first_error_wins:
  "completion_wait neg woke (fold completion_complete (e # es) completion_new) = Returned e"
  using fold_complete [of completion_new "e # es"]
  by (simp add: completion_wait_def completion_new_def)

end
