(* ===== verification/Quic_Env.thy ===== *)
theory Quic_Env
  imports Juice_Binding Timer_Wheel Operation
begin

text \<open>
  What a QUIC connection uses of code outside the repository: ngtcp2, its GnuTLS glue, GnuTLS and
  the clock. Everything is a component of the record \<open>quic_env\<close>, a function over the
  opaque external state \<open>'w\<close> (the \<open>ngtcp2_conn\<close>, the TLS session, the network);
  nothing is assumed of these functions here, the properties that need documented behaviour name
  it as a hypothesis.

  ngtcp2 calls back into the program while one of its functions runs. Such a call is a
  resumption: a finite tree whose inner nodes are callbacks, each with the external state at that
  point and what ngtcp2 does next for each reply, and whose leaves are the result of the call.
\<close>

section \<open>Results and callbacks\<close>

text \<open>A result of ngtcp2 is a non-negative number (\<open>Inr\<close>) or one of the negative error
  codes, those the code compares with by name. A call that writes a packet returns the bytes
  written; their number is the C result.\<close>

datatype ng_error =
    NGTCP2_ERR_STREAM_DATA_BLOCKED | NGTCP2_ERR_STREAM_SHUT_WR | NGTCP2_ERR_STREAM_ID_BLOCKED
  | NGTCP2_ERR_IDLE_CLOSE | NGTCP2_ERR_CALLBACK_FAILURE | NgError int

type_synonym ng_code = "ng_error + nat"
type_synonym ng_written = "ng_error + bytes"

text \<open>The callbacks \<open>makeCallbacks\<close> installs with functions of the program (the others are
  functions of the ngtcp2 crypto library), and the packet writer of an aggregate. The flag of
  \<open>CbReceiveStreamData\<close> is \<open>NGTCP2_STREAM_DATA_FLAG_FIN\<close>, the one of
  \<open>CbStreamClose\<close> is \<open>NGTCP2_STREAM_CLOSE_FLAG_APP_ERROR_CODE_SET\<close>.\<close>

datatype callback =
    CbNewCID nat
  | CbHandshakeCompleted
  | CbHandshakeConfirmed
  | CbReceiveStreamData bool int nat bytes
  | CbAckedStreamData int nat nat
  | CbStreamClose bool int
  | CbWritePacket nat timestamp

datatype ('w, 'r) ng =
    NgReturn 'r 'w
  | NgCallback callback 'w "ng_written \<times> 'w \<Rightarrow> ('w, 'r) ng"

section \<open>The parameters\<close>

text \<open>The GnuTLS calls of \<open>initializeTLS\<close>, with the arguments that vary.\<close>

datatype tls_call =
    TlsGlobalInit
  | TlsAllocateCredentials
  | TlsSetX509KeyMem string string
  | TlsSetX509TrustMem string
  | TlsInit bool bool            \<comment> \<open>server side, \<open>GNUTLS_NO_AUTO_SEND_TICKET\<close>\<close>
  | TlsPrioritySetDirect string
  | TlsConfigureServerSession
  | TlsConfigureClientSession
  | TlsSetSessionPtr
  | TlsCredentialsSet
  | TlsAlpnSetProtocols string bool  \<comment> \<open>mandatory with server precedence\<close>
  | TlsServerNameSet string
  | TlsSetVerifyCert string

record version_cid =
  vc_version1 :: bool   \<comment> \<open>the version is \<open>NGTCP2_PROTO_VER_V1\<close>\<close>
  vc_dcid :: bytes
  vc_scid :: bytes

record conn_params =
  initial_ts :: timestamp
  initial_max_data :: nat
  initial_max_stream_data_bidi_local :: nat
  initial_max_stream_data_bidi_remote :: nat
  initial_max_stream_data_uni :: nat
  initial_max_streams_bidi :: nat
  initial_max_streams_uni :: nat
  original_dcid :: "bytes option"
  path_ports :: "nat option \<times> nat option"

record stream_flags =
  sf_padding :: bool
  sf_fin :: bool

text \<open>\<open>q_arrivals\<close> is not a call: it is the scheduler's choice of the datagrams that other
  threads deliver while the worker is between two critical sections of a receive flush.\<close>

record 'w quic_env =
  q_max_cidlen :: nat       \<comment> \<open>\<open>sizeof(cid->data)\<close>, \<open>NGTCP2_MAX_CIDLEN\<close>\<close>
  q_token_len :: nat        \<comment> \<open>\<open>sizeof(token->data)\<close>\<close>
  q_now :: "'w \<Rightarrow> timestamp \<times> 'w"
  q_tls :: "tls_call \<Rightarrow> 'w \<Rightarrow> int \<times> 'w"
  q_random :: "nat \<Rightarrow> 'w \<Rightarrow> (int \<times> bytes) \<times> 'w"
  q_tls_strerror :: "int \<Rightarrow> string"
  q_strerror :: "ng_error \<Rightarrow> string"
  q_tls_release :: "'w \<Rightarrow> 'w"
  q_credentials_release :: "'w \<Rightarrow> 'w"
  q_decode_version_cid :: "bytes \<Rightarrow> ng_code \<times> version_cid"
  q_conn_new :: "bool \<Rightarrow> bytes \<Rightarrow> bytes \<Rightarrow> conn_params \<Rightarrow> 'w \<Rightarrow> ng_code \<times> 'w"
  q_set_tls_native_handle :: "'w \<Rightarrow> 'w"
  q_conn_del :: "'w \<Rightarrow> 'w"
  q_read_pkt :: "nat option \<times> nat option \<Rightarrow> bytes \<Rightarrow> timestamp \<Rightarrow> 'w \<Rightarrow> ('w, ng_code) ng"
  q_write_stream :: "nat \<Rightarrow> stream_flags \<Rightarrow> int \<Rightarrow> bytes option \<Rightarrow> timestamp \<Rightarrow> 'w \<Rightarrow> ('w, ng_written \<times> int) ng"
  q_write_pkt :: "nat \<Rightarrow> timestamp \<Rightarrow> 'w \<Rightarrow> ('w, ng_written) ng"
  q_write_aggregate :: "nat \<Rightarrow> nat \<Rightarrow> timestamp \<Rightarrow> 'w \<Rightarrow> ('w, ng_written \<times> nat) ng"
  q_get_expiry :: "'w \<Rightarrow> timestamp"
  q_handle_expiry :: "timestamp \<Rightarrow> 'w \<Rightarrow> ('w, ng_code) ng"
  q_open_bidi_stream :: "'w \<Rightarrow> (ng_code \<times> int) \<times> 'w"
  q_extend_max_stream_offset :: "int \<Rightarrow> nat \<Rightarrow> 'w \<Rightarrow> ng_code \<times> 'w"
  q_extend_max_offset :: "nat \<Rightarrow> 'w \<Rightarrow> 'w"
  q_update_pkt_tx_time :: "timestamp \<Rightarrow> 'w \<Rightarrow> 'w"
  q_arrivals :: "'w \<Rightarrow> span list \<times> 'w"
  q_juice :: "'w juice_env"

end
