(* ===== verification/Buffer_Pool.thy ===== *)
theory Buffer_Pool
  imports Prelude
begin

text \<open>
  Model of the class template \<open>BufferPool\<close> of \<open>native/datapath/Buffer.h\<close>: buffers are
  allocated in slabs that are never freed, free ones are chained through their
  \<open>next_\<close> pointer, and an acquired buffer belongs to the batch that links it into its
  own chain with the same pointer.

  The memory of a pool is the list of all its cells; the address of a buffer is its index,
  so a slab is a block of consecutive addresses and a grown pool keeps the old ones. The
  template parameters are arguments: \<open>'b\<close> is \<open>BufferType\<close> (the part of a
  buffer that is not the link), \<open>rst\<close> is its \<open>reset\<close>, \<open>newb\<close> its default
  constructed value, \<open>growCount\<close> is \<open>GrowCount\<close>. Every member holds the pool's
  mutex, so each definition is one atomic step. The diagnostics counters are modelled.
\<close>

section \<open>Cells and chains\<close>

record 'b cell =
  body :: 'b
  nxt :: "nat option"
  acquiredBefore :: bool

definition fresh_cell :: "'b \<Rightarrow> 'b cell" where
  "fresh_cell newb = \<lparr>body = newb, nxt = None, acquiredBefore = False\<rparr>"

definition cell_reset :: "('b \<Rightarrow> 'b) \<Rightarrow> 'b cell \<Rightarrow> 'b cell" where
  "cell_reset rst c = c\<lparr>body := rst (body c), nxt := None\<rparr>"

text \<open>\<open>chain m h as\<close>: following \<open>nxt\<close> from \<open>h\<close> visits \<open>as\<close> and then null.\<close>

fun chain :: "'b cell list \<Rightarrow> nat option \<Rightarrow> nat list \<Rightarrow> bool" where
  "chain m h [] \<longleftrightarrow> h = None"
| "chain m h (a # as) \<longleftrightarrow> h = Some a \<and> a < length m \<and> chain m (nxt (m ! a)) as"

lemma chain_bound: "chain m h as \<Longrightarrow> a \<in> set as \<Longrightarrow> a < length m"
  by (induction as arbitrary: h) auto

lemma chain_None [simp]: "chain m None as \<longleftrightarrow> as = []"
  by (cases as) auto

lemma chain_frame:
  "chain m h as \<Longrightarrow> length m \<le> length m' \<Longrightarrow> (\<And>a. a \<in> set as \<Longrightarrow> nxt (m' ! a) = nxt (m ! a)) \<Longrightarrow>
   chain m' h as"
  by (induction as arbitrary: h) auto

lemma chain_update:
  "a \<notin> set as \<Longrightarrow> chain (m[a := c]) h as \<longleftrightarrow> chain m h as"
  by (induction as arbitrary: h) (auto simp: nth_list_update_neq)

lemma chain_grow: "chain m h as \<Longrightarrow> chain (m @ m') h as"
  by (rule chain_frame) (auto dest: chain_bound simp: nth_append)

lemma chain_append_link:
  assumes "chain m h as" and "as \<noteq> []" and "distinct as"
    and "chain m (Some b) bs" and "last as \<notin> set bs"
  shows "chain (m[last as := (m ! last as)\<lparr>nxt := Some b\<rparr>]) h (as @ bs)"
  using assms
proof (induction as arbitrary: h)
  case (Cons a as)
  show ?case
  proof (cases "as = []")
    case True
    then show ?thesis using Cons.prems by (auto simp: chain_update)
  next
    case False
    have "chain (m[last as := (m ! last as)\<lparr>nxt := Some b\<rparr>]) (nxt (m ! a)) (as @ bs)"
      using Cons.prems False by (intro Cons.IH) auto
    moreover have "last as \<noteq> a" using Cons.prems(3) False by auto
    ultimately show ?thesis using Cons.prems(1) False by (simp add: nth_list_update_neq)
  qed
qed simp

section \<open>The pool\<close>

record 'b pool =
  mem :: "'b cell list"
  slabs :: "nat list"
  freeHead :: "nat option"
  slabsAllocated :: u64
  buffersAllocated :: u64
  acquireCount :: u64
  reuseCount :: u64
  dynamicGrowths :: u64
  freeBuffers :: u64

definition set_cell :: "nat \<Rightarrow> 'b cell \<Rightarrow> 'b pool \<Rightarrow> 'b pool" where
  "set_cell a c p = p\<lparr>mem := (mem p)[a := c]\<rparr>"

text \<open>The loop body of \<open>grow\<close>: \<open>buffer->next_ = freeHead_; freeHead_ = buffer\<close>.\<close>

definition link_free :: "nat \<Rightarrow> 'b pool \<Rightarrow> 'b pool" where
  "link_free a p = (set_cell a ((mem p ! a)\<lparr>nxt := freeHead p\<rparr>) p)\<lparr>freeHead := Some a\<rparr>"

definition pool_grow :: "'b \<Rightarrow> nat \<Rightarrow> bool \<Rightarrow> 'b pool \<Rightarrow> 'b pool" where
  "pool_grow newb count dynamicGrowth p =
     (let base = length (mem p);
          p1 = p\<lparr>mem := mem p @ replicate count (fresh_cell newb)\<rparr>;
          p2 = fold link_free [base..<base + count] p1
      in p2\<lparr>slabs := slabs p2 @ [count],
            slabsAllocated := slabsAllocated p2 + 1,
            buffersAllocated := buffersAllocated p2 + of_nat count,
            freeBuffers := freeBuffers p2 + of_nat count,
            dynamicGrowths := (if dynamicGrowth then dynamicGrowths p2 + 1 else dynamicGrowths p2)\<rparr>)"

definition pool_new :: "'b \<Rightarrow> nat \<Rightarrow> 'b pool" where
  "pool_new newb initialCount = pool_grow newb initialCount False
     \<lparr>mem = [], slabs = [], freeHead = None, slabsAllocated = 0, buffersAllocated = 0,
      acquireCount = 0, reuseCount = 0, dynamicGrowths = 0, freeBuffers = 0\<rparr>"

text \<open>\<open>acquire\<close>. A null or dangling free head would be dereferenced: \<open>Undefined\<close>.\<close>

definition pool_acquire :: "('b \<Rightarrow> 'b) \<Rightarrow> 'b \<Rightarrow> nat \<Rightarrow> ('b pool, nat) act" where
  "pool_acquire rst newb growCount p =
     (let p1 = (if freeHead p = None then pool_grow newb growCount True p else p) in
      case freeHead p1 of
        None \<Rightarrow> (Inl Undefined, p1)
      | Some a \<Rightarrow>
          if \<not> a < length (mem p1) then (Inl Undefined, p1)
          else
            (let c = mem p1 ! a;
                 p2 = (set_cell a (cell_reset rst c) p1)\<lparr>freeHead := nxt c\<rparr>;
                 p3 = p2\<lparr>freeBuffers := freeBuffers p2 - 1, acquireCount := acquireCount p2 + 1\<rparr>
             in if acquiredBefore c
                then (Inr a, p3\<lparr>reuseCount := reuseCount p3 + 1\<rparr>)
                else (Inr a, set_cell a ((mem p3 ! a)\<lparr>acquiredBefore := True\<rparr>) p3)))"

text \<open>The statements \<open>release\<close> and the loop of \<open>releaseChain\<close> share.\<close>

definition pool_put :: "('b \<Rightarrow> 'b) \<Rightarrow> nat \<Rightarrow> 'b pool \<Rightarrow> 'b pool" where
  "pool_put rst a p =
     (let p1 = link_free a (set_cell a (cell_reset rst (mem p ! a)) p)
      in p1\<lparr>freeBuffers := freeBuffers p1 + 1\<rparr>)"

definition pool_release :: "('b \<Rightarrow> 'b) \<Rightarrow> nat option \<Rightarrow> ('b pool, unit) act" where
  "pool_release rst buffer p =
     (case buffer of
        None \<Rightarrow> (Inr (), p)
      | Some a \<Rightarrow> if a < length (mem p) then (Inr (), pool_put rst a p) else (Inl Undefined, p))"

text \<open>\<open>releaseChain\<close> follows the links until null: on a cyclic chain it would not return,
  so its value is an option, \<open>None\<close> for a loop that never ends.\<close>

partial_function (option) pool_releaseChain ::
    "('b \<Rightarrow> 'b) \<Rightarrow> nat option \<Rightarrow> 'b pool \<Rightarrow> ((exn + unit) \<times> 'b pool) option" where
  "pool_releaseChain rst buffer p =
     (case buffer of
        None \<Rightarrow> Some (Inr (), p)
      | Some a \<Rightarrow>
          if a < length (mem p)
          then pool_releaseChain rst (nxt (mem p ! a)) (pool_put rst a p)
          else Some (Inl Undefined, p))"

section \<open>The invariant of a pool\<close>

text \<open>\<open>fl\<close> is the free list from its head. \<open>good\<close> is what holds of every buffer of the
  pool, \<open>clean\<close> of a buffer nobody has written to since its reset.\<close>

definition pool_inv :: "('b \<Rightarrow> bool) \<Rightarrow> ('b \<Rightarrow> bool) \<Rightarrow> 'b pool \<Rightarrow> nat list \<Rightarrow> bool" where
  "pool_inv good clean p fl \<longleftrightarrow>
     chain (mem p) (freeHead p) fl \<and> distinct fl \<and>
     (\<forall>a \<in> set fl. clean (body (mem p ! a))) \<and>
     (\<forall>a < length (mem p). good (body (mem p ! a))) \<and>
     freeBuffers p = of_nat (length fl) \<and>
     buffersAllocated p = of_nat (length (mem p)) \<and>
     slabsAllocated p = of_nat (length (slabs p)) \<and>
     sum_list (slabs p) = length (mem p)"

lemma pool_inv_bound: "pool_inv good clean p fl \<Longrightarrow> a \<in> set fl \<Longrightarrow> a < length (mem p)"
  by (auto simp: pool_inv_def dest: chain_bound)

lemma set_cell_sel [simp]:
  "mem (set_cell a c p) = (mem p)[a := c]" "slabs (set_cell a c p) = slabs p"
  "freeHead (set_cell a c p) = freeHead p"
  "slabsAllocated (set_cell a c p) = slabsAllocated p"
  "buffersAllocated (set_cell a c p) = buffersAllocated p"
  "acquireCount (set_cell a c p) = acquireCount p"
  "reuseCount (set_cell a c p) = reuseCount p"
  "dynamicGrowths (set_cell a c p) = dynamicGrowths p"
  "freeBuffers (set_cell a c p) = freeBuffers p"
  by (simp_all add: set_cell_def)

lemma pool_inv_set_cell:
  "pool_inv good clean p fl \<Longrightarrow> a \<notin> set fl \<Longrightarrow> a < length (mem p) \<Longrightarrow> good (body c) \<Longrightarrow>
     pool_inv good clean (set_cell a c p) fl"
  unfolding pool_inv_def
  by (intro conjI ballI allI impI)
    (auto simp: chain_update nth_list_update_neq nth_list_update)

lemma link_free_sel [simp]:
  "mem (link_free a p) = (mem p)[a := (mem p ! a)\<lparr>nxt := freeHead p\<rparr>]"
  "freeHead (link_free a p) = Some a" "slabs (link_free a p) = slabs p"
  "slabsAllocated (link_free a p) = slabsAllocated p"
  "buffersAllocated (link_free a p) = buffersAllocated p"
  "acquireCount (link_free a p) = acquireCount p"
  "reuseCount (link_free a p) = reuseCount p"
  "dynamicGrowths (link_free a p) = dynamicGrowths p"
  "freeBuffers (link_free a p) = freeBuffers p"
  by (simp_all add: link_free_def)

lemma fold_link_free_sel:
  "slabs (fold link_free xs p) = slabs p \<and>
   slabsAllocated (fold link_free xs p) = slabsAllocated p \<and>
   buffersAllocated (fold link_free xs p) = buffersAllocated p \<and>
   acquireCount (fold link_free xs p) = acquireCount p \<and>
   reuseCount (fold link_free xs p) = reuseCount p \<and>
   dynamicGrowths (fold link_free xs p) = dynamicGrowths p \<and>
   freeBuffers (fold link_free xs p) = freeBuffers p \<and>
   length (mem (fold link_free xs p)) = length (mem p)"
  by (induction xs arbitrary: p) simp_all

lemma fold_link_free_body:
  "body (mem (fold link_free xs p) ! a) = body (mem p ! a)"
proof (induction xs arbitrary: p)
  case (Cons x xs)
  have "body (mem (link_free x p) ! a) = body (mem p ! a)"
    by (cases "a = x \<and> x < length (mem p)") (auto simp: nth_list_update list_update_beyond not_less)
  then show ?case by (simp add: Cons.IH del: link_free_sel)
qed simp

lemma fold_link_free_frame:
  "a \<notin> set xs \<Longrightarrow> mem (fold link_free xs p) ! a = mem p ! a"
  by (induction xs arbitrary: p) auto

lemma fold_link_free_chain:
  "chain (mem p) (freeHead p) fl \<Longrightarrow> distinct (xs @ fl) \<Longrightarrow> (\<forall>a \<in> set xs. a < length (mem p)) \<Longrightarrow>
   chain (mem (fold link_free xs p)) (freeHead (fold link_free xs p)) (rev xs @ fl)"
proof (induction xs arbitrary: p fl)
  case (Cons x xs)
  have "chain (mem (link_free x p)) (freeHead (link_free x p)) (x # fl)"
    using Cons.prems by (simp add: chain_update)
  with Cons.IH [of "link_free x p" "x # fl"] Cons.prems show ?case by simp
qed simp

text \<open>What a successful \<open>acquire\<close> promises: the buffer is clean, good and unlinked, and no
  other cell changes.\<close>

definition buffer_acquired ::
  "('b \<Rightarrow> bool) \<Rightarrow> ('b \<Rightarrow> bool) \<Rightarrow> 'b pool \<Rightarrow> nat list \<Rightarrow> nat \<Rightarrow> 'b pool \<Rightarrow> nat list \<Rightarrow> bool" where
  "buffer_acquired good clean p fl a p' fl' \<longleftrightarrow>
     pool_inv good clean p' fl' \<and> a < length (mem p') \<and> a \<notin> set fl' \<and>
     nxt (mem p' ! a) = None \<and> clean (body (mem p' ! a)) \<and>
     length (mem p) \<le> length (mem p') \<and>
     insert a (set fl') = set fl \<union> {length (mem p)..<length (mem p')} \<and>
     (\<forall>x < length (mem p). x \<noteq> a \<longrightarrow> mem p' ! x = mem p ! x)"

lemma buffer_acquired_range:
  assumes "buffer_acquired good clean p fl a p' fl'"
  shows "a \<in> set fl \<or> length (mem p) \<le> a"
    and "x \<in> set fl' \<Longrightarrow> x \<in> set fl \<or> length (mem p) \<le> x"
proof -
  have eq: "insert a (set fl') = set fl \<union> {length (mem p)..<length (mem p')}"
    using assms by (simp add: buffer_acquired_def)
  have "a \<in> insert a (set fl')" by simp
  then show "a \<in> set fl \<or> length (mem p) \<le> a" unfolding eq by auto
  assume "x \<in> set fl'"
  then have "x \<in> insert a (set fl')" by simp
  then show "x \<in> set fl \<or> length (mem p) \<le> x" unfolding eq by auto
qed

section \<open>The contract of a pooled buffer type\<close>

text \<open>What \<open>BufferPool\<close> relies on of its \<open>BufferType\<close>: a default constructed
  buffer and a reset buffer are clean, and reset keeps what holds of every buffer. The two
  instantiations of the template in the code interpret this locale.\<close>

locale pooled_buffer =
  fixes rst :: "'b \<Rightarrow> 'b"
    and newb :: 'b
    and growCount :: nat
    and good :: "'b \<Rightarrow> bool"
    and clean :: "'b \<Rightarrow> bool"
  assumes good_new: "good newb"
    and clean_new: "clean newb"
    and good_reset: "good b \<Longrightarrow> good (rst b)"
    and clean_reset: "good b \<Longrightarrow> clean (rst b)"
    and grow_pos: "0 < growCount"
begin

lemma grow_mem:
  "mem (pool_grow newb n d p) =
     mem (fold link_free [length (mem p)..<length (mem p) + n]
       (p\<lparr>mem := mem p @ replicate n (fresh_cell newb)\<rparr>))"
  by (simp add: pool_grow_def Let_def)

lemma grow_head:
  "freeHead (pool_grow newb n d p) =
     freeHead (fold link_free [length (mem p)..<length (mem p) + n]
       (p\<lparr>mem := mem p @ replicate n (fresh_cell newb)\<rparr>))"
  by (simp add: pool_grow_def Let_def)

lemma grow_length [simp]: "length (mem (pool_grow newb n d p)) = length (mem p) + n"
  by (simp add: grow_mem fold_link_free_sel)

lemma grow_old: "a < length (mem p) \<Longrightarrow> mem (pool_grow newb n d p) ! a = mem p ! a"
  by (simp add: grow_mem fold_link_free_frame nth_append)

lemma grow_new_body:
  "length (mem p) \<le> a \<Longrightarrow> a < length (mem p) + n \<Longrightarrow> body (mem (pool_grow newb n d p) ! a) = newb"
  by (simp add: grow_mem fold_link_free_body nth_append fresh_cell_def)

lemma grow_inv:
  assumes "pool_inv good clean p fl"
  shows "pool_inv good clean (pool_grow newb n d p) (rev [length (mem p)..<length (mem p) + n] @ fl)"
proof -
  let ?xs = "[length (mem p)..<length (mem p) + n]"
  have bound: "\<forall>a \<in> set fl. a < length (mem p)"
    using assms pool_inv_bound by blast
  then have dist: "distinct (?xs @ fl)"
    using assms by (fastforce simp: pool_inv_def)
  have "chain (mem (pool_grow newb n d p)) (freeHead (pool_grow newb n d p)) (rev ?xs @ fl)"
    unfolding grow_mem grow_head
    by (rule fold_link_free_chain) (use assms dist in \<open>auto simp: pool_inv_def chain_grow\<close>)
  moreover have "\<forall>a < length (mem p) + n. good (body (mem (pool_grow newb n d p) ! a))"
    using assms good_new grow_old grow_new_body by (metis pool_inv_def not_le)
  moreover have "\<forall>a \<in> set (rev ?xs @ fl). clean (body (mem (pool_grow newb n d p) ! a))"
    using assms clean_new bound by (auto simp: pool_inv_def grow_old grow_new_body)
  ultimately show ?thesis
    using assms dist
    by (simp add: pool_inv_def pool_grow_def Let_def fold_link_free_sel ac_simps)
qed

lemma new_inv:
  "\<exists>fl. pool_inv good clean (pool_new newb n) fl \<and> set fl = {..<length (mem (pool_new newb n))}"
proof -
  have "pool_inv good clean \<lparr>mem = [], slabs = [], freeHead = None, slabsAllocated = 0,
      buffersAllocated = 0, acquireCount = 0, reuseCount = 0, dynamicGrowths = 0, freeBuffers = 0\<rparr> []"
    by (simp add: pool_inv_def)
  from grow_inv [OF this, of n False]
  have "pool_inv good clean (pool_new newb n) (rev [0..<n])"
    by (simp add: pool_new_def)
  moreover have "length (mem (pool_new newb n)) = n"
    by (simp add: pool_new_def)
  ultimately show ?thesis by (intro exI [of _ "rev [0..<n]"]) auto
qed

lemma acquire_head:
  assumes inv: "pool_inv good clean p (a # fl)" and ne: "freeHead p \<noteq> None"
  shows "\<exists>p'. pool_acquire rst newb growCount p = (Inr a, p') \<and> buffer_acquired good clean p (a # fl) a p' fl"
proof -
  have head: "freeHead p = Some a" and a: "a < length (mem p)"
    and rest: "chain (mem p) (nxt (mem p ! a)) fl" and nin: "a \<notin> set fl" and d: "distinct fl"
    using inv by (auto simp: pool_inv_def)
  have good: "good (rst (body (mem p ! a)))" and clean: "clean (rst (body (mem p ! a)))"
    using inv a good_reset clean_reset by (auto simp: pool_inv_def)
  show ?thesis
    using inv head a rest nin d good clean
    by (auto simp: pool_acquire_def Let_def buffer_acquired_def pool_inv_def chain_update cell_reset_def
        nth_list_update)
qed

theorem acquire_spec:
  assumes inv: "pool_inv good clean p fl"
  shows "\<exists>a p' fl'. pool_acquire rst newb growCount p = (Inr a, p') \<and> buffer_acquired good clean p fl a p' fl'"
proof (cases fl)
  case (Cons a fl')
  with inv have "freeHead p \<noteq> None" by (auto simp: pool_inv_def)
  with acquire_head [OF inv [unfolded Cons]] Cons show ?thesis by blast
next
  case Nil
  let ?g = "pool_grow newb growCount True p"
  let ?new = "rev [length (mem p)..<length (mem p) + growCount]"
  have ginv: "pool_inv good clean ?g ?new"
    using grow_inv [OF inv, of growCount True] Nil by simp
  obtain m where m: "growCount = Suc m" using grow_pos by (cases growCount) auto
  then have new: "?new = (length (mem p) + m) # rev [length (mem p)..<length (mem p) + m]"
    by simp
  have ne: "freeHead ?g \<noteq> None"
    using ginv unfolding new by (auto simp: pool_inv_def)
  obtain p' where p': "pool_acquire rst newb growCount ?g = (Inr (length (mem p) + m), p')"
    and acq: "buffer_acquired good clean ?g ?new (length (mem p) + m) p' (rev [length (mem p)..<length (mem p) + m])"
    using acquire_head [OF ginv [unfolded new] ne] new by auto
  have "freeHead p = None" using inv Nil by (simp add: pool_inv_def)
  then have "pool_acquire rst newb growCount p = pool_acquire rst newb growCount ?g"
    using ne by (clarsimp simp: pool_acquire_def [of rst newb growCount p]
        pool_acquire_def [of rst newb growCount ?g])
  moreover have "buffer_acquired good clean p fl (length (mem p) + m) p' (rev [length (mem p)..<length (mem p) + m])"
    using acq m Nil by (auto simp: buffer_acquired_def grow_old)
  ultimately show ?thesis using p' by auto
qed

lemma put_inv:
  assumes inv: "pool_inv good clean p fl" and a: "a < length (mem p)" "a \<notin> set fl"
  shows "pool_inv good clean (pool_put rst a p) (a # fl)"
proof -
  have "good (rst (body (mem p ! a)))" and "clean (rst (body (mem p ! a)))"
    using inv a good_reset clean_reset by (auto simp: pool_inv_def)
  then show ?thesis
    using inv a by (auto simp: pool_put_def Let_def pool_inv_def chain_update cell_reset_def
        nth_list_update)
qed

lemma put_frame: "x \<noteq> a \<Longrightarrow> mem (pool_put rst a p) ! x = mem p ! x"
  by (simp add: pool_put_def Let_def)

lemma put_length [simp]: "length (mem (pool_put rst a p)) = length (mem p)"
  by (simp add: pool_put_def Let_def)

text \<open>A chain that is disjoint from the free list is released in full, and the loop ends.\<close>

theorem releaseChain_spec:
  assumes "pool_inv good clean p fl" and "chain (mem p) h as" and "distinct (as @ fl)"
  shows "\<exists>p'. pool_releaseChain rst h p = Some (Inr (), p') \<and>
    pool_inv good clean p' (rev as @ fl) \<and> length (mem p') = length (mem p) \<and>
    (\<forall>x. x \<notin> set as \<longrightarrow> mem p' ! x = mem p ! x)"
  using assms
proof (induction as arbitrary: h p fl)
  case Nil
  then show ?case by (simp add: pool_releaseChain.simps)
next
  case (Cons a as)
  let ?p = "pool_put rst a p"
  have h: "h = Some a" "a < length (mem p)" and ch: "chain (mem p) (nxt (mem p ! a)) as"
    and na: "a \<notin> set as" "a \<notin> set fl"
    using Cons.prems by auto
  have "pool_inv good clean ?p (a # fl)"
    using put_inv [OF Cons.prems(1) h(2) na(2)] .
  moreover have "chain (mem ?p) (nxt (mem p ! a)) as"
    using ch by (rule chain_frame) (use na in \<open>auto intro!: arg_cong [where f = nxt] put_frame\<close>)
  ultimately obtain p' where "pool_releaseChain rst (nxt (mem p ! a)) ?p = Some (Inr (), p')"
    and "pool_inv good clean p' (rev as @ a # fl)" and "length (mem p') = length (mem ?p)"
    and "\<forall>x. x \<notin> set as \<longrightarrow> mem p' ! x = mem ?p ! x"
    using Cons.IH [of ?p "a # fl" "nxt (mem p ! a)"] Cons.prems(3) by auto
  then show ?case
    using h by (auto simp: pool_releaseChain.simps [of rst "Some a"] put_frame)
qed

end

end
