(* ===== verification/Buffer_Batch.thy ===== *)
theory Buffer_Batch
  imports Buffer_Pool
begin

text \<open>
  What \<open>ReceiveBatch\<close> and \<open>StreamReceiveBatch\<close> of
  \<open>native/datapath/Buffer.{h,cpp}\<close> share: a batch is a chain of buffers of one pool with a
  head, a tail and two counters. The two classes have the same five fields; the item counter
  is \<open>packetCount_\<close> in the first and \<open>byteCount_\<close> in the second. A pool pointer is the
  number of the pool, so that batches of different pools can be told apart.
\<close>

section \<open>The fields and the operations that only touch the chain\<close>

record batch =
  pool_id :: "nat option"
  head :: "nat option"
  tail :: "nat option"
  itemCount :: nat
  bufferCount :: nat

definition batch_new :: "nat \<Rightarrow> batch" where
  "batch_new pid = \<lparr>pool_id = Some pid, head = None, tail = None, itemCount = 0, bufferCount = 0\<rparr>"

definition batch_empty :: "batch \<Rightarrow> bool" where
  "batch_empty b \<longleftrightarrow> itemCount b = 0"

definition batch_size :: "batch \<Rightarrow> nat" where
  "batch_size b = itemCount b"

definition batch_getBufferCount :: "batch \<Rightarrow> nat" where
  "batch_getBufferCount b = bufferCount b"

definition batch_swap :: "string \<Rightarrow> (batch \<times> batch, unit) act" where
  "batch_swap msg = (\<lambda>(b, c).
     if pool_id b \<noteq> pool_id c then (Inl (LogicError msg), (b, c))
     else (Inr (),
       (b\<lparr>head := head c, tail := tail c, itemCount := itemCount c, bufferCount := bufferCount c\<rparr>,
        c\<lparr>head := head b, tail := tail b, itemCount := itemCount b, bufferCount := bufferCount b\<rparr>)))"

text \<open>\<open>std::move\<close> of a batch: the new object takes the chain, the old one is empty.\<close>

definition batch_clear :: "batch \<Rightarrow> batch" where
  "batch_clear b = b\<lparr>head := None, tail := None, itemCount := 0, bufferCount := 0\<rparr>"

definition batch_move :: "batch \<Rightarrow> batch \<times> batch" where
  "batch_move other = (other, batch_clear other)"

text \<open>The destructor gives the chain back to the pool.\<close>

definition batch_destroy ::
  "('b \<Rightarrow> 'b) \<Rightarrow> batch \<Rightarrow> 'b pool \<Rightarrow> ((exn + unit) \<times> 'b pool) option" where
  "batch_destroy rst b p =
     (if pool_id b \<noteq> None \<and> head b \<noteq> None then pool_releaseChain rst (head b) p
      else Some (Inr (), p))"

text \<open>The block both \<open>append\<close> functions run when the tail has no room: acquire a buffer
  and link it behind the tail.\<close>

definition batch_extend :: "('b \<Rightarrow> 'b) \<Rightarrow> 'b \<Rightarrow> nat \<Rightarrow> (batch \<times> 'b pool, nat) act" where
  "batch_extend rst newb growCount = (\<lambda>(b, p).
     case pool_acquire rst newb growCount p of
       (Inl e, p1) \<Rightarrow> (Inl e, (b, p1))
     | (Inr a, p1) \<Rightarrow>
         (case head b of
            None \<Rightarrow> (Inr a, (b\<lparr>head := Some a, tail := Some a, bufferCount := bufferCount b + 1\<rparr>, p1))
          | Some _ \<Rightarrow>
              (case tail b of
                 None \<Rightarrow> (Inl Undefined, (b, p1))
               | Some t \<Rightarrow>
                   if \<not> t < length (mem p1) then (Inl Undefined, (b, p1))
                   else (Inr a, (b\<lparr>tail := Some a, bufferCount := bufferCount b + 1\<rparr>,
                                 set_cell t ((mem p1 ! t)\<lparr>nxt := Some a\<rparr>) p1)))))"

section \<open>Ownership\<close>

text \<open>The batch owns the buffers \<open>as\<close>: they are its chain, all different, and none of them
  is in the free list of the pool.\<close>

definition batch_owns :: "'b pool \<Rightarrow> nat list \<Rightarrow> batch \<Rightarrow> nat list \<Rightarrow> bool" where
  "batch_owns p fl b as \<longleftrightarrow>
     chain (mem p) (head b) as \<and> distinct (as @ fl) \<and>
     tail b = (if as = [] then None else Some (last as)) \<and>
     bufferCount b = length as"

text \<open>What a step of one batch may do to the pool: the free list and the batch together hold
  what they held before and the buffers of new slabs, nothing else (no buffer is lost), and
  the buffers that neither held, those of every other batch, are unchanged.\<close>

definition untouched :: "'b pool \<Rightarrow> nat list \<Rightarrow> nat list \<Rightarrow> 'b pool \<Rightarrow> nat list \<Rightarrow> nat list \<Rightarrow> bool" where
  "untouched p fl as p' fl' as' \<longleftrightarrow>
     length (mem p) \<le> length (mem p') \<and>
     set fl' \<union> set as' = set fl \<union> set as \<union> {length (mem p)..<length (mem p')} \<and>
     (\<forall>x < length (mem p). x \<notin> set fl \<union> set as \<longrightarrow> mem p' ! x = mem p ! x)"

lemma untouched_refl: "untouched p fl as p fl as"
  by (auto simp: untouched_def)

lemma untouched_trans:
  assumes "untouched p fl as p1 fl1 as1" and "untouched p1 fl1 as1 p2 fl2 as2"
  shows "untouched p fl as p2 fl2 as2"
proof -
  have le: "length (mem p) \<le> length (mem p1)" "length (mem p1) \<le> length (mem p2)"
    and eq1: "set fl1 \<union> set as1 = set fl \<union> set as \<union> {length (mem p)..<length (mem p1)}"
    and eq2: "set fl2 \<union> set as2 = set fl1 \<union> set as1 \<union> {length (mem p1)..<length (mem p2)}"
    using assms by (simp_all add: untouched_def)
  have "{length (mem p)..<length (mem p1)} \<union> {length (mem p1)..<length (mem p2)} =
      {length (mem p)..<length (mem p2)}"
    using le by auto
  then have "set fl2 \<union> set as2 = set fl \<union> set as \<union> {length (mem p)..<length (mem p2)}"
    unfolding eq1 eq2 by auto
  moreover have "mem p2 ! x = mem p ! x" if x: "x < length (mem p)" "x \<notin> set fl \<union> set as" for x
  proof -
    have "x \<notin> set fl1 \<union> set as1" using x unfolding eq1 by auto
    then show ?thesis using assms x le(1) by (simp add: untouched_def)
  qed
  ultimately show ?thesis using le by (simp add: untouched_def)
qed

lemma batch_owns_new [simp]: "distinct fl \<Longrightarrow> batch_owns p fl (batch_new pid) []"
  by (simp add: batch_owns_def batch_new_def)

lemma batch_owns_clear: "distinct fl \<Longrightarrow> batch_owns p fl (batch_clear b) []"
  by (simp add: batch_owns_def batch_clear_def)

lemma batch_owns_bound: "batch_owns p fl b as \<Longrightarrow> a \<in> set as \<Longrightarrow> a < length (mem p)"
  by (auto simp: batch_owns_def dest: chain_bound)

lemma batch_owns_head: "batch_owns p fl b as \<Longrightarrow> head b = None \<longleftrightarrow> as = []"
  by (cases as) (auto simp: batch_owns_def)

lemma batch_owns_itemCount [simp]: "batch_owns p fl (b\<lparr>itemCount := n\<rparr>) as \<longleftrightarrow> batch_owns p fl b as"
  by (simp add: batch_owns_def)

text \<open>Writing into the body of an owned buffer keeps the links.\<close>

lemma nxt_set_body:
  "nxt (mem (set_cell a ((mem p ! a)\<lparr>body := x\<rparr>) p) ! y) = nxt (mem p ! y)"
  by (cases "y = a"; cases "a < length (mem p)") (simp_all add: list_update_beyond)

lemma chain_set_body:
  "chain (mem p) h as \<Longrightarrow> chain (mem (set_cell a ((mem p ! a)\<lparr>body := x\<rparr>) p)) h as"
  by (erule chain_frame) (simp_all only: nxt_set_body, simp)

lemma batch_owns_set_body:
  "batch_owns p fl b as \<Longrightarrow> batch_owns (set_cell a ((mem p ! a)\<lparr>body := x\<rparr>) p) fl b as"
  unfolding batch_owns_def by (simp only: chain_set_body)

text \<open>The other batches of a pool keep their buffers through a step of this one.\<close>

lemma untouched_owns:
  assumes "untouched p fl as p' fl' as'" and "batch_owns p fl c cs" and "set cs \<inter> set as = {}"
    and "distinct fl'"
  shows "batch_owns p' fl' c cs \<and> set cs \<inter> set as' = {} \<and>
    (\<forall>a \<in> set cs. mem p' ! a = mem p ! a)"
proof -
  have cs: "\<forall>a \<in> set cs. a < length (mem p) \<and> a \<notin> set fl \<union> set as"
    using assms(2,3) batch_owns_bound by (fastforce simp: batch_owns_def)
  then have eq: "\<forall>a \<in> set cs. mem p' ! a = mem p ! a"
    using assms(1) by (auto simp: untouched_def)
  have disj: "set cs \<inter> (set fl' \<union> set as') = {}"
    using assms(1) cs by (fastforce simp: untouched_def)
  have "chain (mem p') (head c) cs"
    by (rule chain_frame [of "mem p"]) (use assms eq in \<open>auto simp: batch_owns_def untouched_def\<close>)
  then show ?thesis
    using assms(2,4) eq disj by (auto simp: batch_owns_def)
qed

text \<open>Every buffer of a pool is free or in exactly one of its batches: nothing leaks and
  nothing is owned twice.\<close>

definition pool_partition :: "'b pool \<Rightarrow> nat list \<Rightarrow> nat list list \<Rightarrow> bool" where
  "pool_partition p fl owners \<longleftrightarrow>
     distinct (fl @ concat owners) \<and> set (fl @ concat owners) = {..<length (mem p)}"

lemma untouched_partition:
  assumes un: "untouched p fl as p' fl' as'" and part: "pool_partition p fl (as # others)"
    and d: "distinct (as' @ fl')"
  shows "pool_partition p' fl' (as' # others)"
proof -
  have eq: "set fl' \<union> set as' = set fl \<union> set as \<union> {length (mem p)..<length (mem p')}"
    and le: "length (mem p) \<le> length (mem p')"
    using un by (simp_all add: untouched_def)
  have all: "set fl \<union> set as \<union> set (concat others) = {..<length (mem p)}"
    and disj: "(set fl \<union> set as) \<inter> set (concat others) = {}" and d2: "distinct (concat others)"
    using part by (auto simp: pool_partition_def)
  have "set (concat others) \<subseteq> {..<length (mem p)}" using all by blast
  then have "set (concat others) \<inter> {length (mem p)..<length (mem p')} = {}" by auto
  then have "(set fl' \<union> set as') \<inter> set (concat others) = {}"
    unfolding eq using disj by blast
  moreover have "set fl' \<union> set as' \<union> set (concat others) =
      {..<length (mem p)} \<union> {length (mem p)..<length (mem p')}"
    unfolding eq using all by blast
  then have "set fl' \<union> set as' \<union> set (concat others) = {..<length (mem p')}"
    using le by auto
  ultimately show ?thesis
    using d d2 by (auto simp: pool_partition_def)
qed

context pooled_buffer
begin

lemma extend_spec:
  assumes inv: "pool_inv good clean p fl" and own: "batch_owns p fl b as"
  shows "\<exists>a b' p' fl'. batch_extend rst newb growCount (b, p) = (Inr a, (b', p')) \<and>
    pool_inv good clean p' fl' \<and> batch_owns p' fl' b' (as @ [a]) \<and>
    untouched p fl as p' fl' (as @ [a]) \<and> a < length (mem p') \<and> clean (body (mem p' ! a)) \<and>
    (\<forall>x \<in> set as. body (mem p' ! x) = body (mem p ! x)) \<and>
    pool_id b' = pool_id b \<and> itemCount b' = itemCount b"
proof -
  obtain a p1 fl' where acq: "pool_acquire rst newb growCount p = (Inr a, p1)"
    and A: "buffer_acquired good clean p fl a p1 fl'"
    using acquire_spec [OF inv] by blast
  have as: "\<forall>x \<in> set as. x < length (mem p) \<and> x \<notin> set fl"
    using own batch_owns_bound by (fastforce simp: batch_owns_def)
  then have na: "a \<notin> set as" using buffer_acquired_range(1) [OF A] by force
  have keep: "\<forall>x \<in> set as. mem p1 ! x = mem p ! x"
    using A as na by (auto simp: buffer_acquired_def)
  have inv1: "pool_inv good clean p1 fl'" and d1: "distinct fl'"
    using A by (auto simp: buffer_acquired_def pool_inv_def)
  have disj: "set as \<inter> set fl' = {}" "a \<notin> set fl'"
    using A as buffer_acquired_range(2) [OF A] by (fastforce simp: buffer_acquired_def)+
  show ?thesis
  proof (cases "as = []")
    case True
    then have "head b = None" using own batch_owns_head by blast
    then show ?thesis
      using acq A True own d1 disj buffer_acquired_range(1) [OF A]
      by (auto simp: batch_extend_def batch_owns_def buffer_acquired_def untouched_def
          intro!: exI [of _ fl'])
  next
    case False
    let ?t = "last as"
    let ?p' = "set_cell ?t ((mem p1 ! ?t)\<lparr>nxt := Some a\<rparr>) p1"
    have t: "?t \<in> set as" and tl: "tail b = Some ?t" and hd: "head b \<noteq> None"
      using own False batch_owns_head [OF own] by (auto simp: batch_owns_def)
    have t1: "?t < length (mem p1)" using as t A by (auto simp: buffer_acquired_def)
    have "chain (mem p1) (head b) as"
      by (rule chain_frame [of "mem p"]) (use own keep A in \<open>auto simp: batch_owns_def buffer_acquired_def\<close>)
    moreover have "chain (mem p1) (Some a) [a]" using A by (simp add: buffer_acquired_def)
    ultimately have ch: "chain (mem ?p') (head b) (as @ [a])"
      using chain_append_link [of "mem p1" "head b" as a "[a]"] False own na t
      by (metis batch_owns_def distinct_append empty_iff empty_set set_ConsD set_cell_sel(1))
    have inv': "pool_inv good clean ?p' fl'"
      by (rule pool_inv_set_cell [OF inv1]) (use inv1 disj(1) t t1 in \<open>auto simp: pool_inv_def\<close>)
    have "batch_extend rst newb growCount (b, p) =
        (Inr a, (b\<lparr>tail := Some a, bufferCount := bufferCount b + 1\<rparr>, ?p'))"
      using acq hd tl t1 by (auto simp: batch_extend_def)
    moreover have "batch_owns ?p' fl' (b\<lparr>tail := Some a, bufferCount := bufferCount b + 1\<rparr>) (as @ [a])"
      using ch own disj na d1 by (auto simp: batch_owns_def)
    moreover have "untouched p fl as ?p' fl' (as @ [a])"
      using A t t1 by (auto simp: untouched_def buffer_acquired_def nth_list_update)
    moreover have "body (mem ?p' ! x) = body (mem p ! x)" if "x \<in> set as" for x
      using that keep t1 by (simp add: nth_list_update)
    moreover have "mem ?p' ! a = mem p1 ! a"
      using na t t1 by (auto simp: nth_list_update)
    ultimately show ?thesis
      using inv' A by (auto simp: buffer_acquired_def)
  qed
qed

text \<open>Destroying a batch gives every buffer it owns back, in one pass that ends.\<close>

lemma destroy_spec:
  assumes "pool_inv good clean p fl" and "batch_owns p fl b as" and "pool_id b \<noteq> None"
  shows "\<exists>p'. batch_destroy rst b p = Some (Inr (), p') \<and>
    pool_inv good clean p' (rev as @ fl) \<and> untouched p fl as p' (rev as @ fl) []"
proof -
  obtain p' where "pool_releaseChain rst (head b) p = Some (Inr (), p')"
    and "pool_inv good clean p' (rev as @ fl)" "length (mem p') = length (mem p)"
    and "\<forall>x. x \<notin> set as \<longrightarrow> mem p' ! x = mem p ! x"
    using releaseChain_spec [of p fl "head b" as] assms(1,2) by (auto simp: batch_owns_def)
  then show ?thesis
    using assms(3) by (cases "head b = None")
      (auto simp: batch_destroy_def untouched_def pool_releaseChain.simps)
qed

end

end
