(* ===== verification/Receive_Batch.thy ===== *)
theory Receive_Batch
  imports Buffer_Batch
begin

text \<open>
  Model of \<open>ReceiveBuffer\<close> and \<open>ReceiveBatch\<close> of
  \<open>native/datapath/Buffer.{h,cpp}\<close>: datagrams are packed one behind the other into
  64 KiB buffers, at most 64 to a buffer, with 16-bit offsets and lengths; the worker reads
  them back in arrival order. The abstract value of a batch is the list of its datagrams.
\<close>

section \<open>ReceiveBuffer\<close>

definition kReceiveBufferPayloadSize :: nat where "kReceiveBufferPayloadSize = 64 * 1024"
definition kReceivePacketsPerBuffer :: nat where "kReceivePacketsPerBuffer = 64"
definition kInitialReceiveBufferCount :: nat where "kInitialReceiveBufferCount = 32"
definition kReceiveBufferGrowCount :: nat where "kReceiveBufferGrowCount = 16"
definition kUINT16_MAX :: nat where "kUINT16_MAX = 65535"

lemmas receive_constants =
  kReceiveBufferPayloadSize_def kReceivePacketsPerBuffer_def kInitialReceiveBufferCount_def
  kReceiveBufferGrowCount_def kUINT16_MAX_def

record receive_packet =
  offset :: u16
  plength :: u16

record receive_buffer =
  rb_payload :: bytes
  rb_packets :: "receive_packet list"
  rb_payloadSize :: nat
  rb_packetCount :: nat

definition receive_buffer_new :: receive_buffer where
  "receive_buffer_new =
     \<lparr>rb_payload = replicate kReceiveBufferPayloadSize 0,
      rb_packets = replicate kReceivePacketsPerBuffer \<lparr>offset = 0, plength = 0\<rparr>,
      rb_payloadSize = 0, rb_packetCount = 0\<rparr>"

definition rb_canAppend :: "nat \<Rightarrow> receive_buffer \<Rightarrow> bool" where
  "rb_canAppend sz b =
     (if sz > kUINT16_MAX \<or> sz > kReceiveBufferPayloadSize then False
      else if rb_packetCount b \<ge> kReceivePacketsPerBuffer then False
      else sz \<le> kReceiveBufferPayloadSize - rb_payloadSize b)"

definition rb_append :: "span \<Rightarrow> (receive_buffer, unit) act" where
  "rb_append data b =
     (if span_is_null data \<or> span_size data = 0
      then (Inl (InvalidArgument ''receive packet must contain data''), b)
      else if \<not> rb_canAppend (span_size data) b
      then (Inl (LengthError ''receive buffer has insufficient capacity''), b)
      else (Inr (), b\<lparr>
        rb_payload := memcpy_at (rb_payload b) (rb_payloadSize b) (span_bytes data),
        rb_packets := (rb_packets b)[rb_packetCount b :=
          \<lparr>offset = of_nat (rb_payloadSize b), plength = of_nat (span_size data)\<rparr>],
        rb_payloadSize := rb_payloadSize b + span_size data,
        rb_packetCount := rb_packetCount b + 1\<rparr>))"

text \<open>\<open>reset\<close>; the link it also clears belongs to the cell.\<close>

definition rb_reset :: "receive_buffer \<Rightarrow> receive_buffer" where
  "rb_reset b = b\<lparr>rb_payloadSize := 0, rb_packetCount := 0\<rparr>"

definition rb_getPacketCount :: "receive_buffer \<Rightarrow> nat" where
  "rb_getPacketCount b = rb_packetCount b"

definition rb_getPacket :: "nat \<Rightarrow> receive_buffer \<Rightarrow> exn + receive_packet" where
  "rb_getPacket index b =
     (if index \<ge> rb_packetCount b then Inl (OutOfRange ''receive packet index is out of range'')
      else Inr (rb_packets b ! index))"

text \<open>\<open>getPacketData\<close> is a pointer into the payload: everything from the packet's offset.\<close>

definition rb_getPacketData :: "receive_packet \<Rightarrow> receive_buffer \<Rightarrow> bytes" where
  "rb_getPacketData packet b = drop (unat (offset packet)) (rb_payload b)"

text \<open>The datagrams of a buffer: what a reader of \<open>length\<close> bytes at that pointer sees.\<close>

definition packet_bytes :: "receive_buffer \<Rightarrow> receive_packet \<Rightarrow> bytes" where
  "packet_bytes b packet = take (unat (plength packet)) (rb_getPacketData packet b)"

definition rb_contents :: "receive_buffer \<Rightarrow> bytes list" where
  "rb_contents b = map (packet_bytes b) (take (rb_packetCount b) (rb_packets b))"

section \<open>The invariant of a buffer\<close>

definition rb_good :: "receive_buffer \<Rightarrow> bool" where
  "rb_good b \<longleftrightarrow>
     length (rb_payload b) = kReceiveBufferPayloadSize \<and>
     length (rb_packets b) = kReceivePacketsPerBuffer \<and>
     rb_payloadSize b \<le> kReceiveBufferPayloadSize \<and>
     rb_packetCount b \<le> kReceivePacketsPerBuffer \<and>
     (\<forall>pk \<in> set (take (rb_packetCount b) (rb_packets b)).
        unat (offset pk) + unat (plength pk) \<le> rb_payloadSize b)"

definition rb_clean :: "receive_buffer \<Rightarrow> bool" where
  "rb_clean b \<longleftrightarrow> rb_payloadSize b = 0 \<and> rb_packetCount b = 0"

lemma rb_good_new: "rb_good receive_buffer_new"
  by (simp add: rb_good_def receive_buffer_new_def)

lemma rb_clean_new: "rb_clean receive_buffer_new"
  by (simp add: rb_clean_def receive_buffer_new_def)

lemma rb_good_reset: "rb_good b \<Longrightarrow> rb_good (rb_reset b)"
  by (simp add: rb_good_def rb_reset_def)

lemma rb_clean_reset: "rb_clean (rb_reset b)"
  by (simp add: rb_clean_def rb_reset_def)

lemma rb_contents_clean: "rb_clean b \<Longrightarrow> rb_contents b = []"
  by (simp add: rb_clean_def rb_contents_def)

lemma rb_canAppend_clean:
  "rb_clean b \<Longrightarrow> rb_canAppend n b \<longleftrightarrow> n \<le> kUINT16_MAX"
  by (auto simp: rb_clean_def rb_canAppend_def receive_constants)

text \<open>A successful append adds exactly the datagram, keeps the earlier ones, and stores offset
  and length without truncation.\<close>

lemma rb_append_ok:
  assumes good: "rb_good b" and can: "rb_canAppend (length bs) b" and ne: "bs \<noteq> []"
  shows "\<exists>b'. rb_append (Span bs) b = (Inr (), b') \<and> rb_good b' \<and>
    rb_contents b' = rb_contents b @ [bs] \<and>
    unat (offset (rb_packets b' ! rb_packetCount b)) = rb_payloadSize b \<and>
    unat (plength (rb_packets b' ! rb_packetCount b)) = length bs"
proof -
  let ?pk = "\<lparr>offset = of_nat (rb_payloadSize b), plength = of_nat (length bs)\<rparr> :: receive_packet"
  let ?ps = "(rb_packets b)[rb_packetCount b := ?pk]"
  let ?b' = "b\<lparr>rb_payload := memcpy_at (rb_payload b) (rb_payloadSize b) bs,
    rb_packets := ?ps, rb_payloadSize := rb_payloadSize b + length bs,
    rb_packetCount := rb_packetCount b + 1\<rparr>"
  have size: "length bs \<le> 65535" "rb_payloadSize b + length bs \<le> 65536"
    and cnt: "rb_packetCount b < 64"
    using can good by (auto simp: rb_canAppend_def rb_good_def receive_constants split: if_splits)
  then have "rb_payloadSize b < 65536" using ne by (cases bs) auto
  with size have off: "unat (offset ?pk) = rb_payloadSize b" and len: "unat (plength ?pk) = length bs"
    by (simp_all add: unat_of_nat_u16 del: unat_of_nat)
  have lens: "length (rb_payload b) = 65536" "length (rb_packets b) = 64"
    using good by (simp_all add: rb_good_def receive_constants)
  have tk: "take (rb_packetCount b + 1) ?ps = take (rb_packetCount b) (rb_packets b) @ [?pk]"
    using cnt lens by (simp add: take_Suc_conv_app_nth)
  have old: "packet_bytes ?b' pk = packet_bytes b pk"
    if "pk \<in> set (take (rb_packetCount b) (rb_packets b))" for pk
    using that good size lens
    by (simp add: packet_bytes_def rb_getPacketData_def rb_good_def memcpy_at_frame)
  have new: "packet_bytes ?b' ?pk = bs"
    using size lens off len
    by (simp add: packet_bytes_def rb_getPacketData_def memcpy_at_read del: unat_of_nat)
  have "rb_contents ?b' = rb_contents b @ [bs]"
    using tk old new by (simp add: rb_contents_def del: receive_packet.simps)
  moreover have "rb_good ?b'"
    using good size cnt lens tk off len
    by (auto simp: rb_good_def receive_constants simp del: unat_of_nat)
  moreover have "rb_append (Span bs) b = (Inr (), ?b')"
    using can ne by (simp add: rb_append_def)
  moreover have "rb_packets ?b' ! rb_packetCount b = ?pk"
    using cnt lens by simp
  ultimately show ?thesis using off len by metis
qed

text \<open>A datagram that fits is stored whole: afterwards the buffer holds the datagrams it held
  before and this one last, and the 16-bit offset and length fields of its descriptor are the
  true offset and length, never truncated.\<close>

theorem receive_buffer_append:
  assumes "rb_good b" and "rb_canAppend (length bs) b" and "bs \<noteq> []"
  shows "\<exists>b'. rb_append (Span bs) b = (Inr (), b') \<and> rb_good b' \<and>
    rb_contents b' = rb_contents b @ [bs] \<and>
    unat (offset (rb_packets b' ! rb_packetCount b)) = rb_payloadSize b \<and>
    unat (plength (rb_packets b' ! rb_packetCount b)) = length bs"
  using rb_append_ok [OF assms] .

theorem receive_buffer_append_witness:
  "\<exists>b'. rb_append (Span [1, 2, 3]) receive_buffer_new = (Inr (), b') \<and>
     rb_contents b' = [[1, 2, 3]]"
proof -
  have "rb_canAppend (length [1, 2, 3 :: byte]) receive_buffer_new"
    by (simp add: rb_canAppend_clean [OF rb_clean_new] kUINT16_MAX_def)
  from receive_buffer_append [OF rb_good_new this] show ?thesis
    by (auto simp: rb_contents_clean [OF rb_clean_new])
qed

interpretation rxbuf: pooled_buffer rb_reset receive_buffer_new kReceiveBufferGrowCount rb_good rb_clean
  by unfold_locales
    (simp_all add: rb_good_new rb_clean_new rb_good_reset rb_clean_reset receive_constants)

section \<open>ReceiveBatch\<close>

type_synonym receive_pool = "receive_buffer pool"

definition receive_pool_new :: receive_pool where
  "receive_pool_new = pool_new receive_buffer_new kInitialReceiveBufferCount"

text \<open>\<open>append\<close>: first the block that makes sure the tail has room, then the store.\<close>

definition receive_batch_tail :: "nat \<Rightarrow> (batch \<times> receive_pool, nat) act" where
  "receive_batch_tail sz = (\<lambda>(b, p).
     case tail b of
       None \<Rightarrow> batch_extend rb_reset receive_buffer_new kReceiveBufferGrowCount (b, p)
     | Some t \<Rightarrow>
         if \<not> t < length (mem p) then (Inl Undefined, (b, p))
         else if \<not> rb_canAppend sz (body (mem p ! t))
         then batch_extend rb_reset receive_buffer_new kReceiveBufferGrowCount (b, p)
         else (Inr t, (b, p)))"

definition receive_batch_append :: "span \<Rightarrow> (batch \<times> receive_pool, unit) act" where
  "receive_batch_append data = (\<lambda>(b, p).
     if pool_id b = None then (Inl (LogicError ''receive batch has no buffer pool''), (b, p))
     else case receive_batch_tail (span_size data) (b, p) of
            (Inl e, st) \<Rightarrow> (Inl e, st)
          | (Inr t, (b1, p1)) \<Rightarrow>
              (case rb_append data (body (mem p1 ! t)) of
                 (Inl e, _) \<Rightarrow> (Inl e, (b1, p1))
               | (Inr _, rb) \<Rightarrow>
                   (Inr (), (b1\<lparr>itemCount := itemCount b1 + 1\<rparr>,
                             set_cell t ((mem p1 ! t)\<lparr>body := rb\<rparr>) p1))))"

definition receive_batch_swap :: "(batch \<times> batch, unit) act" where
  "receive_batch_swap = batch_swap ''receive batches must share the same pool''"

text \<open>\<open>forEachPacket\<close>: the outer loop follows the links, the inner one runs over the
  packets of a buffer. The accumulator is what the callback has been given so far.\<close>

fun rb_deliver :: "receive_buffer \<Rightarrow> nat list \<Rightarrow> bytes list \<Rightarrow> exn + bytes list" where
  "rb_deliver b [] acc = Inr acc"
| "rb_deliver b (i # is) acc =
     (case rb_getPacket i b of
        Inl e \<Rightarrow> Inl e
      | Inr pk \<Rightarrow> rb_deliver b is (acc @ [take (unat (plength pk)) (rb_getPacketData pk b)]))"

partial_function (option) receive_batch_visit ::
    "receive_pool \<Rightarrow> nat option \<Rightarrow> bytes list \<Rightarrow> (exn + bytes list) option" where
  "receive_batch_visit p buffer acc =
     (case buffer of
        None \<Rightarrow> Some (Inr acc)
      | Some a \<Rightarrow>
          if a < length (mem p) then
            (case rb_deliver (body (mem p ! a)) [0..<rb_getPacketCount (body (mem p ! a))] acc of
               Inl e \<Rightarrow> Some (Inl e)
             | Inr acc' \<Rightarrow> receive_batch_visit p (nxt (mem p ! a)) acc')
          else Some (Inl Undefined))"

definition receive_batch_forEachPacket :: "batch \<Rightarrow> receive_pool \<Rightarrow> (exn + bytes list) option" where
  "receive_batch_forEachPacket b p = receive_batch_visit p (head b) []"

section \<open>The abstract value of a batch\<close>

definition receive_contents :: "receive_pool \<Rightarrow> nat list \<Rightarrow> bytes list" where
  "receive_contents p as = concat (map (\<lambda>a. rb_contents (body (mem p ! a))) as)"

text \<open>\<open>receive_rel p fl b as pks\<close>: in a well-formed pool with free list \<open>fl\<close> the batch
  owns the buffers \<open>as\<close> and holds the datagrams \<open>pks\<close>.\<close>

definition receive_rel ::
  "receive_pool \<Rightarrow> nat list \<Rightarrow> batch \<Rightarrow> nat list \<Rightarrow> bytes list \<Rightarrow> bool" where
  "receive_rel p fl b as pks \<longleftrightarrow>
     pool_inv rb_good rb_clean p fl \<and> batch_owns p fl b as \<and> pool_id b \<noteq> None \<and>
     receive_contents p as = pks \<and> itemCount b = length pks"

lemma receive_contents_cong:
  "(\<And>a. a \<in> set as \<Longrightarrow> body (mem p' ! a) = body (mem p ! a)) \<Longrightarrow>
     receive_contents p' as = receive_contents p as"
  unfolding receive_contents_def by (metis (mono_tags, lifting) map_eq_conv)

lemma receive_contents_append [simp]:
  "receive_contents p (as @ bs) = receive_contents p as @ receive_contents p bs"
  by (simp add: receive_contents_def)

lemma rb_deliver_ok:
  "(\<forall>i \<in> set is. i < rb_packetCount b) \<Longrightarrow>
     rb_deliver b is acc = Inr (acc @ map (\<lambda>i. packet_bytes b (rb_packets b ! i)) is)"
  by (induction "is" arbitrary: acc) (simp_all add: rb_getPacket_def packet_bytes_def)

lemma rb_deliver_all:
  assumes "rb_good b"
  shows "rb_deliver b [0..<rb_packetCount b] acc = Inr (acc @ rb_contents b)"
proof -
  have "map (\<lambda>i. packet_bytes b (rb_packets b ! i)) [0..<rb_packetCount b] = rb_contents b"
    using assms unfolding rb_contents_def rb_good_def
    by (intro nth_equalityI) auto
  then show ?thesis by (simp add: rb_deliver_ok)
qed

lemma receive_batch_visit_ok:
  assumes "chain (mem p) h as" and "\<forall>a < length (mem p). rb_good (body (mem p ! a))"
  shows "receive_batch_visit p h acc = Some (Inr (acc @ receive_contents p as))"
  using assms
proof (induction as arbitrary: h acc)
  case Nil
  then show ?case by (simp add: receive_batch_visit.simps receive_contents_def)
next
  case (Cons a as)
  then show ?case
    by (simp add: receive_batch_visit.simps [of p "Some a"] rb_deliver_all rb_getPacketCount_def
        receive_contents_def)
qed

text \<open>Storing a datagram in the tail buffer of a batch.\<close>

lemma receive_store:
  assumes rel: "receive_rel p fl b (as @ [t]) pks"
    and can: "rb_canAppend (length bs) (body (mem p ! t))" and ne: "bs \<noteq> []"
  shows "\<exists>rb. rb_append (Span bs) (body (mem p ! t)) = (Inr (), rb) \<and>
    receive_rel (set_cell t ((mem p ! t)\<lparr>body := rb\<rparr>) p) fl
      (b\<lparr>itemCount := itemCount b + 1\<rparr>) (as @ [t]) (pks @ [bs])"
proof -
  have t: "t < length (mem p)" and nt: "t \<notin> set fl" "t \<notin> set as"
    and inv: "pool_inv rb_good rb_clean p fl"
    using rel batch_owns_bound [of p fl b "as @ [t]" t] by (auto simp: receive_rel_def batch_owns_def)
  then have good: "rb_good (body (mem p ! t))" by (simp add: pool_inv_def)
  from rb_append_ok [OF good can ne] obtain rb
    where rb: "rb_append (Span bs) (body (mem p ! t)) = (Inr (), rb)" "rb_good rb"
      "rb_contents rb = rb_contents (body (mem p ! t)) @ [bs]" by blast
  let ?p = "set_cell t ((mem p ! t)\<lparr>body := rb\<rparr>) p"
  have "pool_inv rb_good rb_clean ?p fl"
    by (rule pool_inv_set_cell [OF inv nt(1) t]) (simp add: rb)
  moreover have "batch_owns ?p fl (b\<lparr>itemCount := itemCount b + 1\<rparr>) (as @ [t])"
    using rel batch_owns_set_body by (auto simp: receive_rel_def)
  moreover have "receive_contents ?p as = receive_contents p as"
    by (rule receive_contents_cong) (use nt t in \<open>auto simp: nth_list_update\<close>)
  ultimately show ?thesis
    using rel rb t by (auto simp: receive_rel_def receive_contents_def)
qed

lemma receive_batch_tail_spec:
  assumes rel: "receive_rel p fl b as pks"
  shows "\<exists>t b1 p1 fl1 as1. receive_batch_tail n (b, p) = (Inr t, (b1, p1)) \<and>
    receive_rel p1 fl1 b1 (as1 @ [t]) pks \<and> untouched p fl as p1 fl1 (as1 @ [t]) \<and>
    (n \<le> kUINT16_MAX \<longrightarrow> rb_canAppend n (body (mem p1 ! t)))"
proof (cases "as \<noteq> [] \<and> rb_canAppend n (body (mem p ! last as))")
  case True
  then obtain as1 t where as: "as = as1 @ [t]" by (metis append_butlast_last_id)
  then have "tail b = Some t" and "t < length (mem p)"
    using rel batch_owns_bound [of p fl b as t] by (auto simp: receive_rel_def batch_owns_def)
  then show ?thesis
    using True rel as untouched_refl [of p fl as] by (auto simp: receive_batch_tail_def)
next
  case False
  have inv: "pool_inv rb_good rb_clean p fl" and own: "batch_owns p fl b as"
    using rel by (simp_all add: receive_rel_def)
  obtain a b1 p1 fl1 where ext: "batch_extend rb_reset receive_buffer_new kReceiveBufferGrowCount (b, p)
      = (Inr a, (b1, p1))"
    and inv1: "pool_inv rb_good rb_clean p1 fl1" and own1: "batch_owns p1 fl1 b1 (as @ [a])"
    and un: "untouched p fl as p1 fl1 (as @ [a])"
    and cl: "rb_clean (body (mem p1 ! a))" and keep: "\<forall>x \<in> set as. body (mem p1 ! x) = body (mem p ! x)"
    and ids: "pool_id b1 = pool_id b" "itemCount b1 = itemCount b"
    using rxbuf.extend_spec [OF inv own] by blast
  have "receive_contents p1 as = receive_contents p as"
    by (rule receive_contents_cong) (use keep in auto)
  then have "receive_rel p1 fl1 b1 (as @ [a]) pks"
    using rel inv1 own1 ids rb_contents_clean [OF cl]
    by (auto simp: receive_rel_def receive_contents_def)
  moreover have "receive_batch_tail n (b, p) = (Inr a, (b1, p1))"
    using ext False own batch_owns_bound [OF own, of "last as"]
    by (auto simp: receive_batch_tail_def batch_owns_def)
  ultimately show ?thesis
    using un rb_canAppend_clean [OF cl] by blast
qed

section \<open>The datagram queue a batch implements\<close>

text \<open>The abstract operation: what \<open>append\<close> does to the list of datagrams.\<close>

definition packets_append :: "span \<Rightarrow> (bytes list, unit) act" where
  "packets_append data pks =
     (if span_is_null data \<or> span_size data = 0
      then (Inl (InvalidArgument ''receive packet must contain data''), pks)
      else if span_size data > kUINT16_MAX
      then (Inl (LengthError ''receive buffer has insufficient capacity''), pks)
      else (Inr (), pks @ [span_bytes data]))"

lemma rb_append_reject:
  "span_is_null data \<or> span_size data = 0 \<or> span_size data > kUINT16_MAX \<Longrightarrow>
     rb_append data rb = (fst (packets_append data pks), rb)"
  by (auto simp: rb_append_def packets_append_def rb_canAppend_def)

text \<open>C36. \<open>ReceiveBatch::append\<close> on a pool shared with other batches implements appending to
  a list of datagrams: it ends with the result of the abstract operation, the batch then
  holds exactly the abstract result, the pool stays well formed, and no buffer that neither
  the batch nor the free list holds is touched. This covers the null, empty and oversized
  datagram, a tail with room, a full tail, an empty batch and a pool that has to grow.\<close>

theorem receive_batch_append_refines:
  assumes "receive_rel p fl b as pks"
  shows "\<exists>b' p' fl' as'.
    receive_batch_append data (b, p) = (fst (packets_append data pks), (b', p')) \<and>
    receive_rel p' fl' b' as' (snd (packets_append data pks)) \<and> untouched p fl as p' fl' as'"
proof -
  obtain t b1 p1 fl1 as1 where ready: "receive_batch_tail (span_size data) (b, p) = (Inr t, (b1, p1))"
    and rel1: "receive_rel p1 fl1 b1 (as1 @ [t]) pks"
    and un: "untouched p fl as p1 fl1 (as1 @ [t])"
    and can: "span_size data \<le> kUINT16_MAX \<longrightarrow> rb_canAppend (span_size data) (body (mem p1 ! t))"
    using receive_batch_tail_spec [OF assms] by blast
  have pid: "pool_id b \<noteq> None" using assms by (simp add: receive_rel_def)
  show ?thesis
  proof (cases "span_is_null data \<or> span_size data = 0 \<or> span_size data > kUINT16_MAX")
    case True
    then have same: "snd (packets_append data pks) = pks"
      and err: "\<exists>e. fst (packets_append data pks) = Inl e"
      by (auto simp: packets_append_def)
    have "receive_batch_append data (b, p) = (fst (packets_append data pks), (b1, p1))"
      using ready pid err rb_append_reject [OF True, of "body (mem p1 ! t)" pks]
      by (auto simp: receive_batch_append_def)
    then show ?thesis using rel1 un same by metis
  next
    case False
    then obtain bs where bs: "data = Span bs" "bs \<noteq> []" "length bs \<le> kUINT16_MAX"
      by (cases data) auto
    then obtain rb where rb: "rb_append (Span bs) (body (mem p1 ! t)) = (Inr (), rb)"
      "receive_rel (set_cell t ((mem p1 ! t)\<lparr>body := rb\<rparr>) p1) fl1
        (b1\<lparr>itemCount := itemCount b1 + 1\<rparr>) (as1 @ [t]) (pks @ [bs])"
      using receive_store [OF rel1 _ bs(2)] can by auto
    have "untouched p1 fl1 (as1 @ [t]) (set_cell t ((mem p1 ! t)\<lparr>body := rb\<rparr>) p1) fl1 (as1 @ [t])"
      by (auto simp: untouched_def)
    with un have "untouched p fl as (set_cell t ((mem p1 ! t)\<lparr>body := rb\<rparr>) p1) fl1 (as1 @ [t])"
      by (rule untouched_trans)
    then show ?thesis
      using ready rb pid bs by (auto simp: receive_batch_append_def packets_append_def)
  qed
qed

lemma receive_rel_new:
  assumes "pool_inv rb_good rb_clean p fl"
  shows "receive_rel p fl (batch_new pid) [] []"
  using assms by (simp add: receive_rel_def receive_contents_def pool_inv_def)
    (simp add: batch_new_def)

theorem receive_batch_append_refines_witness:
  "\<exists>b' p'. receive_batch_append (Span [7, 8]) (batch_new 0, receive_pool_new) = (Inr (), (b', p')) \<and>
     (\<exists>fl as. receive_rel p' fl b' as [[7, 8]])"
proof -
  obtain fl where "pool_inv rb_good rb_clean receive_pool_new fl"
    using rxbuf.new_inv unfolding receive_pool_new_def by blast
  from receive_batch_append_refines [OF receive_rel_new [OF this], of "Span [7, 8]" 0] show ?thesis
    by (auto simp: packets_append_def kUINT16_MAX_def)
qed

text \<open>Reading a batch ends and hands the callback exactly the datagrams of the batch, whole,
  once each and in arrival order; no descriptor is out of range.\<close>

theorem receive_batch_forEachPacket_order:
  assumes "receive_rel p fl b as pks"
  shows "receive_batch_forEachPacket b p = Some (Inr pks)"
  using assms receive_batch_visit_ok [of p "head b" as "[]"]
  by (auto simp: receive_batch_forEachPacket_def receive_rel_def batch_owns_def pool_inv_def)

theorem receive_batch_forEachPacket_order_witness:
  "receive_batch_forEachPacket (batch_new 0) receive_pool_new = Some (Inr [])"
proof -
  obtain fl where "pool_inv rb_good rb_clean receive_pool_new fl"
    using rxbuf.new_inv unfolding receive_pool_new_def by blast
  then show ?thesis
    using receive_batch_forEachPacket_order [OF receive_rel_new] by blast
qed

end
