(* ===== verification/Stream_Batch.thy ===== *)
theory Stream_Batch
  imports Buffer_Batch
begin

text \<open>
  Model of \<open>StreamReceiveBuffer\<close> and \<open>StreamReceiveBatch\<close> of
  \<open>native/datapath/Buffer.{h,cpp}\<close>: received stream bytes are copied into a chain of
  64 KiB buffers, batches are moved and concatenated by relinking, and the application
  copies the bytes out in one piece. The abstract value of a batch is its byte string.
\<close>

section \<open>StreamReceiveBuffer\<close>

definition kStreamReceiveBufferPayloadSize :: nat where "kStreamReceiveBufferPayloadSize = 64 * 1024"
definition kInitialStreamReceiveBufferCount :: nat where "kInitialStreamReceiveBufferCount = 32"
definition kStreamReceiveBufferGrowCount :: nat where "kStreamReceiveBufferGrowCount = 16"

lemmas stream_constants =
  kStreamReceiveBufferPayloadSize_def kInitialStreamReceiveBufferCount_def
  kStreamReceiveBufferGrowCount_def

record stream_buffer =
  sb_payload :: bytes
  sb_payloadSize :: nat

definition stream_buffer_new :: stream_buffer where
  "stream_buffer_new =
     \<lparr>sb_payload = replicate kStreamReceiveBufferPayloadSize 0, sb_payloadSize = 0\<rparr>"

definition sb_getAvailable :: "stream_buffer \<Rightarrow> nat" where
  "sb_getAvailable b = kStreamReceiveBufferPayloadSize - sb_payloadSize b"

definition sb_size :: "stream_buffer \<Rightarrow> nat" where
  "sb_size b = sb_payloadSize b"

definition sb_data :: "stream_buffer \<Rightarrow> bytes" where
  "sb_data b = sb_payload b"

definition sb_append :: "span \<Rightarrow> stream_buffer \<Rightarrow> nat \<times> stream_buffer" where
  "sb_append data b =
     (if span_is_null data \<or> span_size data = 0 then (0, b)
      else
        let copied = min (span_size data) (sb_getAvailable b) in
        if copied = 0 then (0, b)
        else (copied, b\<lparr>
          sb_payload := memcpy_at (sb_payload b) (sb_payloadSize b) (take copied (span_bytes data)),
          sb_payloadSize := sb_payloadSize b + copied\<rparr>))"

definition sb_reset :: "stream_buffer \<Rightarrow> stream_buffer" where
  "sb_reset b = b\<lparr>sb_payloadSize := 0\<rparr>"

text \<open>The bytes a buffer holds.\<close>

definition sb_contents :: "stream_buffer \<Rightarrow> bytes" where
  "sb_contents b = take (sb_payloadSize b) (sb_payload b)"

definition sb_good :: "stream_buffer \<Rightarrow> bool" where
  "sb_good b \<longleftrightarrow>
     length (sb_payload b) = kStreamReceiveBufferPayloadSize \<and>
     sb_payloadSize b \<le> kStreamReceiveBufferPayloadSize"

definition sb_clean :: "stream_buffer \<Rightarrow> bool" where
  "sb_clean b \<longleftrightarrow> sb_payloadSize b = 0"

lemma sb_good_new: "sb_good stream_buffer_new"
  by (simp add: sb_good_def stream_buffer_new_def)

lemma sb_clean_new: "sb_clean stream_buffer_new"
  by (simp add: sb_clean_def stream_buffer_new_def)

lemma sb_good_reset: "sb_good b \<Longrightarrow> sb_good (sb_reset b)"
  by (simp add: sb_good_def sb_reset_def)

lemma sb_clean_reset: "sb_clean (sb_reset b)"
  by (simp add: sb_clean_def sb_reset_def)

lemma sb_contents_clean: "sb_clean b \<Longrightarrow> sb_contents b = []"
  by (simp add: sb_clean_def sb_contents_def)

lemma length_sb_contents: "sb_good b \<Longrightarrow> length (sb_contents b) = sb_size b"
  by (simp add: sb_good_def sb_contents_def sb_size_def)

lemma sb_available_clean: "sb_clean b \<Longrightarrow> 0 < sb_getAvailable b"
  by (simp add: sb_clean_def sb_getAvailable_def stream_constants)

text \<open>An append to a buffer with room makes progress and stores exactly the bytes it reports.\<close>

lemma sb_append_ok:
  assumes good: "sb_good b" and ne: "bs \<noteq> []" and room: "0 < sb_getAvailable b"
  shows "\<exists>n b'. sb_append (Span bs) b = (n, b') \<and> 0 < n \<and> n \<le> length bs \<and> sb_good b' \<and>
    sb_contents b' = sb_contents b @ take n bs"
proof -
  let ?n = "min (length bs) (sb_getAvailable b)"
  let ?b = "b\<lparr>sb_payload := memcpy_at (sb_payload b) (sb_payloadSize b) (take ?n bs),
    sb_payloadSize := sb_payloadSize b + ?n\<rparr>"
  have n: "0 < ?n" "?n \<le> length bs" using ne room by auto
  have fits: "sb_payloadSize b + length (take ?n bs) \<le> length (sb_payload b)"
    and len: "length (take ?n bs) = ?n"
    using good by (auto simp: sb_good_def sb_getAvailable_def)
  have nz: "?n \<noteq> 0" using n by linarith
  have "sb_append (Span bs) b = (?n, ?b)"
    by (simp add: sb_append_def Let_def nz ne)
  moreover have "sb_good ?b"
    using good fits len by (simp add: sb_good_def)
  moreover have "sb_contents ?b = sb_contents b @ take ?n bs"
    using memcpy_at_prefix [of "sb_payloadSize b" "sb_payload b" "take ?n bs"] fits len
    by (simp add: sb_contents_def)
  ultimately show ?thesis using n by blast
qed

interpretation stbuf: pooled_buffer sb_reset stream_buffer_new kStreamReceiveBufferGrowCount sb_good sb_clean
  by unfold_locales
    (simp_all add: sb_good_new sb_clean_new sb_good_reset sb_clean_reset stream_constants)

section \<open>StreamReceiveBatch\<close>

type_synonym stream_pool = "stream_buffer pool"

definition stream_pool_new :: stream_pool where
  "stream_pool_new = pool_new stream_buffer_new kInitialStreamReceiveBufferCount"

text \<open>The block that gives the loop a tail with room.\<close>

definition stream_batch_tail :: "(batch \<times> stream_pool, nat) act" where
  "stream_batch_tail = (\<lambda>(b, p).
     case tail b of
       None \<Rightarrow> batch_extend sb_reset stream_buffer_new kStreamReceiveBufferGrowCount (b, p)
     | Some t \<Rightarrow>
         if \<not> t < length (mem p) then (Inl Undefined, (b, p))
         else if sb_getAvailable (body (mem p ! t)) = 0
         then batch_extend sb_reset stream_buffer_new kStreamReceiveBufferGrowCount (b, p)
         else (Inr t, (b, p)))"

text \<open>The copying loop of \<open>append\<close>; \<open>rest\<close> is what lies behind \<open>bytes + offset\<close>.\<close>

function stream_batch_copy :: "bytes \<Rightarrow> (batch \<times> stream_pool, unit) act" where
  "stream_batch_copy rest st =
     (if rest = [] then (Inr (), st)
      else case stream_batch_tail st of
             (Inl e, st') \<Rightarrow> (Inl e, st')
           | (Inr t, (b1, p1)) \<Rightarrow>
               (let (copied, sb) = sb_append (Span rest) (body (mem p1 ! t)) in
                if copied = 0
                then (Inl (LogicError ''stream receive buffer made no progress''), (b1, p1))
                else stream_batch_copy (drop copied rest)
                       (b1\<lparr>itemCount := itemCount b1 + copied\<rparr>,
                        set_cell t ((mem p1 ! t)\<lparr>body := sb\<rparr>) p1)))"
  by pat_completeness auto
termination
  by (relation "measure (\<lambda>(rest, _). length rest)") auto

declare stream_batch_copy.simps [simp del]

definition stream_batch_append :: "span \<Rightarrow> (batch \<times> stream_pool, unit) act" where
  "stream_batch_append data = (\<lambda>(b, p).
     if pool_id b = None then (Inl (LogicError ''stream receive batch has no buffer pool''), (b, p))
     else if span_is_null data \<or> span_size data = 0 then (Inr (), (b, p))
     else stream_batch_copy (span_bytes data) (b, p))"

text \<open>\<open>appendBatch\<close>: the other batch's chain is linked behind the tail.\<close>

definition stream_batch_appendBatch :: "((batch \<times> batch) \<times> stream_pool, unit) act" where
  "stream_batch_appendBatch = (\<lambda>((b, other), p).
     if pool_id b \<noteq> pool_id other
     then (Inl (LogicError ''stream receive batches must share the same pool''), ((b, other), p))
     else case head other of
       None \<Rightarrow> (Inr (), ((b, other), p))
     | Some h \<Rightarrow>
         let linked =
           (case head b of
              None \<Rightarrow> (Inr (Some h), p)
            | Some _ \<Rightarrow>
                (case tail b of
                   None \<Rightarrow> (Inl Undefined, p)
                 | Some t \<Rightarrow>
                     if \<not> t < length (mem p) then (Inl Undefined, p)
                     else (Inr (head b), set_cell t ((mem p ! t)\<lparr>nxt := Some h\<rparr>) p)))
         in case linked of
              (Inl e, p1) \<Rightarrow> (Inl e, ((b, other), p1))
            | (Inr newHead, p1) \<Rightarrow>
                (Inr (), ((b\<lparr>head := newHead, tail := tail other,
                             itemCount := itemCount b + itemCount other,
                             bufferCount := bufferCount b + bufferCount other\<rparr>,
                           batch_clear other), p1)))"

definition stream_batch_swap :: "(batch \<times> batch, unit) act" where
  "stream_batch_swap = batch_swap ''stream receive batches must share the same pool''"

text \<open>\<open>copyTo\<close>: the loop copies buffer after buffer behind \<open>output + offset\<close>; a copy
  past the end of the destination would be undefined.\<close>

partial_function (option) stream_batch_copyLoop ::
    "stream_pool \<Rightarrow> nat option \<Rightarrow> nat \<Rightarrow> bytes \<Rightarrow> (exn + nat \<times> bytes) option" where
  "stream_batch_copyLoop p buffer off output =
     (case buffer of
        None \<Rightarrow> Some (Inr (off, output))
      | Some a \<Rightarrow>
          if \<not> a < length (mem p) then Some (Inl Undefined)
          else if sb_size (body (mem p ! a)) = 0
          then stream_batch_copyLoop p (nxt (mem p ! a)) off output
          else if off + sb_size (body (mem p ! a)) > length output then Some (Inl Undefined)
          else stream_batch_copyLoop p (nxt (mem p ! a)) (off + sb_size (body (mem p ! a)))
                 (memcpy_at output off
                    (take (sb_size (body (mem p ! a))) (sb_data (body (mem p ! a))))))"

text \<open>\<open>dest\<close> is the destination array (\<open>None\<close> for a null pointer) of \<open>capacity\<close>
  bytes; the result is the array afterwards.\<close>

definition stream_batch_copyTo ::
  "batch \<Rightarrow> stream_pool \<Rightarrow> bytes option \<Rightarrow> nat \<Rightarrow> (exn + bytes option) option" where
  "stream_batch_copyTo b p dest capacity =
     (if capacity < itemCount b
      then Some (Inl (LengthError ''stream receive destination is too small''))
      else if itemCount b \<noteq> 0 \<and> dest = None
      then Some (Inl (InvalidArgument ''stream receive destination is null''))
      else Option.bind
             (stream_batch_copyLoop p (head b) 0 (case dest of None \<Rightarrow> [] | Some d \<Rightarrow> d))
             (\<lambda>r. Some (case r of
                 Inl e \<Rightarrow> Inl e
               | Inr (off, output) \<Rightarrow>
                   if off \<noteq> itemCount b
                   then Inl (LogicError ''stream receive chain byte count mismatch'')
                   else Inr (map_option (\<lambda>_. output) dest))))"

section \<open>The abstract value of a batch\<close>

definition stream_contents :: "stream_pool \<Rightarrow> nat list \<Rightarrow> bytes" where
  "stream_contents p as = concat (map (\<lambda>a. sb_contents (body (mem p ! a))) as)"

definition stream_rel :: "stream_pool \<Rightarrow> nat list \<Rightarrow> batch \<Rightarrow> nat list \<Rightarrow> bytes \<Rightarrow> bool" where
  "stream_rel p fl b as bs \<longleftrightarrow>
     pool_inv sb_good sb_clean p fl \<and> batch_owns p fl b as \<and> pool_id b \<noteq> None \<and>
     stream_contents p as = bs \<and> itemCount b = length bs"

lemma stream_contents_cong:
  "(\<And>a. a \<in> set as \<Longrightarrow> body (mem p' ! a) = body (mem p ! a)) \<Longrightarrow>
     stream_contents p' as = stream_contents p as"
  unfolding stream_contents_def by (metis (mono_tags, lifting) map_eq_conv)

lemma stream_contents_append [simp]:
  "stream_contents p (as @ bs) = stream_contents p as @ stream_contents p bs"
  by (simp add: stream_contents_def)

lemma stream_contents_simps [simp]:
  "stream_contents p [] = []"
  "stream_contents p (a # as) = sb_contents (body (mem p ! a)) @ stream_contents p as"
  by (simp_all add: stream_contents_def)

lemma stream_rel_new: "pool_inv sb_good sb_clean p fl \<Longrightarrow> stream_rel p fl (batch_new pid) [] []"
  by (simp add: stream_rel_def pool_inv_def) (simp add: batch_new_def)

lemma stream_batch_tail_spec:
  assumes rel: "stream_rel p fl b as cs"
  shows "\<exists>t b1 p1 fl1 as1. stream_batch_tail (b, p) = (Inr t, (b1, p1)) \<and>
    stream_rel p1 fl1 b1 (as1 @ [t]) cs \<and> untouched p fl as p1 fl1 (as1 @ [t]) \<and>
    0 < sb_getAvailable (body (mem p1 ! t))"
proof (cases "as \<noteq> [] \<and> 0 < sb_getAvailable (body (mem p ! last as))")
  case True
  then obtain as1 t where as: "as = as1 @ [t]" by (metis append_butlast_last_id)
  then have "tail b = Some t" and "t < length (mem p)"
    using rel batch_owns_bound [of p fl b as t] by (auto simp: stream_rel_def batch_owns_def)
  then show ?thesis
    using True rel as untouched_refl [of p fl as] by (auto simp: stream_batch_tail_def)
next
  case False
  have inv: "pool_inv sb_good sb_clean p fl" and own: "batch_owns p fl b as"
    using rel by (simp_all add: stream_rel_def)
  obtain a b1 p1 fl1 where ext: "batch_extend sb_reset stream_buffer_new kStreamReceiveBufferGrowCount (b, p)
      = (Inr a, (b1, p1))"
    and inv1: "pool_inv sb_good sb_clean p1 fl1" and own1: "batch_owns p1 fl1 b1 (as @ [a])"
    and un: "untouched p fl as p1 fl1 (as @ [a])"
    and cl: "sb_clean (body (mem p1 ! a))" and keep: "\<forall>x \<in> set as. body (mem p1 ! x) = body (mem p ! x)"
    and ids: "pool_id b1 = pool_id b" "itemCount b1 = itemCount b"
    using stbuf.extend_spec [OF inv own] by blast
  have "stream_contents p1 as = stream_contents p as"
    by (rule stream_contents_cong) (use keep in auto)
  then have "stream_rel p1 fl1 b1 (as @ [a]) cs"
    using rel inv1 own1 ids sb_contents_clean [OF cl] by (auto simp: stream_rel_def)
  moreover have "stream_batch_tail (b, p) = (Inr a, (b1, p1))"
    using ext False own batch_owns_bound [OF own, of "last as"]
    by (auto simp: stream_batch_tail_def batch_owns_def)
  ultimately show ?thesis
    using un sb_available_clean [OF cl] by blast
qed

lemma stream_store:
  assumes rel: "stream_rel p fl b (as @ [t]) cs"
    and room: "0 < sb_getAvailable (body (mem p ! t))" and ne: "bs \<noteq> []"
  shows "\<exists>n sb. sb_append (Span bs) (body (mem p ! t)) = (n, sb) \<and> 0 < n \<and> n \<le> length bs \<and>
    stream_rel (set_cell t ((mem p ! t)\<lparr>body := sb\<rparr>) p) fl
      (b\<lparr>itemCount := itemCount b + n\<rparr>) (as @ [t]) (cs @ take n bs)"
proof -
  have t: "t < length (mem p)" and nt: "t \<notin> set fl" "t \<notin> set as"
    and inv: "pool_inv sb_good sb_clean p fl"
    using rel batch_owns_bound [of p fl b "as @ [t]" t] by (auto simp: stream_rel_def batch_owns_def)
  then have good: "sb_good (body (mem p ! t))" by (simp add: pool_inv_def)
  from sb_append_ok [OF good ne room] obtain n sb
    where sb: "sb_append (Span bs) (body (mem p ! t)) = (n, sb)" "0 < n" "n \<le> length bs" "sb_good sb"
      "sb_contents sb = sb_contents (body (mem p ! t)) @ take n bs" by blast
  let ?p = "set_cell t ((mem p ! t)\<lparr>body := sb\<rparr>) p"
  have "pool_inv sb_good sb_clean ?p fl"
    by (rule pool_inv_set_cell [OF inv nt(1) t]) (simp add: sb)
  moreover have "batch_owns ?p fl (b\<lparr>itemCount := itemCount b + n\<rparr>) (as @ [t])"
    using rel batch_owns_set_body by (auto simp: stream_rel_def)
  moreover have "stream_contents ?p as = stream_contents p as"
    by (rule stream_contents_cong) (use nt t in \<open>auto simp: nth_list_update\<close>)
  ultimately have "stream_rel ?p fl (b\<lparr>itemCount := itemCount b + n\<rparr>) (as @ [t]) (cs @ take n bs)"
    using rel sb t by (auto simp: stream_rel_def)
  then show ?thesis using sb by blast
qed

text \<open>The copying loop stores everything; it never stops for lack of progress.\<close>

lemma stream_batch_copy_ok:
  "stream_rel p fl b as cs \<Longrightarrow>
   \<exists>b' p' fl' as'. stream_batch_copy rest (b, p) = (Inr (), (b', p')) \<and>
     stream_rel p' fl' b' as' (cs @ rest) \<and> untouched p fl as p' fl' as'"
proof (induction "length rest" arbitrary: rest b p fl as cs rule: less_induct)
  case less
  show ?case
  proof (cases "rest = []")
    case True
    then show ?thesis
      using less.prems untouched_refl [of p fl as] by (auto simp: stream_batch_copy.simps)
  next
    case False
    obtain t b1 p1 fl1 as1 where ready: "stream_batch_tail (b, p) = (Inr t, (b1, p1))"
      and rel1: "stream_rel p1 fl1 b1 (as1 @ [t]) cs"
      and un1: "untouched p fl as p1 fl1 (as1 @ [t])"
      and room: "0 < sb_getAvailable (body (mem p1 ! t))"
      using stream_batch_tail_spec [OF less.prems] by blast
    obtain n sb where sb: "sb_append (Span rest) (body (mem p1 ! t)) = (n, sb)" "0 < n" "n \<le> length rest"
      and rel2: "stream_rel (set_cell t ((mem p1 ! t)\<lparr>body := sb\<rparr>) p1) fl1
        (b1\<lparr>itemCount := itemCount b1 + n\<rparr>) (as1 @ [t]) (cs @ take n rest)"
      using stream_store [OF rel1 room False] by blast
    let ?p2 = "set_cell t ((mem p1 ! t)\<lparr>body := sb\<rparr>) p1"
    have un2: "untouched p1 fl1 (as1 @ [t]) ?p2 fl1 (as1 @ [t])"
      by (auto simp: untouched_def)
    have shorter: "length (drop n rest) < length rest" using sb by simp
    obtain b' p' fl' as' where
      rec: "stream_batch_copy (drop n rest) (b1\<lparr>itemCount := itemCount b1 + n\<rparr>, ?p2) = (Inr (), (b', p'))"
        "stream_rel p' fl' b' as' ((cs @ take n rest) @ drop n rest)"
        "untouched ?p2 fl1 (as1 @ [t]) p' fl' as'"
      using less.hyps [OF shorter rel2] by blast
    have "untouched p fl as p' fl' as'"
      using untouched_trans [OF untouched_trans [OF un1 un2] rec(3)] .
    moreover have "stream_batch_copy rest (b, p) = (Inr (), (b', p'))"
      using False ready sb rec(1) by (simp add: stream_batch_copy.simps [of rest])
    ultimately show ?thesis using rec(2) by auto
  qed
qed

text \<open>The abstract operation on the byte string; a null or empty argument is ignored.\<close>

definition bytes_append :: "span \<Rightarrow> bytes \<Rightarrow> bytes" where
  "bytes_append data cs = cs @ span_bytes data"

text \<open>\<open>StreamReceiveBatch::append\<close> implements appending to a byte string: it always
  returns (the copying loop ends and is never stuck without progress), the batch then holds
  the old bytes and the new ones behind them, and other batches' buffers are untouched.\<close>

theorem stream_batch_append_refines:
  assumes "stream_rel p fl b as cs"
  shows "\<exists>b' p' fl' as'. stream_batch_append data (b, p) = (Inr (), (b', p')) \<and>
    stream_rel p' fl' b' as' (bytes_append data cs) \<and> untouched p fl as p' fl' as'"
proof (cases "span_is_null data \<or> span_size data = 0")
  case True
  then have "span_bytes data = []" by (cases data) auto
  then show ?thesis
    using True assms untouched_refl [of p fl as]
    by (auto simp: stream_batch_append_def stream_rel_def bytes_append_def)
next
  case False
  then show ?thesis
    using stream_batch_copy_ok [OF assms, of "span_bytes data"] assms
    by (auto simp: stream_batch_append_def stream_rel_def bytes_append_def)
qed

lemma stream_pool_new_inv:
  "\<exists>fl. pool_inv sb_good sb_clean stream_pool_new fl \<and> set fl = {..<length (mem stream_pool_new)}"
  using stbuf.new_inv unfolding stream_pool_new_def by blast

theorem stream_batch_append_refines_witness:
  "\<exists>b' p'. stream_batch_append (Span (replicate 70000 1)) (batch_new 0, stream_pool_new) = (Inr (), (b', p')) \<and>
     (\<exists>fl as. stream_rel p' fl b' as (replicate 70000 1))"
proof -
  obtain fl where "pool_inv sb_good sb_clean stream_pool_new fl"
    using stream_pool_new_inv by blast
  from stream_batch_append_refines [OF stream_rel_new [OF this], of "Span (replicate 70000 1)" 0]
  show ?thesis by (auto simp: bytes_append_def)
qed

section \<open>Concatenation, moving out and copying out\<close>

lemma chain_appendBatch:
  assumes own: "batch_owns p fl b as" and own2: "batch_owns p fl c cs"
    and disj: "set as \<inter> set cs = {}" and ne: "as \<noteq> []" and h: "head c = Some h"
  shows "chain (mem (set_cell (last as) ((mem p ! last as)\<lparr>nxt := Some h\<rparr>) p)) (head b) (as @ cs)"
proof -
  have "last as \<notin> set cs" using disj ne by (auto dest: last_in_set)
  then show ?thesis
    using chain_append_link [of "mem p" "head b" as h cs] own own2 ne h
    by (simp add: batch_owns_def)
qed

text \<open>Concatenating two batches of a pool moves all bytes of the second behind those of the
  first without copying and leaves the second empty; the buffers the two owned together are
  then owned by the first alone.\<close>

theorem stream_batch_appendBatch_concat:
  assumes rel: "stream_rel p fl b as cs" and rel2: "stream_rel p fl c bs ds"
    and disj: "set as \<inter> set bs = {}" and same: "pool_id b = pool_id c"
  shows "\<exists>b' c' p'. stream_batch_appendBatch ((b, c), p) = (Inr (), ((b', c'), p')) \<and>
    stream_rel p' fl b' (as @ bs) (cs @ ds) \<and> stream_rel p' fl c' [] []"
proof -
  have inv: "pool_inv sb_good sb_clean p fl" and own: "batch_owns p fl b as"
    and own2: "batch_owns p fl c bs" and pid: "pool_id c \<noteq> None"
    using rel rel2 by (auto simp: stream_rel_def)
  have dfl: "distinct fl" using inv by (simp add: pool_inv_def)
  show ?thesis
  proof (cases "bs = []")
    case True
    then have "head c = None" using own2 batch_owns_head by blast
    then show ?thesis
      using True rel rel2 same by (auto simp: stream_batch_appendBatch_def stream_rel_def)
  next
    case False
    then obtain h where h: "head c = Some h" using own2 batch_owns_head by blast
    have tl: "tail c = Some (last bs)" using own2 False by (simp add: batch_owns_def)
    let ?b = "\<lambda>hd'. b\<lparr>head := hd', tail := tail c, itemCount := itemCount b + itemCount c,
      bufferCount := bufferCount b + bufferCount c\<rparr>"
    have clear: "stream_rel p' fl (batch_clear c) [] []" if "pool_inv sb_good sb_clean p' fl" for p'
      using that pid batch_owns_clear [OF dfl] by (simp add: stream_rel_def) (simp add: batch_clear_def)
    show ?thesis
    proof (cases "as = []")
      case True
      then have "head b = None" "bufferCount b = 0" using own batch_owns_head [OF own]
        by (auto simp: batch_owns_def)
      then have "stream_batch_appendBatch ((b, c), p) = (Inr (), ((?b (Some h), batch_clear c), p))"
        using h same by (simp add: stream_batch_appendBatch_def)
      moreover have "stream_rel p fl (?b (Some h)) (as @ bs) (cs @ ds)"
        using True rel rel2 h \<open>bufferCount b = 0\<close> by (auto simp: stream_rel_def batch_owns_def)
      ultimately show ?thesis using clear [OF inv] by blast
    next
      case as: False
      let ?t = "last as"
      let ?p = "set_cell ?t ((mem p ! ?t)\<lparr>nxt := Some h\<rparr>) p"
      have t: "?t < length (mem p)" "?t \<notin> set fl" and tb: "tail b = Some ?t" and hb: "head b \<noteq> None"
        using own as batch_owns_bound [OF own, of ?t] batch_owns_head [OF own] last_in_set [OF as]
        by (auto simp: batch_owns_def disjoint_iff)
      have inv': "pool_inv sb_good sb_clean ?p fl"
        by (rule pool_inv_set_cell [OF inv t(2) t(1)]) (use inv t in \<open>simp add: pool_inv_def\<close>)
      have body: "body (mem ?p ! x) = body (mem p ! x)" for x
        using t by (cases "x = ?t") simp_all
      then have cont: "stream_contents ?p xs = stream_contents p xs" for xs
        by (intro stream_contents_cong) simp
      have "batch_owns ?p fl (?b (head b)) (as @ bs)"
        using chain_appendBatch [OF own own2 disj as h] own own2 disj False
        by (auto simp: batch_owns_def)
      then have "stream_rel ?p fl (?b (head b)) (as @ bs) (cs @ ds)"
        using inv' rel rel2 by (simp add: stream_rel_def cont del: set_cell_sel)
      moreover have "stream_batch_appendBatch ((b, c), p) =
          (Inr (), ((?b (head b), batch_clear c), ?p))"
        using h same hb tb t by (auto simp: stream_batch_appendBatch_def)
      ultimately show ?thesis using clear [OF inv'] by blast
    qed
  qed
qed

theorem stream_batch_appendBatch_concat_witness:
  "\<exists>b' c' p'. stream_batch_appendBatch ((batch_new 0, batch_new 0), stream_pool_new) =
     (Inr (), ((b', c'), p')) \<and> (\<exists>fl. stream_rel p' fl b' [] [] \<and> stream_rel p' fl c' [] [])"
proof -
  obtain fl where inv: "pool_inv sb_good sb_clean stream_pool_new fl"
    using stream_pool_new_inv by blast
  from stream_batch_appendBatch_concat [OF stream_rel_new [OF inv] stream_rel_new [OF inv], of 0 0]
  show ?thesis by auto
qed

lemma stream_batch_copyLoop_ok:
  "chain (mem p) h as \<Longrightarrow> (\<forall>a < length (mem p). sb_good (body (mem p ! a))) \<Longrightarrow>
   off + length (stream_contents p as) \<le> length out \<Longrightarrow>
   stream_batch_copyLoop p h off out =
     Some (Inr (off + length (stream_contents p as), memcpy_at out off (stream_contents p as)))"
proof (induction as arbitrary: h off out)
  case Nil
  then show ?case by (simp add: stream_batch_copyLoop.simps)
next
  case (Cons a as)
  let ?sb = "body (mem p ! a)"
  let ?xs = "sb_contents ?sb"
  have h: "h = Some a" "a < length (mem p)" and ch: "chain (mem p) (nxt (mem p ! a)) as"
    and good: "sb_good ?sb"
    using Cons.prems by auto
  have len: "length ?xs = sb_size ?sb" using good by (rule length_sb_contents)
  have read: "take (sb_size ?sb) (sb_data ?sb) = ?xs"
    by (simp add: sb_size_def sb_data_def sb_contents_def)
  have fits: "off + length ?xs + length (stream_contents p as) \<le> length out"
    using Cons.prems(3) by simp
  show ?case
  proof (cases "sb_size ?sb = 0")
    case True
    then have "?xs = []" using len by simp
    then show ?thesis
      using True h Cons.IH [OF ch Cons.prems(2), of off out] fits
      by (simp add: stream_batch_copyLoop.simps [of p "Some a"])
  next
    case False
    have "stream_batch_copyLoop p h off out =
        stream_batch_copyLoop p (nxt (mem p ! a)) (off + length ?xs) (memcpy_at out off ?xs)"
      using False h fits len read by (simp add: stream_batch_copyLoop.simps [of p "Some a"])
    also have "\<dots> = Some (Inr (off + length ?xs + length (stream_contents p as),
        memcpy_at (memcpy_at out off ?xs) (off + length ?xs) (stream_contents p as)))"
      by (rule Cons.IH [OF ch Cons.prems(2)]) (use fits in simp)
    finally show ?thesis
      using fits by (simp add: memcpy_at_memcpy_at)
  qed
qed

text \<open>C37. Copying a batch into a destination with room for it ends, throws nothing, writes exactly
  the received bytes in order to its front and leaves the rest of the destination alone: the
  byte count kept by the appends is the one the chain holds, and no copy leaves the array.\<close>

theorem stream_batch_copyTo_exact:
  assumes "stream_rel p fl b as cs" and "length dst = capacity" and "length cs \<le> capacity"
  shows "stream_batch_copyTo b p (Some dst) capacity =
    Some (Inr (Some (cs @ drop (length cs) dst)))"
proof -
  have "chain (mem p) (head b) as" and "\<forall>a < length (mem p). sb_good (body (mem p ! a))"
    and "stream_contents p as = cs" and "itemCount b = length cs"
    using assms(1) by (auto simp: stream_rel_def batch_owns_def pool_inv_def)
  then show ?thesis
    using assms(2,3) stream_batch_copyLoop_ok [of p "head b" as 0 dst]
    by (simp add: stream_batch_copyTo_def memcpy_at_def)
qed

theorem stream_batch_copyTo_exact_witness:
  "\<exists>b p. stream_batch_append (Span [1, 2]) (batch_new 0, stream_pool_new) = (Inr (), (b, p)) \<and>
     stream_batch_copyTo b p (Some [0, 0, 9]) 3 = Some (Inr (Some [1, 2, 9]))"
proof -
  obtain fl where "pool_inv sb_good sb_clean stream_pool_new fl"
    using stream_pool_new_inv by blast
  from stream_batch_append_refines [OF stream_rel_new [OF this], of "Span [1, 2]" 0]
  obtain b p fl' as where "stream_batch_append (Span [1, 2]) (batch_new 0, stream_pool_new) = (Inr (), (b, p))"
    and "stream_rel p fl' b as [1, 2]"
    by (auto simp: bytes_append_def)
  with stream_batch_copyTo_exact [of p fl' b as "[1, 2]" "[0, 0, 9]" 3] show ?thesis
    by auto
qed

text \<open>Nothing leaks: when every buffer of the pool is free or owned by exactly one batch, that
  still holds after any append to one of them (whether the pool had to grow or not), and
  after the batch is destroyed its buffers are free again, for the other batches to reuse.\<close>

theorem stream_batch_no_leak:
  assumes "stream_rel p fl b as cs" and "pool_partition p fl (as # others)"
  shows "\<exists>b' p' p'' fl' fl'' as'. stream_batch_append data (b, p) = (Inr (), (b', p')) \<and>
    pool_partition p' fl' (as' # others) \<and>
    batch_destroy sb_reset b' p' = Some (Inr (), p'') \<and>
    pool_inv sb_good sb_clean p'' fl'' \<and> pool_partition p'' fl'' others"
proof -
  obtain b' p' fl' as' where app: "stream_batch_append data (b, p) = (Inr (), (b', p'))"
    and rel': "stream_rel p' fl' b' as' (bytes_append data cs)"
    and un: "untouched p fl as p' fl' as'"
    using stream_batch_append_refines [OF assms(1)] by blast
  have own: "batch_owns p' fl' b' as'" and inv: "pool_inv sb_good sb_clean p' fl'"
    and pid: "pool_id b' \<noteq> None"
    using rel' by (simp_all add: stream_rel_def)
  then have part: "pool_partition p' fl' (as' # others)"
    using untouched_partition [OF un assms(2)] by (simp add: batch_owns_def)
  obtain p'' where des: "batch_destroy sb_reset b' p' = Some (Inr (), p'')"
    and inv2: "pool_inv sb_good sb_clean p'' (rev as' @ fl')"
    and un2: "untouched p' fl' as' p'' (rev as' @ fl') []"
    using stbuf.destroy_spec [OF inv own pid] by blast
  have "pool_partition p'' (rev as' @ fl') ([] # others)"
    using untouched_partition [OF un2 part] inv2 by (simp add: pool_inv_def)
  then have "pool_partition p'' (rev as' @ fl') others"
    by (simp add: pool_partition_def)
  then show ?thesis using app part des inv2 by blast
qed

theorem stream_batch_no_leak_witness:
  "\<exists>b' p' p'' fl''. stream_batch_append (Span (replicate 70000 1)) (batch_new 0, stream_pool_new) =
     (Inr (), (b', p')) \<and> batch_destroy sb_reset b' p' = Some (Inr (), p'') \<and>
     pool_partition p'' fl'' []"
proof -
  obtain fl where inv: "pool_inv sb_good sb_clean stream_pool_new fl"
    and all: "set fl = {..<length (mem stream_pool_new)}"
    using stream_pool_new_inv by blast
  have "pool_partition stream_pool_new fl [[]]"
    using inv all by (simp add: pool_partition_def pool_inv_def)
  from stream_batch_no_leak [OF stream_rel_new [OF inv] this, of "Span (replicate 70000 1)" 0]
  show ?thesis by blast
qed

end
