(* ===== verification/Connection_State.thy ===== *)
theory Connection_State
  imports Quic_Env Receive_Batch Stream_Batch
begin

text \<open>
  State and elementary operations of \<open>quic::Connection\<close>
  (\<open>native/quic/Connection.{h,cpp}\<close>): the records of the protocol state, of the state
  published to the application and of the connection; queueing, scheduling, completion and
  publication. The release build is modelled: the blocks under \<open>FFL_P2P_DIAGNOSTICS\<close>
  only count.

  A batch member is its abstract value, the list of datagrams or the byte string; that the batch
  operations implement these values is what \<open>Receive_Batch\<close> and \<open>Stream_Batch\<close> show. Byte
  counts and stream offsets are natural numbers (QUIC bounds offsets by \<open>2 ^ 62\<close>);
  timestamps and the drop counter are 64-bit words.

  \<open>onWorker\<close> says whether the thread that runs the step is the connection's worker
  (\<open>Worker::isCurrentThread\<close>). \<open>scheduled\<close> counts the calls of
  \<open>Worker::queueConnection(this)\<close>; \<open>completions\<close> are the completion objects the
  operations refer to by number.
\<close>

section \<open>Records\<close>

datatype role = Client | Server
datatype schedule_state = Idle | Queued | Processing

record tx_chunk =
  tc_offset :: nat
  tc_data :: bytes
  tc_submitted :: nat

record proto =
  server :: bool
  hasConn :: bool          \<comment> \<open>\<open>conn\<close> is not null\<close>
  hasTls :: bool
  hasCredentials :: bool
  localPort :: "nat option"
  peerPort :: "nat option"
  handshakeComplete :: bool
  handshakeConfirmed :: bool
  peerFinished :: bool
  txStreamID :: int
  rxStreamID :: int
  rxOffset :: nat
  txChunks :: "tx_chunk list"
  txNextOffset :: nat
  txSubmittedOffset :: nat
  txAckedOffset :: nat
  txFinRequested :: bool
  txFinSubmitted :: bool
  txFinAcked :: bool
  streamClosed :: bool
  aggregatePacketCount :: nat
  aggregateWriteError :: string

definition proto_new :: "bool \<Rightarrow> proto" where
  "proto_new srv = \<lparr>server = srv, hasConn = False, hasTls = False, hasCredentials = False,
     localPort = None, peerPort = None, handshakeComplete = False, handshakeConfirmed = False,
     peerFinished = False, txStreamID = -1, rxStreamID = -1, rxOffset = 0, txChunks = [],
     txNextOffset = 0, txSubmittedOffset = 0, txAckedOffset = 0, txFinRequested = False,
     txFinSubmitted = False, txFinAcked = False, streamClosed = False, aggregatePacketCount = 0,
     aggregateWriteError = ''''\<rparr>"

record app_state =
  appGeneration :: u64
  appReceiveBatch :: bytes
  appError :: string
  appHandshakeComplete :: bool
  appHandshakeConfirmed :: bool
  appPeerFinished :: bool
  appSubmittedWriteOffset :: nat
  appAckedWriteOffset :: nat
  appFinSubmitted :: bool
  appFinAcked :: bool
  appStreamClosed :: bool

definition app_new :: app_state where
  "app_new = \<lparr>appGeneration = 0, appReceiveBatch = [], appError = '''', appHandshakeComplete = False,
     appHandshakeConfirmed = False, appPeerFinished = False, appSubmittedWriteOffset = 0,
     appAckedWriteOffset = 0, appFinSubmitted = False, appFinAcked = False, appStreamClosed = False\<rparr>"

record pending_send =
  ps_data :: bytes
  ps_offset :: nat
  ps_segmentSize :: nat
  ps_packetCount :: nat
  ps_logicalBytes :: nat
  ps_aggregate :: bool

definition ps_hasRemainingData :: "pending_send \<Rightarrow> bool" where
  "ps_hasRemainingData ps \<longleftrightarrow> ps_offset ps < length (ps_data ps)"

definition ps_getRemainingSize :: "pending_send \<Rightarrow> nat" where
  "ps_getRemainingSize ps = (if ps_hasRemainingData ps then length (ps_data ps) - ps_offset ps else 0)"

definition ps_clear :: pending_send where
  "ps_clear = \<lparr>ps_data = [], ps_offset = 0, ps_segmentSize = 0, ps_packetCount = 0,
     ps_logicalBytes = 0, ps_aggregate = False\<rparr>"

record 'w conn =
  connAddr :: nat
  bindingAddr :: nat
  role_of :: role
  certificatePEM :: string
  privateKeyPEM :: string
  gnutlsReady :: bool     \<comment> \<open>the process-wide \<open>gGnuTLSInitOnce\<close>\<close>
  proto :: proto
  operationQueue :: operation_queue
  scheduleState :: schedule_state
  scheduled :: nat
  onWorker :: bool
  stopped :: bool
  started :: bool
  aggregatePackets :: bool
  tooLargeSendDrops :: u64
  io :: "'w io"
  receiveBatch :: "bytes list"
  streamReceiveBatch :: bytes
  receiveOperationPending :: bool
  streamReceiveOperationPending :: bool
  peerFinishedPending :: bool
  releasableStreamReceiveBytes :: nat
  sendOperationPending :: bool
  pendingSend :: pending_send
  sendRetryExpiry :: timestamp
  app :: app_state
  applicationWriteOffset :: nat
  applicationFinRequested :: bool
  completions :: "completion list"

type_synonym ('w, 'a) cact = "('w conn, 'a) act"

definition connection_new ::
  "role \<Rightarrow> string \<Rightarrow> string \<Rightarrow> nat \<Rightarrow> nat \<Rightarrow> bool \<Rightarrow> (nat \<Rightarrow> agent) \<Rightarrow> 'w \<Rightarrow> 'w conn" where
  "connection_new r cert key addr baddr tlsReady agents w =
     \<lparr>connAddr = addr, bindingAddr = baddr, role_of = r, certificatePEM = cert, privateKeyPEM = key,
      gnutlsReady = tlsReady,
      proto = proto_new (r = Server), operationQueue = [], scheduleState = Idle, scheduled = 0,
      onWorker = False, stopped = False, started = False, aggregatePackets = True,
      tooLargeSendDrops = 0,
      io = \<lparr>io_binding = binding_new, io_agents = agents, io_world = w\<rparr>,
      receiveBatch = [], streamReceiveBatch = [], receiveOperationPending = False,
      streamReceiveOperationPending = False, peerFinishedPending = False,
      releasableStreamReceiveBytes = 0, sendOperationPending = False, pendingSend = ps_clear,
      sendRetryExpiry = InfiniteTimestamp, app = app_new, applicationWriteOffset = 0,
      applicationFinRequested = False, completions = []\<rparr>"

text \<open>The two factories.\<close>

definition createClient :: "string \<Rightarrow> nat \<Rightarrow> nat \<Rightarrow> bool \<Rightarrow> (nat \<Rightarrow> agent) \<Rightarrow> 'w \<Rightarrow> 'w conn" where
  "createClient cert = connection_new Client cert ''''"

definition createServer :: "string \<Rightarrow> string \<Rightarrow> nat \<Rightarrow> nat \<Rightarrow> bool \<Rightarrow> (nat \<Rightarrow> agent) \<Rightarrow> 'w \<Rightarrow> 'w conn" where
  "createServer cert key = connection_new Server cert key"

section \<open>Parts of the state as objects\<close>

definition modProto :: "(proto \<Rightarrow> proto) \<Rightarrow> ('w, unit) cact" where
  "modProto f = modify (\<lambda>s. s\<lparr>proto := f (proto s)\<rparr>)"

definition modApp :: "(app_state \<Rightarrow> app_state) \<Rightarrow> ('w, unit) cact" where
  "modApp f = modify (\<lambda>s. s\<lparr>app := f (app s)\<rparr>)"

definition withIo :: "('w io, 'a) act \<Rightarrow> ('w, 'a) cact" where
  "withIo m = zoomA io (\<lambda>t s. s\<lparr>io := t\<rparr>) m"

definition world :: "'w conn \<Rightarrow> 'w" where
  "world s = io_world (io s)"

definition setWorld :: "'w \<Rightarrow> ('w, unit) cact" where
  "setWorld w = modify (\<lambda>s. s\<lparr>io := (io s)\<lparr>io_world := w\<rparr>\<rparr>)"

text \<open>A call of external code that changes the external state and does not call back.\<close>

definition extern :: "('w \<Rightarrow> 'a \<times> 'w) \<Rightarrow> ('w, 'a) cact" where
  "extern f = bindA (gets (\<lambda>s. f (world s))) (\<lambda>(r, w). bindA (setWorld w) (\<lambda>_. ret r))"

definition getCurrentTimestampNS :: "'w quic_env \<Rightarrow> ('w, timestamp) cact" where
  "getCurrentTimestampNS E = extern (q_now E)"

text \<open>A call of external code that may call back: \<open>h\<close> are the callbacks.\<close>

primrec run_ng :: "(callback \<Rightarrow> ('w, ng_written) cact) \<Rightarrow> ('w, 'r) ng \<Rightarrow> ('w, 'r) cact" where
  "run_ng h (NgReturn r w) = bindA (setWorld w) (\<lambda>_. ret r)"
| "run_ng h (NgCallback cb w k) =
     bindA (setWorld w) (\<lambda>_. bindA (h cb) (\<lambda>reply s. run_ng h (k (reply, world s)) s))"

end
