(* ===== verification/Connection_Ops.thy ===== *)
theory Connection_Ops
  imports Connection_State
begin

text \<open>
  The elementary operations of a connection (\<open>native/quic/Connection.cpp\<close>): the operation
  queue and the scheduling request, completions, the state published to the application, and the
  callbacks ngtcp2 runs on the worker. A block under one of the mutexes is one update.
\<close>

section \<open>Queueing and scheduling\<close>

definition assertWorkerOwner :: "('w, unit) cact" where
  "assertWorkerOwner = bindA (gets onWorker) (\<lambda>owner.
     if \<not> owner then throw (LogicError ''QUIC connection state accessed outside its owning Worker'')
     else ret ())"

text \<open>The compare-exchange from \<open>Idle\<close> to \<open>Queued\<close> and, when it succeeds, the request
  to the worker.\<close>

definition scheduleIfIdle :: "('w, unit) cact" where
  "scheduleIfIdle = modify (\<lambda>s.
     if scheduleState s = Idle then s\<lparr>scheduleState := Queued, scheduled := scheduled s + 1\<rparr> else s)"

definition completeOperation :: "operation \<Rightarrow> string \<Rightarrow> ('w, unit) cact" where
  "completeOperation oper err = modify (\<lambda>s.
     case op_completion oper of
       None \<Rightarrow> s
     | Some c \<Rightarrow> s\<lparr>completions := (completions s)[c := completion_complete err (completions s ! c)]\<rparr>)"

definition queueOperation :: "operation \<Rightarrow> ('w, unit) cact" where
  "queueOperation oper = bindA (gets stopped) (\<lambda>st.
     if st \<and> op_type oper \<noteq> Shutdown then completeOperation oper ''QUIC runtime is stopped''
     else blockA
       [modify (\<lambda>s. s\<lparr>operationQueue := queue_push oper (operationQueue s)\<rparr>),
        scheduleIfIdle])"

definition queueInternalOperation :: "operation_type \<Rightarrow> ('w, unit) cact" where
  "queueInternalOperation t = queueOperation (operation_of t)"

definition queueStreamReceiveFlush :: "('w, unit) cact" where
  "queueStreamReceiveFlush = bindA assertWorkerOwner (\<lambda>_.
     bindA (gets streamReceiveOperationPending) (\<lambda>pending.
       if pending then ret ()
       else blockA
         [modify (\<lambda>s. s\<lparr>streamReceiveOperationPending := True\<rparr>),
          queueInternalOperation FlushStreamRecv]))"

definition queueSendFlush :: "('w, unit) cact" where
  "queueSendFlush = bindA assertWorkerOwner (\<lambda>_.
     bindA (gets sendOperationPending) (\<lambda>pending.
       if pending then ret ()
       else blockA
         [modify (\<lambda>s. s\<lparr>sendOperationPending := True\<rparr>),
          queueInternalOperation FlushSend]))"

text \<open>The loop of \<open>drainFailedOperations\<close>, over the queue from its front.\<close>

fun drain_loop :: "string \<Rightarrow> operation_queue \<Rightarrow> completion list \<Rightarrow> completion list" where
  "drain_loop err [] cs = cs"
| "drain_loop err (oper # q) cs =
     drain_loop err q
       (case op_completion oper of None \<Rightarrow> cs | Some c \<Rightarrow> cs[c := completion_complete err (cs ! c)])"

definition drainFailedOperations :: "string \<Rightarrow> ('w, unit) cact" where
  "drainFailedOperations err = modify (\<lambda>s.
     s\<lparr>operationQueue := [], completions := drain_loop err (operationQueue s) (completions s)\<rparr>)"

section \<open>What the application sees\<close>

definition bumpGeneration :: "app_state \<Rightarrow> app_state" where
  "bumpGeneration a = a\<lparr>appGeneration := appGeneration a + 1\<rparr>"

definition notifyApplication :: "('w, unit) cact" where
  "notifyApplication = modApp bumpGeneration"

definition setError :: "string \<Rightarrow> ('w, unit) cact" where
  "setError message = modApp (\<lambda>a.
     bumpGeneration (if appError a = [] then a\<lparr>appError := message\<rparr> else a))"

definition publishApplicationState :: "('w, unit) cact" where
  "publishApplicationState = modify (\<lambda>s.
     let p = proto s in
     s\<lparr>app := bumpGeneration ((app s)\<lparr>
         appSubmittedWriteOffset := (if hasConn p then txSubmittedOffset p else 0),
         appAckedWriteOffset := (if hasConn p then txAckedOffset p else 0),
         appFinSubmitted := hasConn p \<and> txFinSubmitted p,
         appFinAcked := hasConn p \<and> txFinAcked p,
         appHandshakeComplete := hasConn p \<and> handshakeComplete p,
         appHandshakeConfirmed := hasConn p \<and> handshakeConfirmed p,
         appStreamClosed := hasConn p \<and> streamClosed p\<rparr>)\<rparr>)"

definition markHandshakeComplete :: "('w, unit) cact" where
  "markHandshakeComplete = modApp (\<lambda>a. bumpGeneration (a\<lparr>appHandshakeComplete := True\<rparr>))"

definition markHandshakeConfirmed :: "('w, unit) cact" where
  "markHandshakeConfirmed = modApp (\<lambda>a. bumpGeneration (a\<lparr>appHandshakeConfirmed := True\<rparr>))"

text \<open>The four fields \<open>markStreamClosed\<close> and \<open>markAcknowledged\<close> both copy.\<close>

definition publishWriteState :: "proto \<Rightarrow> app_state \<Rightarrow> app_state" where
  "publishWriteState p a = bumpGeneration (a\<lparr>
     appSubmittedWriteOffset := txSubmittedOffset p,
     appAckedWriteOffset := txAckedOffset p,
     appFinSubmitted := txFinSubmitted p,
     appFinAcked := txFinAcked p\<rparr>)"

definition markStreamClosed :: "('w, unit) cact" where
  "markStreamClosed = modify (\<lambda>s.
     s\<lparr>app := publishWriteState (proto s) ((app s)\<lparr>appStreamClosed := True\<rparr>)\<rparr>)"

definition markAcknowledged :: "('w, unit) cact" where
  "markAcknowledged = modify (\<lambda>s. s\<lparr>app := publishWriteState (proto s) (app s)\<rparr>)"

section \<open>Received stream data\<close>

definition appendReceivedStreamData :: "span \<Rightarrow> ('w, unit) cact" where
  "appendReceivedStreamData data = bindA assertWorkerOwner (\<lambda>_.
     if span_is_null data \<or> span_size data = 0 then ret ()
     else blockA
       [modify (\<lambda>s. s\<lparr>streamReceiveBatch := bytes_append data (streamReceiveBatch s)\<rparr>),
        queueStreamReceiveFlush])"

definition markPeerFinished :: "('w, unit) cact" where
  "markPeerFinished = blockA
     [assertWorkerOwner,
      modify (\<lambda>s. s\<lparr>peerFinishedPending := True\<rparr>),
      queueStreamReceiveFlush]"

section \<open>The callbacks of ngtcp2\<close>

type_synonym 'w cb = "('w, ng_written) cact"

definition cb_fail :: "'w cb" where
  "cb_fail = ret (Inl NGTCP2_ERR_CALLBACK_FAILURE)"

definition cb_ok :: "'w cb" where
  "cb_ok = ret (Inr [])"

text \<open>The reply carries the connection id and the reset token behind it.\<close>

definition newCIDCallback :: "'w quic_env \<Rightarrow> nat \<Rightarrow> 'w cb" where
  "newCIDCallback E cidLength =
     (if cidLength > q_max_cidlen E then cb_fail
      else bindA (extern (q_random E cidLength)) (\<lambda>(r1, cid).
        if r1 < 0 then cb_fail
        else bindA (extern (q_random E (q_token_len E))) (\<lambda>(r2, token).
          if r2 < 0 then cb_fail else ret (Inr (cid @ token)))))"

definition handshakeCompletedCallback :: "'w cb" where
  "handshakeCompletedCallback = bindA (blockA
     [modProto (\<lambda>p. p\<lparr>handshakeComplete := True\<rparr>), markHandshakeComplete]) (\<lambda>_. cb_ok)"

definition handshakeConfirmedCallback :: "'w cb" where
  "handshakeConfirmedCallback = bindA (blockA
     [modProto (\<lambda>p. p\<lparr>handshakeConfirmed := True\<rparr>), markHandshakeConfirmed]) (\<lambda>_. cb_ok)"

definition receiveStreamDataCallback :: "bool \<Rightarrow> int \<Rightarrow> nat \<Rightarrow> bytes \<Rightarrow> 'w cb" where
  "receiveStreamDataCallback fin streamID off data =
     bindA (modProto (\<lambda>p. if rxStreamID p = -1 then p\<lparr>rxStreamID := streamID\<rparr> else p)) (\<lambda>_.
     bindA (gets proto) (\<lambda>p.
       if rxStreamID p \<noteq> streamID \<or> off \<noteq> rxOffset p then cb_fail
       else bindA (blockA
         [whenA (data \<noteq> []) (blockA
            [appendReceivedStreamData (Span data),
             modProto (\<lambda>p. p\<lparr>rxOffset := rxOffset p + length data\<rparr>)]),
          whenA fin (blockA
            [modProto (\<lambda>p. p\<lparr>peerFinished := True\<rparr>),
             markPeerFinished])]) (\<lambda>_. cb_ok)))"

text \<open>The loop that drops the chunks acknowledged to their end.\<close>

fun pop_acked :: "nat \<Rightarrow> tx_chunk list \<Rightarrow> tx_chunk list" where
  "pop_acked acked [] = []"
| "pop_acked acked (c # cs) =
     (if tc_offset c + length (tc_data c) > acked then c # cs else pop_acked acked cs)"

definition acknowledgedStreamDataCallback :: "int \<Rightarrow> nat \<Rightarrow> nat \<Rightarrow> 'w cb" where
  "acknowledgedStreamDataCallback streamID off dataLength =
     bindA (gets proto) (\<lambda>p.
       if txStreamID p \<noteq> -1 \<and> streamID \<noteq> txStreamID p then cb_fail
       else if dataLength = 0 then
         (if \<not> txFinSubmitted p \<or> off \<noteq> txNextOffset p then cb_fail
          else bindA (blockA [modProto (\<lambda>p. p\<lparr>txFinAcked := True\<rparr>), markAcknowledged]) (\<lambda>_. cb_ok))
       else if off \<noteq> txAckedOffset p then cb_fail
       else bindA (blockA
         [modProto (\<lambda>p. p\<lparr>txAckedOffset := off + dataLength,
                           txChunks := pop_acked (off + dataLength) (txChunks p)\<rparr>),
          markAcknowledged]) (\<lambda>_. cb_ok))"

definition streamCloseCallback :: "bool \<Rightarrow> int \<Rightarrow> 'w cb" where
  "streamCloseCallback appErrorSet streamID =
     bindA (gets proto) (\<lambda>p.
       if rxStreamID p \<noteq> -1 \<and> streamID \<noteq> rxStreamID p \<and>
          txStreamID p \<noteq> -1 \<and> streamID \<noteq> txStreamID p then cb_ok
       else bindA (whenA (\<not> appErrorSet) (blockA
         [modProto (\<lambda>p. p\<lparr>streamClosed := True,
                           txFinAcked := (if txFinRequested p then True else txFinAcked p)\<rparr>),
          markStreamClosed])) (\<lambda>_. cb_ok))"

text \<open>The table of callbacks; the packet writer is only passed to the aggregate call.\<close>

definition callbacks :: "'w quic_env \<Rightarrow> callback \<Rightarrow> 'w cb" where
  "callbacks E cb =
     (case cb of
        CbNewCID n \<Rightarrow> newCIDCallback E n
      | CbHandshakeCompleted \<Rightarrow> handshakeCompletedCallback
      | CbHandshakeConfirmed \<Rightarrow> handshakeConfirmedCallback
      | CbReceiveStreamData fin sid off data \<Rightarrow> receiveStreamDataCallback fin sid off data
      | CbAckedStreamData sid off len \<Rightarrow> acknowledgedStreamDataCallback sid off len
      | CbStreamClose flag sid \<Rightarrow> streamCloseCallback flag sid
      | CbWritePacket n t \<Rightarrow> cb_fail)"

end
