(* ===== verification/Connection_Send.thy ===== *)
theory Connection_Send
  imports Connection_Ops
begin

text \<open>
  The sending side of a connection (\<open>native/quic/Connection.cpp\<close>): which stream bytes go
  into the next packet, how a packet or an aggregate is handed to the ICE binding, what is kept
  when the transport pushes back, and the flush loop with its packet budget.
\<close>

definition kMaxPacketsPerFlush :: nat where "kMaxPacketsPerFlush = 512"
definition kSendRetryDelayNS :: timestamp where "kSendRetryDelayNS = 1000 * 1000"
definition kSendBufferPayloadSize :: nat where "kSendBufferPayloadSize = 64 * 1024"

section \<open>One packet\<close>

definition proto_hasPendingWrite :: "proto \<Rightarrow> bool" where
  "proto_hasPendingWrite p \<longleftrightarrow> txStreamID p \<ge> 0 \<and>
     (txSubmittedOffset p < txNextOffset p \<or> (txFinRequested p \<and> \<not> txFinSubmitted p))"

text \<open>The loop of \<open>nextTransmitChunk\<close>. The result stands for the pointer; the chunk it points
  to is known by its offset.\<close>

fun nextTransmitChunk :: "nat \<Rightarrow> tx_chunk list \<Rightarrow> tx_chunk option" where
  "nextTransmitChunk submittedOffset [] = None"
| "nextTransmitChunk submittedOffset (c # cs) =
     (if tc_offset c + tc_submitted c = submittedOffset \<and> tc_submitted c < length (tc_data c)
      then Some c else nextTransmitChunk submittedOffset cs)"

definition advance_chunk :: "nat \<Rightarrow> nat \<Rightarrow> tx_chunk list \<Rightarrow> tx_chunk list" where
  "advance_chunk off n cs =
     map (\<lambda>c. if tc_offset c = off then c\<lparr>tc_submitted := tc_submitted c + n\<rparr> else c) cs"

text \<open>\<open>chunk->submitted += accepted\<close> after the call: undefined if a callback removed the
  chunk meanwhile.\<close>

definition chunk_accepted :: "tx_chunk \<Rightarrow> nat \<Rightarrow> ('w, unit) cact" where
  "chunk_accepted c n = bindA (gets (\<lambda>s. txChunks (proto s))) (\<lambda>cs.
     if tc_offset c \<notin> tc_offset ` set cs then throw Undefined
     else modProto (\<lambda>p. p\<lparr>txChunks := advance_chunk (tc_offset c) n (txChunks p),
                          txSubmittedOffset := txSubmittedOffset p + n\<rparr>))"

text \<open>The result is what was written to the output, empty for 0.\<close>

definition writeOnePacket :: "'w quic_env \<Rightarrow> nat \<Rightarrow> timestamp \<Rightarrow> bool \<Rightarrow> ('w, bytes) cact" where
  "writeOnePacket E outputSize ts padToDatagramSize =
     bindA (gets proto) (\<lambda>p.
     bindA
       (if proto_hasPendingWrite p then
          (let chunk = nextTransmitChunk (txSubmittedOffset p) (txChunks p);
               remaining = (case chunk of None \<Rightarrow> 0 | Some c \<Rightarrow> length (tc_data c) - tc_submitted c);
               sendingFin = (txFinRequested p \<and> \<not> txFinSubmitted p \<and>
                 (txSubmittedOffset p = txNextOffset p \<or>
                  (chunk \<noteq> None \<and> txSubmittedOffset p + remaining = txNextOffset p)));
               data = map_option (\<lambda>c. drop (tc_submitted c) (tc_data c)) chunk
           in bindA (gets (\<lambda>s. q_write_stream E outputSize
                  \<lparr>sf_padding = padToDatagramSize, sf_fin = sendingFin\<rparr> (txStreamID p) data ts (world s)))
                (\<lambda>call. bindA (run_ng (callbacks E) call) (\<lambda>(written, accepted).
                  case written of
                    Inl e \<Rightarrow>
                      if e = NGTCP2_ERR_STREAM_DATA_BLOCKED \<or> e = NGTCP2_ERR_STREAM_SHUT_WR \<or>
                         e = NGTCP2_ERR_STREAM_ID_BLOCKED
                      then ret None
                      else throw (RuntimeError (''ngtcp2_conn_write_stream: '' @ q_strerror E e))
                  | Inr out \<Rightarrow>
                      bindA (case chunk of
                               Some c \<Rightarrow> whenA (accepted > 0) (chunk_accepted c (nat accepted))
                             | None \<Rightarrow> ret ()) (\<lambda>_.
                      bindA (modProto (\<lambda>p.
                               if sendingFin \<and> out \<noteq> [] \<and> txSubmittedOffset p = txNextOffset p \<and> accepted \<ge> 0
                               then p\<lparr>txFinSubmitted := True\<rparr> else p)) (\<lambda>_.
                        ret (Some out))))))
        else
          bindA (gets (\<lambda>s. q_write_pkt E outputSize ts (world s))) (\<lambda>call.
          bindA (run_ng (callbacks E) call) (\<lambda>written.
            case written of
              Inl e \<Rightarrow> throw (RuntimeError (''ngtcp2_conn_write_pkt: '' @ q_strerror E e))
            | Inr out \<Rightarrow> ret (Some out))))
       (\<lambda>r. case r of
              None \<Rightarrow> ret []
            | Some out \<Rightarrow>
                bindA (whenA (out \<noteq> [] \<and> padToDatagramSize)
                   (modProto (\<lambda>p. p\<lparr>aggregatePacketCount := aggregatePacketCount p + 1\<rparr>)))
                  (\<lambda>_. ret out)))"

definition writeAggregatePacketCallback :: "'w quic_env \<Rightarrow> nat \<Rightarrow> timestamp \<Rightarrow> 'w cb" where
  "writeAggregatePacketCallback E outputSize ts =
     catchA (bindA (writeOnePacket E outputSize ts True) (\<lambda>out. ret (Inr out)))
       (\<lambda>e. if e = Undefined then throw e
            else bindA (modProto (\<lambda>p. p\<lparr>aggregateWriteError := what e\<rparr>)) (\<lambda>_. cb_fail))"

definition aggregate_callbacks :: "'w quic_env \<Rightarrow> callback \<Rightarrow> 'w cb" where
  "aggregate_callbacks E cb =
     (case cb of CbWritePacket n ts \<Rightarrow> writeAggregatePacketCallback E n ts | _ \<Rightarrow> callbacks E cb)"

section \<open>Handing datagrams to the transport\<close>

datatype send_outcome = OutcomeComplete | OutcomeBlocked

definition sendTransportOnce :: "'w quic_env \<Rightarrow> bytes \<Rightarrow> nat \<Rightarrow> bool \<Rightarrow> ('w, send_result) cact" where
  "sendTransportOnce E data segmentSize aggregate =
     bindA (withIo (if aggregate
                    then binding_sendAggregate (q_juice E) data (min segmentSize (length data))
                    else binding_send (q_juice E) data)) (\<lambda>result.
     bindA (whenA (sentSize result \<noteq> 0 \<or> status result = TooLarge)
             (bindA (getCurrentTimestampNS E) (\<lambda>ts. extern (\<lambda>w. ((), q_update_pkt_tx_time E ts w)))))
       (\<lambda>_. ret result))"

definition scheduleSendRetry :: "'w quic_env \<Rightarrow> ('w, unit) cact" where
  "scheduleSendRetry E = bindA (getCurrentTimestampNS E) (\<lambda>ts.
     modify (\<lambda>s. s\<lparr>sendRetryExpiry := ts + kSendRetryDelayNS\<rparr>))"

definition clearSendRetry :: "('w, unit) cact" where
  "clearSendRetry = modify (\<lambda>s. s\<lparr>sendRetryExpiry := InfiniteTimestamp\<rparr>)"

definition dropTooLarge :: "('w, unit) cact" where
  "dropTooLarge = modify (\<lambda>s. s\<lparr>tooLargeSendDrops := tooLargeSendDrops s + 1\<rparr>)"

definition retainPendingTransportSend ::
  "'w quic_env \<Rightarrow> bytes \<Rightarrow> nat \<Rightarrow> nat \<Rightarrow> nat \<Rightarrow> bool \<Rightarrow> ('w, unit) cact" where
  "retainPendingTransportSend E data sent segmentSize packetCount aggregate =
     bindA (gets pendingSend) (\<lambda>ps.
       if ps_hasRemainingData ps
       then throw (LogicError ''QUIC transport send is already pending'')
       else if sent \<ge> length data
       then throw (LogicError ''blocked QUIC transport send has no pending bytes'')
       else if aggregate \<and> sent \<noteq> 0 \<and> segmentSize = 0 then throw Undefined
       else if aggregate \<and> sent \<noteq> 0 \<and> sent mod segmentSize \<noteq> 0
       then throw (RuntimeError ''libjuice aggregate send reported non-segment-aligned progress'')
       else blockA
         [modify (\<lambda>s. s\<lparr>pendingSend := \<lparr>ps_data = drop sent data, ps_offset = 0,
            ps_segmentSize = segmentSize, ps_packetCount = packetCount,
            ps_logicalBytes = length data, ps_aggregate = aggregate\<rparr>\<rparr>),
          scheduleSendRetry E])"

definition sendTransportBuffer ::
  "'w quic_env \<Rightarrow> bytes \<Rightarrow> nat \<Rightarrow> nat \<Rightarrow> bool \<Rightarrow> ('w, send_outcome) cact" where
  "sendTransportBuffer E data segmentSize packetCount aggregate =
     bindA (gets pendingSend) (\<lambda>ps.
       if ps_hasRemainingData ps
       then throw (LogicError ''new QUIC transport send started while retry data is pending'')
       else bindA (sendTransportOnce E data segmentSize aggregate) (\<lambda>result.
         case status result of
           Complete \<Rightarrow> bindA clearSendRetry (\<lambda>_. ret OutcomeComplete)
         | TooLarge \<Rightarrow> bindA (blockA [dropTooLarge, clearSendRetry]) (\<lambda>_. ret OutcomeComplete)
         | Blocked \<Rightarrow>
             bindA (retainPendingTransportSend E data (sentSize result) segmentSize packetCount aggregate)
               (\<lambda>_. ret OutcomeBlocked)))"

definition flushPendingTransportSend :: "'w quic_env \<Rightarrow> ('w, send_outcome) cact" where
  "flushPendingTransportSend E = bindA (gets pendingSend) (\<lambda>ps.
     if \<not> ps_hasRemainingData ps then ret OutcomeComplete
     else bindA (sendTransportOnce E (drop (ps_offset ps) (ps_data ps)) (ps_segmentSize ps) (ps_aggregate ps))
       (\<lambda>result.
     bindA (modify (\<lambda>s. s\<lparr>pendingSend := (pendingSend s)\<lparr>ps_offset := ps_offset (pendingSend s) + sentSize result\<rparr>\<rparr>))
       (\<lambda>_.
     bindA (gets pendingSend) (\<lambda>ps'.
       if status result = TooLarge then
         bindA (blockA [dropTooLarge, modify (\<lambda>s. s\<lparr>pendingSend := ps_clear\<rparr>), clearSendRetry])
           (\<lambda>_. ret OutcomeComplete)
       else if status result = Complete then
         (if ps_hasRemainingData ps'
          then throw (RuntimeError ''libjuice completed a QUIC retry with pending bytes remaining'')
          else bindA (blockA [modify (\<lambda>s. s\<lparr>pendingSend := ps_clear\<rparr>), clearSendRetry])
                 (\<lambda>_. ret OutcomeComplete))
       else if \<not> ps_hasRemainingData ps'
       then throw (RuntimeError ''libjuice blocked a QUIC retry after reporting all bytes sent'')
       else bindA (scheduleSendRetry E) (\<lambda>_. ret OutcomeBlocked)))))"

section \<open>The flush loop\<close>

text \<open>The loop without aggregation; the argument is how many of the \<open>kMaxPacketsPerFlush\<close>
  packets are left, the result whether the budget is used up.\<close>

primrec flushSingle :: "'w quic_env \<Rightarrow> nat \<Rightarrow> ('w, bool) cact" where
  "flushSingle E 0 = ret True"
| "flushSingle E (Suc left) =
     bindA (getCurrentTimestampNS E) (\<lambda>ts.
     bindA (writeOnePacket E kSendBufferPayloadSize ts False) (\<lambda>out.
       if out = [] then ret False
       else bindA (sendTransportBuffer E out (length out) 1 False) (\<lambda>outcome.
         case outcome of
           OutcomeBlocked \<Rightarrow> ret False
         | OutcomeComplete \<Rightarrow> flushSingle E left)))"

text \<open>One round of the loop with aggregation: what the loop does next.\<close>

datatype round = RoundBreak | RoundBlocked | RoundSent nat

definition aggregateRound :: "'w quic_env \<Rightarrow> nat \<Rightarrow> ('w, round) cact" where
  "aggregateRound E batchIndex =
     bindA (getCurrentTimestampNS E) (\<lambda>ts.
     bindA (gets (\<lambda>s. aggregatePacketCount (proto s))) (\<lambda>packetsBefore.
     bindA (modProto (\<lambda>p. p\<lparr>aggregateWriteError := ''''\<rparr>)) (\<lambda>_.
     bindA (gets (\<lambda>s. q_write_aggregate E kSendBufferPayloadSize (kMaxPacketsPerFlush - batchIndex) ts (world s)))
       (\<lambda>call.
     bindA (run_ng (aggregate_callbacks E) call) (\<lambda>(written, segmentSize).
     bindA (gets proto) (\<lambda>p.
       case written of
         Inl e \<Rightarrow>
           if aggregateWriteError p \<noteq> [] then throw (RuntimeError (aggregateWriteError p))
           else throw (RuntimeError (''ngtcp2_conn_write_aggregate_pkt2: '' @ q_strerror E e))
       | Inr out \<Rightarrow>
           (let packetCount = aggregatePacketCount p - packetsBefore in
            if out = [] \<or> packetCount = 0 then ret RoundBreak
            else bindA (sendTransportBuffer E out (if segmentSize = 0 then length out else segmentSize)
                          packetCount True)
                   (\<lambda>outcome. case outcome of
                       OutcomeBlocked \<Rightarrow> ret RoundBlocked
                     | OutcomeComplete \<Rightarrow> ret (RoundSent packetCount)))))))))"

lemma aggregateRound_sent:
  assumes "aggregateRound E i s = (Inr (RoundSent n), s')"
  shows "0 < n"
  using assms unfolding aggregateRound_def
  by (auto simp: act_simps Let_def split: prod.splits sum.splits if_splits send_outcome.splits)

text \<open>The loop with aggregation. Every round that goes on has sent at least one packet, so the
  loop ends.\<close>

function flushAggregate :: "'w quic_env \<Rightarrow> nat \<Rightarrow> ('w, bool) cact" where
  "flushAggregate E batchIndex s =
     (if batchIndex < kMaxPacketsPerFlush then
        (case aggregateRound E batchIndex s of
           (Inl e, s') \<Rightarrow> (Inl e, s')
         | (Inr r, s') \<Rightarrow>
             (case r of
                RoundBreak \<Rightarrow> (Inr (batchIndex \<ge> kMaxPacketsPerFlush), s')
              | RoundBlocked \<Rightarrow> (Inr False, s')
              | RoundSent packetCount \<Rightarrow> flushAggregate E (batchIndex + packetCount) s'))
      else (Inr (batchIndex \<ge> kMaxPacketsPerFlush), s))"
  by pat_completeness auto
termination
  by (relation "measure (\<lambda>(E, i, s). kMaxPacketsPerFlush - i)") (auto dest: aggregateRound_sent [OF sym])

declare flushAggregate.simps [simp del]

definition flushPackets :: "'w quic_env \<Rightarrow> ('w, bool) cact" where
  "flushPackets E = bindA (gets proto) (\<lambda>p.
     if \<not> hasConn p then ret False
     else bindA (flushPendingTransportSend E) (\<lambda>outcome.
       if outcome = OutcomeBlocked then ret False
       else bindA (gets aggregatePackets) (\<lambda>aggregate.
         if \<not> aggregate then flushSingle E kMaxPacketsPerFlush else flushAggregate E 0)))"

end
