(* ===== verification/Connection_Handlers.thy ===== *)
theory Connection_Handlers
  imports Connection_Send
begin

text \<open>
  The handlers of a connection (\<open>native/quic/Connection.cpp\<close>): transport set-up, one handler
  per operation type, the worker's processing loop, and the functions the application and the
  datapath call.
\<close>

section \<open>Setting up the transport\<close>

definition kALPN :: string where "kALPN = ''ffl-p2p/1''"
definition kServerName :: string where "kServerName = ''ffl-p2p''"
definition kCIDLength :: nat where "kCIDLength = 18"
definition kInitialMaxData :: nat where "kInitialMaxData = 64 * 1024 * 1024"
definition kInitialMaxStreamData :: nat where "kInitialMaxStreamData = 16 * 1024 * 1024"

definition checkGnuTLS :: "'w quic_env \<Rightarrow> int \<Rightarrow> string \<Rightarrow> ('w, unit) cact" where
  "checkGnuTLS E result oper =
     (if result < 0 then throw (RuntimeError (oper @ '': '' @ q_tls_strerror E result)) else ret ())"

definition checkNgtcp2 :: "'w quic_env \<Rightarrow> ng_code \<Rightarrow> string \<Rightarrow> ('w, unit) cact" where
  "checkNgtcp2 E result oper =
     (if result = Inr 0 then ret ()
      else throw (RuntimeError (oper @ '': '' @ q_strerror E
             (case result of Inl e \<Rightarrow> e | Inr n \<Rightarrow> NgError (int n)))))"

definition tlsChecked :: "'w quic_env \<Rightarrow> tls_call \<Rightarrow> string \<Rightarrow> ('w, unit) cact" where
  "tlsChecked E call oper = bindA (extern (q_tls E call)) (\<lambda>r. checkGnuTLS E r oper)"

definition ensureGnuTLS :: "'w quic_env \<Rightarrow> ('w, unit) cact" where
  "ensureGnuTLS E = bindA (gets gnutlsReady) (\<lambda>ready.
     if ready then ret ()
     else bindA (extern (q_tls E TlsGlobalInit)) (\<lambda>r.
       if r < 0 then throw (RuntimeError (''gnutls_global_init: '' @ q_tls_strerror E r))
       else modify (\<lambda>s. s\<lparr>gnutlsReady := True\<rparr>)))"

definition generateRandomCID :: "'w quic_env \<Rightarrow> ('w, bytes) cact" where
  "generateRandomCID E = bindA (extern (q_random E kCIDLength)) (\<lambda>(r, cid).
     bindA (checkGnuTLS E r ''gnutls_rnd(cid)'') (\<lambda>_. ret cid))"

definition initializeFixedPath :: "('w, unit) cact" where
  "initializeFixedPath = modProto (\<lambda>p. p\<lparr>
     localPort := Some (if server p then 4434 else 4433),
     peerPort := Some (if server p then 4433 else 4434)\<rparr>)"

definition initializeTLS :: "'w quic_env \<Rightarrow> string \<Rightarrow> string option \<Rightarrow> ('w, unit) cact" where
  "initializeTLS E certPEM keyPEM = bindA (gets (\<lambda>s. server (proto s))) (\<lambda>srv. blockA
     [ensureGnuTLS E,
      tlsChecked E TlsAllocateCredentials ''gnutls_certificate_allocate_credentials'',
      modProto (\<lambda>p. p\<lparr>hasCredentials := True\<rparr>),
      (if srv then
         (case keyPEM of
            None \<Rightarrow> throw (RuntimeError ''server private key is missing'')
          | Some key \<Rightarrow> tlsChecked E (TlsSetX509KeyMem certPEM key) ''gnutls_certificate_set_x509_key_mem'')
       else bindA (extern (q_tls E (TlsSetX509TrustMem certPEM))) (\<lambda>added.
         if added \<le> 0 then throw (RuntimeError ''failed to install pinned QUIC certificate'') else ret ())),
      tlsChecked E (TlsInit srv srv) ''gnutls_init'',
      modProto (\<lambda>p. p\<lparr>hasTls := True\<rparr>),
      tlsChecked E (TlsPrioritySetDirect ''%DISABLE_TLS13_COMPAT_MODE:NORMAL:-VERS-ALL:+VERS-TLS1.3'')
        ''gnutls_priority_set_direct'',
      bindA (extern (q_tls E (if srv then TlsConfigureServerSession else TlsConfigureClientSession))) (\<lambda>r.
        if r \<noteq> 0 then throw (RuntimeError ''ngtcp2_crypto_gnutls_configure_*_session failed'') else ret ()),
      bindA (extern (q_tls E TlsSetSessionPtr)) (\<lambda>_. ret ()),
      tlsChecked E TlsCredentialsSet ''gnutls_credentials_set'',
      tlsChecked E (TlsAlpnSetProtocols kALPN srv) ''gnutls_alpn_set_protocols'',
      whenA (\<not> srv) (blockA
        [tlsChecked E (TlsServerNameSet kServerName) ''gnutls_server_name_set'',
         bindA (extern (q_tls E (TlsSetVerifyCert kServerName))) (\<lambda>_. ret ())])])"

definition initializeQUIC :: "'w quic_env \<Rightarrow> bytes \<Rightarrow> bytes \<Rightarrow> bytes option \<Rightarrow> ('w, unit) cact" where
  "initializeQUIC E dcid scid originalDCID = bindA (getCurrentTimestampNS E) (\<lambda>ts.
     bindA (gets proto) (\<lambda>p.
     bindA (extern (q_conn_new E (server p) dcid scid
        \<lparr>initial_ts = ts, initial_max_data = kInitialMaxData,
         initial_max_stream_data_bidi_local = kInitialMaxStreamData,
         initial_max_stream_data_bidi_remote = kInitialMaxStreamData,
         initial_max_stream_data_uni = kInitialMaxStreamData,
         initial_max_streams_bidi = 4, initial_max_streams_uni = 2,
         original_dcid = (if server p then originalDCID else None),
         path_ports = (localPort p, peerPort p)\<rparr>)) (\<lambda>result. blockA
       [whenA (result = Inr 0) (modProto (\<lambda>p. p\<lparr>hasConn := True\<rparr>)),
        checkNgtcp2 E result (if server p then ''ngtcp2_conn_server_new'' else ''ngtcp2_conn_client_new''),
        extern (\<lambda>w. ((), q_set_tls_native_handle E w))])))"

definition initializeClient :: "'w quic_env \<Rightarrow> ('w, unit) cact" where
  "initializeClient E = bindA (gets certificatePEM) (\<lambda>cert.
     if cert = [] then throw (RuntimeError ''client requires the pinned QUIC certificate'')
     else blockA
       [modProto (\<lambda>p. p\<lparr>server := False\<rparr>),
        initializeFixedPath,
        initializeTLS E cert None,
        bindA (generateRandomCID E) (\<lambda>dcid. bindA (generateRandomCID E) (\<lambda>scid.
          initializeQUIC E dcid scid None))])"

definition initializeServer :: "'w quic_env \<Rightarrow> bytes \<Rightarrow> ('w, unit) cact" where
  "initializeServer E initialPacket = bindA (gets certificatePEM) (\<lambda>cert.
     bindA (gets privateKeyPEM) (\<lambda>key.
     if cert = [] \<or> key = [] then throw (RuntimeError ''server QUIC credentials are unavailable'')
     else blockA
       [modProto (\<lambda>p. p\<lparr>server := True\<rparr>),
        initializeFixedPath,
        (case q_decode_version_cid E initialPacket of
           (decodeResult, v) \<Rightarrow>
             if decodeResult \<noteq> Inr 0 \<or> \<not> vc_version1 v \<or>
                length (vc_dcid v) = 0 \<or> length (vc_dcid v) > q_max_cidlen E \<or>
                length (vc_scid v) = 0 \<or> length (vc_scid v) > q_max_cidlen E
             then throw (RuntimeError ''invalid QUIC Initial packet'')
             else bindA (generateRandomCID E) (\<lambda>scid. blockA
               [initializeTLS E cert (Some key),
                initializeQUIC E (vc_scid v) scid (Some (vc_dcid v))]))]))"

text \<open>The release functions return nothing that is checked.\<close>

definition releaseTransport :: "'w quic_env \<Rightarrow> ('w, unit) cact" where
  "releaseTransport E = bindA (gets proto) (\<lambda>p. blockA
     [whenA (hasConn p) (blockA
        [extern (\<lambda>w. ((), q_conn_del E w)), modProto (\<lambda>p. p\<lparr>hasConn := False\<rparr>)]),
      whenA (hasTls p) (blockA
        [extern (\<lambda>w. ((), q_tls_release E w)), modProto (\<lambda>p. p\<lparr>hasTls := False\<rparr>)]),
      whenA (hasCredentials p) (blockA
        [extern (\<lambda>w. ((), q_credentials_release E w)), modProto (\<lambda>p. p\<lparr>hasCredentials := False\<rparr>)])])"

definition feedPacket :: "'w quic_env \<Rightarrow> bytes \<Rightarrow> ('w, unit) cact" where
  "feedPacket E packet = blockA
     [bindA (gets (\<lambda>s. hasConn (proto s))) (\<lambda>has. bindA (gets role_of) (\<lambda>r.
        whenA (\<not> has)
          (if r \<noteq> Server then throw (RuntimeError ''client QUIC connection is not initialized'')
           else initializeServer E packet))),
      bindA (getCurrentTimestampNS E) (\<lambda>ts.
      bindA (gets (\<lambda>s. q_read_pkt E (localPort (proto s), peerPort (proto s)) packet ts (world s))) (\<lambda>call.
      bindA (run_ng (callbacks E) call) (\<lambda>result.
        case result of
          Inl e \<Rightarrow> throw (RuntimeError (''ngtcp2_conn_read_pkt: '' @ q_strerror E e))
        | Inr _ \<Rightarrow> ret ())))]"

section \<open>The datapath's side\<close>

definition queueReceive :: "span \<Rightarrow> ('w, unit) cact" where
  "queueReceive data = bindA (gets stopped) (\<lambda>st.
     if span_is_null data \<or> span_size data = 0 \<or> st then ret ()
     else bindA (zoomA receiveBatch (\<lambda>b s. s\<lparr>receiveBatch := b\<rparr>) (packets_append data)) (\<lambda>_.
     bindA (gets receiveOperationPending) (\<lambda>pending.
       whenA (\<not> pending) (blockA
         [modify (\<lambda>s. s\<lparr>receiveOperationPending := True\<rparr>),
          queueInternalOperation FlushRecv]))))"

text \<open>\<open>JuiceBinding::onReceive\<close>, the sink the agent calls.\<close>

definition binding_onReceive :: "span \<Rightarrow> ('w, unit) cact" where
  "binding_onReceive data = bindA (gets (\<lambda>s. bconnection (io_binding (io s)))) (\<lambda>c.
     case c of None \<Rightarrow> ret () | Some _ \<Rightarrow> queueReceive data)"

text \<open>Deliveries of other threads; an exception ends in the thread that delivers.\<close>

definition arrive :: "span list \<Rightarrow> ('w, unit) cact" where
  "arrive ds = blockA (map (\<lambda>d. catchA (queueReceive d) (\<lambda>_. ret ())) ds)"

section \<open>One handler per operation\<close>

definition processStart :: "'w quic_env \<Rightarrow> ('w, unit) cact" where
  "processStart E = bindA (gets started) (\<lambda>was.
     bindA (modify (\<lambda>s. s\<lparr>started := True\<rparr>)) (\<lambda>_.
     if was then throw (RuntimeError ''QUIC runtime was started more than once'')
     else blockA
       [bindA (gets role_of) (\<lambda>r. whenA (r = Client) (blockA [initializeClient E, queueSendFlush])),
        notifyApplication]))"

text \<open>The stream a first send uses.\<close>

definition chooseStream :: "'w quic_env \<Rightarrow> ('w, unit) cact" where
  "chooseStream E = bindA (gets proto) (\<lambda>p.
     whenA (txStreamID p < 0)
       (if server p then
          (if rxStreamID p < 0 then throw (RuntimeError ''server has not received a client stream yet'')
           else modProto (\<lambda>p. p\<lparr>txStreamID := rxStreamID p\<rparr>))
        else bindA (extern (q_open_bidi_stream E)) (\<lambda>(result, streamID).
          if result = Inl NGTCP2_ERR_STREAM_ID_BLOCKED
          then throw (RuntimeError ''QUIC bidirectional stream is not available yet'')
          else blockA
            [checkNgtcp2 E result ''ngtcp2_conn_open_bidi_stream'',
             modProto (\<lambda>p. p\<lparr>txStreamID := streamID\<rparr>)])))"

definition add_chunk :: "bytes \<Rightarrow> proto \<Rightarrow> proto" where
  "add_chunk data p = p\<lparr>
     txChunks := txChunks p @ [\<lparr>tc_offset = txNextOffset p, tc_data = data, tc_submitted = 0\<rparr>],
     txNextOffset := txNextOffset p + length data\<rparr>"

definition processSend :: "'w quic_env \<Rightarrow> operation \<Rightarrow> ('w, unit) cact" where
  "processSend E oper = bindA (gets proto) (\<lambda>p.
     if \<not> hasConn p then throw (RuntimeError ''QUIC connection is not initialized'')
     else if txFinRequested p then throw (RuntimeError ''QUIC stream send side is already finishing'')
     else blockA
       [chooseStream E,
        whenA (op_data oper \<noteq> []) (modProto (add_chunk (op_data oper))),
        whenA (op_fin oper) (modProto (\<lambda>p. p\<lparr>txFinRequested := True\<rparr>)),
        queueSendFlush,
        publishApplicationState])"

definition processReceive :: "'w quic_env \<Rightarrow> ('w, unit) cact" where
  "processReceive E = bindA (gets receiveBatch) (\<lambda>batch. blockA
     [modify (\<lambda>s. s\<lparr>receiveBatch := [], receiveOperationPending := False\<rparr>),
      whenA (batch \<noteq> []) (blockA [blockA (map (feedPacket E) batch), queueSendFlush]),
      bindA (extern (q_arrivals E)) arrive,
      bindA (gets (\<lambda>s. receiveBatch s \<noteq> [] \<and> \<not> receiveOperationPending s)) (\<lambda>again.
        whenA again (blockA
          [modify (\<lambda>s. s\<lparr>receiveOperationPending := True\<rparr>),
           queueInternalOperation FlushRecv]))])"

definition processStreamReceive :: "('w, unit) cact" where
  "processStreamReceive = bindA assertWorkerOwner (\<lambda>_.
     bindA (gets streamReceiveBatch) (\<lambda>batch.
     bindA (gets peerFinishedPending) (\<lambda>publishPeerFinished.
     bindA (modify (\<lambda>s. s\<lparr>streamReceiveBatch := [], peerFinishedPending := False\<rparr>)) (\<lambda>_.
       if batch = [] \<and> \<not> publishPeerFinished then ret ()
       else modApp (\<lambda>a. bumpGeneration (a\<lparr>
         appReceiveBatch := appReceiveBatch a @ batch,
         appPeerFinished := (if publishPeerFinished then True else appPeerFinished a)\<rparr>))))))"

definition processReleaseStreamReceiveCredit :: "'w quic_env \<Rightarrow> ('w, unit) cact" where
  "processReleaseStreamReceiveCredit E = bindA assertWorkerOwner (\<lambda>_.
     bindA (gets releasableStreamReceiveBytes) (\<lambda>releasedBytes.
     bindA (modify (\<lambda>s. s\<lparr>releasableStreamReceiveBytes := 0\<rparr>)) (\<lambda>_.
     bindA (gets proto) (\<lambda>p.
       if releasedBytes = 0 \<or> \<not> hasConn p \<or> rxStreamID p < 0 then ret ()
       else bindA (extern (q_extend_max_stream_offset E (rxStreamID p) releasedBytes)) (\<lambda>r.
         if r \<noteq> Inr 0 then throw (RuntimeError ''QUIC stream receive credit could not be extended'')
         else blockA
           [extern (\<lambda>w. ((), q_extend_max_offset E releasedBytes w)),
            queueSendFlush])))))"

definition processSendFlush :: "'w quic_env \<Rightarrow> ('w, unit) cact" where
  "processSendFlush E = bindA (gets proto) (\<lambda>p.
     if \<not> hasConn p then ret ()
     else bindA (flushPackets E) (\<lambda>budgetExhausted. whenA budgetExhausted queueSendFlush))"

definition processTimer :: "'w quic_env \<Rightarrow> ('w, unit) cact" where
  "processTimer E = bindA (getCurrentTimestampNS E) (\<lambda>ts.
     bindA (gets (\<lambda>s. sendRetryExpiry s \<le> ts)) (\<lambda>retryDue.
     bindA (whenA retryDue clearSendRetry) (\<lambda>_.
     bindA (gets (\<lambda>s. hasConn (proto s) \<and> q_get_expiry E (world s) \<le> ts)) (\<lambda>expired.
     bindA (whenA expired
       (bindA (gets (\<lambda>s. q_handle_expiry E ts (world s))) (\<lambda>call.
        bindA (run_ng (callbacks E) call) (\<lambda>result.
          case result of
            Inl e \<Rightarrow>
              if e = NGTCP2_ERR_IDLE_CLOSE then throw (RuntimeError ''QUIC idle timeout'')
              else throw (RuntimeError (''ngtcp2_conn_handle_expiry: '' @ q_strerror E e))
          | Inr _ \<Rightarrow> ret ())))) (\<lambda>_.
       whenA (retryDue \<or> expired) queueSendFlush)))))"

definition processShutdown :: "'w quic_env \<Rightarrow> ('w, unit) cact" where
  "processShutdown E = blockA
     [publishApplicationState,
      releaseTransport E,
      modify (\<lambda>s. s\<lparr>stopped := True\<rparr>),
      notifyApplication]"

definition processOperation :: "'w quic_env \<Rightarrow> operation \<Rightarrow> ('w, unit) cact" where
  "processOperation E oper =
     (case op_type oper of
        APIStart \<Rightarrow> processStart E
      | APISend \<Rightarrow> processSend E oper
      | FlushRecv \<Rightarrow> processReceive E
      | FlushStreamRecv \<Rightarrow> blockA
          [modify (\<lambda>s. s\<lparr>streamReceiveOperationPending := False\<rparr>), processStreamReceive]
      | FlushSend \<Rightarrow> blockA [modify (\<lambda>s. s\<lparr>sendOperationPending := False\<rparr>), processSendFlush E]
      | TimerExpired \<Rightarrow> processTimer E
      | Shutdown \<Rightarrow> processShutdown E
      | ReleaseStreamRecvCredit \<Rightarrow> processReleaseStreamReceiveCredit E)"

end
