(* ===== verification/Connection_API.thy ===== *)
theory Connection_API
  imports Connection_Handlers
begin

text \<open>
  The entry points of a connection (\<open>native/quic/Connection.cpp\<close>): the worker's contract
  (begin, process, finish, timer, expiry, failure) and the functions the application calls. A
  call that blocks on a completion is two steps, the request and what follows the wait, with the
  worker's steps between them.
\<close>

section \<open>The worker's contract\<close>

definition beginWorkerProcessing :: "('w, unit) cact" where
  "beginWorkerProcessing = blockA
     [assertWorkerOwner, modify (\<lambda>s. s\<lparr>scheduleState := Processing\<rparr>)]"

text \<open>The handler of the \<open>catch\<close> clause; undefined behaviour is not an exception.\<close>

definition failOperation :: "'w quic_env \<Rightarrow> operation \<Rightarrow> exn \<Rightarrow> ('w, bool) cact" where
  "failOperation E oper e =
     (if e = Undefined then throw Undefined
      else bindA (blockA
        [completeOperation oper (what e),
         setError (what e),
         releaseTransport E,
         modify (\<lambda>s. s\<lparr>stopped := True\<rparr>),
         drainFailedOperations (what e)]) (\<lambda>_. ret False))"

text \<open>The \<open>try\<close> statement: whether the operation ended normally.\<close>

definition tryOperation :: "'w quic_env \<Rightarrow> operation \<Rightarrow> ('w, bool) cact" where
  "tryOperation E oper = catchA
     (bindA (blockA [processOperation E oper, completeOperation oper '''']) (\<lambda>_. ret True))
     (failOperation E oper)"

text \<open>One round of the loop and how it ends.\<close>

datatype loop_next = LoopEmpty | LoopFailed | LoopStopped | LoopNext

definition processNext :: "'w quic_env \<Rightarrow> ('w, loop_next) cact" where
  "processNext E =
     bindA (gets (\<lambda>s. queue_pop (operationQueue s))) (\<lambda>popped.
       case popped of
         None \<Rightarrow> ret LoopEmpty
       | Some (oper, q) \<Rightarrow>
           bindA (modify (\<lambda>s. s\<lparr>operationQueue := q\<rparr>)) (\<lambda>_.
           bindA (tryOperation E oper) (\<lambda>ok.
             if \<not> ok then ret LoopFailed
             else bindA (gets stopped) (\<lambda>st.
               if st then bindA (drainFailedOperations ''QUIC runtime is stopped'') (\<lambda>_. ret LoopStopped)
               else ret LoopNext))))"

text \<open>The loop; the first number is what is left of \<open>maxOperations\<close>, the second is
  \<open>processed\<close>, which does not count the operation that failed.\<close>

primrec processLoop :: "'w quic_env \<Rightarrow> nat \<Rightarrow> nat \<Rightarrow> ('w, nat) cact" where
  "processLoop E 0 processed = ret processed"
| "processLoop E (Suc left) processed = bindA (processNext E) (\<lambda>r.
     case r of
       LoopEmpty \<Rightarrow> ret processed
     | LoopFailed \<Rightarrow> ret processed
     | LoopStopped \<Rightarrow> ret (processed + 1)
     | LoopNext \<Rightarrow> processLoop E left (processed + 1))"

definition processOperations :: "'w quic_env \<Rightarrow> nat \<Rightarrow> ('w, nat) cact" where
  "processOperations E maxOperations = bindA assertWorkerOwner (\<lambda>_.
     bindA (processLoop E maxOperations 0) (\<lambda>processed.
     bindA publishApplicationState (\<lambda>_. ret processed)))"

definition finishWorkerProcessing :: "('w, unit) cact" where
  "finishWorkerProcessing = blockA
     [assertWorkerOwner,
      modify (\<lambda>s. s\<lparr>scheduleState := Idle\<rparr>),
      bindA (gets (\<lambda>s. queue_empty (operationQueue s))) (\<lambda>empty. whenA (\<not> empty) scheduleIfIdle)]"

definition queueTimerExpired :: "('w, unit) cact" where
  "queueTimerExpired = bindA (gets stopped) (\<lambda>st. whenA (\<not> st) (queueInternalOperation TimerExpired))"

definition getNextExpiry :: "'w quic_env \<Rightarrow> ('w, timestamp) cact" where
  "getNextExpiry E = bindA assertWorkerOwner (\<lambda>_. gets (\<lambda>s.
     if stopped s then InfiniteTimestamp
     else min (if hasConn (proto s) then q_get_expiry E (world s) else InfiniteTimestamp) (sendRetryExpiry s)))"

definition failFromRuntime :: "'w quic_env \<Rightarrow> string \<Rightarrow> ('w, unit) cact" where
  "failFromRuntime E message = blockA
     [assertWorkerOwner,
      setError message,
      releaseTransport E,
      modify (\<lambda>s. s\<lparr>stopped := True\<rparr>),
      drainFailedOperations message]"

section \<open>The application's calls\<close>

definition detachBinding :: "('w, unit) cact" where
  "detachBinding = bindA (gets bindingAddr) (\<lambda>self. withIo (binding_detach self))"

text \<open>\<open>std::make_shared<core::Completion>()\<close>: the number of the new object.\<close>

definition newCompletion :: "('w, nat) cact" where
  "newCompletion = bindA (gets (\<lambda>s. length (completions s))) (\<lambda>c.
     bindA (modify (\<lambda>s. s\<lparr>completions := completions s @ [completion_new]\<rparr>)) (\<lambda>_. ret c))"

text \<open>\<open>start\<close> up to the wait; the result is the completion it waits for.\<close>

definition start_request :: "nat option \<Rightarrow> bool \<Rightarrow> nat \<Rightarrow> ('w, nat) cact" where
  "start_request agent aggregate maxDatagramSize =
     (if agent = None then throw (InvalidArgument ''QUIC runtime requires an ICE agent'')
      else bindA (gets started) (\<lambda>st.
        if st then throw (RuntimeError ''QUIC runtime is already started'')
        else bindA (modify (\<lambda>s. s\<lparr>aggregatePackets := aggregate\<rparr>)) (\<lambda>_.
          bindA (withIo (modify (binding_limitDatagramSize maxDatagramSize))) (\<lambda>_.
          bindA (gets bindingAddr) (\<lambda>self.
          bindA (gets connAddr) (\<lambda>this.
          bindA (withIo (binding_attach self agent (Some this))) (\<lambda>_.
          bindA newCompletion (\<lambda>c.
          bindA (queueOperation ((operation_of APIStart)\<lparr>op_completion := Some c\<rparr>)) (\<lambda>_.
            ret c)))))))))"

text \<open>\<open>start\<close> after the wait, which has ended with the completion done or at its deadline.\<close>

definition start_finish :: "nat \<Rightarrow> ('w, unit) cact" where
  "start_finish c = bindA (gets (\<lambda>s. completion_wait False None (completions s ! c))) (\<lambda>r.
     case r of
       Returned err \<Rightarrow>
         if err \<noteq> [] then blockA [detachBinding, throw (RuntimeError err)] else ret ()
     | _ \<Rightarrow> blockA [detachBinding, throw (RuntimeError ''QUIC runtime start timed out'')])"

definition createSendOperation :: "span \<Rightarrow> bool \<Rightarrow> ('w, unit) cact" where
  "createSendOperation data fin = bindA (gets started) (\<lambda>running. bindA (gets stopped) (\<lambda>st.
     if \<not> running then throw (RuntimeError ''QUIC runtime is not started'')
     else if st then throw (RuntimeError ''QUIC runtime is stopped'')
     else if span_size data \<noteq> 0 \<and> span_is_null data
     then throw (InvalidArgument ''QUIC send data is null'')
     else blockA
       [whenA (span_size data \<noteq> 0) (modify (\<lambda>s. s\<lparr>applicationWriteOffset := applicationWriteOffset s + span_size data\<rparr>)),
        whenA fin (modify (\<lambda>s. s\<lparr>applicationFinRequested := True\<rparr>)),
        queueOperation ((operation_of APISend)\<lparr>op_fin := fin, op_data := span_bytes data\<rparr>)]))"

definition queueDataAsync :: "span \<Rightarrow> bool \<Rightarrow> ('w, unit) cact" where
  "queueDataAsync data fin = createSendOperation data fin"

text \<open>\<open>close\<close> up to the wait: the completion it waits for, if it waits.\<close>

definition close_request :: "('w, nat option) cact" where
  "close_request = bindA (gets stopped) (\<lambda>st.
     if st then bindA detachBinding (\<lambda>_. ret None)
     else bindA newCompletion (\<lambda>c.
       bindA (queueOperation ((operation_of Shutdown)\<lparr>op_completion := Some c\<rparr>)) (\<lambda>_. ret (Some c))))"

definition close_finish :: "nat \<Rightarrow> ('w, unit) cact" where
  "close_finish c = bindA (gets (\<lambda>s. completion_wait False None (completions s ! c))) (\<lambda>r.
     bindA detachBinding (\<lambda>_.
       case r of
         Returned err \<Rightarrow> if err \<noteq> [] then throw (RuntimeError err) else ret ()
       | _ \<Rightarrow> throw (RuntimeError ''QUIC runtime shutdown timed out'')))"

definition connection_destroy :: "('w, unit) cact" where
  "connection_destroy = detachBinding"

definition takeReceivedStreamData :: "('w, bytes) cact" where
  "takeReceivedStreamData = bindA (gets (\<lambda>s. appReceiveBatch (app s))) (\<lambda>batch.
     bindA (modApp (\<lambda>a. a\<lparr>appReceiveBatch := []\<rparr>)) (\<lambda>_.
     bindA (gets releasableStreamReceiveBytes) (\<lambda>bytesBefore.
     bindA (whenA (batch \<noteq> []) (blockA
       [modify (\<lambda>s. s\<lparr>releasableStreamReceiveBytes := releasableStreamReceiveBytes s + length batch\<rparr>),
        whenA (bytesBefore = 0) (queueInternalOperation ReleaseStreamRecvCredit)])) (\<lambda>_.
       ret batch))))"

text \<open>The predicate \<open>waitForChange\<close> waits for, with the generation it has read.\<close>

definition waitForChange :: "u64 \<Rightarrow> 'w conn \<Rightarrow> bool" where
  "waitForChange generation s \<longleftrightarrow> appGeneration (app s) \<noteq> generation"

definition isHandshakeComplete :: "'w conn \<Rightarrow> bool" where
  "isHandshakeComplete s = appHandshakeComplete (app s)"

definition isHandshakeConfirmed :: "'w conn \<Rightarrow> bool" where
  "isHandshakeConfirmed s = appHandshakeConfirmed (app s)"

definition isPeerFinished :: "'w conn \<Rightarrow> bool" where
  "isPeerFinished s = appPeerFinished (app s)"

definition hasPendingWrite :: "'w conn \<Rightarrow> bool" where
  "hasPendingWrite s \<longleftrightarrow> appSubmittedWriteOffset (app s) < applicationWriteOffset s \<or>
     (applicationFinRequested s \<and> \<not> appFinSubmitted (app s))"

definition getBufferedWriteBytes :: "'w conn \<Rightarrow> nat" where
  "getBufferedWriteBytes s =
     (if applicationWriteOffset s \<ge> appAckedWriteOffset (app s)
      then applicationWriteOffset s - appAckedWriteOffset (app s) else 0)"

definition isWriteAcknowledged :: "'w conn \<Rightarrow> bool" where
  "isWriteAcknowledged s =
     (if appAckedWriteOffset (app s) \<noteq> applicationWriteOffset s then False
      else \<not> applicationFinRequested s \<or> appFinAcked (app s))"

definition isStreamClosed :: "'w conn \<Rightarrow> bool" where
  "isStreamClosed s = appStreamClosed (app s)"

definition isStopped :: "'w conn \<Rightarrow> bool" where
  "isStopped s = stopped s"

definition getTooLargeSendDrops :: "'w conn \<Rightarrow> u64" where
  "getTooLargeSendDrops s = tooLargeSendDrops s"

definition getError :: "'w conn \<Rightarrow> string" where
  "getError s = appError (app s)"

end
