(* ===== verification/Connection_Inv.thy ===== *)
theory Connection_Inv
  imports Connection_API
begin

text \<open>
  How an invariant of the connection is carried along the handlers. \<open>env_respects\<close> says what
  a property may assume of the external code, relative to an observation \<open>obs\<close> of the
  external state; for invariants that assume nothing the observation is trivial. The locales
  take an invariant that is closed under the few elementary changes of the state and give its
  preservation by every composite operation; each invariant of the connection interprets them.
\<close>

section \<open>What may be assumed of the external code\<close>

fun is_write :: "callback \<Rightarrow> bool" where
  "is_write (CbWritePacket _ _) = True"
| "is_write _ = False"

text \<open>\<open>ng_tree\<close>: along a call the observation only changes in nested packet writers, every
  callback satisfies \<open>okcb\<close> at the observation of that moment, and the end relates the
  result to the observation before and after by \<open>okret\<close>.\<close>

primrec ng_tree :: "('w \<Rightarrow> 'o) \<Rightarrow> (callback \<Rightarrow> 'o \<Rightarrow> bool) \<Rightarrow> ('r \<Rightarrow> 'o \<Rightarrow> 'o \<Rightarrow> bool) \<Rightarrow>
    ('w, 'r) ng \<Rightarrow> 'o \<Rightarrow> bool" where
  "ng_tree obs okcb okret (NgReturn r w) = (\<lambda>b. okret r b (obs w))"
| "ng_tree obs okcb okret (NgCallback cb w k) = (\<lambda>b. obs w = b \<and> okcb cb b \<and>
     (\<forall>reply w'. (is_write cb \<or> obs w' = b) \<longrightarrow> ng_tree obs okcb okret (k (reply, w')) (obs w')))"

definition ret_keeps :: "'r \<Rightarrow> 'o \<Rightarrow> 'o \<Rightarrow> bool" where
  "ret_keeps r b b' \<longleftrightarrow> b' = b"

definition keeps :: "('w \<Rightarrow> 'o) \<Rightarrow> ('w \<Rightarrow> 'a \<times> 'w) \<Rightarrow> bool" where
  "keeps obs f \<longleftrightarrow> (\<forall>w. obs (snd (f w)) = obs w)"

text \<open>\<open>okw data r b b'\<close> is what \<open>ngtcp2_conn_write_stream\<close> with \<open>data\<close> and result
  \<open>r\<close> may do to the observation. \<open>extend_max_offset\<close> and
  \<open>extend_max_stream_offset\<close> are not constrained.\<close>

definition env_respects :: "'w quic_env \<Rightarrow> ('w \<Rightarrow> 'o) \<Rightarrow> (callback \<Rightarrow> 'o \<Rightarrow> bool) \<Rightarrow>
    (bytes option \<Rightarrow> ng_written \<times> int \<Rightarrow> 'o \<Rightarrow> 'o \<Rightarrow> bool) \<Rightarrow> bool" where
  "env_respects E obs okcb okw \<longleftrightarrow>
     keeps obs (q_now E) \<and> (\<forall>c. keeps obs (q_tls E c)) \<and> (\<forall>n. keeps obs (q_random E n)) \<and>
     keeps obs (\<lambda>w. ((), q_tls_release E w)) \<and> keeps obs (\<lambda>w. ((), q_credentials_release E w)) \<and>
     keeps obs (\<lambda>w. ((), q_conn_del E w)) \<and> keeps obs (\<lambda>w. ((), q_set_tls_native_handle E w)) \<and>
     (\<forall>srv d c p. keeps obs (q_conn_new E srv d c p)) \<and> keeps obs (q_open_bidi_stream E) \<and>
     (\<forall>t. keeps obs (\<lambda>w. ((), q_update_pkt_tx_time E t w))) \<and> keeps obs (q_arrivals E) \<and>
     (\<forall>a d. keeps obs (juice_send (q_juice E) a d)) \<and>
     (\<forall>a d g. keeps obs (juice_send_aggregate_progress (q_juice E) a d g)) \<and>
     (\<forall>path pk t w. ng_tree obs okcb ret_keeps (q_read_pkt E path pk t w) (obs w)) \<and>
     (\<forall>n t w. ng_tree obs okcb ret_keeps (q_write_pkt E n t w) (obs w)) \<and>
     (\<forall>n m t w. ng_tree obs okcb ret_keeps (q_write_aggregate E n m t w) (obs w)) \<and>
     (\<forall>t w. ng_tree obs okcb ret_keeps (q_handle_expiry E t w) (obs w)) \<and>
     (\<forall>n f sid d t w. ng_tree obs okcb (okw d) (q_write_stream E n f sid d t w) (obs w))"

text \<open>The part every handler relies on, and the part of the receive flush alone.\<close>

definition env_calls :: "'w quic_env \<Rightarrow> ('w \<Rightarrow> 'o) \<Rightarrow> (callback \<Rightarrow> 'o \<Rightarrow> bool) \<Rightarrow>
    (bytes option \<Rightarrow> ng_written \<times> int \<Rightarrow> 'o \<Rightarrow> 'o \<Rightarrow> bool) \<Rightarrow> bool" where
  "env_calls E obs okcb okw \<longleftrightarrow>
     keeps obs (q_now E) \<and> (\<forall>c. keeps obs (q_tls E c)) \<and> (\<forall>n. keeps obs (q_random E n)) \<and>
     keeps obs (\<lambda>w. ((), q_tls_release E w)) \<and> keeps obs (\<lambda>w. ((), q_credentials_release E w)) \<and>
     keeps obs (\<lambda>w. ((), q_conn_del E w)) \<and> keeps obs (\<lambda>w. ((), q_set_tls_native_handle E w)) \<and>
     (\<forall>srv d c p. keeps obs (q_conn_new E srv d c p)) \<and> keeps obs (q_open_bidi_stream E) \<and>
     (\<forall>t. keeps obs (\<lambda>w. ((), q_update_pkt_tx_time E t w))) \<and>
     (\<forall>a d. keeps obs (juice_send (q_juice E) a d)) \<and>
     (\<forall>a d g. keeps obs (juice_send_aggregate_progress (q_juice E) a d g)) \<and>
     (\<forall>n t w. ng_tree obs okcb ret_keeps (q_write_pkt E n t w) (obs w)) \<and>
     (\<forall>n m t w. ng_tree obs okcb ret_keeps (q_write_aggregate E n m t w) (obs w)) \<and>
     (\<forall>t w. ng_tree obs okcb ret_keeps (q_handle_expiry E t w) (obs w)) \<and>
     (\<forall>n f sid d t w. ng_tree obs okcb (okw d) (q_write_stream E n f sid d t w) (obs w))"

definition env_receives :: "'w quic_env \<Rightarrow> ('w \<Rightarrow> 'o) \<Rightarrow> (callback \<Rightarrow> 'o \<Rightarrow> bool) \<Rightarrow> bool" where
  "env_receives E obs okcb \<longleftrightarrow> keeps obs (q_arrivals E) \<and>
     (\<forall>path pk t w. ng_tree obs okcb ret_keeps (q_read_pkt E path pk t w) (obs w))"

lemma env_respects_parts:
  "env_respects E obs okcb okw \<Longrightarrow> env_calls E obs okcb okw"
  "env_respects E obs okcb okw \<Longrightarrow> env_receives E obs okcb"
  by (simp_all add: env_respects_def env_calls_def env_receives_def del: split_paired_All)

lemma ng_tree_trivial: "ng_tree (\<lambda>_. ()) (\<lambda>_ _. True) okret t ()" if "\<And>r. okret r () ()"
  using that by (induction t) auto

lemma env_respects_trivial: "env_respects E (\<lambda>_. ()) (\<lambda>_ _. True) (\<lambda>_ _ _ _. True)"
  by (simp add: env_respects_def keeps_def ng_tree_trivial ret_keeps_def)

lemmas env_calls_trivial = env_respects_parts(1) [OF env_respects_trivial]
lemmas env_receives_trivial = env_respects_parts(2) [OF env_respects_trivial]

section \<open>The observation along the code\<close>

lemma withIo_apply [act_simps]: "withIo m s = (case m (io s) of (r, t) \<Rightarrow> (r, s\<lparr>io := t\<rparr>))"
  by (simp add: withIo_def act_simps)

lemma modProto_apply [act_simps]: "modProto f s = (Inr (), s\<lparr>proto := f (proto s)\<rparr>)"
  by (simp add: modProto_def act_simps)

lemma modApp_apply [act_simps]: "modApp f s = (Inr (), s\<lparr>app := f (app s)\<rparr>)"
  by (simp add: modApp_def act_simps)

lemma setWorld_apply [act_simps]: "setWorld w s = (Inr (), s\<lparr>io := (io s)\<lparr>io_world := w\<rparr>\<rparr>)"
  by (simp add: setWorld_def act_simps)

lemma extern_apply [act_simps]:
  "extern f s = (Inr (fst (f (world s))), s\<lparr>io := (io s)\<lparr>io_world := snd (f (world s))\<rparr>\<rparr>)"
  by (simp add: extern_def act_simps split: prod.split)

lemma world_sel [simp]:
  "world (s\<lparr>io := t\<rparr>) = io_world t" "world (s\<lparr>proto := p\<rparr>) = world s"
  "world (s\<lparr>app := a\<rparr>) = world s" "world (s\<lparr>operationQueue := q\<rparr>) = world s"
  "world (s\<lparr>streamReceiveBatch := b\<rparr>) = world s"
  "world (s\<lparr>streamReceiveOperationPending := f\<rparr>) = world s"
  "world (s\<lparr>peerFinishedPending := f\<rparr>) = world s"
  "world (s\<lparr>scheduleState := st\<rparr>) = world s" "world (s\<lparr>scheduled := n\<rparr>) = world s"
  "world (s\<lparr>completions := cs\<rparr>) = world s" "world (s\<lparr>sendOperationPending := f\<rparr>) = world s"
  "world (s\<lparr>pendingSend := ps\<rparr>) = world s" "world (s\<lparr>sendRetryExpiry := x\<rparr>) = world s"
  "world (s\<lparr>tooLargeSendDrops := d\<rparr>) = world s" "world (s\<lparr>gnutlsReady := f\<rparr>) = world s"
  "world (s\<lparr>stopped := f\<rparr>) = world s" "world (s\<lparr>started := f\<rparr>) = world s"
  "world (s\<lparr>receiveBatch := rb\<rparr>) = world s" "world (s\<lparr>receiveOperationPending := f\<rparr>) = world s"
  "world (s\<lparr>releasableStreamReceiveBytes := n\<rparr>) = world s"
  "world (s\<lparr>onWorker := f\<rparr>) = world s"
  by (simp_all add: world_def)

lemmas queue_defs =
  queueOperation_def queueInternalOperation_def queueStreamReceiveFlush_def queueSendFlush_def
  scheduleIfIdle_def completeOperation_def assertWorkerOwner_def

lemmas callback_defs =
  callbacks_def cb_fail_def cb_ok_def newCIDCallback_def handshakeCompletedCallback_def
  handshakeConfirmedCallback_def acknowledgedStreamDataCallback_def streamCloseCallback_def
  receiveStreamDataCallback_def appendReceivedStreamData_def markPeerFinished_def
  markHandshakeComplete_def markHandshakeConfirmed_def markAcknowledged_def markStreamClosed_def

text \<open>The callbacks reach the external state only for random bytes.\<close>

lemma nothrow_parts [nothrow_intros]: "nothrow (modProto f)" "nothrow (modApp g)" "nothrow (extern h)"
  by (simp_all add: nothrow_def act_simps)

lemma preserves_extern_obs: "keeps obs f \<Longrightarrow> preserves (\<lambda>s. obs (world s) = b) (extern f)"
  by (simp add: preserves_def act_simps keeps_def)

lemma preserves_if_fun [preserves_intros]:
  "(b \<Longrightarrow> preserves I m) \<Longrightarrow> (\<not> b \<Longrightarrow> preserves I n) \<Longrightarrow> preserves I (\<lambda>s. (if b then m else n) s)"
  by simp

lemma callbacks_obs:
  assumes "\<And>n. keeps obs (q_random E n)"
  shows "preserves (\<lambda>s. obs (world s) = b) (callbacks E cb)"
  unfolding callback_defs queue_defs modProto_def modApp_def
  by (cases cb)
    (auto intro!: preserves_intros preserves_modify preserves_extern_obs assms split: option.split if_splits)

text \<open>A call with callbacks \<open>h\<close>: if \<open>I\<close> survives every admissible callback and every
  move of the external state that the observation does not see, it survives the call, and the
  result relates the observations as the call promises.\<close>

lemma run_ng_inv:
  assumes tree: "ng_tree obs okcb okret t (obs (world s))" and I: "I s"
    and move: "\<And>s w. I s \<Longrightarrow> obs w = obs (world s) \<Longrightarrow> I (s\<lparr>io := (io s)\<lparr>io_world := w\<rparr>\<rparr>)"
    and cb: "\<And>cb s. I s \<Longrightarrow> okcb cb (obs (world s)) \<Longrightarrow> I (snd (h cb s))"
    and ob: "\<And>cb s. \<not> is_write cb \<Longrightarrow> obs (world (snd (h cb s))) = obs (world s)"
    and leaf: "\<And>s r w. I s \<Longrightarrow> okret r (obs (world s)) (obs w) \<Longrightarrow>
      Q r (s\<lparr>io := (io s)\<lparr>io_world := w\<rparr>\<rparr>)"
  shows "case run_ng h t s of (Inl e, s') \<Rightarrow> I s' | (Inr r, s') \<Rightarrow> Q r s'"
  using tree I
proof (induction t arbitrary: s)
  case (NgReturn r w)
  then show ?case by (simp add: act_simps leaf)
next
  case (NgCallback cb w k)
  let ?s = "s\<lparr>io := (io s)\<lparr>io_world := w\<rparr>\<rparr>"
  have ow: "obs w = obs (world s)" and ok: "okcb cb (obs (world s))"
    and rest: "\<And>reply w'. is_write cb \<or> obs w' = obs (world s) \<Longrightarrow>
      ng_tree obs okcb okret (k (reply, w')) (obs w')"
    using NgCallback.prems(1) unfolding ng_tree.simps by blast+
  have "I ?s" using move [OF NgCallback.prems(2) ow] .
  moreover have "okcb cb (obs (world ?s))" using ok ow by simp
  ultimately have I': "I (snd (h cb ?s))" by (rule cb)
  obtain r s' where h: "h cb ?s = (r, s')" by fastforce
  show ?case
  proof (cases r)
    case (Inl e)
    then show ?thesis using h I' by (simp add: act_simps)
  next
    case (Inr reply)
    have "is_write cb \<or> obs (world s') = obs (world s)"
      using ob [of cb ?s] h ow by (cases "is_write cb") auto
    from rest [OF this] have "ng_tree obs okcb okret (k (reply, world s')) (obs (world s'))" .
    from NgCallback.IH [OF rangeI this] show ?thesis
      using h I' Inr by (simp add: act_simps)
  qed
qed

lemma run_ng_preserves:
  assumes "\<And>s. I s \<Longrightarrow> ng_tree obs okcb ret_keeps (t s) (obs (world s))"
    and "\<And>s w. I s \<Longrightarrow> obs w = obs (world s) \<Longrightarrow> I (s\<lparr>io := (io s)\<lparr>io_world := w\<rparr>\<rparr>)"
    and "\<And>cb s. I s \<Longrightarrow> okcb cb (obs (world s)) \<Longrightarrow> I (snd (h cb s))"
    and "\<And>cb s. \<not> is_write cb \<Longrightarrow> obs (world (snd (h cb s))) = obs (world s)"
  shows "preserves I (\<lambda>s. run_ng h (t s) s)"
proof -
  have "I (snd (run_ng h (t s) s))" if "I s" for s
    using run_ng_inv [where obs = obs and okcb = okcb and okret = ret_keeps and t = "t s"
        and s = s and I = I and h = h and Q = "\<lambda>_. I"] assms that
    by (auto simp: ret_keeps_def split: prod.splits sum.splits)
  then show ?thesis by (simp add: preserves_def)
qed

lemma preserves_call:
  "preserves I (\<lambda>s. run_ng h (t s) s) \<Longrightarrow> (\<And>x. preserves I (k x)) \<Longrightarrow>
   preserves I (bindA (gets t) (\<lambda>call. bindA (run_ng h call) k))"
  by (fastforce simp: preserves_def act_simps split: prod.splits sum.splits)

section \<open>Invariants closed under the callbacks\<close>

definition proto_core ::
  "proto \<Rightarrow> int \<times> nat \<times> int \<times> tx_chunk list \<times> nat \<times> nat \<times> nat \<times> bool \<times> bool" where
  "proto_core p = (rxStreamID p, rxOffset p, txStreamID p, txChunks p, txNextOffset p,
     txSubmittedOffset p, txAckedOffset p, txFinRequested p, txFinSubmitted p)"

text \<open>How the published state may change outside the handler that delivers stream data: what is
  published of the transmit side is what it was, what the protocol state says, or nothing.\<close>

definition published :: "proto \<Rightarrow> app_state \<Rightarrow> app_state \<Rightarrow> bool" where
  "published p a a' \<longleftrightarrow> appReceiveBatch a' = appReceiveBatch a \<and> appPeerFinished a' = appPeerFinished a \<and>
     appSubmittedWriteOffset a' \<in> {appSubmittedWriteOffset a, txSubmittedOffset p, 0} \<and>
     appAckedWriteOffset a' \<in> {appAckedWriteOffset a, txAckedOffset p, 0} \<and>
     (appFinSubmitted a' \<longrightarrow> appFinSubmitted a \<or> txFinSubmitted p) \<and>
     (appFinAcked a' \<longrightarrow> appFinAcked a \<or> txFinAcked p)"

text \<open>What every invariant below provides: it survives moves of the external state the
  observation does not see, changes of what is published except the stream data, changes of the
  protocol state outside its core, and the callbacks that carry stream data.\<close>

locale conn_callbacks =
  fixes E :: "'w quic_env"
    and obs :: "'w \<Rightarrow> 'o"
    and okcb :: "callback \<Rightarrow> 'o \<Rightarrow> bool"
    and okw :: "bytes option \<Rightarrow> ng_written \<times> int \<Rightarrow> 'o \<Rightarrow> 'o \<Rightarrow> bool"
    and I :: "'w conn \<Rightarrow> bool"
  assumes env: "env_calls E obs okcb okw"
    and move: "I s \<Longrightarrow> obs w = obs (world s) \<Longrightarrow> I (s\<lparr>io := (io s)\<lparr>io_world := w\<rparr>\<rparr>)"
    and app: "I s \<Longrightarrow> published (proto s) (app s) a \<Longrightarrow> I (s\<lparr>app := a\<rparr>)"
    and proto: "I s \<Longrightarrow> proto_core p = proto_core (proto s) \<Longrightarrow> (hasConn (proto s) \<Longrightarrow> hasConn p) \<Longrightarrow>
      (txFinAcked (proto s) \<Longrightarrow> txFinAcked p) \<Longrightarrow> I (s\<lparr>proto := p\<rparr>)"
    and received: "I s \<Longrightarrow> okcb (CbReceiveStreamData fin sid off data) (obs (world s)) \<Longrightarrow>
      I (snd (receiveStreamDataCallback fin sid off data s))"
    and acked: "I s \<Longrightarrow> okcb (CbAckedStreamData sid off len) (obs (world s)) \<Longrightarrow>
      I (snd (acknowledgedStreamDataCallback sid off len s))"
begin

lemma env_keeps:
  "keeps obs (q_now E)" "keeps obs (q_tls E c)" "keeps obs (q_random E n)"
  "keeps obs (\<lambda>w. ((), q_tls_release E w))" "keeps obs (\<lambda>w. ((), q_credentials_release E w))"
  "keeps obs (\<lambda>w. ((), q_conn_del E w))" "keeps obs (\<lambda>w. ((), q_set_tls_native_handle E w))"
  "keeps obs (q_conn_new E srv d cid p)" "keeps obs (q_open_bidi_stream E)"
  "keeps obs (\<lambda>w. ((), q_update_pkt_tx_time E t w))"
  "keeps obs (juice_send (q_juice E) a bs)"
  "keeps obs (juice_send_aggregate_progress (q_juice E) a bs g)"
  using env by (simp_all add: env_calls_def)

lemma extern_inv: "keeps obs f \<Longrightarrow> preserves I (extern f)"
  by (simp add: preserves_def act_simps move keeps_def)

lemma now_inv: "preserves I (getCurrentTimestampNS E)"
  unfolding getCurrentTimestampNS_def by (intro extern_inv env_keeps)

lemma app_inv: "(\<And>p a. published p a (f a)) \<Longrightarrow> preserves I (modApp f)"
  by (simp add: preserves_def act_simps app)

lemma proto_inv:
  "(\<And>p. proto_core (f p) = proto_core p) \<Longrightarrow> (\<And>p. hasConn p \<Longrightarrow> hasConn (f p)) \<Longrightarrow>
     (\<And>p. txFinAcked p \<Longrightarrow> txFinAcked (f p)) \<Longrightarrow> preserves I (modProto f)"
  by (simp add: preserves_def act_simps proto)

lemma publish_inv: "preserves I publishApplicationState"
  by (simp add: preserves_def act_simps publishApplicationState_def Let_def app bumpGeneration_def
      published_def)

lemma mark_inv: "preserves I markAcknowledged" "preserves I markStreamClosed"
  "preserves I markHandshakeComplete" "preserves I markHandshakeConfirmed"
  "preserves I notifyApplication" "preserves I (setError m)"
  by (simp_all add: preserves_def act_simps markAcknowledged_def markStreamClosed_def
      markHandshakeComplete_def markHandshakeConfirmed_def notifyApplication_def setError_def
      publishWriteState_def app bumpGeneration_def published_def)

lemma callback_inv:
  assumes "I s" and "okcb cb (obs (world s))"
  shows "I (snd (callbacks E cb s))"
proof -
  have new: "preserves I (newCIDCallback E n)" for n
    unfolding newCIDCallback_def cb_fail_def
    by (intro preserves_intros extern_inv env_keeps)
  have hs: "preserves I handshakeCompletedCallback" "preserves I handshakeConfirmedCallback"
    unfolding handshakeCompletedCallback_def handshakeConfirmedCallback_def cb_ok_def
    by (auto intro!: preserves_intros proto_inv mark_inv simp: proto_core_def)
  have close: "preserves I (streamCloseCallback flag sid)" for flag sid
    unfolding streamCloseCallback_def cb_ok_def
    by (auto intro!: preserves_intros proto_inv mark_inv simp: proto_core_def)
  show ?thesis
    using assms received acked new hs close
    by (cases cb) (auto simp: callbacks_def cb_fail_def act_simps preserves_def)
qed

lemma callbacks_keep: "obs (world (snd (callbacks E cb s))) = obs (world s)"
  using callbacks_obs [of obs E "obs (world s)" cb] env_keeps(3) by (simp add: preserves_def)

lemma call_inv:
  assumes "\<And>s. ng_tree obs okcb ret_keeps (t s) (obs (world s))"
  shows "preserves I (\<lambda>s. run_ng (callbacks E) (t s) s)"
  by (rule run_ng_preserves [where obs = obs and okcb = okcb])
    (use assms move callback_inv callbacks_keep in auto)

lemma env_trees:
  "ng_tree obs okcb ret_keeps (q_write_pkt E n ts w) (obs w)"
  "ng_tree obs okcb ret_keeps (q_write_aggregate E n m ts w) (obs w)"
  "ng_tree obs okcb ret_keeps (q_handle_expiry E ts w) (obs w)"
  "ng_tree obs okcb (okw d) (q_write_stream E n f sid d ts w) (obs w)"
  using env by (simp_all add: env_calls_def del: split_paired_All)

end

section \<open>Invariants closed under writing a packet\<close>

locale conn_writer = conn_callbacks +
  assumes writing: "preserves I (writeOnePacket E n ts pad)"
begin

lemma write_callback_inv: "preserves I (writeAggregatePacketCallback E n ts)"
  unfolding writeAggregatePacketCallback_def cb_fail_def
  by (auto intro!: preserves_intros writing proto_inv simp: proto_core_def)

lemma aggregate_callback_inv:
  assumes "I s" and "okcb cb (obs (world s))"
  shows "I (snd (aggregate_callbacks E cb s))"
proof (cases cb)
  case (CbWritePacket n ts)
  then show ?thesis
    using preservesD [OF write_callback_inv assms(1)] by (simp add: aggregate_callbacks_def)
qed (use callback_inv [OF assms] in \<open>simp_all add: aggregate_callbacks_def\<close>)

lemma aggregate_call_inv:
  "preserves I (\<lambda>s. run_ng (aggregate_callbacks E) (q_write_aggregate E n m ts (world s)) s)"
proof (rule run_ng_preserves [where obs = obs and okcb = okcb])
  fix cb and s :: "'a conn"
  assume "\<not> is_write cb"
  then show "obs (world (snd (aggregate_callbacks E cb s))) = obs (world s)"
    using callbacks_keep [of cb s] by (cases cb) (simp_all add: aggregate_callbacks_def)
qed (use move aggregate_callback_inv env_trees in auto)

end

text \<open>Invariants that do not look at the transmit side survive a packet without more.\<close>

locale conn_plain = conn_callbacks +
  assumes okw_keeps: "okw d r b b' \<Longrightarrow> b' = b"
    and proto_rx: "I s \<Longrightarrow> rxStreamID p = rxStreamID (proto s) \<Longrightarrow> rxOffset p = rxOffset (proto s) \<Longrightarrow>
      (hasConn (proto s) \<Longrightarrow> hasConn p) \<Longrightarrow> I (s\<lparr>proto := p\<rparr>)"
begin

lemma proto_rx_inv:
  "(\<And>p. rxStreamID (f p) = rxStreamID p) \<Longrightarrow> (\<And>p. rxOffset (f p) = rxOffset p) \<Longrightarrow>
   (\<And>p. hasConn p \<Longrightarrow> hasConn (f p)) \<Longrightarrow> preserves I (modProto f)"
  by (simp add: preserves_def act_simps proto_rx)

lemma stream_call_inv:
  "preserves I (\<lambda>s. run_ng (callbacks E) (q_write_stream E n f sid d ts (world s)) s)"
proof -
  have "I (snd (run_ng (callbacks E) (q_write_stream E n f sid d ts (world s)) s))" if "I s" for s
    using run_ng_inv [where obs = obs and okcb = okcb and okret = "okw d"
        and t = "q_write_stream E n f sid d ts (world s)" and s = s and I = I
        and h = "callbacks E" and Q = "\<lambda>_. I"] env_trees move callback_inv callbacks_keep okw_keeps that
    by (auto split: prod.splits sum.splits)
  then show ?thesis by (simp add: preserves_def)
qed

lemma plain_write: "preserves I (writeOnePacket E n ts pad)"
  unfolding writeOnePacket_def chunk_accepted_def Let_def
  by (auto intro!: preserves_intros preserves_call stream_call_inv call_inv env_trees proto_rx_inv)

end

sublocale conn_plain \<subseteq> conn_writer
  by unfold_locales (auto intro: plain_write)

section \<open>Sending\<close>

text \<open>A send of the binding moves the external state by libjuice only.\<close>

lemma juice_send_keeps:
  "keeps obs (juice_send J a d) \<Longrightarrow> obs (snd (juice_send J a d w)) = obs w"
  "keeps obs (juice_send_aggregate_progress J a d g) \<Longrightarrow>
     obs (snd (juice_send_aggregate_progress J a d g w)) = obs w"
  by (simp_all add: keeps_def)

lemma binding_send_moves:
  assumes "\<And>a d. keeps obs (juice_send J a d)" and "binding_send J data t = (r, t')"
  shows "t' = t\<lparr>io_world := io_world t'\<rparr> \<and> obs (io_world t') = obs (io_world t)"
proof -
  have "obs (snd (sendFFLP2PAgentNative J h data agents w)) = obs w" for h agents w
    using assms(1)
    by (auto simp: sendFFLP2PAgentNative_def sendFFLP2PJuice_def keeps_def split: option.split)
  from this [of "agentHandle (io_binding t)" "io_agents t" "io_world t"] show ?thesis
    using assms(2)
    by (auto simp: binding_send_def Let_def split: if_splits prod.splits)
qed

lemma binding_sendAggregate_moves:
  assumes "\<And>a d g. keeps obs (juice_send_aggregate_progress J a d g)"
    and "binding_sendAggregate J data seg t = (r, t')"
  shows "t' = t\<lparr>io_world := io_world t'\<rparr> \<and> obs (io_world t') = obs (io_world t)"
proof -
  have "obs (snd (sendFFLP2PAgentNativeAggregateProgress J h data seg agents w)) = obs w" for h agents w
    using assms(1)
    by (auto simp: sendFFLP2PAgentNativeAggregateProgress_def sendFFLP2PJuiceAggregateProgress_def
        keeps_def split: option.split)
  from this [of "agentHandle (io_binding t)" "io_agents t" "io_world t"] show ?thesis
    using assms(2)
    by (auto simp: binding_sendAggregate_def Let_def split: if_splits prod.splits)
qed

locale conn_sender = conn_writer +
  assumes pending: "I s \<Longrightarrow> I (s\<lparr>pendingSend := ps\<rparr>)"
    and retry: "I s \<Longrightarrow> I (s\<lparr>sendRetryExpiry := x\<rparr>)"
    and drops: "I s \<Longrightarrow> I (s\<lparr>tooLargeSendDrops := d\<rparr>)"
    and send_flush: "preserves I queueSendFlush"
begin

lemma withIo_inv:
  assumes "\<And>t r t'. m t = (r, t') \<Longrightarrow> t' = t\<lparr>io_world := io_world t'\<rparr> \<and> obs (io_world t') = obs (io_world t)"
  shows "preserves I (withIo m)"
proof -
  have "I (snd (withIo m s))" if "I s" for s
  proof -
    obtain r t' where m: "m (io s) = (r, t')" by fastforce
    from assms [OF m] obtain w where t': "t' = (io s)\<lparr>io_world := w\<rparr>" and w: "obs w = obs (world s)"
      by (simp add: world_def) blast
    show ?thesis
      using move [OF that w] m by (simp add: withIo_apply t')
  qed
  then show ?thesis by (simp add: preserves_def)
qed

lemma sendTransportOnce_inv: "preserves I (sendTransportOnce E data seg aggregate)"
proof -
  have "preserves I (withIo (binding_send (q_juice E) bs))" for bs
    using binding_send_moves [where obs = obs and J = "q_juice E" and data = bs] env_keeps(11)
    by (intro withIo_inv) blast
  moreover have "preserves I (withIo (binding_sendAggregate (q_juice E) bs g))" for bs g
    using binding_sendAggregate_moves [where obs = obs and J = "q_juice E" and data = bs] env_keeps(12)
    by (intro withIo_inv) blast
  ultimately show ?thesis
    unfolding sendTransportOnce_def
    by (auto intro!: preserves_intros now_inv extern_inv env_keeps)
qed

lemma retry_inv: "preserves I (scheduleSendRetry E)" "preserves I clearSendRetry"
  "preserves I dropTooLarge"
  unfolding scheduleSendRetry_def clearSendRetry_def dropTooLarge_def
  by (auto intro!: preserves_intros preserves_modify now_inv retry drops)

lemma retain_inv: "preserves I (retainPendingTransportSend E data sent seg n aggregate)"
  unfolding retainPendingTransportSend_def
  by (auto intro!: preserves_intros preserves_modify pending retry_inv)

lemma sendTransportBuffer_inv: "preserves I (sendTransportBuffer E data seg n aggregate)"
  unfolding sendTransportBuffer_def
  by (auto intro!: preserves_intros sendTransportOnce_inv retry_inv retain_inv split: send_status.split)

lemma flushPending_inv: "preserves I (flushPendingTransportSend E)"
  unfolding flushPendingTransportSend_def
  by (auto intro!: preserves_intros preserves_modify pending sendTransportOnce_inv retry_inv)

lemma flushSingle_inv: "preserves I (flushSingle E n)"
proof (induction n)
  case (Suc n)
  then show ?case
    by (auto intro!: preserves_intros now_inv writing sendTransportBuffer_inv split: send_outcome.split)
qed (simp add: preserves_intros)

lemma aggregateRound_inv: "preserves I (aggregateRound E i)"
  unfolding aggregateRound_def Let_def
  by (auto intro!: preserves_intros preserves_call now_inv aggregate_call_inv sendTransportBuffer_inv
      proto_inv simp: proto_core_def split: send_outcome.split)

lemma flushAggregate_inv: "preserves I (flushAggregate E i)"
proof -
  have "I s \<Longrightarrow> I (snd (flushAggregate E i s))" for s
  proof (induction "kMaxPacketsPerFlush - i" arbitrary: i s rule: less_induct)
    case less
    obtain r s' where r: "aggregateRound E i s = (r, s')" by fastforce
    then have I': "I s'"
      using preservesD [OF aggregateRound_inv less.prems, of i] by simp
    have "I (snd (flushAggregate E (i + n) s'))"
      if "r = Inr (RoundSent n)" and "i < kMaxPacketsPerFlush" for n
      using less.hyps [of "i + n" s'] aggregateRound_sent [of E i s n s'] r that I' by simp
    then show ?case
      using I' less.prems r
      by (auto simp: flushAggregate.simps [of E i] split: sum.split round.split)
  qed
  then show ?thesis by (simp add: preserves_def)
qed

lemma flushPackets_inv: "preserves I (flushPackets E)"
  unfolding flushPackets_def
  by (auto intro!: preserves_intros flushPending_inv flushSingle_inv flushAggregate_inv)

lemma processSendFlush_inv: "preserves I (processSendFlush E)"
  unfolding processSendFlush_def
  by (auto intro!: preserves_intros flushPackets_inv send_flush)

lemma processTimer_inv: "preserves I (processTimer E)"
  unfolding processTimer_def
  by (auto intro!: preserves_intros preserves_call now_inv retry_inv call_inv env_trees send_flush
      split: sum.split)

end

section \<open>Receiving and setting up\<close>

locale conn_worker = conn_sender +
  assumes ready: "I s \<Longrightarrow> I (s\<lparr>gnutlsReady := b\<rparr>)"
    and starting: "I s \<Longrightarrow> I (s\<lparr>started := True\<rparr>)"
    and stream: "I s \<Longrightarrow> I (s\<lparr>proto := (proto s)\<lparr>txStreamID := sid\<rparr>\<rparr>)"
begin

lemma tls_inv: "preserves I (tlsChecked E c oper)" "preserves I (checkGnuTLS E r oper)"
  "preserves I (checkNgtcp2 E code oper)" "preserves I (ensureGnuTLS E)"
  "preserves I (generateRandomCID E)"
  unfolding tlsChecked_def checkGnuTLS_def checkNgtcp2_def ensureGnuTLS_def generateRandomCID_def
  by (auto intro!: preserves_intros preserves_modify extern_inv env_keeps ready)

lemma initializeTLS_inv: "preserves I (initializeTLS E cert key)"
  unfolding initializeTLS_def
  by (intro preserves_intros tls_inv extern_inv env_keeps proto_inv) (simp_all add: proto_core_def)

lemma initializeQUIC_inv: "preserves I (initializeQUIC E dcid scid odcid)"
  unfolding initializeQUIC_def
  by (intro preserves_intros tls_inv extern_inv env_keeps proto_inv now_inv) (simp_all add: proto_core_def)

lemma initialize_inv: "preserves I (initializeClient E)" "preserves I (initializeServer E pk)"
  unfolding initializeClient_def initializeServer_def initializeFixedPath_def
  by (intro preserves_intros tls_inv initializeTLS_inv initializeQUIC_inv proto_inv;
      simp add: proto_core_def)+

lemma processStart_inv: "preserves I (processStart E)"
  unfolding processStart_def
  by (intro preserves_intros preserves_modify initialize_inv send_flush mark_inv starting)

lemma chooseStream_inv: "preserves I (chooseStream E)"
proof -
  have "preserves I (modProto (\<lambda>p. p\<lparr>txStreamID := rxStreamID p\<rparr>))"
    "preserves I (modProto (\<lambda>p. p\<lparr>txStreamID := sid\<rparr>))" for sid
    by (simp_all add: preserves_def act_simps stream)
  then show ?thesis
    unfolding chooseStream_def
    by (intro preserves_intros tls_inv extern_inv env_keeps)
qed

end

text \<open>Invariants that a datagram does not touch, neither when it arrives nor when ngtcp2 reads it.\<close>

locale conn_feeder = conn_worker +
  assumes receiving: "env_receives E obs okcb"
    and arriving: "preserves I (queueReceive d)"
begin

lemma receives:
  "keeps obs (q_arrivals E)" "ng_tree obs okcb ret_keeps (q_read_pkt E path pk ts w) (obs w)"
  using receiving by (simp_all add: env_receives_def del: split_paired_All)

lemma feedPacket_inv: "preserves I (feedPacket E pk)"
  unfolding feedPacket_def
  by (intro preserves_intros preserves_call initialize_inv now_inv call_inv receives)

lemma feedPackets_inv: "preserves I (blockA (map (feedPacket E) pks))"
  by (rule preserves_block) (auto intro: feedPacket_inv)

lemma arrive_inv: "preserves I (arrive ds)"
  unfolding arrive_def
  by (rule preserves_block) (auto intro!: preserves_catch arriving preserves_ret)

lemma arrivals_inv: "preserves I (bindA (extern (q_arrivals E)) arrive)"
  by (intro preserves_bind extern_inv receives arrive_inv)

end

section \<open>The handlers\<close>

text \<open>Invariants that also survive the handlers' own bookkeeping. Accepting data to send is left to
  each invariant.\<close>

locale conn_others = conn_worker +
  assumes down: "I s \<Longrightarrow> I (s\<lparr>proto := (proto s)\<lparr>hasConn := False\<rparr>\<rparr>)"
    and stop: "I s \<Longrightarrow> I (s\<lparr>stopped := True\<rparr>)"
    and requeue: "preserves I (queueInternalOperation ty)"
    and flush_flags: "I s \<Longrightarrow> I (s\<lparr>streamReceiveOperationPending := False\<rparr>)"
      "I s \<Longrightarrow> I (s\<lparr>sendOperationPending := False\<rparr>)"
    and deliver: "preserves I processStreamReceive"
    and credit: "preserves I (processReleaseStreamReceiveCredit E)"
begin

lemma releaseTransport_inv: "preserves I (releaseTransport E)"
proof -
  have conn: "preserves I (modProto (\<lambda>p. p\<lparr>hasConn := False\<rparr>))"
    by (simp add: preserves_def act_simps down)
  have tls: "preserves I (modProto (\<lambda>p. p\<lparr>hasTls := False\<rparr>))"
    and cred: "preserves I (modProto (\<lambda>p. p\<lparr>hasCredentials := False\<rparr>))"
    by (rule proto_inv; simp add: proto_core_def)+
  show ?thesis
    unfolding releaseTransport_def
    by (intro preserves_intros extern_inv env_keeps conn tls cred)
qed

lemma processShutdown_inv: "preserves I (processShutdown E)"
  unfolding processShutdown_def
  by (intro preserves_intros preserves_modify publish_inv releaseTransport_inv mark_inv stop)

lemma processOther_inv:
  "op_type oper \<noteq> APISend \<Longrightarrow> op_type oper \<noteq> FlushRecv \<Longrightarrow> preserves I (processOperation E oper)"
  unfolding processOperation_def
  by (cases "op_type oper")
    (auto intro!: preserves_intros preserves_modify processStart_inv deliver
      processSendFlush_inv processTimer_inv processShutdown_inv credit flush_flags)

lemma fail_inv: "preserves I (blockA [setError m, releaseTransport E, modify (\<lambda>s. s\<lparr>stopped := True\<rparr>)])"
  by (intro preserves_intros preserves_modify releaseTransport_inv mark_inv stop)

end

text \<open>With the receive flush, for invariants that datagrams do not touch.\<close>

locale conn_handlers = conn_others + conn_feeder +
  assumes take_batch: "I s \<Longrightarrow> I (s\<lparr>receiveBatch := [], receiveOperationPending := False\<rparr>)"
    and again: "I s \<Longrightarrow> I (s\<lparr>receiveOperationPending := True\<rparr>)"
begin

lemma processReceive_inv: "preserves I (processReceive E)"
  unfolding processReceive_def
  by (intro preserves_intros preserves_modify feedPackets_inv send_flush arrivals_inv requeue take_batch again)

lemma processOperation_inv:
  "op_type oper \<noteq> APISend \<Longrightarrow> preserves I (processOperation E oper)"
  using processReceive_inv processOther_inv
  by (cases "op_type oper = FlushRecv") (simp_all add: processOperation_def)

end

end
