(* ===== verification/Connection_Queue.thy ===== *)
theory Connection_Queue
  imports Connection_Inv
begin

text \<open>
  The operation queue of a connection: nobody who waits on a completion is forgotten, a connection
  with work is always scheduled, and each kind of internal work is queued at most once and
  exactly while its flag says so.
\<close>

section \<open>Completions\<close>

text \<open>Every completion that is not done belongs to an operation still in the queue, or to one of
  \<open>X\<close>, the operation being processed.\<close>

definition comp_inv :: "nat set \<Rightarrow> 'w conn \<Rightarrow> bool" where
  "comp_inv X s \<longleftrightarrow>
     (\<forall>oper \<in> set (operationQueue s). \<forall>c. op_completion oper = Some c \<longrightarrow> c < length (completions s)) \<and>
     (\<forall>c < length (completions s). completed (completions s ! c) \<or> c \<in> X \<or>
        (\<exists>oper \<in> set (operationQueue s). op_completion oper = Some c))"

lemma comp_inv_push:
  assumes "op_completion oper = None"
  shows "preserves (comp_inv X) (queueOperation oper)"
  using assms
  by (auto simp: preserves_def queueOperation_def completeOperation_def scheduleIfIdle_def act_simps
      comp_inv_def queue_push_def split: if_splits)

lemma comp_inv_flush: "preserves (comp_inv X) queueSendFlush"
  "preserves (comp_inv X) queueStreamReceiveFlush"
  unfolding queueSendFlush_def queueStreamReceiveFlush_def assertWorkerOwner_def queueInternalOperation_def
  by (auto intro!: preserves_intros preserves_modify comp_inv_push simp: comp_inv_def)

lemma comp_inv_received:
  "preserves (comp_inv X) (receiveStreamDataCallback fin sid off data)"
  unfolding receiveStreamDataCallback_def appendReceivedStreamData_def markPeerFinished_def
    assertWorkerOwner_def modProto_def cb_fail_def cb_ok_def
  by (auto intro!: preserves_intros preserves_modify comp_inv_flush simp: comp_inv_def)

lemma comp_inv_acked:
  "preserves (comp_inv X) (acknowledgedStreamDataCallback sid off len)"
  unfolding acknowledgedStreamDataCallback_def markAcknowledged_def modProto_def cb_fail_def cb_ok_def
  by (auto intro!: preserves_intros preserves_modify simp: comp_inv_def)

lemma comp_inv_queueReceive: "preserves (comp_inv X) (queueReceive d)"
  unfolding queueReceive_def queueInternalOperation_def
  by (auto intro!: preserves_intros preserves_modify preserves_zoom comp_inv_push simp: comp_inv_def)

interpretation comp_plain: conn_plain E "\<lambda>_. ()" "\<lambda>_ _. True" "\<lambda>_ _ _ _. True" "comp_inv X" for E X
  by unfold_locales
    (rule env_calls_trivial | erule preservesD [OF comp_inv_received]
      | erule preservesD [OF comp_inv_acked] | simp add: comp_inv_def)+

interpretation comp: conn_feeder E "\<lambda>_. ()" "\<lambda>_ _. True" "\<lambda>_ _ _ _. True" "comp_inv X" for E X
  by unfold_locales
    (rule env_receives_trivial comp_plain.writing comp_inv_flush comp_inv_queueReceive | simp add: comp_inv_def)+

lemma comp_inv_internal: "preserves (comp_inv X) (queueInternalOperation ty)"
  unfolding queueInternalOperation_def by (simp add: comp_inv_push)

interpretation comp: conn_handlers E "\<lambda>_. ()" "\<lambda>_ _. True" "\<lambda>_ _ _ _. True" "comp_inv X" for E X
proof unfold_locales
  show "preserves (comp_inv X) processStreamReceive"
    unfolding processStreamReceive_def assertWorkerOwner_def modApp_def
    by (intro preserves_intros preserves_modify) (simp_all add: comp_inv_def)
  show "preserves (comp_inv X) (processReleaseStreamReceiveCredit E)"
    unfolding processReleaseStreamReceiveCredit_def assertWorkerOwner_def
    by (intro preserves_intros preserves_modify comp_inv_flush)
      (simp_all add: comp_inv_def preserves_def act_simps)
qed (rule comp_inv_internal | simp add: comp_inv_def)+

lemma comp_inv_processSend: "preserves (comp_inv X) (processSend E oper)"
  unfolding processSend_def
  by (intro preserves_intros preserves_modify comp.chooseStream_inv comp_inv_flush comp_plain.publish_inv)
    (simp_all add: preserves_def act_simps comp_inv_def)

section \<open>A connection with work is scheduled\<close>

definition sched_inv :: "'w conn \<Rightarrow> bool" where
  "sched_inv s \<longleftrightarrow> (operationQueue s \<noteq> [] \<longrightarrow> scheduleState s \<noteq> Idle)"

lemma sched_inv_push: "preserves sched_inv (queueOperation oper)"
  by (auto simp: preserves_def queueOperation_def completeOperation_def scheduleIfIdle_def act_simps
      sched_inv_def queue_push_def split: option.split)

lemma sched_inv_flush: "preserves sched_inv queueSendFlush"
  "preserves sched_inv queueStreamReceiveFlush"
  unfolding queueSendFlush_def queueStreamReceiveFlush_def assertWorkerOwner_def queueInternalOperation_def
  by (auto intro!: preserves_intros preserves_modify sched_inv_push simp: sched_inv_def)

lemma sched_inv_received:
  "preserves sched_inv (receiveStreamDataCallback fin sid off data)"
  unfolding receiveStreamDataCallback_def appendReceivedStreamData_def markPeerFinished_def
    assertWorkerOwner_def modProto_def cb_fail_def cb_ok_def
  by (auto intro!: preserves_intros preserves_modify sched_inv_flush simp: sched_inv_def)

lemma sched_inv_acked:
  "preserves sched_inv (acknowledgedStreamDataCallback sid off len)"
  unfolding acknowledgedStreamDataCallback_def markAcknowledged_def modProto_def cb_fail_def cb_ok_def
  by (auto intro!: preserves_intros preserves_modify simp: sched_inv_def)

lemma sched_inv_queueReceive: "preserves sched_inv (queueReceive d)"
  unfolding queueReceive_def queueInternalOperation_def
  by (auto intro!: preserves_intros preserves_modify preserves_zoom sched_inv_push simp: sched_inv_def)

interpretation sched_plain: conn_plain E "\<lambda>_. ()" "\<lambda>_ _. True" "\<lambda>_ _ _ _. True" sched_inv for E
  by unfold_locales
    (rule env_calls_trivial | erule preservesD [OF sched_inv_received]
      | erule preservesD [OF sched_inv_acked] | simp add: sched_inv_def)+

interpretation sched: conn_feeder E "\<lambda>_. ()" "\<lambda>_ _. True" "\<lambda>_ _ _ _. True" sched_inv for E
  by unfold_locales
    (rule env_receives_trivial sched_plain.writing sched_inv_flush sched_inv_queueReceive | simp add: sched_inv_def)+

lemma sched_inv_internal: "preserves sched_inv (queueInternalOperation ty)"
  unfolding queueInternalOperation_def by (rule sched_inv_push)

interpretation sched: conn_handlers E "\<lambda>_. ()" "\<lambda>_ _. True" "\<lambda>_ _ _ _. True" sched_inv for E
proof unfold_locales
  show "preserves sched_inv processStreamReceive"
    unfolding processStreamReceive_def assertWorkerOwner_def modApp_def
    by (intro preserves_intros preserves_modify) (simp_all add: sched_inv_def)
  show "preserves sched_inv (processReleaseStreamReceiveCredit E)"
    unfolding processReleaseStreamReceiveCredit_def assertWorkerOwner_def
    by (intro preserves_intros preserves_modify sched_inv_flush)
      (simp_all add: sched_inv_def preserves_def act_simps)
qed (rule sched_inv_internal | simp add: sched_inv_def)+

lemma sched_inv_processSend: "preserves sched_inv (processSend E oper)"
  unfolding processSend_def
  by (intro preserves_intros preserves_modify sched.chooseStream_inv sched_inv_flush sched_plain.publish_inv)
    (simp_all add: preserves_def act_simps sched_inv_def)

section \<open>Work is queued once, and while its flag says so\<close>

definition queued :: "operation_type \<Rightarrow> operation_queue \<Rightarrow> nat" where
  "queued t q = length (filter (\<lambda>oper. op_type oper = t) q)"

lemma queued_simps [simp]:
  "queued t [] = 0"
  "queued t (oper # q) = (if op_type oper = t then 1 else 0) + queued t q"
  "queued t (queue_push oper q) = queued t q + (if op_type oper = t then 1 else 0)"
  by (simp_all add: queued_def queue_push_def)

text \<open>The flag that says work of a type is outstanding.\<close>

definition flag :: "'w conn \<Rightarrow> operation_type \<Rightarrow> bool" where
  "flag s t = (case t of
      FlushRecv \<Rightarrow> receiveOperationPending s
    | FlushStreamRecv \<Rightarrow> streamReceiveOperationPending s
    | FlushSend \<Rightarrow> sendOperationPending s
    | ReleaseStreamRecvCredit \<Rightarrow> releasableStreamReceiveBytes s > 0
    | _ \<Rightarrow> False)"

definition flagged :: "operation_type \<Rightarrow> bool" where
  "flagged t \<longleftrightarrow> t \<in> {FlushRecv, FlushStreamRecv, FlushSend, ReleaseStreamRecvCredit}"

text \<open>\<open>cur\<close> is the type of the operation that has been popped and has not yet reset its flag.\<close>

definition flag_count :: "operation_type option \<Rightarrow> 'w conn \<Rightarrow> operation_type \<Rightarrow> nat" where
  "flag_count cur s t = queued t (operationQueue s) + (if cur = Some t then 1 else 0)"

definition flags_inv :: "operation_type option \<Rightarrow> 'w conn \<Rightarrow> bool" where
  "flags_inv cur s \<longleftrightarrow> stopped s \<or>
     ((\<forall>t. flagged t \<longrightarrow> flag_count cur s t = (if flag s t then 1 else 0)) \<and>
      (receiveBatch s \<noteq> [] \<longrightarrow> receiveOperationPending s) \<and>
      (streamReceiveBatch s \<noteq> [] \<or> peerFinishedPending s \<longrightarrow> streamReceiveOperationPending s))"

lemma flags_inv_cong:
  assumes "flags_inv cur s" and "stopped s' = stopped s" and "operationQueue s' = operationQueue s"
    and "flag s' = flag s" and "receiveBatch s' = receiveBatch s"
    and "streamReceiveBatch s' = streamReceiveBatch s" and "peerFinishedPending s' = peerFinishedPending s"
  shows "flags_inv cur s'"
proof -
  have "receiveOperationPending s' = receiveOperationPending s"
    and "streamReceiveOperationPending s' = streamReceiveOperationPending s"
    using fun_cong [OF assms(4), of FlushRecv] fun_cong [OF assms(4), of FlushStreamRecv]
    by (simp_all add: flag_def)
  then show ?thesis
    using assms unfolding flags_inv_def flag_count_def by simp
qed

text \<open>Raising a flag and queueing its operation keeps the count.\<close>

lemma queueInternal_sel [simp]:
  "stopped (snd (queueInternalOperation t s)) = stopped s"
  "flag (snd (queueInternalOperation t s)) = flag s"
  "receiveBatch (snd (queueInternalOperation t s)) = receiveBatch s"
  "streamReceiveBatch (snd (queueInternalOperation t s)) = streamReceiveBatch s"
  "peerFinishedPending (snd (queueInternalOperation t s)) = peerFinishedPending s"
  "\<not> stopped s \<Longrightarrow> operationQueue (snd (queueInternalOperation t s)) = queue_push (operation_of t) (operationQueue s)"
  by (auto simp: queueInternalOperation_def queueOperation_def completeOperation_def scheduleIfIdle_def
      act_simps fun_eq_iff flag_def split: operation_type.split)

lemma flags_raise:
  fixes s s1 :: "'w conn"
  assumes "flags_inv cur s" and "\<not> flag s t" and "flagged t"
    and "stopped s1 = stopped s" and "operationQueue s1 = operationQueue s"
    and "flag s1 = (flag s)(t := True)"
    and "receiveBatch s1 \<noteq> [] \<Longrightarrow> receiveBatch s \<noteq> [] \<or> t = FlushRecv"
    and "streamReceiveBatch s1 \<noteq> [] \<or> peerFinishedPending s1 \<Longrightarrow>
      streamReceiveBatch s \<noteq> [] \<or> peerFinishedPending s \<or> t = FlushStreamRecv"
  shows "flags_inv cur (snd (queueInternalOperation t s1))"
proof (cases "stopped s")
  case True
  then show ?thesis using assms(4) by (simp add: flags_inv_def)
next
  case False
  let ?s = "snd (queueInternalOperation t s1)"
  have pend: "receiveOperationPending u = flag u FlushRecv"
    "streamReceiveOperationPending u = flag u FlushStreamRecv" for u :: "'w conn"
    by (simp_all add: flag_def)
  have "flag_count cur ?s t' = (if flag ?s t' then 1 else 0)" if "flagged t'" for t'
  proof -
    have "flag_count cur s t' = (if flag s t' then 1 else 0)"
      using assms(1) False that by (simp add: flags_inv_def)
    moreover have "flag_count cur ?s t' = flag_count cur s t' + (if t = t' then 1 else 0)"
      using assms(4,5) False by (simp add: flag_count_def)
    ultimately show ?thesis
      using assms(2,6) by auto
  qed
  moreover have "receiveBatch ?s \<noteq> [] \<longrightarrow> flag ?s FlushRecv"
    using assms(1,4,6,7) False by (auto simp: flags_inv_def pend)
  moreover have "streamReceiveBatch ?s \<noteq> [] \<or> peerFinishedPending ?s \<longrightarrow> flag ?s FlushStreamRecv"
    using assms(1,4,6,8) False by (auto simp: flags_inv_def pend)
  ultimately show ?thesis by (simp add: flags_inv_def pend)
qed

lemma flag_update [simp]:
  "flag (s\<lparr>receiveOperationPending := True\<rparr>) = (flag s)(FlushRecv := True)"
  "flag (s\<lparr>streamReceiveOperationPending := True\<rparr>) = (flag s)(FlushStreamRecv := True)"
  "flag (s\<lparr>sendOperationPending := True\<rparr>) = (flag s)(FlushSend := True)"
  "flag (s\<lparr>proto := p\<rparr>) = flag s" "flag (s\<lparr>app := a\<rparr>) = flag s" "flag (s\<lparr>io := t\<rparr>) = flag s"
  "flag (s\<lparr>receiveBatch := rb\<rparr>) = flag s" "flag (s\<lparr>streamReceiveBatch := sb\<rparr>) = flag s"
  "flag (s\<lparr>peerFinishedPending := b\<rparr>) = flag s" "flag (s\<lparr>pendingSend := ps\<rparr>) = flag s"
  "flag (s\<lparr>sendRetryExpiry := x\<rparr>) = flag s" "flag (s\<lparr>tooLargeSendDrops := d\<rparr>) = flag s"
  "flag (s\<lparr>gnutlsReady := b\<rparr>) = flag s" "flag (s\<lparr>started := b\<rparr>) = flag s"
  "flag (s\<lparr>completions := cs\<rparr>) = flag s" "flag (s\<lparr>scheduleState := st\<rparr>) = flag s"
  "flag (s\<lparr>operationQueue := q\<rparr>) = flag s" "flag (s\<lparr>onWorker := b\<rparr>) = flag s"
  "flag (s\<lparr>aggregatePackets := b\<rparr>) = flag s" "flag (s\<lparr>applicationWriteOffset := n\<rparr>) = flag s"
  "flag (s\<lparr>applicationFinRequested := b\<rparr>) = flag s" "flag (s\<lparr>scheduled := n\<rparr>) = flag s"
  "flag (s\<lparr>stopped := b\<rparr>) = flag s"
  by (auto simp: fun_eq_iff flag_def split: operation_type.split)

lemma flag_field:
  "flag s FlushRecv = receiveOperationPending s"
  "flag s FlushStreamRecv = streamReceiveOperationPending s"
  "flag s FlushSend = sendOperationPending s"
  "flag s ReleaseStreamRecvCredit = (releasableStreamReceiveBytes s > 0)"
  by (simp_all add: flag_def)

lemma flags_inv_send: "preserves (flags_inv cur) queueSendFlush"
  unfolding queueSendFlush_def assertWorkerOwner_def
  by (auto simp: preserves_def act_simps flag_field flagged_def intro!: flags_raise)

text \<open>Stream data or the end of the stream arrived, then the flush is queued unless it is.\<close>

lemma flags_inv_streamFlush:
  assumes "flags_inv cur s" and "s1 = s\<lparr>streamReceiveBatch := b, peerFinishedPending := f\<rparr>"
    and "onWorker s"
  shows "flags_inv cur (snd (queueStreamReceiveFlush s1))"
proof (cases "streamReceiveOperationPending s")
  case True
  then show ?thesis
    using assms
    by (auto simp: queueStreamReceiveFlush_def assertWorkerOwner_def act_simps flags_inv_def flag_count_def)
next
  case False
  then show ?thesis
    using assms
    by (auto simp: queueStreamReceiveFlush_def assertWorkerOwner_def act_simps flag_field flagged_def
        intro!: flags_raise [OF assms(1)])
qed

lemma flags_inv_received:
  fixes s :: "'w conn"
  assumes "flags_inv cur s"
  shows "flags_inv cur (snd (receiveStreamDataCallback fin sid off data s))"
proof -
  have append: "preserves (flags_inv cur) (appendReceivedStreamData d :: ('w, unit) cact)" for d
  proof (rule preserves_def [THEN iffD2], intro allI impI)
    fix s :: "'w conn" assume inv: "flags_inv cur s"
    show "flags_inv cur (snd (appendReceivedStreamData d s))"
      using flags_inv_streamFlush [OF inv, where f = "peerFinishedPending s"] inv
      by (auto simp: appendReceivedStreamData_def assertWorkerOwner_def act_simps)
  qed
  have finished: "preserves (flags_inv cur) (markPeerFinished :: ('w, unit) cact)"
  proof (rule preserves_def [THEN iffD2], intro allI impI)
    fix s :: "'w conn" assume inv: "flags_inv cur s"
    show "flags_inv cur (snd (markPeerFinished s))"
      using flags_inv_streamFlush [OF inv, where b = "streamReceiveBatch s"] inv
      by (auto simp: markPeerFinished_def assertWorkerOwner_def act_simps)
  qed
  have "preserves (flags_inv cur) (modProto f :: ('w, unit) cact)" for f
    by (auto simp: preserves_def act_simps intro: flags_inv_cong)
  then have "preserves (flags_inv cur) (receiveStreamDataCallback fin sid off data :: 'w cb)"
    unfolding receiveStreamDataCallback_def cb_fail_def cb_ok_def
    by (intro preserves_intros append finished) auto
  then show ?thesis using assms by (rule preservesD)
qed

lemma flags_inv_acked:
  "flags_inv cur s \<Longrightarrow> flags_inv cur (snd (acknowledgedStreamDataCallback sid off len s))"
  by (auto simp: acknowledgedStreamDataCallback_def markAcknowledged_def cb_fail_def cb_ok_def act_simps
      elim!: flags_inv_cong)

lemma flags_inv_queueReceive:
  fixes s :: "'w conn"
  assumes inv: "flags_inv cur s"
  shows "flags_inv cur (snd (queueReceive d s))"
proof (cases "span_is_null d \<or> span_size d = 0 \<or> stopped s")
  case True
  then show ?thesis using inv by (simp add: queueReceive_def act_simps)
next
  case False
  obtain r b where p: "packets_append d (receiveBatch s) = (r, b)" by fastforce
  show ?thesis
  proof (cases r)
    case (Inl e)
    then have "b = receiveBatch s"
      using p by (auto simp: packets_append_def split: if_splits)
    then show ?thesis using False Inl p inv by (simp add: queueReceive_def act_simps)
  next
    case (Inr u)
    let ?s = "s\<lparr>receiveBatch := b\<rparr>"
    show ?thesis
    proof (cases "receiveOperationPending s")
      case True
      then have "flags_inv cur ?s"
        using inv by (simp add: flags_inv_def flag_count_def)
      then show ?thesis using False Inr p True by (simp add: queueReceive_def act_simps)
    next
      case noflag: False
      have "flags_inv cur (snd (queueInternalOperation FlushRecv (?s\<lparr>receiveOperationPending := True\<rparr>)))"
        by (rule flags_raise [OF inv]) (use noflag in \<open>auto simp: flag_field flagged_def\<close>)
      then show ?thesis using False Inr p noflag
        by (auto simp: queueReceive_def act_simps split: prod.split sum.split)
    qed
  qed
qed

interpretation flags_plain: conn_plain E "\<lambda>_. ()" "\<lambda>_ _. True" "\<lambda>_ _ _ _. True" "flags_inv cur" for E cur
  by unfold_locales
    (rule env_calls_trivial | erule flags_inv_received | erule flags_inv_acked
      | erule flags_inv_cong; simp | simp)+

interpretation flags: conn_feeder E "\<lambda>_. ()" "\<lambda>_ _. True" "\<lambda>_ _ _ _. True" "flags_inv cur" for E cur
  by unfold_locales
    (rule env_receives_trivial flags_plain.writing flags_inv_send preserves_def [THEN iffD2]
      | intro allI impI, erule flags_inv_queueReceive | erule flags_inv_cong; simp)+

section \<open>The flags along the handlers\<close>

text \<open>Each handler resets the flag of the operation it was popped for.\<close>

lemma flags_idle_op: "\<not> flagged t \<Longrightarrow> flags_inv (Some t) s \<longleftrightarrow> flags_inv None s"
proof -
  assume "\<not> flagged t"
  then have "flag_count (Some t) s t' = flag_count None s t'" if "flagged t'" for t'
    using that by (auto simp: flag_count_def)
  then show ?thesis by (simp add: flags_inv_def)
qed

lemma flags_lower:
  fixes s s' :: "'w conn"
  assumes "flags_inv (Some t) s" and "flagged t"
    and "stopped s' = stopped s" and "operationQueue s' = operationQueue s"
    and "flag s' = (flag s)(t := False)"
    and "receiveBatch s' \<noteq> [] \<Longrightarrow> t \<noteq> FlushRecv \<and> receiveBatch s \<noteq> []"
    and "streamReceiveBatch s' \<noteq> [] \<or> peerFinishedPending s' \<Longrightarrow>
      t \<noteq> FlushStreamRecv \<and> (streamReceiveBatch s \<noteq> [] \<or> peerFinishedPending s)"
  shows "flags_inv None s'"
proof (cases "stopped s")
  case True
  then show ?thesis using assms(3) by (simp add: flags_inv_def)
next
  case False
  have pend: "receiveOperationPending u = flag u FlushRecv"
    "streamReceiveOperationPending u = flag u FlushStreamRecv" for u :: "'w conn"
    by (simp_all add: flag_def)
  have "flag_count None s' t' = (if flag s' t' then 1 else 0)" if "flagged t'" for t'
  proof -
    have "flag_count (Some t) s t' = (if flag s t' then 1 else 0)"
      using assms(1) False that by (simp add: flags_inv_def)
    then show ?thesis
      using assms(4,5) by (auto simp: flag_count_def split: if_splits)
  qed
  moreover have "receiveBatch s' \<noteq> [] \<longrightarrow> receiveOperationPending s'"
    using assms(1,5,6) False by (auto simp: flags_inv_def pend)
  moreover have "streamReceiveBatch s' \<noteq> [] \<or> peerFinishedPending s' \<longrightarrow> streamReceiveOperationPending s'"
    using assms(1,5,7) False by (auto simp: flags_inv_def pend)
  ultimately show ?thesis by (simp add: flags_inv_def)
qed

lemma flags_take:
  "post (flags_inv (Some FlushRecv))
     (modify (\<lambda>s. s\<lparr>receiveBatch := [], receiveOperationPending := False\<rparr>)) (\<lambda>_. flags_inv None)"
proof (rule post_modify)
  fix s :: "'a conn" assume "flags_inv (Some FlushRecv) s"
  then show "flags_inv None (s\<lparr>receiveBatch := [], receiveOperationPending := False\<rparr>)"
    by (rule flags_lower) (auto simp: flagged_def fun_eq_iff flag_def split: operation_type.split)
qed

text \<open>The second look at the batch: with the flags right there is never anything left to queue.\<close>

lemma flags_again:
  "post (flags_inv None)
     (bindA (gets (\<lambda>s. receiveBatch s \<noteq> [] \<and> \<not> receiveOperationPending s)) (\<lambda>again. whenA again (blockA
        [modify (\<lambda>s. s\<lparr>receiveOperationPending := True\<rparr>), queueInternalOperation FlushRecv])))
     (\<lambda>_. flags_inv None)"
proof (rule postI)
  fix s s' :: "'a conn" and x
  assume inv: "flags_inv None s"
    and run: "bindA (gets (\<lambda>s. receiveBatch s \<noteq> [] \<and> \<not> receiveOperationPending s)) (\<lambda>again. whenA again (blockA
        [modify (\<lambda>s. s\<lparr>receiveOperationPending := True\<rparr>), queueInternalOperation FlushRecv])) s = (Inr x, s')"
  show "flags_inv None s'"
  proof (cases "receiveBatch s \<noteq> [] \<and> \<not> receiveOperationPending s")
    case True
    then have "stopped s" using inv by (simp add: flags_inv_def)
    then have "stopped s'"
      using run True by (auto simp: act_simps queue_defs split: if_splits)
    then show ?thesis by (simp add: flags_inv_def)
  next
    case False
    then show ?thesis using run inv by (auto simp: act_simps)
  qed
qed

lemma flags_processReceive:
  "post (flags_inv (Some FlushRecv)) (processReceive E) (\<lambda>_. flags_inv None)"
  unfolding processReceive_def
proof (rule post_bind)
  fix batch
  have feed: "post (flags_inv None) (whenA (batch \<noteq> [])
      (blockA [blockA (map (feedPacket E) batch), queueSendFlush])) (\<lambda>_. flags_inv None)"
    by (intro preserves_post preserves_intros flags.feedPackets_inv flags_inv_send)
  have arrive: "post (flags_inv None) (bindA (extern (q_arrivals E)) arrive) (\<lambda>_. flags_inv None)"
    by (intro preserves_post flags.arrivals_inv)
  show "post (flags_inv (Some FlushRecv)) (blockA
     [modify (\<lambda>s. s\<lparr>receiveBatch := [], receiveOperationPending := False\<rparr>),
      whenA (batch \<noteq> []) (blockA [blockA (map (feedPacket E) batch), queueSendFlush]),
      bindA (extern (q_arrivals E)) arrive,
      bindA (gets (\<lambda>s. receiveBatch s \<noteq> [] \<and> \<not> receiveOperationPending s)) (\<lambda>again.
        whenA again (blockA
          [modify (\<lambda>s. s\<lparr>receiveOperationPending := True\<rparr>),
           queueInternalOperation FlushRecv]))]) (\<lambda>_. flags_inv None)"
    by (intro post_blockA_Cons [OF flags_take] post_blockA_Cons [OF feed] post_blockA_Cons [OF arrive])
      (simp only: blockA.simps(2) flags_again)
qed (rule preserves_post [OF preserves_gets])

text \<open>Outside its own operation the worker's other handlers keep the flags.\<close>

lemma flags_processStreamReceive:
  "post (flags_inv (Some FlushStreamRecv))
     (blockA [modify (\<lambda>s. s\<lparr>streamReceiveOperationPending := False\<rparr>), processStreamReceive])
     (\<lambda>_. flags_inv None)"
proof (rule postI)
  fix s s' :: "'a conn" and x
  assume inv: "flags_inv (Some FlushStreamRecv) s"
    and run: "blockA [modify (\<lambda>s. s\<lparr>streamReceiveOperationPending := False\<rparr>), processStreamReceive] s =
      (Inr x, s')"
  have "streamReceiveBatch s' = [] \<and> \<not> peerFinishedPending s' \<and> receiveBatch s' = receiveBatch s \<and>
      stopped s' = stopped s \<and> operationQueue s' = operationQueue s \<and>
      flag s' = (flag s)(FlushStreamRecv := False)"
    using run
    by (auto simp: act_simps processStreamReceive_def assertWorkerOwner_def fun_eq_iff flag_def
        split: if_splits operation_type.split)
  then show "flags_inv None s'"
    by (intro flags_lower [OF inv]) (auto simp: flagged_def)
qed

lemma flags_lower_send:
  "post (flags_inv (Some FlushSend)) (modify (\<lambda>s. s\<lparr>sendOperationPending := False\<rparr>)) (\<lambda>_. flags_inv None)"
proof (rule post_modify)
  fix s :: "'a conn" assume "flags_inv (Some FlushSend) s"
  then show "flags_inv None (s\<lparr>sendOperationPending := False\<rparr>)"
    by (rule flags_lower) (auto simp: flagged_def fun_eq_iff flag_def split: operation_type.split)
qed

lemma flags_processSendFlush:
  "post (flags_inv (Some FlushSend))
     (blockA [modify (\<lambda>s. s\<lparr>sendOperationPending := False\<rparr>), processSendFlush E]) (\<lambda>_. flags_inv None)"
  by (intro post_blockA_Cons [OF flags_lower_send] preserves_post preserves_intros
      flags.processSendFlush_inv)

lemma flags_modProto: "preserves (flags_inv cur) (modProto f)"
  by (auto simp: preserves_def act_simps elim: flags_inv_cong)

lemma flags_extern: "preserves (flags_inv cur) (extern f)"
  by (auto simp: preserves_def act_simps elim: flags_inv_cong)

lemma flags_processCredit:
  "post (flags_inv (Some ReleaseStreamRecvCredit)) (processReleaseStreamReceiveCredit E) (\<lambda>_. flags_inv None)"
proof (rule postI)
  fix s s' :: "'a conn" and x
  assume inv: "flags_inv (Some ReleaseStreamRecvCredit) s"
    and run: "processReleaseStreamReceiveCredit E s = (Inr x, s')"
  let ?s = "s\<lparr>releasableStreamReceiveBytes := 0\<rparr>"
  let ?rest = "bindA (extern (q_extend_max_stream_offset E (rxStreamID (proto s)) (releasableStreamReceiveBytes s)))
     (\<lambda>r. if r \<noteq> Inr 0 then throw (RuntimeError ''QUIC stream receive credit could not be extended'')
         else blockA
           [extern (\<lambda>w. ((), q_extend_max_offset E (releasableStreamReceiveBytes s) w)),
            queueSendFlush])"
  have low: "flags_inv None ?s"
    by (rule flags_lower [OF inv])
      (auto simp: flagged_def fun_eq_iff flag_def split: operation_type.split)
  have rest: "preserves (flags_inv None) ?rest"
    by (intro preserves_intros flags_inv_send flags_extern)
  have "s' = ?s \<or> ?rest ?s = (Inr x, s')"
    using run
    by (auto simp: processReleaseStreamReceiveCredit_def assertWorkerOwner_def bindA_apply [of "gets _"]
        bindA_apply [of "modify _"] bindA_apply [of "bindA _ _"]
        gets_apply modify_apply throw_apply ret_apply split: if_splits)
  then show "flags_inv None s'"
    using low preservesD2 [OF rest low] by metis
qed

lemma flags_add_chunk: "preserves (flags_inv cur) (processSend E oper)"
  unfolding processSend_def
  by (intro preserves_intros flags.chooseStream_inv flags_modProto flags_inv_send flags_plain.publish_inv)

lemma flags_release: "preserves (flags_inv cur) (releaseTransport E)"
  unfolding releaseTransport_def by (intro preserves_intros flags_extern flags_modProto)

lemma flags_stopped: "stopped s \<Longrightarrow> flags_inv cur s"
  by (simp add: flags_inv_def)

lemma flags_processShutdown: "post P (processShutdown E) (\<lambda>_ s. stopped s)"
  by (auto simp: post_def processShutdown_def act_simps notifyApplication_def
      split: prod.splits sum.splits)

lemma flags_processOperation:
  "post (flags_inv (Some (op_type oper))) (processOperation E oper) (\<lambda>_. flags_inv None)"
proof -
  have idle: "\<not> flagged (op_type oper) \<Longrightarrow> preserves (flags_inv None) m \<Longrightarrow>
    post (flags_inv (Some (op_type oper))) m (\<lambda>_. flags_inv None)" for m :: "('a, unit) cact"
    by (auto simp: flags_idle_op intro: preserves_post post_weaken)
  show ?thesis
  proof (cases "op_type oper")
    case APIStart
    then show ?thesis
      using idle [OF _ flags.processStart_inv] by (simp add: processOperation_def flagged_def)
  next
    case APISend
    then show ?thesis
      using idle [OF _ flags_add_chunk] by (simp add: processOperation_def flagged_def)
  next
    case TimerExpired
    then show ?thesis
      using idle [OF _ flags.processTimer_inv] by (simp add: processOperation_def flagged_def)
  next
    case Shutdown
    then show ?thesis
      using post_weaken [OF flags_processShutdown]
      by (auto simp: processOperation_def flags_stopped intro: post_weaken [OF flags_processShutdown])
  qed (use flags_processReceive flags_processStreamReceive flags_processSendFlush flags_processCredit
      in \<open>simp_all add: processOperation_def\<close>)
qed

end
