(* ===== verification/Demo_Env.thy ===== *)
theory Demo_Env
  imports Quic_Env
begin

text \<open>
  A concrete external environment, for the concrete instances of the theorems: every call
  succeeds, the clock stands at 5, a packet carries all the stream data it is given, every packet
  that arrives carries the peer's whole stream 0, the three bytes 1, 2 and 3, and the external state is
  the byte string ngtcp2 has accepted so far. \<open>demo_with\<close> leaves open what ngtcp2 does with a packet that
  arrives, with stream data and with an aggregate, what other threads deliver meanwhile, and libjuice. Nothing here models code of the program.
\<close>

definition demo_juice :: "'w juice_env" where
  "demo_juice = \<lparr>juice_send = (\<lambda>_ _ w. (JUICE_ERR_SUCCESS, w)),
     juice_send_aggregate_progress = (\<lambda>_ d _ w. ((JUICE_ERR_SUCCESS, length d), w)),
     juice_text = (\<lambda>_. ''0'')\<rparr>"

definition demo_with :: "(nat option \<times> nat option \<Rightarrow> bytes \<Rightarrow> timestamp \<Rightarrow> 'w \<Rightarrow> ('w, ng_code) ng) \<Rightarrow>
    (nat \<Rightarrow> stream_flags \<Rightarrow> int \<Rightarrow> bytes option \<Rightarrow> timestamp \<Rightarrow> 'w \<Rightarrow> ('w, ng_written \<times> int) ng) \<Rightarrow>
    ('w \<Rightarrow> span list \<times> 'w) \<Rightarrow> (nat \<Rightarrow> nat \<Rightarrow> timestamp \<Rightarrow> 'w \<Rightarrow> ('w, ng_written \<times> nat) ng) \<Rightarrow>
    'w juice_env \<Rightarrow> 'w quic_env" where
  "demo_with rd wr ar ag ju = \<lparr>q_max_cidlen = 20, q_token_len = 16,
     q_now = (\<lambda>w. (5, w)),
     q_tls = (\<lambda>c w. (if c = TlsConfigureServerSession \<or> c = TlsConfigureClientSession then 0 else 1, w)),
     q_random = (\<lambda>n w. ((0, replicate n 7), w)),
     q_tls_strerror = (\<lambda>_. ''tls''), q_strerror = (\<lambda>_. ''quic''),
     q_tls_release = (\<lambda>w. w), q_credentials_release = (\<lambda>w. w),
     q_decode_version_cid = (\<lambda>_. (Inr 0, \<lparr>vc_version1 = True, vc_dcid = [1], vc_scid = [2]\<rparr>)),
     q_conn_new = (\<lambda>_ _ _ _ w. (Inr 0, w)),
     q_set_tls_native_handle = (\<lambda>w. w), q_conn_del = (\<lambda>w. w),
     q_read_pkt = rd,
     q_write_stream = wr,
     q_write_pkt = (\<lambda>_ _ w. NgReturn (Inr []) w),
     q_write_aggregate = ag,
     q_get_expiry = (\<lambda>_. InfiniteTimestamp),
     q_handle_expiry = (\<lambda>_ w. NgReturn (Inr 0) w),
     q_open_bidi_stream = (\<lambda>w. ((Inr 0, 0), w)),
     q_extend_max_stream_offset = (\<lambda>_ _ w. (Inr 0, w)),
     q_extend_max_offset = (\<lambda>_ w. w),
     q_update_pkt_tx_time = (\<lambda>_ w. w),
     q_arrivals = ar,
     q_juice = ju\<rparr>"

definition demo_reader :: "nat option \<times> nat option \<Rightarrow> bytes \<Rightarrow> timestamp \<Rightarrow> bytes \<Rightarrow> (bytes, ng_code) ng" where
  "demo_reader path pk t w = NgCallback (CbReceiveStreamData True 0 0 [1, 2, 3]) w (\<lambda>(_, w'). NgReturn (Inr 0) w')"

definition demo_writer :: "nat \<Rightarrow> stream_flags \<Rightarrow> int \<Rightarrow> bytes option \<Rightarrow> timestamp \<Rightarrow> bytes \<Rightarrow> (bytes, ng_written \<times> int) ng" where
  "demo_writer n f sid d t w = (case d of
      None \<Rightarrow> NgReturn (Inr [], -1) w
    | Some bs \<Rightarrow> NgReturn (Inr bs, int (length bs)) (w @ bs))"

definition demo_aggregate :: "nat \<Rightarrow> nat \<Rightarrow> timestamp \<Rightarrow> 'w \<Rightarrow> ('w, ng_written \<times> nat) ng" where
  "demo_aggregate n m t w = NgReturn (Inr [], 0) w"

definition demo_env :: "bytes quic_env" where
  "demo_env = demo_with demo_reader demo_writer (Pair []) demo_aggregate demo_juice"

lemmas demo_env_defs = demo_env_def demo_with_def demo_reader_def demo_writer_def demo_aggregate_def

definition demo_agents :: "nat \<Rightarrow> agent" where
  "demo_agents = (\<lambda>_. \<lparr>agent_juice = Some \<lparr>jh_agent = Some 9\<rparr>, agent_lock = True,
     agent_closed = False, dataSink = None, dataSinkUserPtr = None\<rparr>)"

end
