(* ===== verification/Connection_Run.thy ===== *)
theory Connection_Run
  imports Connection_Queue Demo_Env
begin

text \<open>
  Runs of a connection: the application's and the datapath's calls and the worker's steps in any
  order, one per step, with the worker's loop interruptible between two operations. A step that
  ends in undefined behaviour has no successor. The invariants of the queue hold in every state a
  new connection can reach.
\<close>

section \<open>Failing and draining\<close>

lemma releaseTransport_nothrow: "nothrow (releaseTransport E)"
  unfolding releaseTransport_def by (intro nothrow_intros)

lemma releaseTransport_frame:
  assumes "\<And>s t. I s \<Longrightarrow> I (s\<lparr>io := t\<rparr>)" and "\<And>s p. I s \<Longrightarrow> I (s\<lparr>proto := p\<rparr>)"
  shows "preserves I (releaseTransport E)"
proof -
  have "preserves I (extern f)" and "preserves I (modProto g)" for f g
    using assms by (simp_all add: preserves_def act_simps)
  then show ?thesis
    unfolding releaseTransport_def by (intro preserves_intros)
qed

lemma releaseTransport_down: "post P (releaseTransport E) (\<lambda>_ s. \<not> hasConn (proto s))"
proof -
  have first: "post (\<lambda>s. proto s = p) (whenA (hasConn p) (blockA
     [extern (\<lambda>w. ((), q_conn_del E w)), modProto (\<lambda>p. p\<lparr>hasConn := False\<rparr>)]))
     (\<lambda>_ s. \<not> hasConn (proto s))" for p
    by (auto simp: post_def act_simps)
  have keep: "preserves (\<lambda>s. \<not> hasConn (proto s)) (extern f)"
    "preserves (\<lambda>s. \<not> hasConn (proto s)) (modProto (\<lambda>p. p\<lparr>hasTls := False\<rparr>))"
    "preserves (\<lambda>s. \<not> hasConn (proto s)) (modProto (\<lambda>p. p\<lparr>hasCredentials := False\<rparr>))"
    for f :: "'a \<Rightarrow> unit \<times> 'a"
    by (simp_all add: preserves_def act_simps)
  have "post (\<lambda>_. True) (gets proto) (\<lambda>p s. proto s = p)"
    by (simp add: post_gets)
  then show ?thesis
    unfolding releaseTransport_def
    by (rule post_weaken [OF post_bind])
      (auto intro!: post_blockA_Cons [OF first] preserves_post preserves_intros
        intro: keep simp del: blockA.simps)
qed

definition all_completed :: "completion list \<Rightarrow> bool" where
  "all_completed cs \<longleftrightarrow> (\<forall>c < length cs. completed (cs ! c))"

lemma length_drain_loop [simp]: "length (drain_loop err q cs) = length cs"
  by (induction err q cs rule: drain_loop.induct) (auto split: option.split)

lemma completed_update:
  "c < length cs \<Longrightarrow>
     completed (cs[x := completion_complete err (cs ! x)] ! c) \<longleftrightarrow> c = x \<or> completed (cs ! c)"
  by (cases "c = x") auto

lemma drain_loop_completed:
  "\<forall>oper \<in> set q. \<forall>c. op_completion oper = Some c \<longrightarrow> c < length cs \<Longrightarrow>
   \<forall>c < length cs. completed (cs ! c) \<or> (\<exists>oper \<in> set q. op_completion oper = Some c) \<Longrightarrow>
   all_completed (drain_loop err q cs)"
proof (induction err q cs rule: drain_loop.induct)
  case (2 err oper q cs)
  let ?cs = "case op_completion oper of None \<Rightarrow> cs
    | Some c \<Rightarrow> cs[c := completion_complete err (cs ! c)]"
  have "\<forall>c < length ?cs. completed (?cs ! c) \<or> (\<exists>oper \<in> set q. op_completion oper = Some c)"
    using "2.prems"(2) by (auto simp: completed_update split: option.split)
  moreover have "\<forall>oper \<in> set q. \<forall>c. op_completion oper = Some c \<longrightarrow> c < length ?cs"
    using "2.prems"(1) by (auto split: option.split)
  ultimately show ?case using "2.IH" by simp
qed (simp add: all_completed_def)

lemma drain_comp:
  "post (comp_inv {}) (drainFailedOperations err)
     (\<lambda>_ s. comp_inv {} s \<and> operationQueue s = [] \<and> all_completed (completions s))"
  unfolding drainFailedOperations_def
  by (rule post_modify) (auto simp: comp_inv_def drain_loop_completed all_completed_def [symmetric]
      intro: drain_loop_completed [unfolded all_completed_def, rule_format])

text \<open>Completing the operation in hand closes the gap its popping opened.\<close>

definition hand :: "operation \<Rightarrow> nat set" where
  "hand oper = (case op_completion oper of None \<Rightarrow> {} | Some c \<Rightarrow> {c})"

lemma complete_comp: "post (comp_inv (hand oper)) (completeOperation oper err) (\<lambda>_. comp_inv {})"
  unfolding completeOperation_def
  by (rule post_modify) (auto simp: comp_inv_def hand_def completed_update split: option.split_asm option.split)

lemma pop_comp:
  "comp_inv {} s \<Longrightarrow> operationQueue s = oper # q \<Longrightarrow> comp_inv (hand oper) (s\<lparr>operationQueue := q\<rparr>)"
  by (fastforce simp: comp_inv_def hand_def)

section \<open>One round of the worker's loop\<close>

lemma comp_frame: "preserves (comp_inv X) (setError m)" "preserves (comp_inv X) (releaseTransport E)"
  "preserves (comp_inv X) (modify (\<lambda>s. s\<lparr>stopped := True\<rparr>))" "preserves (comp_inv X) publishApplicationState"
  by (rule comp_plain.mark_inv comp.releaseTransport_inv preserves_modify comp_plain.publish_inv
      | simp add: comp_inv_def)+

lemma fail_comp:
  "post (comp_inv (hand oper)) (failOperation E oper e)
     (\<lambda>r s. \<not> r \<and> comp_inv {} s \<and> operationQueue s = [] \<and> all_completed (completions s))"
proof (cases "e = Undefined")
  case False
  have "post (comp_inv (hand oper)) (blockA
        [completeOperation oper (what e),
         setError (what e),
         releaseTransport E,
         modify (\<lambda>s. s\<lparr>stopped := True\<rparr>),
         drainFailedOperations (what e)])
     (\<lambda>_ s. comp_inv {} s \<and> operationQueue s = [] \<and> all_completed (completions s))"
    by (intro post_blockA_Cons [OF complete_comp] post_blockA_Cons [OF preserves_post [OF comp_frame(1)]]
        post_blockA_Cons [OF preserves_post [OF comp_frame(2)]]
        post_blockA_Cons [OF preserves_post [OF comp_frame(3)]]) (simp only: blockA.simps(2) drain_comp)
  then show ?thesis
    unfolding failOperation_def if_not_P [OF False]
    by (rule post_bind) (simp add: post_ret)
qed (simp add: failOperation_def post_throw)

lemma processOperation_comp: "preserves (comp_inv X) (processOperation E oper)"
proof (cases "op_type oper = APISend")
  case True
  then show ?thesis by (simp add: processOperation_def comp_inv_processSend)
qed (rule comp.processOperation_inv)

lemma post_catch:
  "post P m Q \<Longrightarrow> (\<And>s e s'. P s \<Longrightarrow> m s = (Inl e, s') \<Longrightarrow> R e s') \<Longrightarrow> (\<And>e. post (R e) (h e) Q) \<Longrightarrow>
   post P (catchA m h) Q"
  unfolding post_def by (fastforce simp: act_simps split: prod.splits sum.splits)

lemma try_error:
  "bindA (blockA [processOperation E oper, completeOperation oper err]) (\<lambda>_. ret True) s = (Inl e, s') \<Longrightarrow>
   processOperation E oper s = (Inl e, s')"
  by (auto simp: act_simps completeOperation_def split: prod.splits sum.splits)

lemma try_comp:
  "post (comp_inv (hand oper)) (tryOperation E oper)
     (\<lambda>r s. comp_inv {} s \<and> (\<not> r \<longrightarrow> operationQueue s = [] \<and> all_completed (completions s)))"
  unfolding tryOperation_def
proof (rule post_catch)
  show "post (comp_inv (hand oper)) (bindA (blockA [processOperation E oper, completeOperation oper ''''])
    (\<lambda>_. ret True)) (\<lambda>r s. comp_inv {} s \<and> (\<not> r \<longrightarrow> operationQueue s = [] \<and> all_completed (completions s)))"
    by (rule post_bind [where R = "\<lambda>_. comp_inv {}"])
      (simp_all add: post_bind [OF preserves_post [OF processOperation_comp] complete_comp] post_ret)
next
  fix s e s'
  assume "comp_inv (hand oper) s"
    and "bindA (blockA [processOperation E oper, completeOperation oper '''']) (\<lambda>_. ret True) s = (Inl e, s')"
  then show "comp_inv (hand oper) s'"
    using preservesD2 [OF processOperation_comp] try_error by blast
next
  fix e
  show "post (comp_inv (hand oper)) (failOperation E oper e)
    (\<lambda>r s. comp_inv {} s \<and> (\<not> r \<longrightarrow> operationQueue s = [] \<and> all_completed (completions s)))"
    by (rule post_weaken [OF fail_comp]) auto
qed

text \<open>How a round runs: the queue was empty, or an operation was taken and tried.\<close>

lemma processNext_cases:
  assumes "processNext E s = (Inr r, s')"
  obtains "operationQueue s = []" "r = LoopEmpty" "s' = s"
  | oper q ok s1 where "operationQueue s = oper # q"
      "tryOperation E oper (s\<lparr>operationQueue := q\<rparr>) = (Inr ok, s1)"
      "\<not> ok \<Longrightarrow> r = LoopFailed \<and> s' = s1"
      "ok \<Longrightarrow> stopped s1 \<Longrightarrow> r = LoopStopped \<and>
         drainFailedOperations ''QUIC runtime is stopped'' s1 = (Inr (), s')"
      "ok \<Longrightarrow> \<not> stopped s1 \<Longrightarrow> r = LoopNext \<and> s' = s1"
  using assms
  by (cases "operationQueue s")
    (auto simp: processNext_def act_simps drainFailedOperations_def split: prod.splits sum.splits if_splits)

text \<open>When a round ends the loop because of a failure or a shutdown, nothing is left waiting.\<close>

lemma next_comp:
  "post (comp_inv {}) (processNext E)
     (\<lambda>r s. comp_inv {} s \<and> (r = LoopFailed \<or> r = LoopStopped \<longrightarrow>
        operationQueue s = [] \<and> all_completed (completions s)))"
proof (rule postI)
  fix s r s'
  assume inv: "comp_inv {} s" and run: "processNext E s = (Inr r, s')"
  from run show "comp_inv {} s' \<and> (r = LoopFailed \<or> r = LoopStopped \<longrightarrow>
    operationQueue s' = [] \<and> all_completed (completions s'))"
  proof (cases rule: processNext_cases)
    case 1
    then show ?thesis using inv by simp
  next
    case (2 oper q ok s1)
    note tried = postD [OF try_comp pop_comp [OF inv 2(1)] 2(2)]
    show ?thesis
      using tried postD [OF drain_comp conjunct1 [OF tried]] 2(3-5)
      by (cases ok; cases "stopped s1") auto
  qed
qed

lemma fail_stops: "post P (failOperation E oper e) (\<lambda>_ s. stopped s \<and> \<not> hasConn (proto s))"
proof -
  have keep: "preserves (\<lambda>s. \<not> hasConn (proto s)) (modify (\<lambda>s. s\<lparr>stopped := True\<rparr>))"
    by (simp add: preserves_def act_simps)
  have stop: "post (\<lambda>s. \<not> hasConn (proto s)) (modify (\<lambda>s. s\<lparr>stopped := True\<rparr>))
      (\<lambda>_ s. stopped s \<and> \<not> hasConn (proto s))"
    by (simp add: post_modify)
  have drain: "post (\<lambda>s. stopped s \<and> \<not> hasConn (proto s)) (drainFailedOperations m)
      (\<lambda>_ s. stopped s \<and> \<not> hasConn (proto s))" for m
    unfolding drainFailedOperations_def by (rule post_modify) simp
  have any: "post P m (\<lambda>_ _. True)" for P and m :: "('a, 'b) cact"
    by (simp add: post_def)
  have "post P (blockA
        [completeOperation oper m,
         setError m,
         releaseTransport E,
         modify (\<lambda>s. s\<lparr>stopped := True\<rparr>),
         drainFailedOperations m]) (\<lambda>_ s. stopped s \<and> \<not> hasConn (proto s))" for m
    by (intro post_blockA_Cons [OF any] post_blockA_Cons [OF releaseTransport_down]
        post_blockA_Cons [OF stop]) (simp only: blockA.simps(2) drain)
  then show ?thesis
    unfolding failOperation_def
    by (cases "e = Undefined") (auto intro!: post_throw post_bind post_ret simp del: blockA.simps)
qed

lemma sched_frame: "preserves sched_inv (completeOperation oper m)" "preserves sched_inv (setError m)"
  "preserves sched_inv (releaseTransport E)" "preserves sched_inv (modify (\<lambda>s. s\<lparr>stopped := True\<rparr>))"
  "preserves sched_inv (drainFailedOperations m)" "preserves sched_inv publishApplicationState"
  unfolding completeOperation_def drainFailedOperations_def
  by (rule sched_plain.mark_inv sched.releaseTransport_inv preserves_modify sched_plain.publish_inv
      | simp add: sched_inv_def split: option.split)+

lemma next_sched: "preserves sched_inv (processNext E)"
proof -
  have "preserves sched_inv (processOperation E oper)" for oper
    by (cases "op_type oper = APISend")
      (simp_all add: processOperation_def sched_inv_processSend sched.processOperation_inv [unfolded processOperation_def])
  then have attempt: "preserves sched_inv (tryOperation E oper)" for oper
    unfolding tryOperation_def failOperation_def by (intro preserves_intros sched_frame)
  have "sched_inv (snd (processNext E s))" if "sched_inv s" for s
  proof (cases "operationQueue s")
    case Nil
    then show ?thesis using that by (simp add: processNext_def act_simps)
  next
    case (Cons oper q)
    let ?rest = "bindA (tryOperation E oper) (\<lambda>ok.
       if \<not> ok then ret LoopFailed
       else bindA (gets stopped) (\<lambda>st.
         if st then bindA (drainFailedOperations ''QUIC runtime is stopped'') (\<lambda>_. ret LoopStopped)
         else ret LoopNext))"
    have rest: "preserves sched_inv ?rest"
      by (intro preserves_intros attempt sched_frame)
    have "sched_inv (s\<lparr>operationQueue := q\<rparr>)"
      using that Cons by (simp add: sched_inv_def)
    from preservesD [OF rest this] show ?thesis
      using Cons by (simp add: processNext_def bindA_apply [of "gets _"] bindA_apply [of "modify _"]
          gets_apply modify_apply)
  qed
  then show ?thesis by (simp add: preserves_def)
qed

lemma pop_flags:
  assumes "flags_inv None s" and "operationQueue s = oper # q"
  shows "flags_inv (Some (op_type oper)) (s\<lparr>operationQueue := q\<rparr>)"
proof -
  have "flag_count (Some (op_type oper)) (s\<lparr>operationQueue := q\<rparr>) t = flag_count None s t" for t
    using assms(2) by (auto simp: flag_count_def)
  then show ?thesis using assms(1) by (simp add: flags_inv_def)
qed

lemma try_flags:
  "post (flags_inv (Some (op_type oper))) (tryOperation E oper) (\<lambda>_. flags_inv None)"
  unfolding tryOperation_def
proof (rule post_catch [where R = "\<lambda>_ _. True"])
  have complete: "preserves (flags_inv None) (completeOperation oper m)" for m
    by (auto simp: preserves_def act_simps completeOperation_def split: option.split elim: flags_inv_cong)
  show "post (flags_inv (Some (op_type oper)))
    (bindA (blockA [processOperation E oper, completeOperation oper '''']) (\<lambda>_. ret True)) (\<lambda>_. flags_inv None)"
    by (rule post_bind [where R = "\<lambda>_. flags_inv None"])
      (auto intro: post_bind [OF flags_processOperation] preserves_post complete post_ret)
next
  fix e
  show "post (\<lambda>_. True) (failOperation E oper e) (\<lambda>_. flags_inv None)"
    by (rule post_weaken [OF fail_stops]) (auto simp: flags_stopped)
qed simp

lemma drain_stopped: "stopped s \<Longrightarrow> drainFailedOperations m s = (r, s') \<Longrightarrow> stopped s'"
  by (auto simp: drainFailedOperations_def act_simps)

lemma next_flags: "post (flags_inv None) (processNext E) (\<lambda>_. flags_inv None)"
proof (rule postI)
  fix s r s'
  assume inv: "flags_inv None s" and run: "processNext E s = (Inr r, s')"
  from run show "flags_inv None s'"
  proof (cases rule: processNext_cases)
    case 1
    then show ?thesis using inv by simp
  next
    case (2 oper q ok s1)
    have "flags_inv None s1"
      using postD [OF try_flags pop_flags [OF inv 2(1)] 2(2)] .
    then show ?thesis
      using 2(3-5) drain_stopped flags_stopped by (cases ok; cases "stopped s1") blast+
  qed
qed

section \<open>The application's calls\<close>

lemma request_comp:
  "preserves (comp_inv {}) (bindA newCompletion (\<lambda>c.
     bindA (queueOperation ((operation_of ty)\<lparr>op_completion := Some c\<rparr>)) (\<lambda>_. ret (f c))) :: ('w, 'a) cact)"
proof -
  have "comp_inv {} (s\<lparr>completions := completions s @ [completion_complete m completion_new]\<rparr>)"
    if "comp_inv {} s" for s :: "'w conn" and m
    using that by (fastforce simp: comp_inv_def nth_append)
  moreover have "comp_inv {} (s\<lparr>completions := completions s @ [completion_new],
      operationQueue := operationQueue s @ [(operation_of ty)\<lparr>op_completion := Some (length (completions s))\<rparr>]\<rparr>)"
    if "comp_inv {} s" for s :: "'w conn"
    using that by (auto simp: comp_inv_def nth_append less_Suc_eq)
  moreover have "comp_inv {} (s\<lparr>scheduleState := st, scheduled := n\<rparr>) = comp_inv {} s"
    for s :: "'w conn" and st n
    by (simp add: comp_inv_def)
  ultimately show ?thesis
    by (auto simp: preserves_def act_simps newCompletion_def queueOperation_def completeOperation_def
        scheduleIfIdle_def queue_push_def operation_of_def)
qed

lemma preserves_withIo: "(\<And>s t. I s \<Longrightarrow> I (s\<lparr>io := t\<rparr>)) \<Longrightarrow> preserves I (withIo m)"
  by (auto simp: preserves_def act_simps split: prod.split)

lemma detach_inv: "(\<And>s t. I s \<Longrightarrow> I (s\<lparr>io := t\<rparr>)) \<Longrightarrow> preserves I detachBinding"
  unfolding detachBinding_def by (intro preserves_intros preserves_withIo)

lemma finish_inv:
  assumes "\<And>s t. I s \<Longrightarrow> I (s\<lparr>io := t\<rparr>)"
  shows "preserves I (start_finish c)" and "preserves I (close_finish c)"
  unfolding start_finish_def close_finish_def
  by (auto intro!: preserves_intros detach_inv assms split: wait_result.split)

lemma comp_api:
  "preserves (comp_inv {}) (start_request a g n)" "preserves (comp_inv {}) close_request"
  "preserves (comp_inv {}) (queueDataAsync d fin)" "preserves (comp_inv {}) takeReceivedStreamData"
  "preserves (comp_inv {}) (binding_onReceive d)" "preserves (comp_inv {}) queueTimerExpired"
proof -
  show "preserves (comp_inv {}) (start_request a g n)"
    unfolding start_request_def
    by (intro preserves_intros preserves_modify preserves_withIo request_comp) (simp_all add: comp_inv_def)
  show "preserves (comp_inv {}) close_request"
    unfolding close_request_def
    by (intro preserves_intros detach_inv request_comp) (simp add: comp_inv_def)
  show "preserves (comp_inv {}) (queueDataAsync d fin)"
    unfolding queueDataAsync_def createSendOperation_def
    by (intro preserves_intros preserves_modify comp_inv_push) (simp_all add: comp_inv_def)
  show "preserves (comp_inv {}) takeReceivedStreamData"
    unfolding takeReceivedStreamData_def modApp_def
    by (intro preserves_intros preserves_modify comp_inv_internal) (simp_all add: comp_inv_def)
  show "preserves (comp_inv {}) (binding_onReceive d)"
    unfolding binding_onReceive_def by (intro preserves_intros comp_inv_queueReceive)
  show "preserves (comp_inv {}) queueTimerExpired"
    unfolding queueTimerExpired_def by (intro preserves_intros comp_inv_internal)
qed

lemma sched_api:
  "preserves sched_inv (start_request a g n)" "preserves sched_inv close_request"
  "preserves sched_inv (queueDataAsync d fin)" "preserves sched_inv takeReceivedStreamData"
  "preserves sched_inv (binding_onReceive d)" "preserves sched_inv queueTimerExpired"
  unfolding start_request_def close_request_def queueDataAsync_def createSendOperation_def
    takeReceivedStreamData_def modApp_def binding_onReceive_def queueTimerExpired_def newCompletion_def
  by (intro preserves_intros preserves_modify preserves_withIo detach_inv sched_inv_push sched_inv_internal
      sched_inv_queueReceive; simp add: sched_inv_def)+

lemma flags_io: "flags_inv cur s \<Longrightarrow> flags_inv cur (s\<lparr>io := t\<rparr>)"
  by (erule flags_inv_cong) simp_all

lemma flags_inv_push:
  fixes oper :: operation
  assumes "\<not> flagged (op_type oper)"
  shows "preserves (flags_inv cur) (queueOperation oper :: ('w, unit) cact)"
proof -
  have "flags_inv cur (s\<lparr>operationQueue := queue_push oper (operationQueue s)\<rparr>)"
    if "flags_inv cur s" for s :: "'w conn"
  proof -
    have "flag_count cur (s\<lparr>operationQueue := queue_push oper (operationQueue s)\<rparr>) t = flag_count cur s t"
      if "flagged t" for t
      using that assms by (auto simp: flag_count_def)
    then show ?thesis using that by (simp add: flags_inv_def)
  qed
  then show ?thesis
    unfolding queueOperation_def scheduleIfIdle_def completeOperation_def
    by (intro preserves_intros preserves_modify)
      (auto elim: flags_inv_cong split: option.split simp: fun_eq_iff flag_def)
qed

lemma flags_api:
  "preserves (flags_inv None) (start_request a g n)" "preserves (flags_inv None) close_request"
  "preserves (flags_inv None) (queueDataAsync d fin)" "preserves (flags_inv None) (binding_onReceive d)"
  "preserves (flags_inv None) queueTimerExpired"
  unfolding start_request_def close_request_def queueDataAsync_def createSendOperation_def
    binding_onReceive_def queueTimerExpired_def newCompletion_def queueInternalOperation_def
  by (intro preserves_intros preserves_modify preserves_withIo detach_inv flags_inv_push flags_io
      preserves_def [THEN iffD2, rule_format] flags_inv_queueReceive | assumption
      | erule flags_inv_cong; simp | simp add: flagged_def)+

lemma flags_api_take: "preserves (flags_inv None) takeReceivedStreamData"
proof (rule preserves_def [THEN iffD2, rule_format])
  fix s :: "'w conn"
  let ?b = "appReceiveBatch (app s)"
  let ?s = "s\<lparr>app := (app s)\<lparr>appReceiveBatch := []\<rparr>\<rparr>"
  let ?t = "?s\<lparr>releasableStreamReceiveBytes := releasableStreamReceiveBytes s + length ?b\<rparr>"
  assume inv: "flags_inv None s"
  have inv': "flags_inv None ?s" using inv by (rule flags_inv_cong) simp_all
  show "flags_inv None (snd (takeReceivedStreamData s))"
  proof (cases "?b = []")
    case True
    then show ?thesis using inv' by (simp add: takeReceivedStreamData_def act_simps)
  next
    case False
    then have flag: "flag ?t = (flag s)(ReleaseStreamRecvCredit := True)"
      by (auto simp: fun_eq_iff flag_def split: operation_type.split)
    show ?thesis
    proof (cases "releasableStreamReceiveBytes s = 0")
      case True
      have "flags_inv None (snd (queueInternalOperation ReleaseStreamRecvCredit ?t))"
        by (rule flags_raise [OF inv _ _ _ _ flag]) (use True in \<open>auto simp: flagged_def flag_field\<close>)
      then show ?thesis
        using False True by (auto simp: takeReceivedStreamData_def act_simps split: prod.split sum.split)
    next
      case nonzero: False
      have "flags_inv None ?t"
        using inv by (rule flags_inv_cong) (use nonzero in \<open>auto simp: flag fun_eq_iff flag_field\<close>)
      then show ?thesis using False nonzero by (simp add: takeReceivedStreamData_def act_simps)
    qed
  qed
qed

lemma preserves_wait:
  "(\<And>e. preserves I (f e)) \<Longrightarrow> preserves I g \<Longrightarrow> preserves I h \<Longrightarrow>
   preserves I (case_wait_result f g h r)"
  by (cases r) simp_all

section \<open>Runs\<close>

datatype conn_call =
    CallStart "nat option" bool nat
  | CallStarted nat
  | CallSend span bool
  | CallClose
  | CallClosed nat
  | CallTake
  | CallReceive span
  | WorkerBegin
  | WorkerNext
  | WorkerPublish
  | WorkerFinish
  | WorkerTimer
  | WorkerFail string

fun by_worker :: "conn_call \<Rightarrow> bool" where
  "by_worker (CallStart _ _ _) = False"
| "by_worker (CallStarted _) = False"
| "by_worker (CallSend _ _) = False"
| "by_worker CallClose = False"
| "by_worker (CallClosed _) = False"
| "by_worker CallTake = False"
| "by_worker (CallReceive _) = False"
| "by_worker _ = True"

fun run_call :: "'w quic_env \<Rightarrow> conn_call \<Rightarrow> ('w, unit) cact" where
  "run_call E (CallStart a g n) = bindA (start_request a g n) (\<lambda>_. ret ())"
| "run_call E (CallStarted c) = start_finish c"
| "run_call E (CallSend d fin) = queueDataAsync d fin"
| "run_call E CallClose = bindA close_request (\<lambda>_. ret ())"
| "run_call E (CallClosed c) = close_finish c"
| "run_call E CallTake = bindA takeReceivedStreamData (\<lambda>_. ret ())"
| "run_call E (CallReceive d) = binding_onReceive d"
| "run_call E WorkerBegin = beginWorkerProcessing"
| "run_call E WorkerNext = bindA (processNext E) (\<lambda>_. ret ())"
| "run_call E WorkerPublish = publishApplicationState"
| "run_call E WorkerFinish = finishWorkerProcessing"
| "run_call E WorkerTimer = queueTimerExpired"
| "run_call E (WorkerFail m) = failFromRuntime E m"

inductive conn_step :: "'w quic_env \<Rightarrow> 'w conn \<Rightarrow> 'w conn \<Rightarrow> bool" for E where
  conn_step: "run_call E c (s\<lparr>onWorker := by_worker c\<rparr>) = (r, s') \<Longrightarrow> r \<noteq> Inl Undefined \<Longrightarrow> conn_step E s s'"

inductive conn_reachable :: "'w quic_env \<Rightarrow> 'w conn \<Rightarrow> 'w conn \<Rightarrow> bool" for E s0 where
  init: "conn_reachable E s0 s0"
| step: "conn_reachable E s0 s \<Longrightarrow> conn_step E s s' \<Longrightarrow> conn_reachable E s0 s'"

inductive_cases conn_stepE: "conn_step E s s'"

text \<open>A run with what the application has written, by sends that returned, and what it has taken.\<close>

definition call_writes :: "conn_call \<Rightarrow> exn + unit \<Rightarrow> bytes" where
  "call_writes c r = (case c of CallSend d fin \<Rightarrow> if r = Inr () then span_bytes d else [] | _ \<Rightarrow> [])"

definition call_takes :: "conn_call \<Rightarrow> 'w conn \<Rightarrow> bytes" where
  "call_takes c s = (case c of
      CallTake \<Rightarrow> (case fst (takeReceivedStreamData s) of Inl _ \<Rightarrow> [] | Inr batch \<Rightarrow> batch)
    | _ \<Rightarrow> [])"

inductive conn_trace :: "'w quic_env \<Rightarrow> 'w conn \<Rightarrow> bytes \<Rightarrow> bytes \<Rightarrow> 'w conn \<Rightarrow> bool" for E s0 where
  trace_init: "conn_trace E s0 [] [] s0"
| trace_step: "conn_trace E s0 W T s \<Longrightarrow> run_call E c (s\<lparr>onWorker := by_worker c\<rparr>) = (r, s') \<Longrightarrow>
    r \<noteq> Inl Undefined \<Longrightarrow>
    conn_trace E s0 (W @ call_writes c r) (T @ call_takes c (s\<lparr>onWorker := by_worker c\<rparr>)) s'"

lemma trace_reachable: "conn_trace E s0 W T s \<Longrightarrow> conn_reachable E s0 s"
  by (induction rule: conn_trace.induct) (auto intro: conn_reachable.intros conn_step)

text \<open>A run given by its calls, for the concrete instances.\<close>

fun run_calls :: "'w quic_env \<Rightarrow> conn_call list \<Rightarrow> bytes \<times> bytes \<times> 'w conn \<Rightarrow> (bytes \<times> bytes \<times> 'w conn) option" where
  "run_calls E [] (W, T, s) = Some (W, T, s)"
| "run_calls E (c # cs) (W, T, s) =
     (case run_call E c (s\<lparr>onWorker := by_worker c\<rparr>) of (r, s') \<Rightarrow>
        if r = Inl Undefined then None
        else run_calls E cs (W @ call_writes c r, T @ call_takes c (s\<lparr>onWorker := by_worker c\<rparr>), s'))"

lemma run_calls_trace:
  "conn_trace E s0 W T s \<Longrightarrow> run_calls E cs (W, T, s) = Some (W', T', s') \<Longrightarrow> conn_trace E s0 W' T' s'"
  by (induction E cs "(W, T, s)" arbitrary: W T s rule: run_calls.induct)
    (auto intro: trace_step split: prod.splits if_splits)

lemma conn_reachable_inv:
  assumes "conn_reachable E s0 s" and "I s0" and "\<And>s s'. I s \<Longrightarrow> conn_step E s s' \<Longrightarrow> I s'"
  shows "I s"
  using assms by (induction rule: conn_reachable.induct) auto

text \<open>The rest of the worker's steps.\<close>

lemma fail_runtime_nothrow:
  "onWorker s \<Longrightarrow> \<exists>s'. failFromRuntime E m s = (Inr (), s')"
proof -
  assume "onWorker s"
  moreover have "nothrow (blockA [setError m, releaseTransport E, modify (\<lambda>s. s\<lparr>stopped := True\<rparr>),
      drainFailedOperations m])"
    unfolding setError_def drainFailedOperations_def
    by (intro nothrow_intros releaseTransport_nothrow)
  ultimately show ?thesis
    by (auto simp: failFromRuntime_def blockA_Cons assertWorkerOwner_def act_simps nothrow_def
        simp del: blockA.simps)
qed

lemma failRuntime_comp: "post (comp_inv {}) (failFromRuntime E m)
   (\<lambda>_ s. comp_inv {} s \<and> operationQueue s = [] \<and> all_completed (completions s))"
proof -
  have "preserves (comp_inv {}) assertWorkerOwner"
    unfolding assertWorkerOwner_def by (intro preserves_intros)
  then show ?thesis
    unfolding failFromRuntime_def
    by (intro post_blockA_Cons [OF preserves_post] comp_frame) (assumption, subst blockA.simps(2), rule drain_comp)
qed

lemma failOperation_nothrow: "e \<noteq> Undefined \<Longrightarrow> nothrow (failOperation E oper e)"
proof -
  assume "e \<noteq> Undefined"
  moreover have "nothrow (bindA (blockA
        [completeOperation oper (what e), setError (what e), releaseTransport E,
         modify (\<lambda>s. s\<lparr>stopped := True\<rparr>), drainFailedOperations (what e)]) (\<lambda>_. ret False))"
    unfolding completeOperation_def setError_def drainFailedOperations_def
    by (intro nothrow_intros releaseTransport_nothrow)
  ultimately show ?thesis unfolding failOperation_def by simp
qed

lemma next_throws: "processNext E s = (Inl e, s') \<Longrightarrow> e = Undefined"
proof -
  assume "processNext E s = (Inl e, s')"
  then obtain oper t where "tryOperation E oper t = (Inl e, s')"
    by (auto simp: processNext_def act_simps drainFailedOperations_def
        split: option.splits prod.splits sum.splits if_splits)
  then obtain e' t' where fail: "failOperation E oper e' t' = (Inl e, s')"
    unfolding tryOperation_def by (auto simp: act_simps split: prod.splits sum.splits)
  show ?thesis
  proof (cases "e' = Undefined")
    case True
    then show ?thesis using fail by (simp add: failOperation_def throw_apply)
  next
    case False
    then show ?thesis using fail nothrowD [OF failOperation_nothrow] by blast
  qed
qed

definition queue_inv :: "'w conn \<Rightarrow> bool" where
  "queue_inv s \<longleftrightarrow> comp_inv {} s \<and> sched_inv s \<and> flags_inv None s"

lemma queue_inv_preserves:
  "preserves (comp_inv {}) m \<Longrightarrow> preserves sched_inv m \<Longrightarrow> preserves (flags_inv None) m \<Longrightarrow>
   preserves queue_inv m"
  by (auto simp: preserves_def queue_inv_def)

lemma queue_inv_new: "queue_inv (connection_new r cert key a b ready ag w)"
  by (simp add: queue_inv_def connection_new_def comp_inv_def sched_inv_def flags_inv_def flag_count_def
      flag_def split: operation_type.split)

lemma queue_inv_begin: "preserves queue_inv beginWorkerProcessing"
  by (rule queue_inv_preserves; unfold beginWorkerProcessing_def assertWorkerOwner_def;
      intro preserves_intros preserves_modify;
      (erule flags_inv_cong; simp | simp add: comp_inv_def sched_inv_def))

lemma queue_inv_finish: "preserves queue_inv finishWorkerProcessing"
proof (rule preserves_def [THEN iffD2, rule_format])
  fix s :: "'a conn" assume inv: "queue_inv s"
  let ?t = "snd (finishWorkerProcessing s)"
  have eq: "operationQueue ?t = operationQueue s \<and> completions ?t = completions s \<and>
      stopped ?t = stopped s \<and> flag ?t = flag s \<and> receiveBatch ?t = receiveBatch s \<and>
      streamReceiveBatch ?t = streamReceiveBatch s \<and> peerFinishedPending ?t = peerFinishedPending s \<and>
      (onWorker s \<longrightarrow> operationQueue s \<noteq> [] \<longrightarrow> scheduleState ?t \<noteq> Idle) \<and>
      (\<not> onWorker s \<longrightarrow> ?t = s)"
    by (auto simp: finishWorkerProcessing_def assertWorkerOwner_def scheduleIfIdle_def queue_empty_def
        act_simps)
  then have "sched_inv ?t"
    using inv by (cases "onWorker s") (auto simp: queue_inv_def sched_inv_def)
  moreover have "comp_inv {} ?t" using inv eq by (simp add: queue_inv_def comp_inv_def)
  moreover have "flags_inv None ?t"
    by (rule flags_inv_cong [of None s]) (use inv eq in \<open>simp_all add: queue_inv_def\<close>)
  ultimately show "queue_inv ?t" by (simp add: queue_inv_def)
qed

lemma queue_inv_fail: "post queue_inv (failFromRuntime E m) (\<lambda>_. queue_inv)"
proof (rule postI)
  fix s x s' assume inv: "queue_inv s" and run: "failFromRuntime E m s = (Inr x, s')"
  have comp: "comp_inv {} s' \<and> operationQueue s' = []"
    using postD [OF failRuntime_comp _ run] inv by (auto simp: queue_inv_def)
  have "stopped s'"
    using run
    by (auto simp: failFromRuntime_def act_simps drainFailedOperations_def setError_def
        assertWorkerOwner_def split: if_splits prod.splits sum.splits)
  then show "queue_inv s'"
    using comp by (simp add: queue_inv_def sched_inv_def flags_inv_def)
qed

lemma queue_inv_step:
  assumes "queue_inv s" and "conn_step E s s'"
  shows "queue_inv s'"
proof -
  obtain c r where 1: "run_call E c (s\<lparr>onWorker := by_worker c\<rparr>) = (r, s')" "r \<noteq> Inl Undefined"
    using assms(2) by (rule conn_stepE)
  let ?s = "s\<lparr>onWorker := by_worker c\<rparr>"
  have "flags_inv None ?s"
    by (rule flags_inv_cong [of None s]) (use assms(1) in \<open>simp_all add: queue_inv_def\<close>)
  then have inv: "queue_inv ?s"
    using assms(1) by (simp add: queue_inv_def comp_inv_def sched_inv_def)
  have api: "preserves queue_inv m \<Longrightarrow> run_call E c = m \<Longrightarrow> queue_inv s'" for m
    using preservesD2 [where I = queue_inv, OF _ inv] 1(1) by blast
  show ?thesis
  proof (cases c)
    case (CallStart a g n)
    then show ?thesis
      by (intro api queue_inv_preserves) (auto intro!: preserves_intros comp_api sched_api flags_api)
  next
    case (CallStarted n)
    then show ?thesis
      by (intro api queue_inv_preserves)
        (auto intro!: finish_inv flags_io simp: comp_inv_def sched_inv_def)
  next
    case (CallSend d fin)
    then show ?thesis
      by (intro api queue_inv_preserves) (auto intro!: comp_api sched_api flags_api)
  next
    case CallClose
    then show ?thesis
      by (intro api queue_inv_preserves) (auto intro!: preserves_intros comp_api sched_api flags_api)
  next
    case (CallClosed n)
    then show ?thesis
      by (intro api queue_inv_preserves)
        (auto intro!: finish_inv flags_io simp: comp_inv_def sched_inv_def)
  next
    case CallTake
    then show ?thesis
      by (intro api queue_inv_preserves) (auto intro!: preserves_intros comp_api sched_api flags_api_take)
  next
    case (CallReceive d)
    then show ?thesis
      by (intro api queue_inv_preserves) (auto intro!: comp_api sched_api flags_api)
  next
    case WorkerBegin
    then show ?thesis using api [OF queue_inv_begin] by simp
  next
    case WorkerNext
    then obtain l where "processNext E ?s = (Inr l, s')"
      using 1 next_throws by (auto simp: act_simps split: prod.splits sum.splits)
    then show ?thesis
      using inv postD [OF next_comp] preservesD2 [OF next_sched] postD [OF next_flags]
      unfolding queue_inv_def by blast
  next
    case WorkerPublish
    then show ?thesis
      by (intro api queue_inv_preserves)
        (auto intro!: comp_frame sched_frame flags_plain.publish_inv)
  next
    case WorkerFinish
    then show ?thesis using api [OF queue_inv_finish] by simp
  next
    case WorkerTimer
    then show ?thesis
      by (intro api queue_inv_preserves) (auto intro!: comp_api sched_api flags_api)
  next
    case (WorkerFail m)
    then obtain x where "failFromRuntime E m ?s = (Inr x, s')"
      using 1 fail_runtime_nothrow [of ?s E m] by auto
    then show ?thesis using postD [OF queue_inv_fail inv] by blast
  qed
qed

lemma queue_inv_reachable:
  "conn_reachable E (connection_new r cert key a b ready ag w) s \<Longrightarrow> queue_inv s"
  by (rule conn_reachable_inv) (auto intro: queue_inv_new queue_inv_step)

section \<open>What the queue promises\<close>

text \<open>C8. Nobody waits for ever on a forgotten request: in every reachable state, under every
  interleaving of application calls, datagram deliveries and worker steps and whatever the
  external code answers, a completion that is not done belongs to an operation that is still
  in the queue, and then the connection is queued at its worker or being processed.\<close>

theorem every_waiter_served:
  assumes "conn_reachable E (connection_new r cert key addr baddr ready agents w) s"
    and "c < length (completions s)"
  shows "completed (completions s ! c) \<or>
    ((\<exists>oper \<in> set (operationQueue s). op_completion oper = Some c) \<and> scheduleState s \<noteq> Idle)"
proof -
  have "comp_inv {} s" and "sched_inv s"
    using queue_inv_reachable [OF assms(1)] by (simp_all add: queue_inv_def)
  then show ?thesis using assms(2) by (auto simp: comp_inv_def sched_inv_def)
qed

lemmas demo_simps = processNext_def tryOperation_def act_simps completeOperation_def processOperation_def
  queueSendFlush_def notifyApplication_def bumpGeneration_def assertWorkerOwner_def
  queueInternalOperation_def queueOperation_def scheduleIfIdle_def queue_push_def operation_of_def
  completion_complete_def completion_new_def connection_new_def start_request_def newCompletion_def
  binding_attach_def setFFLP2PAgentNativeDataSink_def demo_agents_def binding_new_def
  binding_limitDatagramSize_def

definition demo_conn :: "bytes conn" where
  "demo_conn = connection_new Client ''PEM'' '''' 1 2 True demo_agents []"

lemma demo_close:
  "conn_reachable demo_env demo_conn (snd (run_call demo_env CallClose (demo_conn\<lparr>onWorker := False\<rparr>)))"
  by (rule conn_reachable.step [OF conn_reachable.init conn_step [of _ CallClose]])
    (auto simp: prod_eq_iff close_request_def newCompletion_def queueOperation_def scheduleIfIdle_def
      act_simps demo_conn_def connection_new_def)

theorem every_waiter_served_witness:
  "let s = snd (run_call demo_env CallClose (demo_conn\<lparr>onWorker := False\<rparr>)) in
   length (completions s) = 1 \<and> (completed (completions s ! 0) \<or>
    ((\<exists>oper \<in> set (operationQueue s). op_completion oper = Some 0) \<and> scheduleState s \<noteq> Idle))"
proof -
  let ?s = "snd (run_call demo_env CallClose (demo_conn\<lparr>onWorker := False\<rparr>))"
  have one: "length (completions ?s) = 1"
    by (simp add: close_request_def newCompletion_def queueOperation_def scheduleIfIdle_def
        act_simps demo_conn_def connection_new_def)
  then show ?thesis
    using every_waiter_served [OF demo_close [unfolded demo_conn_def], of 0] by (simp add: demo_conn_def Let_def)
qed

text \<open>C31. Work is coalesced without being lost: while the connection is not stopped, a receive
  flush, a stream flush, a send flush and a credit release are each queued once exactly when
  their flag is set, and never twice; datagrams that wait always have a receive flush queued,
  and stream bytes or the end of the stream that wait always have a stream flush queued.\<close>

theorem work_queued_once:
  assumes "conn_reachable E (connection_new r cert key addr baddr ready agents w) s"
    and "\<not> stopped s"
  shows "queued FlushRecv (operationQueue s) = (if receiveOperationPending s then 1 else 0) \<and>
    queued FlushStreamRecv (operationQueue s) = (if streamReceiveOperationPending s then 1 else 0) \<and>
    queued FlushSend (operationQueue s) = (if sendOperationPending s then 1 else 0) \<and>
    queued ReleaseStreamRecvCredit (operationQueue s) = (if releasableStreamReceiveBytes s > 0 then 1 else 0) \<and>
    (receiveBatch s \<noteq> [] \<longrightarrow> queued FlushRecv (operationQueue s) = 1) \<and>
    (streamReceiveBatch s \<noteq> [] \<or> peerFinishedPending s \<longrightarrow>
       queued FlushStreamRecv (operationQueue s) = 1)"
proof -
  have inv: "flags_inv None s"
    using queue_inv_reachable [OF assms(1)] by (simp add: queue_inv_def)
  then have count: "flagged t \<Longrightarrow> queued t (operationQueue s) = (if flag s t then 1 else 0)" for t
    using assms(2) by (simp add: flags_inv_def flag_count_def)
  have rest: "receiveBatch s \<noteq> [] \<longrightarrow> receiveOperationPending s"
    "streamReceiveBatch s \<noteq> [] \<or> peerFinishedPending s \<longrightarrow> streamReceiveOperationPending s"
    using inv assms(2) by (simp_all add: flags_inv_def)
  show ?thesis
    using count [of FlushRecv] count [of FlushStreamRecv] count [of FlushSend]
      count [of ReleaseStreamRecvCredit] rest
    by (simp add: flagged_def flag_field)
qed

theorem work_queued_once_witness:
  "\<exists>s. run_calls demo_env [CallStart (Some 0) False 1200, CallReceive (Span [1]), CallReceive (Span [2])]
      ([], [], demo_conn) = Some ([], [], s) \<and>
    receiveBatch s = [[1], [2]] \<and> queued FlushRecv (operationQueue s) = 1 \<and> queued FlushSend (operationQueue s) = 0"
proof -
  obtain s where run: "run_calls demo_env [CallStart (Some 0) False 1200, CallReceive (Span [1]), CallReceive (Span [2])]
      ([], [], demo_conn) = Some ([], [], s)"
    and s: "receiveBatch s = [[1], [2]]" "\<not> stopped s" "\<not> sendOperationPending s"
    by (simp add: demo_conn_def demo_simps call_writes_def call_takes_def binding_onReceive_def
        queueReceive_def packets_append_def kUINT16_MAX_def kReceiveBufferPayloadSize_def Let_def)
  have "conn_reachable demo_env demo_conn s"
    by (rule trace_reachable, rule run_calls_trace [OF trace_init run])
  from work_queued_once [OF this [unfolded demo_conn_def] s(2)] show ?thesis
    using run s by auto
qed

section \<open>Failure and shutdown\<close>

lemma next_running: "processNext E s = (Inr LoopNext, s') \<Longrightarrow> \<not> stopped s'"
  by (erule processNext_cases) (auto split: if_splits)

lemma loop_comp:
  "comp_inv {} s \<Longrightarrow> \<not> stopped s \<Longrightarrow> processLoop E n k s = (Inr k', s') \<Longrightarrow>
     comp_inv {} s' \<and> (stopped s' \<longrightarrow> operationQueue s' = [] \<and> all_completed (completions s'))"
proof (induction n arbitrary: s k)
  case 0
  then show ?case by (simp add: act_simps)
next
  case (Suc n)
  from Suc.prems(3) obtain r s1 where one: "processNext E s = (Inr r, s1)"
    by (auto simp: act_simps split: prod.splits sum.splits)
  note inv = postD [OF next_comp Suc.prems(1) one]
  show ?case
  proof (cases r)
    case LoopEmpty
    then have "s1 = s" using one by (auto elim: processNext_cases)
    then show ?thesis using one LoopEmpty Suc.prems by (simp add: act_simps)
  next
    case LoopNext
    then show ?thesis
      using Suc.IH [of s1 "k + 1"] inv one next_running [OF one [unfolded LoopNext]] Suc.prems(3)
      by (simp add: act_simps)
  qed (use inv one Suc.prems(3) in \<open>auto simp: act_simps\<close>)
qed

text \<open>C9. A worker pass that ends the connection, by a failing operation or by a shutdown, leaves
  nobody behind: afterwards the operation queue is empty and every completion ever handed out
  is done, so that no \<open>start\<close> or \<open>close\<close> call stays blocked.\<close>

theorem stopping_completes_all:
  assumes "conn_reachable E (connection_new r cert key addr baddr ready agents w) s"
    and "\<not> stopped s" and "processOperations E n (s\<lparr>onWorker := True\<rparr>) = (Inr k, s')" and "stopped s'"
  shows "operationQueue s' = [] \<and> all_completed (completions s')"
proof -
  have "comp_inv {} (s\<lparr>onWorker := True\<rparr>)"
    using queue_inv_reachable [OF assms(1)] by (simp add: queue_inv_def comp_inv_def)
  moreover obtain s1 where "processLoop E n 0 (s\<lparr>onWorker := True\<rparr>) = (Inr k, s1)"
    and "publishApplicationState s1 = (Inr (), s')"
    using assms(3)
    by (auto simp: processOperations_def assertWorkerOwner_def act_simps publishApplicationState_def
        split: prod.splits sum.splits)
  moreover from this have "operationQueue s' = operationQueue s1 \<and> completions s' = completions s1 \<and>
      stopped s' = stopped s1"
    by (auto simp: publishApplicationState_def act_simps Let_def)
  ultimately show ?thesis
    using loop_comp [of "s\<lparr>onWorker := True\<rparr>" E n 0 k s1] assms(2,4) by simp
qed

theorem stopping_completes_all_witness:
  "let s = snd (run_call demo_env CallClose (demo_conn\<lparr>onWorker := False\<rparr>)) in
   \<not> completed (completions s ! 0) \<and>
   (\<exists>s'. processOperations demo_env 64 (s\<lparr>onWorker := True\<rparr>) = (Inr 1, s') \<and> stopped s' \<and>
      operationQueue s' = [] \<and> all_completed (completions s'))"
proof -
  let ?s = "snd (run_call demo_env CallClose (demo_conn\<lparr>onWorker := False\<rparr>))"
  have one: "\<not> stopped ?s \<and> \<not> completed (completions ?s ! 0)"
    by (simp add: close_request_def demo_simps demo_conn_def)
  have loop: "processLoop demo_env 64 0 = processLoop demo_env (Suc 63) 0" by simp
  obtain s' where run: "processOperations demo_env 64 (?s\<lparr>onWorker := True\<rparr>) = (Inr 1, s')" "stopped s'"
    unfolding processOperations_def loop processLoop.simps
    by (simp add: close_request_def demo_simps demo_conn_def processShutdown_def
        releaseTransport_def proto_new_def publishApplicationState_def drainFailedOperations_def Let_def)
  show ?thesis
    using stopping_completes_all [OF demo_close [unfolded demo_conn_def], of 64] run one
    by (auto simp: demo_conn_def Let_def)
qed

text \<open>The state a failing operation leaves.\<close>

lemma fail_result:
  assumes "e \<noteq> Undefined" and "failOperation E oper e s = (Inr ok, s')"
  shows "\<not> ok \<and> stopped s' \<and> \<not> hasConn (proto s') \<and> operationQueue s' = [] \<and>
    appError (app s') = (if appError (app s) = [] then what e else appError (app s)) \<and>
    (\<forall>c. op_completion oper = Some c \<longrightarrow> c < length (completions s) \<longrightarrow> \<not> completed (completions s ! c) \<longrightarrow>
       completed (completions s' ! c) \<and> error_msg (completions s' ! c) = what e)"
proof -
  have down: "stopped s' \<and> \<not> hasConn (proto s')"
    using postD [OF fail_stops [where P = "\<lambda>_. True"] _ assms(2)] by simp
  obtain s1 where s1: "completeOperation oper (what e) s = (Inr (), s1)"
    by (auto simp: completeOperation_def act_simps)
  obtain s2 where s2: "setError (what e) s1 = (Inr (), s2)"
    by (auto simp: setError_def act_simps)
  obtain s3 where s3: "releaseTransport E s2 = (Inr (), s3)"
    using releaseTransport_nothrow by (fastforce elim: nothrowE)
  have keep: "preserves (\<lambda>s. app s = app s2 \<and> completions s = completions s2) (releaseTransport E)"
    by (rule releaseTransport_frame) simp_all
  have s3': "app s3 = app s2 \<and> completions s3 = completions s2"
    using preservesD2 [OF keep _ s3] by simp
  have s': "s' = snd (drainFailedOperations (what e) (s3\<lparr>stopped := True\<rparr>))" "\<not> ok"
    using assms s1 s2 s3 by (auto simp: failOperation_def act_simps drainFailedOperations_def)
  have mono: "c < length cs \<Longrightarrow> completed (cs ! c) \<Longrightarrow> drain_loop m q cs ! c = cs ! c" for c m q cs
  proof (induction m q cs rule: drain_loop.induct)
    case (2 err oper q cs)
    have "cs[x := completion_complete err (cs ! x)] ! c = cs ! c" for x
      using "2.prems" by (cases "c = x") auto
    then show ?case using 2 by (auto split: option.split)
  qed simp
  show ?thesis
    using down s' s3' s1 s2 mono
    by (auto simp: drainFailedOperations_def completeOperation_def setError_def bumpGeneration_def act_simps
        split: option.splits)
qed

text \<open>C32. A failing operation takes the whole connection down in an orderly way: whoever waits on
  that operation reads its error, the error is published unless an earlier one was, the
  transport is released, the connection is stopped and the rest of the queue is emptied.\<close>

theorem failing_operation:
  assumes "operationQueue s = oper # q"
    and "processOperation E oper (s\<lparr>operationQueue := q\<rparr>) = (Inl e, s1)" and "e \<noteq> Undefined"
    and "\<forall>c. op_completion oper = Some c \<longrightarrow>
      c < length (completions s1) \<and> \<not> completed (completions s1 ! c)"
  shows "\<exists>s'. processNext E s = (Inr LoopFailed, s') \<and>
    stopped s' \<and> \<not> hasConn (proto s') \<and> operationQueue s' = [] \<and>
    appError (app s') = (if appError (app s1) = [] then what e else appError (app s1)) \<and>
    (\<forall>c. op_completion oper = Some c \<longrightarrow>
       completion_wait False None (completions s' ! c) = Returned (what e))"
proof -
  obtain ok s' where fail: "failOperation E oper e s1 = (Inr ok, s')"
    using failOperation_nothrow [OF assms(3)] by (rule nothrowE)
  note res = fail_result [OF assms(3) fail]
  have "tryOperation E oper (s\<lparr>operationQueue := q\<rparr>) = (Inr False, s')"
    using assms(2) fail res by (simp add: tryOperation_def act_simps)
  then have "processNext E s = (Inr LoopFailed, s')"
    using assms(1) by (simp add: processNext_def act_simps)
  then show ?thesis
    using res assms(4) by (auto simp: completion_wait_def)
qed

text \<open>A send before the connection is initialised fails.\<close>

theorem failing_operation_witness:
  "let oper = (operation_of APISend)\<lparr>op_data := [1]\<rparr>; s = demo_conn\<lparr>operationQueue := [oper]\<rparr> in
   \<exists>s'. processNext demo_env s = (Inr LoopFailed, s') \<and> stopped s' \<and>
     appError (app s') = ''QUIC connection is not initialized''"
proof -
  let ?op = "(operation_of APISend)\<lparr>op_data := [1]\<rparr>"
  have "processOperation demo_env ?op (demo_conn\<lparr>operationQueue := [?op], operationQueue := []\<rparr>) =
      (Inl (RuntimeError ''QUIC connection is not initialized''), demo_conn)"
    by (simp add: processOperation_def processSend_def act_simps demo_conn_def connection_new_def proto_new_def)
  then have "\<exists>s'. processNext demo_env (demo_conn\<lparr>operationQueue := [?op]\<rparr>) = (Inr LoopFailed, s') \<and>
    stopped s' \<and> \<not> hasConn (proto s') \<and> operationQueue s' = [] \<and>
    appError (app s') = (if appError (app demo_conn) = []
      then what (RuntimeError ''QUIC connection is not initialized'') else appError (app demo_conn)) \<and>
    (\<forall>c. op_completion ?op = Some c \<longrightarrow> completion_wait False None (completions s' ! c) =
       Returned (what (RuntimeError ''QUIC connection is not initialized'')))"
    by (intro failing_operation [of _ ?op "[]"]) simp_all
  then show ?thesis
    by (auto simp: demo_conn_def connection_new_def app_new_def)
qed

lemma shutdown_next:
  assumes "operationQueue s = oper # q" and "op_type oper = Shutdown"
  shows "\<exists>s'. processNext E s = (Inr LoopStopped, s') \<and> stopped s' \<and> \<not> hasConn (proto s') \<and>
    applicationWriteOffset s' = applicationWriteOffset s \<and>
    applicationFinRequested s' = applicationFinRequested s"
proof -
  let ?s = "s\<lparr>operationQueue := q\<rparr>"
  obtain s1 where s1: "publishApplicationState ?s = (Inr (), s1)"
    by (auto simp: publishApplicationState_def act_simps)
  obtain s2 where s2: "releaseTransport E s1 = (Inr (), s2)"
    using releaseTransport_nothrow by (fastforce elim: nothrowE)
  have down: "\<not> hasConn (proto s2)"
    using postD [OF releaseTransport_down [where P = "\<lambda>_. True"] _ s2] by simp
  have "preserves (\<lambda>t. applicationWriteOffset t = applicationWriteOffset s \<and>
      applicationFinRequested t = applicationFinRequested s) (releaseTransport E)"
    by (rule releaseTransport_frame) simp_all
  from preservesD2 [OF this _ s2] have keep: "applicationWriteOffset s2 = applicationWriteOffset s \<and>
      applicationFinRequested s2 = applicationFinRequested s"
    using s1 by (auto simp: publishApplicationState_def act_simps Let_def)
  have run: "processOperation E oper ?s = (Inr (), snd (notifyApplication (s2\<lparr>stopped := True\<rparr>)))"
    using assms(2) s1 s2
    by (simp add: processOperation_def processShutdown_def act_simps notifyApplication_def)
  show ?thesis
    using run assms(1) down keep
    by (cases "op_completion oper")
      (simp_all add: processNext_def tryOperation_def completeOperation_def drainFailedOperations_def
        notifyApplication_def act_simps)
qed

text \<open>C35. A shutdown ends in one pass, but what the application can read afterwards is not the final
  state: \<open>processShutdown\<close> publishes it and then the pass publishes again with the transport
  gone, so that a fully acknowledged write reads as unacknowledged and still pending once the
  connection is closed.\<close>

theorem shutdown_forgets_write_state:
  assumes "onWorker s" and "operationQueue s = oper # q" and "op_type oper = Shutdown"
    and "applicationWriteOffset s > 0"
  shows "\<exists>s'. processOperations E (Suc n) s = (Inr 1, s') \<and> isStopped s' \<and>
    \<not> isWriteAcknowledged s' \<and> hasPendingWrite s' \<and>
    getBufferedWriteBytes s' = applicationWriteOffset s \<and> \<not> isHandshakeComplete s'"
proof -
  obtain s1 where s1: "processNext E s = (Inr LoopStopped, s1)" and props: "stopped s1 \<and>
      \<not> hasConn (proto s1) \<and> applicationWriteOffset s1 = applicationWriteOffset s \<and>
      applicationFinRequested s1 = applicationFinRequested s"
    using shutdown_next [OF assms(2,3), of E] by blast
  then show ?thesis
    using assms(1,4)
    by (simp add: processOperations_def assertWorkerOwner_def publishApplicationState_def act_simps
        isWriteAcknowledged_def hasPendingWrite_def getBufferedWriteBytes_def isStopped_def
        isHandshakeComplete_def bumpGeneration_def Let_def)
qed

theorem shutdown_forgets_write_state_witness:
  "let s = demo_conn\<lparr>onWorker := True, started := True, applicationWriteOffset := 3,
        operationQueue := [operation_of Shutdown],
        proto := (proto demo_conn)\<lparr>hasConn := True, handshakeComplete := True, txStreamID := 0,
          txNextOffset := 3, txSubmittedOffset := 3, txAckedOffset := 3\<rparr>\<rparr>;
       before = snd (publishApplicationState s)
   in isWriteAcknowledged before \<and> \<not> hasPendingWrite before \<and>
      (\<exists>s'. processOperations demo_env (Suc 63) s = (Inr 1, s') \<and> \<not> isWriteAcknowledged s' \<and> hasPendingWrite s')"
proof -
  let ?s = "demo_conn\<lparr>onWorker := True, started := True, applicationWriteOffset := 3,
        operationQueue := [operation_of Shutdown],
        proto := (proto demo_conn)\<lparr>hasConn := True, handshakeComplete := True, txStreamID := 0,
          txNextOffset := 3, txSubmittedOffset := 3, txAckedOffset := 3\<rparr>\<rparr>"
  have "\<exists>s'. processOperations demo_env (Suc 63) ?s = (Inr 1, s') \<and> isStopped s' \<and>
    \<not> isWriteAcknowledged s' \<and> hasPendingWrite s' \<and>
    getBufferedWriteBytes s' = applicationWriteOffset ?s \<and> \<not> isHandshakeComplete s'"
    by (rule shutdown_forgets_write_state [of _ "operation_of Shutdown" "[]"]) simp_all
  moreover have "isWriteAcknowledged (snd (publishApplicationState ?s)) \<and>
      \<not> hasPendingWrite (snd (publishApplicationState ?s))"
    by (simp add: publishApplicationState_def modify_apply isWriteAcknowledged_def hasPendingWrite_def
        bumpGeneration_def demo_conn_def connection_new_def)
  ultimately show ?thesis
    unfolding Let_def by blast
qed

section \<open>Frames\<close>

text \<open>What the calls other than the worker's processing leave alone.\<close>

lemma calls_frame:
  assumes frame: "\<And>s s'. I s \<Longrightarrow> world s' = world s \<Longrightarrow> proto s' = proto s \<Longrightarrow> receiveBatch s' = receiveBatch s \<Longrightarrow>
    pendingSend s' = pendingSend s \<Longrightarrow> tooLargeSendDrops s' = tooLargeSendDrops s \<Longrightarrow> sendRetryExpiry s' = sendRetryExpiry s \<Longrightarrow>
    sendOperationPending s' = sendOperationPending s \<Longrightarrow> stopped s' = stopped s \<Longrightarrow> I s'"
  shows "preserves I (start_request a g n)" and "preserves I (start_finish c)" and "preserves I close_request"
    and "preserves I (close_finish c)" and "preserves I (queueDataAsync d fin)" and "preserves I takeReceivedStreamData"
    and "preserves I beginWorkerProcessing" and "preserves I publishApplicationState"
    and "preserves I finishWorkerProcessing" and "preserves I queueTimerExpired"
proof -
  have io: "preserves I (withIo (binding_attach self h c))" "preserves I (withIo (modify (binding_limitDatagramSize n)))"
    "preserves I detachBinding" for self h c n
    by (auto simp: preserves_def act_simps binding_attach_def binding_limitDatagramSize_def
        binding_detach_def detachBinding_def split: prod.split; erule frame; simp add: world_def)+
  have push: "preserves I (queueOperation oper)" for oper
    by (auto simp: preserves_def queueOperation_def completeOperation_def scheduleIfIdle_def act_simps
        split: option.split; erule frame; simp)
  show "preserves I (start_request a g n)" "preserves I (start_finish c)" "preserves I close_request"
    "preserves I (close_finish c)" "preserves I (queueDataAsync d fin)" "preserves I takeReceivedStreamData"
    "preserves I beginWorkerProcessing" "preserves I publishApplicationState"
    "preserves I finishWorkerProcessing" "preserves I queueTimerExpired"
    unfolding start_request_def start_finish_def close_request_def close_finish_def newCompletion_def
      queueDataAsync_def createSendOperation_def takeReceivedStreamData_def beginWorkerProcessing_def queueInternalOperation_def
      publishApplicationState_def finishWorkerProcessing_def queueTimerExpired_def scheduleIfIdle_def
      assertWorkerOwner_def modApp_def
    by (intro preserves_intros preserves_wait preserves_modify push io;
      erule frame; simp add: world_def Let_def bumpGeneration_def)+
qed

end
