(* ===== verification/Demo_Run.thy ===== *)
theory Demo_Run
  imports Connection_Run
begin

text \<open>
  A concrete run of a client connection in the demonstration environment: it is started, sends
  three bytes and the worker processes what that queues. The witnesses of the theorems on runs
  are taken from it. Nothing here models code of the program.
\<close>

section \<open>The demonstration environment, evaluated\<close>

lemma demo_with_sel:
  "q_now (demo_with rd wr ar ag ju) w = (5, w)" "q_random (demo_with rd wr ar ag ju) n w = ((0, replicate n 7), w)"
  "q_conn_new (demo_with rd wr ar ag ju) a b c d w = (Inr 0, w)" "q_set_tls_native_handle (demo_with rd wr ar ag ju) w = w"
  "q_tls (demo_with rd wr ar ag ju) tc w = (if tc = TlsConfigureServerSession \<or> tc = TlsConfigureClientSession then 0 else 1, w)"
  "q_write_pkt (demo_with rd wr ar ag ju) n t w = NgReturn (Inr []) w" "q_juice (demo_with rd wr ar ag ju) = ju"
  "q_update_pkt_tx_time (demo_with rd wr ar ag ju) t w = w" "q_open_bidi_stream (demo_with rd wr ar ag ju) w = ((Inr 0, 0), w)"
  "q_read_pkt (demo_with rd wr ar ag ju) = rd" "q_write_stream (demo_with rd wr ar ag ju) = wr" "q_arrivals (demo_with rd wr ar ag ju) = ar" "q_write_aggregate (demo_with rd wr ar ag ju) = ag"
  by (simp_all add: demo_with_def)

lemmas demo_env_sel = demo_with_sel [of demo_reader demo_writer "Pair []" demo_aggregate demo_juice, folded demo_env_def]
  demo_reader_def demo_writer_def demo_aggregate_def

lemma with_tls:
  "gnutlsReady s \<Longrightarrow> \<not> server (proto s) \<Longrightarrow> initializeTLS (demo_with rd wr ar ag ju) c None s =
     (Inr (), s\<lparr>proto := (proto s)\<lparr>hasTls := True, hasCredentials := True\<rparr>\<rparr>)"
  unfolding initializeTLS_def tlsChecked_def checkGnuTLS_def ensureGnuTLS_def
  by (simp add: act_simps demo_with_sel world_def)

lemma with_quic:
  "\<not> server (proto s) \<Longrightarrow> initializeQUIC (demo_with rd wr ar ag ju) d c None s = (Inr (), s\<lparr>proto := (proto s)\<lparr>hasConn := True\<rparr>\<rparr>)"
  unfolding initializeQUIC_def checkNgtcp2_def getCurrentTimestampNS_def
  by (simp add: act_simps demo_with_sel world_def)

lemma with_init:
  "gnutlsReady s \<Longrightarrow> certificatePEM s = ''PEM'' \<Longrightarrow> initializeClient (demo_with rd wr ar ag ju) s =
     (Inr (), s\<lparr>proto := (proto s)\<lparr>server := False, localPort := Some 4433, peerPort := Some 4434,
        hasTls := True, hasCredentials := True, hasConn := True\<rparr>\<rparr>)"
  unfolding initializeClient_def generateRandomCID_def checkGnuTLS_def initializeFixedPath_def
  by (simp add: act_simps demo_with_sel world_def with_tls with_quic)

lemma with_start:
  "gnutlsReady s \<Longrightarrow> certificatePEM s = ''PEM'' \<Longrightarrow> onWorker s \<Longrightarrow> \<not> started s \<Longrightarrow> \<not> stopped s \<Longrightarrow>
   role_of s = Client \<Longrightarrow> \<not> sendOperationPending s \<Longrightarrow>
   processStart (demo_with rd wr ar ag ju) s = (Inr (), snd (notifyApplication (snd (queueSendFlush
     (s\<lparr>started := True, proto := (proto s)\<lparr>server := False, localPort := Some 4433, peerPort := Some 4434,
        hasTls := True, hasCredentials := True, hasConn := True\<rparr>\<rparr>)))))"
  unfolding processStart_def queueSendFlush_def notifyApplication_def
  by (simp add: act_simps with_init assertWorkerOwner_def queueInternalOperation_def queueOperation_def
      scheduleIfIdle_def)

lemmas demo_start = with_start [of _ demo_reader demo_writer "Pair []" demo_aggregate demo_juice, folded demo_env_def]

lemma flushSingle_pos:
  "0 < n \<Longrightarrow> flushSingle E n s = bindA (getCurrentTimestampNS E) (\<lambda>ts.
     bindA (writeOnePacket E kSendBufferPayloadSize ts False) (\<lambda>out.
       if out = [] then ret False
       else bindA (sendTransportBuffer E out (length out) 1 False) (\<lambda>outcome.
         case outcome of
           OutcomeBlocked \<Rightarrow> ret False
         | OutcomeComplete \<Rightarrow> flushSingle E (n - 1)))) s"
  by (cases n) (auto simp only: flushSingle.simps diff_Suc_1)

lemma whenA_simps: "whenA True m = m" "whenA False m = ret ()"
  by (simp_all add: whenA_def)

lemmas demo_flush = processSendFlush_def flushPackets_def flushPendingTransportSend_def flushSingle_pos
  kMaxPacketsPerFlush_def ps_hasRemainingData_def ps_clear_def getCurrentTimestampNS_def demo_env_sel demo_with_sel
  world_def writeOnePacket_def whenA_simps

lemma with_idle:
  "hasConn (proto s) \<Longrightarrow> pendingSend s = ps_clear \<Longrightarrow> \<not> proto_hasPendingWrite (proto s) \<Longrightarrow>
   \<not> aggregatePackets s \<Longrightarrow> processSendFlush (demo_with rd wr ar ag ju) s = (Inr (), s)"
  by (simp add: demo_flush act_simps)

lemmas demo_idle = with_idle [of _ demo_reader demo_writer "Pair []" demo_aggregate demo_juice, folded demo_env_def]

lemma demo_send:
  "hasConn (proto s) \<Longrightarrow> pendingSend s = ps_clear \<Longrightarrow> proto_hasPendingWrite (proto s) \<Longrightarrow>
   \<not> aggregatePackets s \<Longrightarrow>
   txChunks (proto s) = [\<lparr>tc_offset = 0, tc_data = [1, 2, 3], tc_submitted = 0\<rparr>] \<Longrightarrow>
   txNextOffset (proto s) = 3 \<Longrightarrow> txSubmittedOffset (proto s) = 0 \<Longrightarrow>
   txFinRequested (proto s) = f \<Longrightarrow> \<not> txFinSubmitted (proto s) \<Longrightarrow>
   io s = \<lparr>io_binding = \<lparr>agentHandle = Some 0, bconnection = c, datagramLimit = 1200\<rparr>,
     io_agents = ag, io_world = []\<rparr> \<Longrightarrow>
   ag 0 = \<lparr>agent_juice = Some \<lparr>jh_agent = Some 9\<rparr>, agent_lock = True, agent_closed = False,
     dataSink = sk, dataSinkUserPtr = su\<rparr> \<Longrightarrow>
   processSendFlush demo_env s = (Inr (), s\<lparr>proto := (proto s)\<lparr>
       txChunks := [\<lparr>tc_offset = 0, tc_data = [1, 2, 3], tc_submitted = 3\<rparr>], txSubmittedOffset := 3,
       txFinSubmitted := f\<rparr>,
     io := (io s)\<lparr>io_world := [1, 2, 3]\<rparr>, sendRetryExpiry := InfiniteTimestamp\<rparr>)"
  by (cases f; simp add: demo_flush act_simps Let_def chunk_accepted_def sendTransportBuffer_def
      sendTransportOnce_def clearSendRetry_def binding_send_def sendFFLP2PAgentNative_def
      translateSendResult_def demo_juice_def advance_chunk_def proto_hasPendingWrite_def sendFFLP2PJuice_def)

section \<open>The run\<close>

definition demo_calls :: "bool \<Rightarrow> conn_call list" where
  "demo_calls fin = [CallStart (Some 0) False 1200, WorkerBegin, WorkerNext, WorkerNext,
     CallSend (Span [1, 2, 3]) fin, WorkerNext, WorkerNext, WorkerPublish, WorkerFinish]"

lemma demo_run:
  "\<exists>s. run_calls demo_env (demo_calls fin) ([], [], demo_conn) = Some ([1, 2, 3], [], s) \<and>
     world s = [1, 2, 3] \<and> \<not> stopped s \<and> txSubmittedOffset (proto s) = 3 \<and> hasConn (proto s) \<and>
     txAckedOffset (proto s) = 0 \<and> txFinSubmitted (proto s) = fin \<and> operationQueue s = [] \<and>
     txChunks (proto s) = [\<lparr>tc_offset = 0, tc_data = [1, 2, 3], tc_submitted = 3\<rparr>] \<and> \<not> hasPendingWrite s"
  by (cases fin) (simp_all add: demo_calls_def demo_conn_def beginWorkerProcessing_def demo_simps call_writes_def
      call_takes_def demo_start demo_idle proto_hasPendingWrite_def proto_new_def queueDataAsync_def
      createSendOperation_def processSend_def chooseStream_def demo_env_sel add_chunk_def
      publishApplicationState_def finishWorkerProcessing_def world_def checkNgtcp2_def demo_send Let_def
      queue_empty_def whenA_simps hasPendingWrite_def)

lemma demo_trace:
  obtains s where "conn_trace demo_env demo_conn [1, 2, 3] [] s" and "world s = [1, 2, 3]"
    and "\<not> stopped s" and "txSubmittedOffset (proto s) = 3" and "txAckedOffset (proto s) = 0"
    and "txFinSubmitted (proto s) = fin" and "operationQueue s = []" and "\<not> hasPendingWrite s"
  using demo_run [of fin] run_calls_trace [OF trace_init, of demo_env "demo_calls fin"] by blast

text \<open>A packet arrives and the application reads what it carries.\<close>

definition demo_reads :: "conn_call list" where
  "demo_reads = [CallStart (Some 0) False 1200, WorkerBegin, WorkerNext, WorkerNext,
     CallReceive (Span [1]), WorkerNext, WorkerNext, WorkerNext, CallTake, WorkerPublish]"

lemma demo_read_pkt:
  "q_read_pkt demo_env p pk t w =
     NgCallback (CbReceiveStreamData True 0 0 [1, 2, 3]) w (\<lambda>(_, w'). NgReturn (Inr 0) w')"
  "q_arrivals demo_env w = ([], w)"
  by (simp_all add: demo_env_sel)

lemma demo_feed:
  assumes "hasConn (proto s)" and "onWorker s" and "rxStreamID (proto s) = -1" and "rxOffset (proto s) = 0"
    and "\<not> streamReceiveOperationPending s" and "\<not> stopped s" and "scheduleState s \<noteq> Idle"
    and "streamReceiveBatch s = []"
  shows "feedPacket demo_env pk s = (Inr (), s\<lparr>proto := (proto s)\<lparr>rxStreamID := 0, rxOffset := 3, peerFinished := True\<rparr>,
     streamReceiveBatch := [1, 2, 3], streamReceiveOperationPending := True, peerFinishedPending := True,
     operationQueue := operationQueue s @ [operation_of FlushStreamRecv]\<rparr>)"
  using assms
  by (simp add: feedPacket_def demo_read_pkt demo_env_sel getCurrentTimestampNS_def act_simps world_def
      callbacks_def receiveStreamDataCallback_def appendReceivedStreamData_def markPeerFinished_def
      queue_defs cb_ok_def bytes_append_def queue_push_def operation_of_def)

lemma demo_reads_run:
  "\<exists>s. run_calls demo_env demo_reads ([], [], demo_conn) = Some ([], [1, 2, 3], s) \<and> isPeerFinished s \<and>
     \<not> stopped s \<and> rxStreamID (proto s) = 0 \<and> rxOffset (proto s) = 3"
  by (simp add: demo_reads_def demo_conn_def beginWorkerProcessing_def demo_simps call_writes_def
      call_takes_def demo_start demo_idle proto_hasPendingWrite_def proto_new_def demo_env_sel
      binding_onReceive_def queueReceive_def packets_append_def kUINT16_MAX_def kReceiveBufferPayloadSize_def
      processReceive_def demo_feed demo_read_pkt arrive_def processStreamReceive_def takeReceivedStreamData_def
      publishApplicationState_def world_def Let_def whenA_simps isPeerFinished_def app_new_def)

end
