(* ===== verification/Connection_Tx.thy ===== *)
theory Connection_Tx
  imports Demo_Run "HOL-Library.Sublist"
begin

text \<open>
  The transmit side of a connection: the chunks always hold the unacknowledged end of the stream
  the application has written, and ngtcp2 is given exactly that stream, each byte once and in
  order, however packets, acknowledgements, retries and new writes interleave.
\<close>

section \<open>The chunks hold the stream\<close>

text \<open>\<open>chunks_from S sub o cs\<close>: the chunks are the stream \<open>S\<close> from offset \<open>o\<close> to its
  end, and of each chunk as much is submitted as lies before \<open>sub\<close>.\<close>

fun chunks_from :: "bytes \<Rightarrow> nat \<Rightarrow> nat \<Rightarrow> tx_chunk list \<Rightarrow> bool" where
  "chunks_from S sub o1 [] \<longleftrightarrow> o1 = length S"
| "chunks_from S sub o1 (c # cs) \<longleftrightarrow>
     tc_offset c = o1 \<and> tc_data c \<noteq> [] \<and> o1 + length (tc_data c) \<le> length S \<and>
     tc_data c = take (length (tc_data c)) (drop o1 S) \<and>
     tc_submitted c = min (length (tc_data c)) (sub - o1) \<and>
     chunks_from S sub (o1 + length (tc_data c)) cs"

definition tx_rel :: "bytes \<Rightarrow> proto \<Rightarrow> bool" where
  "tx_rel S p \<longleftrightarrow> txNextOffset p = length S \<and> txAckedOffset p \<le> txSubmittedOffset p \<and>
     txSubmittedOffset p \<le> txNextOffset p \<and>
     (\<exists>o1 \<le> txAckedOffset p. chunks_from S (txSubmittedOffset p) o1 (txChunks p)) \<and>
     (txFinSubmitted p \<longrightarrow> txFinRequested p \<and> txSubmittedOffset p = txNextOffset p)"

lemma chunks_from_bound: "chunks_from S sub o1 cs \<Longrightarrow> o1 \<le> length S"
  by (induction S sub o1 cs rule: chunks_from.induct) auto

lemma chunks_from_offsets: "chunks_from S sub o1 cs \<Longrightarrow> c \<in> set cs \<Longrightarrow> o1 \<le> tc_offset c"
  by (induction S sub o1 cs rule: chunks_from.induct) auto

lemma chunks_from_append:
  "chunks_from S sub o1 cs \<Longrightarrow> sub \<le> length S \<Longrightarrow> d \<noteq> [] \<Longrightarrow>
   chunks_from (S @ d) sub o1 (cs @ [\<lparr>tc_offset = length S, tc_data = d, tc_submitted = 0\<rparr>])"
  by (induction S sub o1 cs rule: chunks_from.induct) auto

lemma chunks_from_pop:
  "chunks_from S sub o1 cs \<Longrightarrow> o1 \<le> acked \<Longrightarrow> acked \<le> length S \<Longrightarrow>
   \<exists>o2 \<le> acked. chunks_from S sub o2 (pop_acked acked cs)"
  by (induction S sub o1 cs rule: chunks_from.induct) (auto intro: exI)

text \<open>The next chunk is the one that holds the next unsubmitted byte.\<close>

lemma nextTransmitChunk_found:
  assumes "chunks_from S sub o1 cs" and "o1 \<le> sub" and "sub < length S"
  shows "\<exists>c. nextTransmitChunk sub cs = Some c \<and> c \<in> set cs \<and> tc_offset c + tc_submitted c = sub \<and>
    tc_submitted c < length (tc_data c) \<and>
    drop (tc_submitted c) (tc_data c) = take (length (tc_data c) - tc_submitted c) (drop sub S) \<and>
    sub + (length (tc_data c) - tc_submitted c) \<le> length S"
  using assms
proof (induction S sub o1 cs rule: chunks_from.induct)
  case (2 S sub o1 c cs)
  show ?case
  proof (cases "o1 + length (tc_data c) \<le> sub")
    case True
    then show ?thesis using 2 by auto
  next
    case False
    have "drop (sub - o1) (tc_data c) = take (length (tc_data c) - (sub - o1)) (drop sub S)"
      using "2.prems" False
      by (metis (no_types, lifting) chunks_from.simps(2) drop_drop drop_take le_add_diff_inverse2)
    then show ?thesis using 2 False by auto
  qed
qed simp

lemma nextTransmitChunk_none:
  "chunks_from S sub o1 cs \<Longrightarrow> length S \<le> sub \<Longrightarrow> nextTransmitChunk sub cs = None"
  by (induction S sub o1 cs rule: chunks_from.induct) auto

lemma advance_before:
  "chunks_from S sub o1 cs \<Longrightarrow> sub \<le> sub' \<Longrightarrow> off < o1 \<Longrightarrow> sub' \<le> o1 \<Longrightarrow>
   chunks_from S sub' o1 (advance_chunk off n cs)"
  by (induction S sub o1 cs rule: chunks_from.induct) (auto simp: advance_chunk_def)

lemma chunks_from_advance:
  assumes "chunks_from S sub o1 cs" and "nextTransmitChunk sub cs = Some c"
    and "n \<le> length (tc_data c) - tc_submitted c" and "o1 \<le> sub"
  shows "chunks_from S (sub + n) o1 (advance_chunk (tc_offset c) n cs)"
  using assms
proof (induction S sub o1 cs rule: chunks_from.induct)
  case (2 S sub o1 d cs)
  show ?case
  proof (cases "tc_offset d + tc_submitted d = sub \<and> tc_submitted d < length (tc_data d)")
    case True
    then have c: "c = d" using "2.prems"(2) by simp
    have tail: "chunks_from S (sub + n) (o1 + length (tc_data d)) (advance_chunk (tc_offset d) n cs)"
      using "2.prems" True c by (intro advance_before [of S sub]) auto
    show ?thesis
      using "2.prems" True tail c by (auto simp: advance_chunk_def)
  next
    case False
    then have next': "nextTransmitChunk sub cs = Some c" using "2.prems"(2) by auto
    have "c \<in> set cs" using next' by (induction cs) (auto split: if_splits)
    then have "o1 + length (tc_data d) \<le> tc_offset c"
      using chunks_from_offsets "2.prems"(1) by auto
    moreover have "o1 + length (tc_data d) \<le> sub"
      using "2.prems"(1,4) False by (auto simp: min_def split: if_splits)
    ultimately show ?thesis
      using 2 next' by (auto simp: advance_chunk_def)
  qed
qed simp

lemma nextTransmitChunk_pop:
  "acked \<le> sub \<Longrightarrow> nextTransmitChunk sub (pop_acked acked cs) = nextTransmitChunk sub cs"
  by (induction acked cs rule: pop_acked.induct) auto

lemma nextTransmitChunk_set: "nextTransmitChunk sub cs = Some c \<Longrightarrow> c \<in> set cs"
  by (induction cs) (auto split: if_splits)

lemma tx_rel_core: "proto_core p = proto_core q \<Longrightarrow> tx_rel S p = tx_rel S q"
  by (simp add: tx_rel_def proto_core_def)

lemma tx_rel_add:
  assumes "tx_rel S p" and "d \<noteq> []" and "\<not> txFinRequested p"
  shows "tx_rel (S @ d) (add_chunk d p)"
  using assms chunks_from_append [of S "txSubmittedOffset p" _ "txChunks p" d]
  by (auto simp: tx_rel_def add_chunk_def)

lemma tx_rel_acked:
  assumes "tx_rel S p" and "txAckedOffset p \<le> a" and "a \<le> txSubmittedOffset p"
  shows "tx_rel S (p\<lparr>txAckedOffset := a, txChunks := pop_acked a (txChunks p)\<rparr>)"
proof -
  obtain o1 where o1: "o1 \<le> txAckedOffset p" and ch: "chunks_from S (txSubmittedOffset p) o1 (txChunks p)"
    using assms(1) by (auto simp: tx_rel_def)
  have "\<exists>o2 \<le> a. chunks_from S (txSubmittedOffset p) o2 (pop_acked a (txChunks p))"
    by (rule chunks_from_pop [OF ch]) (use assms o1 in \<open>auto simp: tx_rel_def\<close>)
  then show ?thesis using assms by (simp add: tx_rel_def)
qed

text \<open>Submitting \<open>n\<close> more bytes of the next chunk.\<close>

lemma tx_rel_submit:
  assumes "tx_rel S p" and "nextTransmitChunk (txSubmittedOffset p) (txChunks p) = Some c"
    and "n \<le> length (tc_data c) - tc_submitted c" and "n > 0"
  shows "tx_rel S (p\<lparr>txChunks := advance_chunk (tc_offset c) n (txChunks p),
      txSubmittedOffset := txSubmittedOffset p + n\<rparr>) \<and>
    take (txSubmittedOffset p + n) S = take (txSubmittedOffset p) S @ take n (drop (tc_submitted c) (tc_data c))"
proof -
  obtain o1 where o1: "o1 \<le> txAckedOffset p" and ch: "chunks_from S (txSubmittedOffset p) o1 (txChunks p)"
    using assms(1) by (auto simp: tx_rel_def)
  have le: "o1 \<le> txSubmittedOffset p" using o1 assms(1) by (auto simp: tx_rel_def)
  have lt: "txSubmittedOffset p < length S"
  proof (rule ccontr)
    assume "\<not> txSubmittedOffset p < length S"
    then show False using nextTransmitChunk_none [OF ch] assms(2) by simp
  qed
  from nextTransmitChunk_found [OF ch le lt] assms(2)
  have data: "drop (tc_submitted c) (tc_data c) =
      take (length (tc_data c) - tc_submitted c) (drop (txSubmittedOffset p) S)"
    and fits: "txSubmittedOffset p + (length (tc_data c) - tc_submitted c) \<le> length S"
    by auto
  have "take n (drop (tc_submitted c) (tc_data c)) = take n (drop (txSubmittedOffset p) S)"
    using data assms(3) by (simp add: min_absorb1)
  then have "take (txSubmittedOffset p + n) S =
      take (txSubmittedOffset p) S @ take n (drop (tc_submitted c) (tc_data c))"
    by (simp add: take_add)
  moreover have "chunks_from S (txSubmittedOffset p + n) o1 (advance_chunk (tc_offset c) n (txChunks p))"
    using chunks_from_advance [OF ch assms(2,3) le] .
  ultimately show ?thesis
    using assms fits o1 lt by (auto simp: tx_rel_def)
qed

section \<open>The invariant\<close>

text \<open>The stream data of the sends that wait in the queue.\<close>

definition app_data :: "operation_queue \<Rightarrow> bytes" where
  "app_data q = concat (map op_data (filter (\<lambda>oper. op_type oper = APISend) q))"

lemma app_data_simps [simp]:
  "app_data [] = []"
  "app_data (oper # q) = (if op_type oper = APISend then op_data oper else []) @ app_data q"
  "app_data (queue_push oper q) = app_data q @ (if op_type oper = APISend then op_data oper else [])"
  by (simp_all add: app_data_def queue_push_def)

text \<open>What ngtcp2 is documented to do, with \<open>obs w\<close> the stream bytes it has accepted so far: it
  acknowledges only what it has accepted, and \<open>ngtcp2_conn_write_stream\<close> accepts a prefix of
  the data it is given, of the length it reports.\<close>

definition tx_okcb :: "callback \<Rightarrow> bytes \<Rightarrow> bool" where
  "tx_okcb cb b = (case cb of CbAckedStreamData sid off len \<Rightarrow> off + len \<le> length b | _ \<Rightarrow> True)"

definition tx_okw :: "bytes option \<Rightarrow> ng_written \<times> int \<Rightarrow> bytes \<Rightarrow> bytes \<Rightarrow> bool" where
  "tx_okw d r b b' =
     (let given = (case d of None \<Rightarrow> [] | Some bs \<Rightarrow> bs) in
      case fst r of
        Inl _ \<Rightarrow> b' = b
      | Inr _ \<Rightarrow> snd r \<le> int (length given) \<and> b' = b @ take (nat (snd r)) given)"

text \<open>\<open>S\<close> is what the handlers have taken over from the application, \<open>D\<close> what still waits in
  the queue. \<open>K\<close> fixes the transmit position during a call of ngtcp2.\<close>

definition tx_pin :: "(nat \<times> tx_chunk option \<times> bool) option \<Rightarrow> proto \<Rightarrow> bool" where
  "tx_pin K p = (case K of
      None \<Rightarrow> True
    | Some (sub, ch, fr) \<Rightarrow> txSubmittedOffset p = sub \<and> nextTransmitChunk sub (txChunks p) = ch \<and>
        txFinRequested p = fr)"

definition tx_inv :: "('w \<Rightarrow> bytes) \<Rightarrow> bytes \<Rightarrow> bytes \<Rightarrow> (nat \<times> tx_chunk option \<times> bool) option \<Rightarrow> 'w conn \<Rightarrow> bool" where
  "tx_inv obs S D K s \<longleftrightarrow> tx_rel S (proto s) \<and> obs (world s) = take (txSubmittedOffset (proto s)) S \<and>
     (stopped s \<or> app_data (operationQueue s) = D) \<and> tx_pin K (proto s)"

lemma tx_pin_core: "proto_core p = proto_core q \<Longrightarrow> tx_pin K p = tx_pin K q"
  by (simp add: tx_pin_def proto_core_def split: option.split)

lemma tx_inv_internal: "preserves (tx_inv obs S D K) (queueInternalOperation ty)"
  by (auto simp: preserves_def queue_defs act_simps tx_inv_def)

lemma tx_inv_flush: "preserves (tx_inv obs S D K) queueSendFlush"
  "preserves (tx_inv obs S D K) queueStreamReceiveFlush"
  unfolding queueSendFlush_def queueStreamReceiveFlush_def assertWorkerOwner_def
  by (auto intro!: preserves_intros preserves_modify tx_inv_internal simp: tx_inv_def)

lemma tx_inv_received:
  "preserves (tx_inv obs S D K) (receiveStreamDataCallback fin sid off data)"
  unfolding receiveStreamDataCallback_def appendReceivedStreamData_def markPeerFinished_def
    assertWorkerOwner_def modProto_def cb_fail_def cb_ok_def
  by (auto intro!: preserves_intros preserves_modify tx_inv_flush
      simp: tx_inv_def tx_rel_def tx_pin_def split: option.splits)

lemma tx_inv_acked:
  assumes "tx_inv obs S D K s" and "tx_okcb (CbAckedStreamData sid off len) (obs (world s))"
  shows "tx_inv obs S D K (snd (acknowledgedStreamDataCallback sid off len s))"
proof (cases "off = txAckedOffset (proto s)")
  case True
  let ?p = "(proto s)\<lparr>txAckedOffset := off + len, txChunks := pop_acked (off + len) (txChunks (proto s))\<rparr>"
  have a: "off + len \<le> txSubmittedOffset (proto s)"
    using assms by (auto simp: tx_inv_def tx_okcb_def)
  have "tx_rel S ?p"
    by (rule tx_rel_acked) (use assms(1) a True in \<open>auto simp: tx_inv_def\<close>)
  moreover have "tx_pin K ?p"
    using assms(1) a by (auto simp: tx_inv_def tx_pin_def nextTransmitChunk_pop split: option.splits)
  ultimately show ?thesis
    using assms(1) True
    by (auto simp: acknowledgedStreamDataCallback_def markAcknowledged_def cb_fail_def cb_ok_def act_simps
        tx_inv_def tx_rel_def tx_pin_def split: option.splits)
next
  case False
  then show ?thesis
    using assms(1)
    by (auto simp: acknowledgedStreamDataCallback_def markAcknowledged_def cb_fail_def cb_ok_def act_simps
        tx_inv_def tx_rel_def tx_pin_def split: option.splits)
qed

lemma tx_inv_cong:
  assumes "tx_inv obs S D K s" and "proto_core (proto t) = proto_core (proto s)"
    and "obs (world t) = obs (world s)" and "stopped t = stopped s" and "operationQueue t = operationQueue s"
  shows "tx_inv obs S D K t"
proof -
  have "txSubmittedOffset (proto t) = txSubmittedOffset (proto s)"
    using assms(2) by (simp add: proto_core_def)
  then show ?thesis
    using assms tx_rel_core [OF assms(2)] tx_pin_core [OF assms(2)] by (simp add: tx_inv_def)
qed

lemma tx_callbacks:
  assumes "env_respects E obs tx_okcb tx_okw"
  shows "conn_callbacks E obs tx_okcb tx_okw (tx_inv obs S D K)"
proof
  fix fin sid off data and s :: "'a conn"
  assume "tx_inv obs S D K s"
  then show "tx_inv obs S D K (snd (receiveStreamDataCallback fin sid off data s))"
    by (rule preservesD [OF tx_inv_received])
qed (use env_respects_parts(1) [OF assms] tx_inv_acked in \<open>auto elim: tx_inv_cong\<close>)

section \<open>A packet\<close>

text \<open>The transmit state between the end of the ngtcp2 call and the code that books its result.\<close>

definition tx_given :: "tx_chunk option \<Rightarrow> bytes" where
  "tx_given ch = (case ch of None \<Rightarrow> [] | Some c \<Rightarrow> drop (tc_submitted c) (tc_data c))"

definition tx_booking :: "('w \<Rightarrow> bytes) \<Rightarrow> bytes \<Rightarrow> bytes \<Rightarrow> (nat \<times> tx_chunk option \<times> bool) \<Rightarrow>
    int \<Rightarrow> 'w conn \<Rightarrow> bool" where
  "tx_booking obs S D K n s \<longleftrightarrow> tx_rel S (proto s) \<and> tx_pin (Some K) (proto s) \<and>
     (stopped s \<or> app_data (operationQueue s) = D) \<and> n \<le> int (length (tx_given (fst (snd K)))) \<and>
     obs (world s) = take (fst K) S @ take (nat n) (tx_given (fst (snd K)))"

lemma tx_stream_call:
  assumes env: "env_respects E obs tx_okcb tx_okw" and I: "tx_inv obs S D (Some K) s"
    and d: "d = map_option (\<lambda>c. drop (tc_submitted c) (tc_data c)) (fst (snd K))"
    and run: "run_ng (callbacks E) (q_write_stream E n f sid d ts (world s)) s = (r, s')"
  shows "case r of Inl _ \<Rightarrow> tx_inv obs S D (Some K) s'
    | Inr (Inl _, _) \<Rightarrow> tx_inv obs S D (Some K) s'
    | Inr (Inr _, accepted) \<Rightarrow> tx_booking obs S D K accepted s'"
proof -
  note cb = tx_callbacks [OF env]
  obtain sub ch fr where K: "K = (sub, ch, fr)" by (cases K)
  have given: "(case d of None \<Rightarrow> [] | Some bs \<Rightarrow> bs) = tx_given ch"
    by (cases ch) (simp_all add: d K tx_given_def)
  let ?Q = "\<lambda>(written, accepted) s'. case written of Inl _ \<Rightarrow> tx_inv obs S D (Some K) s'
    | Inr _ \<Rightarrow> tx_booking obs S D K accepted s'"
  have "case run_ng (callbacks E) (q_write_stream E n f sid d ts (world s)) s of
      (Inl e, s') \<Rightarrow> tx_inv obs S D (Some K) s' | (Inr r, s') \<Rightarrow> ?Q r s'"
  proof (rule run_ng_inv [where obs = obs and okcb = tx_okcb and okret = "tx_okw d"])
    fix r w and s :: "'a conn"
    assume "tx_inv obs S D (Some K) s" and "tx_okw d r (obs (world s)) (obs w)"
    then show "?Q r (s\<lparr>io := (io s)\<lparr>io_world := w\<rparr>\<rparr>)"
      by (cases "fst r") (auto simp: tx_okw_def given K tx_inv_def tx_booking_def tx_pin_def Let_def)
  qed (use conn_callbacks.env_trees [OF cb] conn_callbacks.move [OF cb] conn_callbacks.callback_inv [OF cb]
      conn_callbacks.callbacks_keep [OF cb] I in auto)
  then show ?thesis using run by (auto split: sum.splits)
qed

text \<open>Booking what was accepted.\<close>

lemma tx_booked:
  assumes "tx_booking obs S D (sub, Some c, fr) n s" and "nextTransmitChunk sub (txChunks (proto s)) = Some c"
    and "n > 0"
  shows "\<exists>s'. chunk_accepted c (nat n) s = (Inr (), s') \<and> tx_inv obs S D None s' \<and>
    txFinRequested (proto s') = fr"
proof -
  let ?p = "(proto s)\<lparr>txChunks := advance_chunk (tc_offset c) (nat n) (txChunks (proto s)),
      txSubmittedOffset := txSubmittedOffset (proto s) + nat n\<rparr>"
  have "tx_rel S ?p \<and> take (txSubmittedOffset (proto s) + nat n) S =
      take (txSubmittedOffset (proto s)) S @ take (nat n) (drop (tc_submitted c) (tc_data c))"
    using assms by (intro tx_rel_submit) (auto simp: tx_booking_def tx_pin_def tx_given_def)
  moreover have "chunk_accepted c (nat n) s = (Inr (), s\<lparr>proto := ?p\<rparr>)"
    using nextTransmitChunk_set [OF assms(2)] by (simp add: chunk_accepted_def act_simps)
  ultimately show ?thesis
    using assms(1) by (auto simp: tx_inv_def tx_booking_def tx_pin_def tx_given_def)
qed

lemma tx_unbooked:
  "tx_booking obs S D (sub, ch, fr) n s \<Longrightarrow> ch = None \<or> n \<le> 0 \<Longrightarrow> tx_inv obs S D None s \<and> txFinRequested (proto s) = fr"
  by (auto simp: tx_booking_def tx_inv_def tx_pin_def tx_given_def)

lemma tx_fin:
  assumes "tx_inv obs S D None s" and "sendingFin \<longrightarrow> txFinRequested (proto s)"
  shows "tx_inv obs S D None (snd (modProto (\<lambda>p.
      if sendingFin \<and> out \<noteq> [] \<and> txSubmittedOffset p = txNextOffset p \<and> accepted \<ge> 0
      then p\<lparr>txFinSubmitted := True\<rparr> else p) s))"
  using assms by (auto simp: act_simps tx_inv_def tx_rel_def tx_pin_def)

lemma tx_write_stream:
  assumes env: "env_respects E obs tx_okcb tx_okw" and I: "tx_inv obs S D None s"
    and chunk: "chunk = nextTransmitChunk (txSubmittedOffset (proto s)) (txChunks (proto s))"
    and fin: "sendingFin \<longrightarrow> txFinRequested (proto s)"
    and call: "call = q_write_stream E n f sid (map_option (\<lambda>c. drop (tc_submitted c) (tc_data c)) chunk) ts (world s)"
  shows "tx_inv obs S D None (snd (bindA (run_ng (callbacks E) call) (\<lambda>(written, accepted).
                  case written of
                    Inl e \<Rightarrow>
                      if e = NGTCP2_ERR_STREAM_DATA_BLOCKED \<or> e = NGTCP2_ERR_STREAM_SHUT_WR \<or>
                         e = NGTCP2_ERR_STREAM_ID_BLOCKED
                      then ret None
                      else throw (RuntimeError (''ngtcp2_conn_write_stream: '' @ q_strerror E e))
                  | Inr out \<Rightarrow>
                      bindA (case chunk of
                               Some c \<Rightarrow> whenA (accepted > 0) (chunk_accepted c (nat accepted))
                             | None \<Rightarrow> ret ()) (\<lambda>_.
                      bindA (modProto (\<lambda>p.
                               if sendingFin \<and> out \<noteq> [] \<and> txSubmittedOffset p = txNextOffset p \<and> accepted \<ge> 0
                               then p\<lparr>txFinSubmitted := True\<rparr> else p)) (\<lambda>_.
                        ret (Some out)))) s))"
proof -
  let ?K = "(txSubmittedOffset (proto s), chunk, txFinRequested (proto s))"
  have pin: "tx_inv obs S D (Some ?K) s"
    using I chunk by (simp add: tx_inv_def tx_pin_def)
  obtain r s1 where run: "run_ng (callbacks E) call s = (r, s1)" by fastforce
  note res = tx_stream_call [OF env pin _ run [unfolded call]]
  have unpin: "tx_inv obs S D (Some ?K) t \<Longrightarrow> tx_inv obs S D None t" for t
    by (simp add: tx_inv_def tx_pin_def)
  show ?thesis
  proof (cases r)
    case (Inl e)
    then show ?thesis using res run unpin by (simp add: bindA_apply [of "run_ng _ _"])
  next
    case (Inr wa)
    obtain written accepted where wa: "wa = (written, accepted)" by fastforce
    show ?thesis
    proof (cases written)
      case (Inl e)
      then show ?thesis using res run unpin Inr wa
        by (simp add: bindA_apply [of "run_ng _ _"] ret_apply throw_apply)
    next
      case written: (Inr out)
      then have book: "tx_booking obs S D ?K accepted s1" using res Inr wa by simp
      then have next': "nextTransmitChunk (txSubmittedOffset (proto s)) (txChunks (proto s1)) = chunk"
        by (simp add: tx_booking_def tx_pin_def)
      have "\<exists>s2. (case chunk of Some c \<Rightarrow> whenA (accepted > 0) (chunk_accepted c (nat accepted))
          | None \<Rightarrow> ret ()) s1 = (Inr (), s2) \<and> tx_inv obs S D None s2 \<and>
          txFinRequested (proto s2) = txFinRequested (proto s)"
      proof (cases "\<exists>c. chunk = Some c \<and> accepted > 0")
        case True
        then obtain c where "chunk = Some c" "accepted > 0" by blast
        then show ?thesis
          using tx_booked [of obs S D _ c _ accepted s1] book next' by (simp add: whenA_apply)
      next
        case False
        then show ?thesis
          using tx_unbooked [OF book] by (auto simp: whenA_apply ret_apply split: option.split)
      qed
      then obtain s2 where "(case chunk of Some c \<Rightarrow> whenA (accepted > 0) (chunk_accepted c (nat accepted))
          | None \<Rightarrow> ret ()) s1 = (Inr (), s2)" and s2: "tx_inv obs S D None s2"
          "txFinRequested (proto s2) = txFinRequested (proto s)" by blast
      then show ?thesis
        using tx_fin [OF s2(1), of sendingFin out accepted] fin run Inr wa written
        by (simp add: bindA_apply ret_apply modProto_apply)
    qed
  qed
qed

lemma tx_write:
  assumes env: "env_respects E obs tx_okcb tx_okw"
  shows "preserves (tx_inv obs S D None) (writeOnePacket E n ts pad)"
proof (rule preserves_def [THEN iffD2, rule_format])
  fix s :: "'a conn"
  assume I: "tx_inv obs S D None s"
  note cb = tx_callbacks [OF env, of S D None]
  let ?tail = "\<lambda>r. case r of
              None \<Rightarrow> ret []
            | Some out \<Rightarrow>
                bindA (whenA (out \<noteq> [] \<and> pad)
                   (modProto (\<lambda>p. p\<lparr>aggregatePacketCount := aggregatePacketCount p + 1\<rparr>)))
                  (\<lambda>_. ret out)"
  have tail: "preserves (tx_inv obs S D None) (?tail r)" for r
    by (intro preserves_intros conn_callbacks.proto_inv [OF cb]) (simp_all add: proto_core_def)
  have seq: "tx_inv obs S D None (snd (m s)) \<Longrightarrow> tx_inv obs S D None (snd (bindA m ?tail s))" for m
    using preservesD [OF tail] by (auto simp: bindA_apply split: prod.split sum.split)
  show "tx_inv obs S D None (snd (writeOnePacket E n ts pad s))"
  proof (cases "proto_hasPendingWrite (proto s)")
    case True
    then show ?thesis
      unfolding writeOnePacket_def bind_gets if_P [OF True]
      by (intro seq) (simp only: Let_def bind_gets, rule tx_write_stream [OF env I], auto)
  next
    case False
    have pkt: "preserves (tx_inv obs S D None) (bindA (gets (\<lambda>s. q_write_pkt E n ts (world s))) (\<lambda>call.
          bindA (run_ng (callbacks E) call) (\<lambda>written.
            case written of
              Inl e \<Rightarrow> throw (RuntimeError (''ngtcp2_conn_write_pkt: '' @ q_strerror E e))
            | Inr out \<Rightarrow> ret (Some out))))"
      by (intro preserves_call conn_callbacks.call_inv [OF cb] conn_callbacks.env_trees [OF cb] preserves_intros)
    show ?thesis
      unfolding writeOnePacket_def bind_gets [of proto] if_not_P [OF False]
      by (rule seq) (rule preservesD [OF pkt I])
  qed
qed

lemma tx_writer:
  assumes "env_respects E obs tx_okcb tx_okw"
  shows "conn_writer E obs tx_okcb tx_okw (tx_inv obs S D None)"
  by (intro conn_writer.intro conn_writer_axioms.intro tx_callbacks tx_write assms)

lemma tx_sender:
  assumes "env_respects E obs tx_okcb tx_okw"
  shows "conn_sender E obs tx_okcb tx_okw (tx_inv obs S D None)"
  by (intro conn_sender.intro conn_sender_axioms.intro tx_writer tx_inv_flush assms)
    (auto elim: tx_inv_cong)

lemma tx_worker:
  assumes "env_respects E obs tx_okcb tx_okw"
  shows "conn_worker E obs tx_okcb tx_okw (tx_inv obs S D None)"
  by (intro conn_worker.intro conn_worker_axioms.intro tx_sender assms)
    (auto elim: tx_inv_cong simp: tx_inv_def tx_rel_def tx_pin_def)

lemma tx_feeder:
  assumes "env_respects E obs tx_okcb tx_okw"
  shows "conn_feeder E obs tx_okcb tx_okw (tx_inv obs S D None)"
proof (intro conn_feeder.intro conn_feeder_axioms.intro tx_worker assms
    env_respects_parts(2) [OF assms])
  fix d
  show "preserves (tx_inv obs S D None) (queueReceive d)"
    unfolding queueReceive_def
    by (intro preserves_intros preserves_modify preserves_zoom tx_inv_internal) (auto elim: tx_inv_cong)
qed

text \<open>Extending the flow control window does not touch what ngtcp2 has accepted.\<close>

definition tx_env :: "'w quic_env \<Rightarrow> ('w \<Rightarrow> bytes) \<Rightarrow> bool" where
  "tx_env E obs \<longleftrightarrow> env_respects E obs tx_okcb tx_okw \<and>
     (\<forall>sid n. keeps obs (q_extend_max_stream_offset E sid n)) \<and>
     (\<forall>n. keeps obs (\<lambda>w. ((), q_extend_max_offset E n w)))"

lemma tx_handlers:
  assumes "tx_env E obs"
  shows "conn_handlers E obs tx_okcb tx_okw (tx_inv obs S D None)"
proof -
  have env: "env_respects E obs tx_okcb tx_okw"
    and more: "\<And>sid n. keeps obs (q_extend_max_stream_offset E sid n)"
      "\<And>n. keeps obs (\<lambda>w. ((), q_extend_max_offset E n w))"
    using assms by (simp_all add: tx_env_def)
  note ext = conn_callbacks.extern_inv [OF tx_callbacks [OF env, of S D None]]
  have "preserves (tx_inv obs S D None) processStreamReceive"
    unfolding processStreamReceive_def assertWorkerOwner_def modApp_def
    by (intro preserves_intros preserves_modify) (auto elim: tx_inv_cong)
  moreover have "preserves (tx_inv obs S D None) (processReleaseStreamReceiveCredit E)"
    unfolding processReleaseStreamReceiveCredit_def assertWorkerOwner_def
    by (intro preserves_intros preserves_modify tx_inv_flush ext more) (auto elim: tx_inv_cong)
  ultimately show ?thesis
    by (intro conn_handlers.intro conn_handlers_axioms.intro conn_others.intro conn_others_axioms.intro
        tx_worker tx_feeder env tx_inv_internal)
      (auto elim: tx_inv_cong simp: tx_inv_def tx_rel_def tx_pin_def proto_core_def)
qed

section \<open>A send is taken over\<close>

lemma tx_processOperation:
  assumes "tx_env E obs" and "op_type oper \<noteq> APISend"
  shows "preserves (tx_inv obs S D None) (processOperation E oper)"
  by (rule conn_handlers.processOperation_inv [OF tx_handlers [OF assms(1)] assms(2)])

lemma tx_add:
  assumes "tx_inv obs S D None s" and "d \<noteq> []" and "\<not> txFinRequested (proto s)"
  shows "tx_inv obs (S @ d) D None (s\<lparr>proto := add_chunk d (proto s)\<rparr>)"
proof -
  have "tx_rel (S @ d) (add_chunk d (proto s))"
    using assms by (intro tx_rel_add) (simp_all add: tx_inv_def)
  moreover have "txSubmittedOffset (add_chunk d (proto s)) = txSubmittedOffset (proto s)"
    by (simp add: add_chunk_def)
  moreover have "txSubmittedOffset (proto s) \<le> length S"
    using assms(1) by (simp add: tx_inv_def tx_rel_def)
  ultimately show ?thesis using assms(1) by (simp add: tx_inv_def tx_pin_def)
qed

lemma chooseStream_keeps: "preserves (\<lambda>s. \<not> txFinRequested (proto s)) (chooseStream E)"
proof -
  have ext: "preserves (\<lambda>s. \<not> txFinRequested (proto s)) (extern f)" for f :: "'a \<Rightarrow> 'b \<times> 'a"
    by (simp add: preserves_def act_simps)
  show ?thesis
    unfolding chooseStream_def checkNgtcp2_def modProto_def
    by (intro preserves_intros preserves_modify ext) simp_all
qed

text \<open>However a send ends, the stream taken over is the old one or the one with the new bytes; if
  it ends normally it is the latter.\<close>

lemma tx_processSend:
  assumes env: "tx_env E obs" and I: "tx_inv obs S D None s" and run: "processSend E oper s = (r, s')"
  shows "tx_inv obs (S @ op_data oper) D None s' \<or> (r \<noteq> Inr () \<and> tx_inv obs S D None s')"
proof (cases "\<not> hasConn (proto s) \<or> txFinRequested (proto s)")
  case True
  then show ?thesis using I run by (auto simp: processSend_def act_simps split: if_splits)
next
  case False
  note w = tx_handlers [OF env]
  obtain rc sc where ch: "chooseStream E s = (rc, sc)" by fastforce
  have sc: "tx_inv obs S D None sc" "\<not> txFinRequested (proto sc)"
    using preservesD2 [OF conn_worker.chooseStream_inv [OF conn_others.axioms(1) [OF conn_handlers.axioms(1) [OF w]]] I ch]
      preservesD2 [OF chooseStream_keeps _ ch] False by auto
  show ?thesis
  proof (cases rc)
    case (Inl e)
    then show ?thesis using ch sc run False by (auto simp: processSend_def act_simps)
  next
    case (Inr u)
    let ?rest = "blockA [whenA (op_fin oper) (modProto (\<lambda>p. p\<lparr>txFinRequested := True\<rparr>)),
        queueSendFlush, publishApplicationState]"
    let ?sd = "if op_data oper \<noteq> [] then sc\<lparr>proto := add_chunk (op_data oper) (proto sc)\<rparr> else sc"
    have "tx_inv obs (S @ op_data oper) D None ?sd"
      using sc tx_add [of obs S D sc "op_data oper"] by auto
    moreover have "preserves (tx_inv obs (S @ op_data oper) D None)
        (modProto (\<lambda>p. p\<lparr>txFinRequested := True\<rparr>))"
      by (auto simp: preserves_def act_simps tx_inv_def tx_rel_def tx_pin_def)
    then have "preserves (tx_inv obs (S @ op_data oper) D None) ?rest"
      by (intro preserves_intros tx_inv_flush conn_callbacks.publish_inv [OF tx_callbacks [of E]])
        (use env in \<open>simp_all add: tx_env_def\<close>)
    ultimately have "tx_inv obs (S @ op_data oper) D None (snd (?rest ?sd))"
      by (rule preservesD [rotated])
    moreover have "processSend E oper s = ?rest ?sd"
      using ch Inr False by (simp add: processSend_def bind_gets blockA_Cons whenA_apply modProto_apply
          del: blockA.simps)
    ultimately have "tx_inv obs (S @ op_data oper) D None (snd (processSend E oper s))"
      by (simp only:)
    then show ?thesis using run by simp
  qed
qed

section \<open>One round of the worker\<close>

definition op_stream :: "operation \<Rightarrow> bytes" where
  "op_stream oper = (if op_type oper = APISend then op_data oper else [])"

lemma tx_operation:
  assumes env: "tx_env E obs" and I: "tx_inv obs S D None s" and run: "processOperation E oper s = (r, s')"
  shows "tx_inv obs (S @ op_stream oper) D None s' \<or> (r \<noteq> Inr () \<and> tx_inv obs S D None s')"
proof (cases "op_type oper = APISend")
  case True
  then show ?thesis
    using tx_processSend [OF env I, of oper r s'] run by (simp add: op_stream_def processOperation_def)
next
  case False
  then show ?thesis
    using preservesD2 [OF tx_processOperation [OF env False] I run] by (simp add: op_stream_def)
qed

text \<open>What is left when only the stream counts, not the queue.\<close>

definition tx_any :: "('w \<Rightarrow> bytes) \<Rightarrow> bytes \<Rightarrow> 'w conn \<Rightarrow> bool" where
  "tx_any obs S s \<longleftrightarrow> (\<exists>D. tx_inv obs S D None s)"

lemma tx_any_stopped: "tx_any obs S s \<Longrightarrow> stopped s \<Longrightarrow> tx_inv obs S D None s"
  by (auto simp: tx_any_def tx_inv_def)

lemma tx_any_preserves: "(\<And>D. preserves (tx_inv obs S D None) m) \<Longrightarrow> preserves (tx_any obs S) m"
  unfolding preserves_def tx_any_def by blast

lemma tx_fail:
  assumes env: "tx_env E obs"
  shows "preserves (tx_any obs S) (failOperation E oper e)" and "preserves (tx_any obs S) (failFromRuntime E m)"
proof -
  note w = tx_handlers [OF env]
  have cb: "conn_callbacks E obs tx_okcb tx_okw (tx_inv obs S D None)" for D
    using env by (intro tx_callbacks) (simp add: tx_env_def)
  have parts: "preserves (tx_any obs S) (completeOperation oper m)" "preserves (tx_any obs S) (setError m)"
    "preserves (tx_any obs S) (releaseTransport E)" "preserves (tx_any obs S) (modify (\<lambda>s. s\<lparr>stopped := True\<rparr>))"
    "preserves (tx_any obs S) assertWorkerOwner" for m
    unfolding completeOperation_def assertWorkerOwner_def
    by (rule tx_any_preserves, intro preserves_intros preserves_modify conn_others.releaseTransport_inv [OF conn_handlers.axioms(1) [OF w]]
        conn_callbacks.mark_inv [OF cb];
      (simp add: tx_inv_def split: option.split)?)+
  have drain: "preserves (tx_any obs S) (drainFailedOperations m)" for m
    unfolding drainFailedOperations_def by (intro preserves_modify) (auto simp: tx_any_def tx_inv_def)
  show "preserves (tx_any obs S) (failOperation E oper e)" "preserves (tx_any obs S) (failFromRuntime E m)"
    unfolding failOperation_def failFromRuntime_def by (intro preserves_intros parts drain)+
qed

lemma tx_complete: "tx_inv obs S D None s \<Longrightarrow> tx_inv obs S D None (snd (completeOperation oper m s))"
  by (erule tx_inv_cong) (auto simp: completeOperation_def act_simps split: option.split)

lemma tx_try:
  assumes env: "tx_env E obs" and I: "tx_inv obs S D None s" and run: "tryOperation E oper s = (Inr ok, s')"
  shows "if ok then tx_inv obs (S @ op_stream oper) D None s'
    else stopped s' \<and> operationQueue s' = [] \<and> (tx_any obs (S @ op_stream oper) s' \<or> tx_any obs S s')"
proof -
  obtain r s1 where one: "processOperation E oper s = (r, s1)" by fastforce
  note res = tx_operation [OF env I one]
  show ?thesis
  proof (cases r)
    case (Inr u)
    then have "s' = snd (completeOperation oper '''' s1)" and ok
      using run one by (auto simp: tryOperation_def act_simps completeOperation_def split: option.splits)
    then show ?thesis using res Inr tx_complete by simp
  next
    case (Inl e)
    then have fail: "failOperation E oper e s1 = (Inr ok, s')"
      using run one by (simp add: tryOperation_def act_simps)
    then have "e \<noteq> Undefined" by (auto simp: failOperation_def act_simps)
    from fail_result [OF this fail] have "\<not> ok" "stopped s'" "operationQueue s' = []" by simp_all
    moreover have "tx_any obs (S @ op_stream oper) s1 \<or> tx_any obs S s1"
      using res unfolding tx_any_def by blast
    then have "tx_any obs (S @ op_stream oper) s' \<or> tx_any obs S s'"
      using preservesD2 [OF tx_fail(1) [OF env] _ fail] by blast
    ultimately show ?thesis by simp
  qed
qed

section \<open>What only the application changes\<close>

definition written_is :: "nat \<times> bool \<times> role \<Rightarrow> 'w conn \<Rightarrow> bool" where
  "written_is v s \<longleftrightarrow> v = (applicationWriteOffset s, applicationFinRequested s, role_of s)"

lemma written_push: "preserves (written_is v) (queueOperation oper)"
  by (auto simp: preserves_def queueOperation_def completeOperation_def scheduleIfIdle_def act_simps
      written_is_def split: option.split)

lemma written_internal: "preserves (written_is v) (queueInternalOperation ty)"
  unfolding queueInternalOperation_def by (rule written_push)

lemma written_flush: "preserves (written_is v) queueSendFlush"
  "preserves (written_is v) queueStreamReceiveFlush"
  unfolding queueSendFlush_def queueStreamReceiveFlush_def assertWorkerOwner_def
  by (auto intro!: preserves_intros preserves_modify written_internal simp: written_is_def)

lemma written_callbacks:
  "preserves (written_is v) (receiveStreamDataCallback fin sid off data)"
  "preserves (written_is v) (acknowledgedStreamDataCallback sid off len)"
  unfolding receiveStreamDataCallback_def appendReceivedStreamData_def markPeerFinished_def
    acknowledgedStreamDataCallback_def markAcknowledged_def
    assertWorkerOwner_def modProto_def cb_fail_def cb_ok_def
  by (auto intro!: preserves_intros preserves_modify written_flush simp: written_is_def)

interpretation written_plain: conn_plain E "\<lambda>_. ()" "\<lambda>_ _. True" "\<lambda>_ _ _ _. True" "written_is v" for E v
  by unfold_locales
    (rule env_calls_trivial | erule preservesD [OF written_callbacks(1)]
      | erule preservesD [OF written_callbacks(2)] | simp add: written_is_def)+

lemma written_queueReceive: "preserves (written_is v) (queueReceive d)"
  unfolding queueReceive_def
  by (auto intro!: preserves_intros preserves_modify preserves_zoom written_internal simp: written_is_def)

lemma written_handlers: "preserves (written_is v) processStreamReceive"
  "preserves (written_is v) (processReleaseStreamReceiveCredit E)"
  unfolding processStreamReceive_def processReleaseStreamReceiveCredit_def assertWorkerOwner_def modApp_def
  by (intro preserves_intros preserves_modify written_flush;
    simp add: written_is_def preserves_def act_simps)+

interpretation written: conn_handlers E "\<lambda>_. ()" "\<lambda>_ _. True" "\<lambda>_ _ _ _. True" "written_is v" for E v
  by unfold_locales
    (rule env_receives_trivial written_plain.writing written_flush written_queueReceive written_internal written_handlers
      | simp add: written_is_def)+

lemma written_processSend: "preserves (written_is v) (processSend E oper)"
  unfolding processSend_def
  by (intro preserves_intros preserves_modify written.chooseStream_inv written_flush written_plain.publish_inv)
    (simp_all add: preserves_def act_simps written_is_def)

lemma written_next: "preserves (written_is v) (processNext E)"
proof -
  have parts: "preserves (written_is v) (completeOperation oper m)" "preserves (written_is v) (drainFailedOperations m)"
    "preserves (written_is v) (modify (\<lambda>s. s\<lparr>operationQueue := q\<rparr>))"
    "preserves (written_is v) (modify (\<lambda>s. s\<lparr>stopped := True\<rparr>))" for oper m q
    unfolding completeOperation_def drainFailedOperations_def
    by (auto intro!: preserves_modify simp: written_is_def split: option.split)
  have "preserves (written_is v) (processOperation E oper)" for oper
    by (cases "op_type oper = APISend")
      (simp_all add: processOperation_def written_processSend written.processOperation_inv [unfolded processOperation_def])
  then show ?thesis
    unfolding processNext_def tryOperation_def failOperation_def
    by (intro preserves_intros parts written.releaseTransport_inv written_plain.mark_inv)
qed

section \<open>The stream at the boundaries of the steps\<close>

text \<open>\<open>W\<close> is what the application has written so far.\<close>

definition tx_stream :: "('w \<Rightarrow> bytes) \<Rightarrow> bytes \<Rightarrow> 'w conn \<Rightarrow> bool" where
  "tx_stream obs W s \<longleftrightarrow> applicationWriteOffset s = length W \<and>
     (\<exists>S. tx_inv obs S (app_data (operationQueue s)) None s \<and>
        (if stopped s then prefix S W \<and> app_data (operationQueue s) = []
         else W = S @ app_data (operationQueue s)))"

lemma tx_next:
  assumes env: "tx_env E obs" and inv: "tx_stream obs W s" and run: "processNext E s = (Inr l, s')"
  shows "tx_stream obs W s'"
proof -
  have off: "applicationWriteOffset s' = applicationWriteOffset s"
    using preservesD2 [OF written_next _ run, of "(applicationWriteOffset s, applicationFinRequested s, role_of s)"]
    by (simp add: written_is_def)
  obtain S where I: "tx_inv obs S (app_data (operationQueue s)) None s"
    and W: "if stopped s then prefix S W \<and> app_data (operationQueue s) = []
      else W = S @ app_data (operationQueue s)"
    using inv by (auto simp: tx_stream_def)
  from run show ?thesis
  proof (cases rule: processNext_cases)
    case 1
    then show ?thesis using inv by simp
  next
    case (2 oper q ok s1)
    let ?S = "S @ op_stream oper"
    have popped: "tx_inv obs S D None (s\<lparr>operationQueue := q\<rparr>)" if "stopped s \<or> D = app_data q" for D
      using I that by (auto simp: tx_inv_def)
    have pre: "prefix ?S W \<and> prefix S W"
      using W 2(1) by (auto simp: op_stream_def split: if_splits)
    note tried = tx_try [OF env _ 2(2)]
    have stop: "stopped s1" if "stopped s"
    proof -
      have "if ok then tx_inv obs ?S [] None s1 else stopped s1"
        using tried [OF popped, of "[]"] that by (auto split: if_splits)
      moreover have "if ok then tx_inv obs ?S [0] None s1 else stopped s1"
        using tried [OF popped, of "[0]"] that by (auto split: if_splits)
      ultimately show ?thesis by (auto simp: tx_inv_def split: if_splits)
    qed
    show ?thesis
    proof (cases "stopped s1")
      case True
      have any: "\<exists>S'. prefix S' W \<and> tx_any obs S' s1"
        using tried [OF popped, of "app_data q"] pre unfolding tx_any_def by (auto split: if_splits)
      have "operationQueue s' = [] \<and> stopped s' \<and> proto s' = proto s1 \<and> world s' = world s1"
      proof (cases ok)
        case True
        then show ?thesis
          using 2(4) \<open>stopped s1\<close> by (auto simp: drainFailedOperations_def act_simps)
      next
        case False
        then show ?thesis using 2(3) tried [OF popped, of "app_data q"] by simp
      qed
      then show ?thesis
        using any inv off by (auto simp: tx_stream_def tx_any_def tx_inv_def)
    next
      case False
      then have running: "\<not> stopped s" using stop by blast
      have ok using tried [OF popped, of "app_data q"] False by (cases ok) simp_all
      then have "tx_inv obs ?S (app_data q) None s1" "s' = s1"
        using tried [OF popped, of "app_data q"] 2(5) False by simp_all
      moreover from this have "app_data (operationQueue s1) = app_data q"
        using False by (simp add: tx_inv_def)
      ultimately show ?thesis
        using W 2(1) running False off inv by (auto simp: tx_stream_def op_stream_def)
    qed
  qed
qed

text \<open>Other steps do not touch the transmit state; what they queue carries no stream data.\<close>

lemma tx_stream_same:
  assumes "tx_stream obs W s" and "proto_core (proto s') = proto_core (proto s)"
    and "obs (world s') = obs (world s)" and "stopped s' = stopped s"
    and "app_data (operationQueue s') = app_data (operationQueue s)"
    and "applicationWriteOffset s' = applicationWriteOffset s"
  shows "tx_stream obs W s'"
proof -
  have "txSubmittedOffset (proto s') = txSubmittedOffset (proto s)"
    using assms(2) by (simp add: proto_core_def)
  then have "tx_inv obs S (app_data (operationQueue s')) None s' = tx_inv obs S (app_data (operationQueue s)) None s" for S
    using assms tx_rel_core [OF assms(2)] by (simp add: tx_inv_def tx_pin_def)
  then show ?thesis
    using assms unfolding tx_stream_def by (auto split: if_splits)
qed

definition tx_same :: "'w conn \<Rightarrow> 'w conn \<Rightarrow> bool" where
  "tx_same s0 s \<longleftrightarrow> proto s = proto s0 \<and> world s = world s0 \<and> stopped s = stopped s0 \<and>
     app_data (operationQueue s) = app_data (operationQueue s0) \<and>
     applicationWriteOffset s = applicationWriteOffset s0"

lemma tx_same_stream: "tx_stream obs W s0 \<Longrightarrow> tx_same s0 s \<Longrightarrow> tx_stream obs W s"
  by (erule tx_stream_same) (simp_all add: tx_same_def)

lemma tx_same_push:
  "op_type oper \<noteq> APISend \<Longrightarrow> preserves (tx_same s0) (queueOperation oper)"
  by (auto simp: preserves_def queueOperation_def completeOperation_def scheduleIfIdle_def act_simps
      tx_same_def split: option.split)

lemma tx_same_internal: "ty \<noteq> APISend \<Longrightarrow> preserves (tx_same s0) (queueInternalOperation ty)"
  unfolding queueInternalOperation_def by (rule tx_same_push) (simp add: operation_of_def)

lemma tx_same_binding:
  "preserves (tx_same s0) (withIo (binding_attach self h c))"
  "preserves (tx_same s0) (withIo (modify (binding_limitDatagramSize n)))"
  "preserves (tx_same s0) detachBinding"
  by (auto simp: preserves_def act_simps tx_same_def binding_attach_def binding_limitDatagramSize_def
      binding_detach_def detachBinding_def world_def split: prod.split)

lemma tx_same_calls:
  "preserves (tx_same s0) (start_request a g n)" "preserves (tx_same s0) (start_finish c)"
  "preserves (tx_same s0) close_request" "preserves (tx_same s0) (close_finish c)"
  "preserves (tx_same s0) takeReceivedStreamData" "preserves (tx_same s0) (binding_onReceive d)"
  "preserves (tx_same s0) beginWorkerProcessing" "preserves (tx_same s0) publishApplicationState"
  "preserves (tx_same s0) finishWorkerProcessing" "preserves (tx_same s0) queueTimerExpired"
  unfolding start_request_def start_finish_def close_request_def close_finish_def newCompletion_def
    takeReceivedStreamData_def modApp_def binding_onReceive_def queueReceive_def beginWorkerProcessing_def
    publishApplicationState_def finishWorkerProcessing_def queueTimerExpired_def scheduleIfIdle_def
    assertWorkerOwner_def
  by (intro preserves_intros preserves_wait preserves_modify preserves_zoom tx_same_push tx_same_internal
      tx_same_binding; simp add: tx_same_def world_def Let_def operation_of_def)+

section \<open>The stream along a run\<close>

lemma tx_send:
  assumes "tx_stream obs W s" and "queueDataAsync d fin s = (r, s')"
  shows "tx_stream obs (W @ (if r = Inr () then span_bytes d else [])) s'"
proof (cases "started s \<and> \<not> stopped s \<and> \<not> (span_size d \<noteq> 0 \<and> span_is_null d)")
  case False
  then show ?thesis
    using assms by (auto simp: queueDataAsync_def createSendOperation_def act_simps split: if_splits)
next
  case True
  have len: "length (span_bytes d) = span_size d" using True by (cases d) auto
  let ?oper = "(operation_of APISend)\<lparr>op_fin := fin, op_data := span_bytes d\<rparr>"
  have ty: "op_type ?oper = APISend" by (simp add: operation_of_def)
  have "proto s' = proto s \<and> world s' = world s \<and> \<not> stopped s' \<and> r = Inr () \<and>
    app_data (operationQueue s') = app_data (operationQueue s) @ span_bytes d \<and>
    applicationWriteOffset s' = applicationWriteOffset s + span_size d"
    using True assms(2) ty
    by (auto simp: queueDataAsync_def createSendOperation_def queueOperation_def scheduleIfIdle_def act_simps
        world_def split: if_splits)
  then show ?thesis
    using assms(1) True len unfolding tx_stream_def tx_inv_def by auto
qed

lemma tx_run_fail:
  assumes "tx_env E obs" and "tx_stream obs W s" and "failFromRuntime E m s = (Inr (), s')"
    and "applicationWriteOffset s' = applicationWriteOffset s"
  shows "tx_stream obs W s'"
proof -
  obtain S where "tx_inv obs S (app_data (operationQueue s)) None s" "prefix S W"
    using assms(2) by (auto simp: tx_stream_def split: if_splits)
  then have S: "tx_any obs S s" "prefix S W" by (auto simp: tx_any_def)
  have "stopped s' \<and> operationQueue s' = []"
    using assms(3)
    by (auto simp: failFromRuntime_def act_simps drainFailedOperations_def setError_def
        assertWorkerOwner_def split: if_splits prod.splits sum.splits)
  then show ?thesis
    using preservesD2 [OF tx_fail(2) [OF assms(1)] S(1) assms(3)] S(2) assms(2,4)
    by (auto simp: tx_stream_def intro: tx_any_stopped)
qed

lemma written_fail: "preserves (written_is v) (failFromRuntime E m)"
proof -
  have "preserves (written_is v) (drainFailedOperations m)" "preserves (written_is v) (modify (\<lambda>s. s\<lparr>stopped := True\<rparr>))"
    unfolding drainFailedOperations_def by (auto intro!: preserves_modify simp: written_is_def)
  then show ?thesis
    unfolding failFromRuntime_def assertWorkerOwner_def
    by (intro preserves_intros written.releaseTransport_inv written_plain.mark_inv)
qed

lemma tx_stream_step:
  assumes env: "tx_env E obs" and inv: "tx_stream obs W s"
    and run: "run_call E c (s\<lparr>onWorker := by_worker c\<rparr>) = (r, s')" and "r \<noteq> Inl Undefined"
  shows "tx_stream obs (W @ call_writes c r) s'"
proof -
  let ?s = "s\<lparr>onWorker := by_worker c\<rparr>"
  have inv': "tx_stream obs W ?s" by (rule tx_stream_same [OF inv]) simp_all
  have same: "preserves (tx_same ?s) (run_call E c) \<Longrightarrow> call_writes c r = [] \<Longrightarrow> ?thesis"
    using tx_same_stream [OF inv'] preservesD2 [where I = "tx_same ?s" and s = ?s and m = "run_call E c"] run
    by (simp add: tx_same_def)
  show ?thesis
  proof (cases c)
    case (CallSend d fin)
    then show ?thesis using tx_send [OF inv'] run by (simp add: call_writes_def)
  next
    case WorkerNext
    then obtain l where "processNext E ?s = (Inr l, s')"
      using run assms(4) next_throws by (auto simp: act_simps split: prod.splits sum.splits)
    then show ?thesis using tx_next [OF env inv'] WorkerNext by (simp add: call_writes_def)
  next
    case (WorkerFail m)
    then obtain u where fail: "failFromRuntime E m ?s = (Inr u, s')"
      using run fail_runtime_nothrow [of ?s E m] by auto
    have "applicationWriteOffset s' = applicationWriteOffset ?s"
      using preservesD2 [OF written_fail _ fail, of "(applicationWriteOffset ?s, applicationFinRequested ?s, role_of ?s)"]
      by (simp add: written_is_def)
    then show ?thesis
      using tx_run_fail [OF env inv'] fail WorkerFail by (simp add: call_writes_def)
  qed (rule same; auto simp: call_writes_def intro!: preserves_intros tx_same_calls)+
qed

lemma tx_stream_new: "obs w = [] \<Longrightarrow> tx_stream obs [] (connection_new r cert key a b ready ag w)"
  by (simp add: tx_stream_def connection_new_def proto_new_def tx_inv_def tx_rel_def tx_pin_def world_def)

lemma tx_trace:
  assumes "conn_trace E (connection_new r cert key a b ready ag w) W T s" and "tx_env E obs" and "obs w = []"
  shows "tx_stream obs W s"
  using assms(1)
proof (induction rule: conn_trace.induct)
  case trace_init
  then show ?case using assms(3) by (rule tx_stream_new)
next
  case (trace_step W T s c r s')
  then show ?case using tx_stream_step [OF assms(2)] by blast
qed

end
