(* ===== verification/Connection_Published.thy ===== *)
theory Connection_Published
  imports Connection_Tx
begin

text \<open>
  What the application reads about its writes is never ahead of the transport: the published
  offsets are at most the real ones and a published end of stream is real. With the transmit
  invariant this gives what the transmit side promises, the last section.
\<close>

section \<open>The published write state lags behind\<close>

definition pub_inv :: "'w conn \<Rightarrow> bool" where
  "pub_inv s \<longleftrightarrow> appAckedWriteOffset (app s) \<le> txAckedOffset (proto s) \<and>
     appSubmittedWriteOffset (app s) \<le> txSubmittedOffset (proto s) \<and>
     (appFinSubmitted (app s) \<longrightarrow> txFinSubmitted (proto s)) \<and>
     (appFinAcked (app s) \<longrightarrow> txFinAcked (proto s))"

lemma pub_cong: "pub_inv s \<Longrightarrow> proto s' = proto s \<Longrightarrow> app s' = app s \<Longrightarrow> pub_inv s'"
  by (simp add: pub_inv_def)

lemma pub_push: "preserves pub_inv (queueOperation oper)"
  by (auto simp: preserves_def queueOperation_def completeOperation_def scheduleIfIdle_def act_simps
      elim: pub_cong split: option.split)

lemma pub_internal: "preserves pub_inv (queueInternalOperation ty)"
  unfolding queueInternalOperation_def by (rule pub_push)

lemma pub_flush: "preserves pub_inv queueSendFlush" "preserves pub_inv queueStreamReceiveFlush"
  unfolding queueSendFlush_def queueStreamReceiveFlush_def assertWorkerOwner_def
  by (intro preserves_intros preserves_modify pub_internal; erule pub_cong; simp)+

lemma pub_received: "preserves pub_inv (receiveStreamDataCallback fin sid off data)"
  unfolding receiveStreamDataCallback_def appendReceivedStreamData_def markPeerFinished_def
    assertWorkerOwner_def modProto_def cb_fail_def cb_ok_def
  by (intro preserves_intros preserves_modify pub_flush) (simp_all add: pub_inv_def)

lemma pub_acked: "preserves pub_inv (acknowledgedStreamDataCallback sid off len)"
  unfolding preserves_def acknowledgedStreamDataCallback_def markAcknowledged_def publishWriteState_def
    bumpGeneration_def cb_fail_def cb_ok_def
  by (simp add: act_simps pub_inv_def)

lemma pub_published: "pub_inv s \<Longrightarrow> published (proto s) (app s) a \<Longrightarrow> pub_inv (s\<lparr>app := a\<rparr>)"
proof -
  have pick: "x \<in> {a, b, 0} \<Longrightarrow> a \<le> b \<Longrightarrow> x \<le> b" for x a b :: nat by auto
  assume inv: "pub_inv s" and new: "published (proto s) (app s) a"
  have old: "appAckedWriteOffset (app s) \<le> txAckedOffset (proto s)"
    "appSubmittedWriteOffset (app s) \<le> txSubmittedOffset (proto s)"
    using inv by (simp_all only: pub_inv_def)
  have "appAckedWriteOffset a \<in> {appAckedWriteOffset (app s), txAckedOffset (proto s), 0}"
    "appSubmittedWriteOffset a \<in> {appSubmittedWriteOffset (app s), txSubmittedOffset (proto s), 0}"
    using new by (simp_all only: published_def)
  from pick [OF this(1) old(1)] pick [OF this(2) old(2)] show ?thesis
    using inv new by (auto simp: pub_inv_def published_def simp del: insert_iff)
qed

lemma pub_core:
  "pub_inv s \<Longrightarrow> proto_core p = proto_core (proto s) \<Longrightarrow> (txFinAcked (proto s) \<Longrightarrow> txFinAcked p) \<Longrightarrow>
   pub_inv (s\<lparr>proto := p\<rparr>)"
  by (simp add: pub_inv_def proto_core_def)

interpretation pub_calls: conn_callbacks E "\<lambda>_. ()" "\<lambda>_ _. True" "\<lambda>_ _ _ _. True" pub_inv for E
  by unfold_locales
    (rule env_calls_trivial | erule preservesD [OF pub_received] | erule preservesD [OF pub_acked]
      | erule (1) pub_published | erule (1) pub_core; assumption | erule pub_cong; simp)+

lemma pub_write: "preserves pub_inv (writeOnePacket E n ts pad)"
proof -
  have call: "preserves pub_inv (\<lambda>s. run_ng (callbacks E) (t s) s)" for t :: "'a conn \<Rightarrow> ('a, 'r) ng"
    by (rule pub_calls.call_inv) (simp add: ng_tree_trivial ret_keeps_def)
  show ?thesis
    unfolding writeOnePacket_def chunk_accepted_def Let_def modProto_def
    by (intro preserves_intros preserves_call call preserves_modify) (auto simp: pub_inv_def)
qed

lemma pub_queueReceive: "preserves pub_inv (queueReceive d)"
  unfolding queueReceive_def
  by (intro preserves_intros preserves_modify preserves_zoom pub_internal; erule pub_cong; simp)

lemma pub_handlers: "preserves pub_inv processStreamReceive"
  "preserves pub_inv (processReleaseStreamReceiveCredit E)"
  unfolding processStreamReceive_def processReleaseStreamReceiveCredit_def assertWorkerOwner_def
    modApp_def bumpGeneration_def
  by (intro preserves_intros preserves_modify pub_flush;
    simp add: pub_inv_def preserves_def act_simps)+

interpretation pub: conn_handlers E "\<lambda>_. ()" "\<lambda>_ _. True" "\<lambda>_ _ _ _. True" pub_inv for E
  by unfold_locales
    (rule env_receives_trivial pub_write pub_flush pub_queueReceive pub_internal pub_handlers
      | simp add: pub_inv_def)+

lemma pub_processSend: "preserves pub_inv (processSend E oper)"
  unfolding processSend_def
  by (intro preserves_intros preserves_modify pub.chooseStream_inv pub_flush pub_calls.publish_inv)
    (simp_all add: preserves_def act_simps pub_inv_def add_chunk_def)

lemma pub_operation: "preserves pub_inv (processOperation E oper)"
  by (cases "op_type oper = APISend")
    (simp_all add: processOperation_def pub_processSend pub.processOperation_inv [unfolded processOperation_def])

lemma pub_frame: "preserves pub_inv (completeOperation oper m)" "preserves pub_inv (drainFailedOperations m)"
  "preserves pub_inv (modify (\<lambda>s. s\<lparr>operationQueue := q\<rparr>))" "preserves pub_inv (modify (\<lambda>s. s\<lparr>stopped := True\<rparr>))"
  unfolding completeOperation_def drainFailedOperations_def
  by (intro preserves_modify; erule pub_cong; simp split: option.split)+

lemma pub_next: "preserves pub_inv (processNext E)"
  unfolding processNext_def tryOperation_def failOperation_def
  by (intro preserves_intros pub_frame pub.releaseTransport_inv pub_calls.mark_inv pub_operation)

lemma pub_fail: "preserves pub_inv (failFromRuntime E m)"
  unfolding failFromRuntime_def assertWorkerOwner_def
  by (intro preserves_intros pub_frame pub.releaseTransport_inv pub_calls.mark_inv)

lemma pub_io: "pub_inv s \<Longrightarrow> pub_inv (s\<lparr>io := t\<rparr>)"
  by (erule pub_cong) simp_all

lemma pub_calls:
  "preserves pub_inv (start_request a g n)" "preserves pub_inv (start_finish c)"
  "preserves pub_inv close_request" "preserves pub_inv (close_finish c)"
  "preserves pub_inv takeReceivedStreamData" "preserves pub_inv (binding_onReceive d)"
  "preserves pub_inv beginWorkerProcessing" "preserves pub_inv (queueDataAsync d fin)"
  "preserves pub_inv finishWorkerProcessing" "preserves pub_inv queueTimerExpired"
  unfolding start_request_def close_request_def newCompletion_def queueDataAsync_def createSendOperation_def
    takeReceivedStreamData_def modApp_def binding_onReceive_def beginWorkerProcessing_def
    finishWorkerProcessing_def queueTimerExpired_def scheduleIfIdle_def assertWorkerOwner_def
  by (intro preserves_intros finish_inv preserves_modify preserves_withIo detach_inv pub_push pub_internal
      pub_queueReceive pub_io; simp add: pub_inv_def)+

lemma pub_step: "pub_inv s \<Longrightarrow> conn_step E s s' \<Longrightarrow> pub_inv s'"
proof (erule conn_stepE)
  fix c r
  assume inv: "pub_inv s" and run: "run_call E c (s\<lparr>onWorker := by_worker c\<rparr>) = (r, s')"
  have "preserves pub_inv (run_call E c)"
    by (cases c) (auto intro!: preserves_intros pub_calls pub_next pub_fail pub_calls.publish_inv)
  moreover have "pub_inv (s\<lparr>onWorker := by_worker c\<rparr>)" using inv by (rule pub_cong) simp_all
  ultimately show "pub_inv s'" using run by (rule preservesD2)
qed

lemma pub_new: "pub_inv (connection_new r cert key a b ready ag w)"
  by (simp add: pub_inv_def connection_new_def app_new_def)

lemma pub_reachable: "conn_reachable E (connection_new r cert key a b ready ag w) s \<Longrightarrow> pub_inv s"
  by (rule conn_reachable_inv) (auto intro: pub_step pub_new)

section \<open>What the transmit side promises\<close>

text \<open>The stream invariant in terms of what the application has written.\<close>

lemma chunks_concat:
  "chunks_from S sub o1 cs \<Longrightarrow> concat (map tc_data cs) = drop o1 S"
proof (induction S sub o1 cs rule: chunks_from.induct)
  case (2 S sub o1 c cs)
  let ?n = "length (tc_data c)"
  have "take ?n (drop o1 S) @ drop ?n (drop o1 S) = drop o1 S"
    by (rule append_take_drop_id)
  moreover have "tc_data c = take ?n (drop o1 S)" using "2.prems" by simp
  ultimately have "tc_data c @ drop (o1 + ?n) S = drop o1 S"
    by (simp add: add.commute)
  then show ?case using 2 by simp
qed simp

lemma tx_promise:
  assumes "conn_trace E (connection_new r cert key addr baddr ready agents w) W T s" and "tx_env E obs"
    and "obs w = []"
  obtains S where "tx_rel S (proto s)" and "obs (world s) = take (txSubmittedOffset (proto s)) S"
    and "applicationWriteOffset s = length W" and "prefix S W"
    and "\<not> stopped s \<Longrightarrow> W = S @ app_data (operationQueue s)"
  using tx_trace [OF assms] that by (auto simp: tx_stream_def tx_inv_def split: if_splits)

lemma tx_sent:
  assumes "tx_rel S p" and "b = take (txSubmittedOffset p) S" and "prefix S W"
  shows "b = take (txSubmittedOffset p) W \<and> txAckedOffset p \<le> txSubmittedOffset p \<and>
    txSubmittedOffset p \<le> length W"
  using assms by (auto simp: tx_rel_def prefix_def)

text \<open>In the demonstration environment the external state is the stream accepted so far.\<close>

lemma demo_write_tree:
  "ng_tree (\<lambda>w. w) tx_okcb (tx_okw d) (q_write_stream demo_env n f sid d t w) w"
  by (cases d) (simp_all add: demo_env_defs tx_okw_def)

lemma demo_tx_env: "tx_env demo_env (\<lambda>w. w)"
  unfolding tx_env_def env_respects_def keeps_def
  by (intro conjI allI, simp_all add: demo_write_tree, simp_all only: demo_env_defs quic_env.simps snd_conv)
    (simp_all add: ret_keeps_def demo_juice_def tx_okcb_def)

text \<open>C1. The stream reaches QUIC intact: in every run, whatever the interleaving of writes, worker steps,
  received datagrams, acknowledgements, blocked sends and retries, what ngtcp2 has accepted is
  exactly the first \<open>txSubmittedOffset\<close> bytes of what the application wrote: nothing lost,
  duplicated or reordered, also when the connection has failed or was closed half way.\<close>

theorem stream_transmitted_in_order:
  assumes "conn_trace E (connection_new r cert key addr baddr ready agents w) W T s" and "tx_env E obs"
    and "obs w = []"
  shows "obs (world s) = take (txSubmittedOffset (proto s)) W \<and> txSubmittedOffset (proto s) \<le> length W \<and>
    applicationWriteOffset s = length W"
  by (rule tx_promise [OF assms]) (use tx_sent in blast)

theorem stream_transmitted_in_order_witness:
  "\<exists>s. conn_trace demo_env demo_conn [1, 2, 3] [] s \<and> txSubmittedOffset (proto s) = 3 \<and>
     world s = take 3 [1, 2, 3] \<and> applicationWriteOffset s = 3"
proof -
  obtain s where s: "conn_trace demo_env demo_conn [1, 2, 3] [] s" "txSubmittedOffset (proto s) = 3"
    by (rule demo_trace [of False])
  show ?thesis
    using stream_transmitted_in_order [OF s(1) [unfolded demo_conn_def] demo_tx_env refl] s by auto
qed

text \<open>C11. What may have to be retransmitted stays in memory: while the connection runs, the chunks
  and the sends still queued hold every byte the application wrote that is not acknowledged.\<close>

theorem unacknowledged_data_retained:
  assumes "conn_trace E (connection_new r cert key addr baddr ready agents w) W T s" and "tx_env E obs"
    and "obs w = []" and "\<not> stopped s"
  shows "\<exists>o1 \<le> txAckedOffset (proto s).
    drop o1 W = concat (map tc_data (txChunks (proto s))) @ app_data (operationQueue s)"
proof -
  obtain S where S: "tx_rel S (proto s)" and W: "W = S @ app_data (operationQueue s)"
    using tx_promise [OF assms(1-3)] assms(4) by metis
  obtain o1 where o1: "o1 \<le> txAckedOffset (proto s)"
    and ch: "chunks_from S (txSubmittedOffset (proto s)) o1 (txChunks (proto s))"
    using S unfolding tx_rel_def by blast
  have "drop o1 W = concat (map tc_data (txChunks (proto s))) @ app_data (operationQueue s)"
    using W chunks_concat [OF ch] chunks_from_bound [OF ch] by simp
  then show ?thesis using o1 by blast
qed

theorem unacknowledged_data_retained_witness:
  "\<exists>s. conn_trace demo_env demo_conn [1, 2, 3] [] s \<and> operationQueue s = [] \<and>
     concat (map tc_data (txChunks (proto s))) = [1, 2, 3]"
proof -
  obtain s where s: "conn_trace demo_env demo_conn [1, 2, 3] [] s" "\<not> stopped s"
    "txAckedOffset (proto s) = 0" "operationQueue s = []"
    by (rule demo_trace [of False])
  show ?thesis
    using unacknowledged_data_retained [OF s(1) [unfolded demo_conn_def] demo_tx_env refl s(2)] s by auto
qed

text \<open>The end of the stream is announced last: once it counts as submitted, it was requested and every byte of the sends taken over before has been accepted by ngtcp2.\<close>

theorem fin_after_all_data:
  assumes "conn_trace E (connection_new r cert key addr baddr ready agents w) W T s" and "tx_env E obs"
    and "obs w = []" and "\<not> stopped s" and "txFinSubmitted (proto s)"
  shows "txFinRequested (proto s) \<and> obs (world s) @ app_data (operationQueue s) = W"
proof -
  obtain S where S: "tx_rel S (proto s)" and b: "obs (world s) = take (txSubmittedOffset (proto s)) S"
    and W: "W = S @ app_data (operationQueue s)"
    using tx_promise [OF assms(1-3)] assms(4) by metis
  then show ?thesis using assms(5) by (simp add: tx_rel_def)
qed

theorem fin_after_all_data_witness:
  "\<exists>s. conn_trace demo_env demo_conn [1, 2, 3] [] s \<and> txFinSubmitted (proto s) \<and>
     txFinRequested (proto s) \<and> world s = [1, 2, 3]"
proof -
  obtain s where s: "conn_trace demo_env demo_conn [1, 2, 3] [] s" "\<not> stopped s"
    "txFinSubmitted (proto s) = True" "operationQueue s = []"
    by (rule demo_trace [of True])
  show ?thesis
    using fin_after_all_data [OF s(1) [unfolded demo_conn_def] demo_tx_env refl s(2)] s by auto
qed

text \<open>C30. The application is never told too much: when \<open>isWriteAcknowledged\<close> holds, the peer has
  acknowledged every byte written so far, and the end of the stream if it was requested; when
  \<open>hasPendingWrite\<close> does not hold, QUIC has accepted every byte written so far.\<close>

theorem write_state_sound:
  assumes "conn_trace E (connection_new r cert key addr baddr ready agents w) W T s" and "tx_env E obs"
    and "obs w = []"
  shows "(isWriteAcknowledged s \<longrightarrow> txAckedOffset (proto s) = length W \<and> obs (world s) = W \<and>
      (applicationFinRequested s \<longrightarrow> txFinAcked (proto s))) \<and>
    (\<not> hasPendingWrite s \<longrightarrow> obs (world s) = W \<and> (applicationFinRequested s \<longrightarrow> txFinSubmitted (proto s)))"
proof -
  have sent: "obs (world s) = take (txSubmittedOffset (proto s)) W \<and>
      txAckedOffset (proto s) \<le> txSubmittedOffset (proto s) \<and> txSubmittedOffset (proto s) \<le> length W"
    and off: "applicationWriteOffset s = length W"
    by (rule tx_promise [OF assms], use tx_sent in blast)+
  have pub: "pub_inv s" by (rule pub_reachable [OF trace_reachable [OF assms(1)]])
  have "txAckedOffset (proto s) = length W \<and> obs (world s) = W \<and>
      (applicationFinRequested s \<longrightarrow> txFinAcked (proto s))" if "isWriteAcknowledged s"
    using that sent off pub by (simp add: isWriteAcknowledged_def pub_inv_def split: if_splits)
  moreover have "obs (world s) = W \<and> (applicationFinRequested s \<longrightarrow> txFinSubmitted (proto s))"
    if "\<not> hasPendingWrite s"
    using that sent off pub by (simp add: hasPendingWrite_def pub_inv_def)
  ultimately show ?thesis by blast
qed

theorem write_state_sound_witness:
  "\<exists>s. conn_trace demo_env demo_conn [1, 2, 3] [] s \<and> \<not> hasPendingWrite s \<and> world s = [1, 2, 3]"
proof -
  obtain s where s: "conn_trace demo_env demo_conn [1, 2, 3] [] s" "\<not> hasPendingWrite s"
    by (rule demo_trace [of True])
  show ?thesis
    using write_state_sound [OF s(1) [unfolded demo_conn_def] demo_tx_env refl] s by auto
qed

end
