(* ===== verification/Connection_Rx.thy ===== *)
theory Connection_Rx
  imports Demo_Run
begin

text \<open>
  The receive side of a connection: what the application takes is the peer's stream from its
  beginning, byte for byte, through the callback, the stream batch, the published batch and the
  application's reads; and the end of the stream is reported only when all of it is there.
\<close>

section \<open>The invariant\<close>

text \<open>What ngtcp2 is documented to do, with \<open>R\<close> the peer's streams by id: the stream data
  callback carries bytes of the stream at their offset, and the flag for the end only with the
  last of them. Nothing is assumed of the order of the callbacks.\<close>

definition rx_okcb :: "callback \<Rightarrow> (int \<Rightarrow> bytes) \<Rightarrow> bool" where
  "rx_okcb cb R = (case cb of
      CbReceiveStreamData fin sid off data \<Rightarrow> sid \<ge> 0 \<and> off + length data \<le> length (R sid) \<and>
        data = take (length data) (drop off (R sid)) \<and> (fin \<longrightarrow> off + length data = length (R sid))
    | _ \<Rightarrow> True)"

definition rx_okw :: "bytes option \<Rightarrow> ng_written \<times> int \<Rightarrow> (int \<Rightarrow> bytes) \<Rightarrow> (int \<Rightarrow> bytes) \<Rightarrow> bool" where
  "rx_okw d r R R' \<longleftrightarrow> R' = R"

definition rx_env :: "'w quic_env \<Rightarrow> ('w \<Rightarrow> int \<Rightarrow> bytes) \<Rightarrow> bool" where
  "rx_env E obs \<longleftrightarrow> env_respects E obs rx_okcb rx_okw \<and>
     (\<forall>sid n. keeps obs (q_extend_max_stream_offset E sid n)) \<and>
     (\<forall>n. keeps obs (\<lambda>w. ((), q_extend_max_offset E n w)))"

text \<open>\<open>T\<close> is what the application has taken.\<close>

definition rx_inv :: "('w \<Rightarrow> int \<Rightarrow> bytes) \<Rightarrow> (int \<Rightarrow> bytes) \<Rightarrow> bytes \<Rightarrow> 'w conn \<Rightarrow> bool" where
  "rx_inv obs R T s \<longleftrightarrow> obs (world s) = R \<and>
     T @ appReceiveBatch (app s) @ streamReceiveBatch s = take (rxOffset (proto s)) (R (rxStreamID (proto s))) \<and>
     rxOffset (proto s) \<le> length (R (rxStreamID (proto s))) \<and>
     (rxStreamID (proto s) = -1 \<longrightarrow> rxOffset (proto s) = 0 \<and> \<not> peerFinishedPending s) \<and>
     (peerFinishedPending s \<or> appPeerFinished (app s) \<longrightarrow>
        rxOffset (proto s) = length (R (rxStreamID (proto s)))) \<and>
     (appPeerFinished (app s) \<longrightarrow> streamReceiveBatch s = [] \<and> rxStreamID (proto s) \<noteq> -1)"

lemma rx_cong:
  assumes "rx_inv obs R T s" and "obs (world s') = obs (world s)" and "rxOffset (proto s') = rxOffset (proto s)"
    and "rxStreamID (proto s') = rxStreamID (proto s)" and "appReceiveBatch (app s') = appReceiveBatch (app s)"
    and "appPeerFinished (app s') = appPeerFinished (app s)" and "streamReceiveBatch s' = streamReceiveBatch s"
    and "peerFinishedPending s' = peerFinishedPending s"
  shows "rx_inv obs R T s'"
  using assms unfolding rx_inv_def by simp

lemma rx_push: "preserves (rx_inv obs R T) (queueOperation oper)"
  unfolding preserves_def
  by (auto simp: queueOperation_def completeOperation_def scheduleIfIdle_def act_simps
      split: option.split; erule rx_cong; simp)

lemma rx_internal: "preserves (rx_inv obs R T) (queueInternalOperation ty)"
  unfolding queueInternalOperation_def by (rule rx_push)

lemma rx_flush: "preserves (rx_inv obs R T) queueSendFlush"
  "preserves (rx_inv obs R T) queueStreamReceiveFlush"
  unfolding queueSendFlush_def queueStreamReceiveFlush_def assertWorkerOwner_def
  by (intro preserves_intros preserves_modify rx_internal; erule rx_cong; simp)+

text \<open>The flush a callback queues touches nothing the invariant reads.\<close>

definition rx_view :: "'w conn \<Rightarrow> 'w \<times> proto \<times> app_state \<times> bytes \<times> bool" where
  "rx_view s = (world s, proto s, app s, streamReceiveBatch s, peerFinishedPending s)"

lemma rx_view_flush: "rx_view (snd (queueStreamReceiveFlush s)) = rx_view s"
  by (auto simp: rx_view_def queue_defs act_simps)

lemma flush_on_worker: "onWorker s \<Longrightarrow> \<exists>s'. queueStreamReceiveFlush s = (Inr (), s') \<and> rx_view s' = rx_view s \<and> onWorker s'"
  using rx_view_flush [of s] by (auto simp: queue_defs act_simps)

lemma append_on_worker:
  assumes "onWorker s" and "data \<noteq> []"
  shows "\<exists>s'. appendReceivedStreamData (Span data) s = (Inr (), s') \<and> onWorker s' \<and>
    rx_view s' = (world s, proto s, app s, streamReceiveBatch s @ data, peerFinishedPending s)"
proof -
  let ?s = "s\<lparr>streamReceiveBatch := streamReceiveBatch s @ data\<rparr>"
  obtain s' where "queueStreamReceiveFlush ?s = (Inr (), s')" "rx_view s' = rx_view ?s" "onWorker s'"
    using flush_on_worker [of ?s] assms(1) by auto
  then show ?thesis
    using assms by (simp add: appendReceivedStreamData_def assertWorkerOwner_def act_simps rx_view_def bytes_append_def)
qed

lemma finished_on_worker:
  assumes "onWorker s"
  shows "\<exists>s'. markPeerFinished s = (Inr (), s') \<and>
    rx_view s' = (world s, proto s, app s, streamReceiveBatch s, True)"
proof -
  let ?s = "s\<lparr>peerFinishedPending := True\<rparr>"
  obtain s' where "queueStreamReceiveFlush ?s = (Inr (), s')" "rx_view s' = rx_view ?s" "onWorker s'"
    using flush_on_worker [of ?s] assms(1) by auto
  then show ?thesis
    using assms by (simp add: markPeerFinished_def assertWorkerOwner_def act_simps rx_view_def)
qed

lemma rx_view_inv: "rx_inv obs R T s \<Longrightarrow> rx_view s' = rx_view s \<Longrightarrow> rx_inv obs R T s'"
  by (erule rx_cong) (simp_all add: rx_view_def)

text \<open>The two parts of the stream data callback.\<close>

lemma rx_data_part:
  assumes inv: "rx_inv obs R T s" and ok: "rx_okcb (CbReceiveStreamData fin sid off data) R"
    and at: "rxStreamID (proto s) = sid" "off = rxOffset (proto s)"
    and run: "whenA (data \<noteq> []) (blockA
            [appendReceivedStreamData (Span data),
             modProto (\<lambda>p. p\<lparr>rxOffset := rxOffset p + length data\<rparr>)]) s = (r, s')"
  shows "rx_inv obs R T s' \<and> (r = Inr () \<longrightarrow> rxStreamID (proto s') = sid \<and>
    rxOffset (proto s') = off + length data \<and> onWorker s' = onWorker s)"
proof (cases "data = []")
  case True
  then show ?thesis using inv at run by (auto simp: act_simps)
next
  case data: False
  show ?thesis
  proof (cases "onWorker s")
    case False
    then show ?thesis
      using inv run data by (auto simp: act_simps appendReceivedStreamData_def assertWorkerOwner_def)
  next
    case True
    from append_on_worker [OF this data] obtain s1 where
      s1: "appendReceivedStreamData (Span data) s = (Inr (), s1)" "onWorker s1"
      and view: "rx_view s1 = (world s, proto s, app s, streamReceiveBatch s @ data, peerFinishedPending s)"
      by blast
    have s': "s' = s1\<lparr>proto := (proto s)\<lparr>rxOffset := rxOffset (proto s) + length data\<rparr>\<rparr>" "r = Inr ()"
      using run s1(1) data view by (auto simp: act_simps rx_view_def)
    have bound: "off + length data \<le> length (R sid)" and "data = take (length data) (drop off (R sid))"
      and sid: "sid \<noteq> -1"
      using ok by (auto simp: rx_okcb_def)
    then have "take (off + length data) (R sid) = take off (R sid) @ data"
      by (simp add: take_add)
    moreover have "off < length (R sid)" using bound data by (cases data) auto
    ultimately have "rx_inv obs R T s'"
      using inv at view bound sid unfolding rx_inv_def s'(1) by (auto simp: rx_view_def)
    then show ?thesis using s' s1(2) view at True by (auto simp: rx_view_def)
  qed
qed

lemma rx_fin_part:
  assumes inv: "rx_inv obs R T s" and "rxStreamID (proto s) \<noteq> -1"
    and "fin \<Longrightarrow> rxOffset (proto s) = length (R (rxStreamID (proto s)))"
  shows "rx_inv obs R T (snd (whenA fin (blockA
            [modProto (\<lambda>p. p\<lparr>peerFinished := True\<rparr>), markPeerFinished]) s))"
proof (cases "fin \<and> onWorker s")
  case True
  let ?s = "s\<lparr>proto := (proto s)\<lparr>peerFinished := True\<rparr>\<rparr>"
  obtain s' where s': "markPeerFinished ?s = (Inr (), s')"
    "rx_view s' = (world ?s, proto ?s, app ?s, streamReceiveBatch ?s, True)"
    using finished_on_worker [of ?s] True by auto
  then have "rx_inv obs R T s'"
    using inv assms(2,3) True unfolding rx_inv_def by (auto simp: rx_view_def)
  then show ?thesis using True s'(1) by (simp add: act_simps)
next
  case False
  have "rx_inv obs R T (s\<lparr>proto := (proto s)\<lparr>peerFinished := True\<rparr>\<rparr>)"
    using inv by (rule rx_cong) simp_all
  then show ?thesis using inv False by (auto simp: act_simps markPeerFinished_def assertWorkerOwner_def)
qed

lemma bind_block2: "bindA (blockA [m, n]) k s = (case m s of (Inl e, s') \<Rightarrow> (Inl e, s')
    | (Inr _, s') \<Rightarrow> (case n s' of (Inl e, s'') \<Rightarrow> (Inl e, s'') | (Inr _, s'') \<Rightarrow> k () s''))"
  by (simp add: act_simps split: prod.split sum.split)

lemma bind_modProto: "bindA (modProto f) k s = k () (s\<lparr>proto := f (proto s)\<rparr>)"
  by (simp add: act_simps)

lemma rx_received:
  assumes inv: "rx_inv obs R T s" and ok: "rx_okcb (CbReceiveStreamData fin sid off data) (obs (world s))"
  shows "rx_inv obs R T (snd (receiveStreamDataCallback fin sid off data s))"
proof -
  have R: "obs (world s) = R" using inv by (simp add: rx_inv_def)
  have sid: "sid \<noteq> -1" using ok by (auto simp: rx_okcb_def)
  let ?s = "s\<lparr>proto := if rxStreamID (proto s) = -1 then (proto s)\<lparr>rxStreamID := sid\<rparr> else proto s\<rparr>"
  have inv1: "rx_inv obs R T ?s" using inv sid by (auto simp: rx_inv_def)
  let ?data = "whenA (data \<noteq> []) (blockA
            [appendReceivedStreamData (Span data),
             modProto (\<lambda>p. p\<lparr>rxOffset := rxOffset p + length data\<rparr>)])"
  let ?fin = "whenA fin (blockA [modProto (\<lambda>p. p\<lparr>peerFinished := True\<rparr>), markPeerFinished])"
  show ?thesis
  proof (cases "rxStreamID (proto ?s) \<noteq> sid \<or> off \<noteq> rxOffset (proto ?s)")
    case True
    then show ?thesis
      using inv1 by (simp add: receiveStreamDataCallback_def act_simps cb_fail_def del: blockA.simps)
  next
    case False
    obtain r s1 where one: "?data ?s = (r, s1)" by fastforce
    have part: "rx_inv obs R T s1 \<and> (r = Inr () \<longrightarrow> rxStreamID (proto s1) = sid \<and>
        rxOffset (proto s1) = off + length data \<and> onWorker s1 = onWorker ?s)"
      by (rule rx_data_part [OF inv1 ok [unfolded R] _ _ one]) (use False in auto)
    have run: "receiveStreamDataCallback fin sid off data s =
        (case ?data ?s of (Inl e, s') \<Rightarrow> (Inl e, s') | (Inr _, s') \<Rightarrow>
          (case ?fin s' of (Inl e, s') \<Rightarrow> (Inl e, s') | (Inr _, s') \<Rightarrow> cb_ok s'))"
      unfolding receiveStreamDataCallback_def bind_modProto bind_gets if_not_P [OF False]
      by (rule bind_block2)
    show ?thesis
    proof (cases r)
      case (Inl e)
      then show ?thesis using run one part by simp
    next
      case (Inr u)
      have "fin \<Longrightarrow> rxOffset (proto s1) = length (R sid)"
        using part Inr ok R by (auto simp: rx_okcb_def)
      then have "rx_inv obs R T (snd (?fin s1))"
        using rx_fin_part [of obs R T s1 fin] part Inr sid by simp
      then show ?thesis
        using run one Inr by (auto simp: cb_ok_def act_simps split: prod.split sum.split)
    qed
  qed
qed

section \<open>The invariant along the handlers\<close>

lemma rx_acked: "preserves (rx_inv obs R T) (acknowledgedStreamDataCallback sid off len)"
  unfolding acknowledgedStreamDataCallback_def markAcknowledged_def publishWriteState_def
    bumpGeneration_def cb_fail_def cb_ok_def modProto_def
  by (intro preserves_intros preserves_modify; erule rx_cong; simp)

lemma rx_plain:
  assumes "rx_env E obs"
  shows "conn_plain E obs rx_okcb rx_okw (rx_inv obs R T)"
proof (intro conn_plain.intro conn_plain_axioms.intro conn_callbacks.intro)
  show "env_calls E obs rx_okcb rx_okw" using assms by (simp add: rx_env_def env_respects_parts)
  fix sid off len and s :: "'a conn"
  assume "rx_inv obs R T s"
  then show "rx_inv obs R T (snd (acknowledgedStreamDataCallback sid off len s))"
    by (rule preservesD [OF rx_acked])
qed (auto simp: rx_okw_def published_def proto_core_def intro: rx_received elim: rx_cong)

lemma rx_queueReceive: "preserves (rx_inv obs R T) (queueReceive d)"
  unfolding queueReceive_def
  by (intro preserves_intros preserves_modify preserves_zoom rx_internal; erule rx_cong; simp)

lemma rx_deliver: "preserves (rx_inv obs R T) processStreamReceive"
proof -
  have "rx_inv obs R T (snd (processStreamReceive s))" if "rx_inv obs R T s" for s
    using that unfolding rx_inv_def processStreamReceive_def assertWorkerOwner_def bumpGeneration_def
    by (auto simp: act_simps)
  then show ?thesis by (simp add: preserves_def)
qed

lemma rx_worker:
  assumes "rx_env E obs"
  shows "conn_worker E obs rx_okcb rx_okw (rx_inv obs R T)"
proof (intro conn_worker.intro conn_worker_axioms.intro conn_sender.intro conn_sender_axioms.intro
    conn_writer.intro conn_writer_axioms.intro rx_flush)
  show "conn_callbacks E obs rx_okcb rx_okw (rx_inv obs R T)"
    by (rule conn_plain.axioms(1) [OF rx_plain [OF assms]])
  show "preserves (rx_inv obs R T) (writeOnePacket E n ts pad)" for n ts pad
    by (rule conn_plain.plain_write [OF rx_plain [OF assms]])
qed (erule rx_cong; simp)+

lemma rx_feeder:
  assumes "rx_env E obs"
  shows "conn_feeder E obs rx_okcb rx_okw (rx_inv obs R T)"
  by (intro conn_feeder.intro conn_feeder_axioms.intro rx_worker rx_queueReceive assms
    env_respects_parts(2) [OF conjunct1 [OF assms [unfolded rx_env_def]]])

lemma rx_handlers:
  assumes "rx_env E obs"
  shows "conn_handlers E obs rx_okcb rx_okw (rx_inv obs R T)"
proof -
  have more: "\<And>sid n. keeps obs (q_extend_max_stream_offset E sid n)"
      "\<And>n. keeps obs (\<lambda>w. ((), q_extend_max_offset E n w))"
    using assms by (simp_all add: rx_env_def)
  note ext = conn_callbacks.extern_inv [OF conn_plain.axioms(1) [OF rx_plain [OF assms, of R T]]]
  have credit: "preserves (rx_inv obs R T) (processReleaseStreamReceiveCredit E)"
    unfolding processReleaseStreamReceiveCredit_def assertWorkerOwner_def
    by (intro preserves_intros preserves_modify rx_flush ext more; erule rx_cong; simp)
  show ?thesis
    by (intro conn_handlers.intro conn_handlers_axioms.intro conn_others.intro conn_others_axioms.intro
        rx_worker rx_feeder assms rx_internal rx_deliver credit;
      erule rx_cong; simp)
qed

lemma rx_operation:
  assumes "rx_env E obs"
  shows "preserves (rx_inv obs R T) (processOperation E oper)"
proof (cases "op_type oper = APISend")
  case True
  have proto: "preserves (rx_inv obs R T) (modProto f)"
    if "\<And>p. rxOffset (f p) = rxOffset p" "\<And>p. rxStreamID (f p) = rxStreamID p" for f
    unfolding modProto_def by (intro preserves_modify; erule rx_cong; simp add: that)
  have "preserves (rx_inv obs R T) (processSend E oper)"
    unfolding processSend_def
    by (intro preserves_intros rx_flush proto conn_worker.chooseStream_inv [OF rx_worker [OF assms]]
        conn_callbacks.publish_inv [OF conn_plain.axioms(1) [OF rx_plain [OF assms]]])
      (simp_all add: add_chunk_def)
  then show ?thesis using True by (simp add: processOperation_def)
next
  case False
  then show ?thesis by (rule conn_handlers.processOperation_inv [OF rx_handlers [OF assms]])
qed

section \<open>The invariant along a run\<close>

lemma rx_next:
  assumes "rx_env E obs"
  shows "preserves (rx_inv obs R T) (processNext E)" and "preserves (rx_inv obs R T) (failFromRuntime E m)"
proof -
  note cb = conn_plain.axioms(1) [OF rx_plain [OF assms, of R T]]
  have frame: "preserves (rx_inv obs R T) (completeOperation oper m)"
    "preserves (rx_inv obs R T) (drainFailedOperations m)"
    "preserves (rx_inv obs R T) (modify (\<lambda>s. s\<lparr>operationQueue := q\<rparr>))"
    "preserves (rx_inv obs R T) (modify (\<lambda>s. s\<lparr>stopped := True\<rparr>))" for oper m q
    unfolding completeOperation_def drainFailedOperations_def
    by (intro preserves_modify; erule rx_cong; simp split: option.split)+
  show "preserves (rx_inv obs R T) (processNext E)" "preserves (rx_inv obs R T) (failFromRuntime E m)"
    unfolding processNext_def tryOperation_def failOperation_def failFromRuntime_def assertWorkerOwner_def
    by (intro preserves_intros frame rx_operation conn_others.releaseTransport_inv [OF conn_handlers.axioms(1) [OF rx_handlers]]
        conn_callbacks.mark_inv [OF cb] assms)+
qed

lemma rx_calls:
  "preserves (rx_inv obs R T) (start_request a g n)" "preserves (rx_inv obs R T) (start_finish c)"
  "preserves (rx_inv obs R T) close_request" "preserves (rx_inv obs R T) (close_finish c)"
  "preserves (rx_inv obs R T) (binding_onReceive d)" "preserves (rx_inv obs R T) (queueDataAsync d fin)"
  "preserves (rx_inv obs R T) beginWorkerProcessing" "preserves (rx_inv obs R T) publishApplicationState"
  "preserves (rx_inv obs R T) finishWorkerProcessing" "preserves (rx_inv obs R T) queueTimerExpired"
proof -
  have io: "preserves (rx_inv obs R T) (withIo (binding_attach self h c))"
    "preserves (rx_inv obs R T) (withIo (modify (binding_limitDatagramSize n)))"
    "preserves (rx_inv obs R T) detachBinding" for self h c n
    by (auto simp: preserves_def act_simps binding_attach_def binding_limitDatagramSize_def
        binding_detach_def detachBinding_def split: prod.split; erule rx_cong; simp add: world_def)+
  show "preserves (rx_inv obs R T) (start_request a g n)" "preserves (rx_inv obs R T) (start_finish c)"
    "preserves (rx_inv obs R T) close_request" "preserves (rx_inv obs R T) (close_finish c)"
    "preserves (rx_inv obs R T) (binding_onReceive d)" "preserves (rx_inv obs R T) (queueDataAsync d fin)"
    "preserves (rx_inv obs R T) beginWorkerProcessing" "preserves (rx_inv obs R T) publishApplicationState"
    "preserves (rx_inv obs R T) finishWorkerProcessing" "preserves (rx_inv obs R T) queueTimerExpired"
    unfolding start_request_def start_finish_def close_request_def close_finish_def newCompletion_def
      binding_onReceive_def queueDataAsync_def createSendOperation_def beginWorkerProcessing_def
      publishApplicationState_def finishWorkerProcessing_def queueTimerExpired_def scheduleIfIdle_def
      assertWorkerOwner_def
    by (intro preserves_intros preserves_wait preserves_modify rx_push rx_internal rx_queueReceive io;
      erule rx_cong; simp add: world_def Let_def bumpGeneration_def)+
qed

lemma bind_modApp: "bindA (modApp f) k s = k () (s\<lparr>app := f (app s)\<rparr>)"
  by (simp add: act_simps)

lemma snd_bind_ret: "I (snd (m s)) \<Longrightarrow> I (snd (bindA m (\<lambda>_. ret x) s))"
  by (auto simp: act_simps split: prod.split sum.split)

text \<open>A read moves bytes from the published batch to the application.\<close>

lemma rx_take:
  assumes "rx_inv obs R T s"
  shows "rx_inv obs R (T @ call_takes CallTake s) (snd (takeReceivedStreamData s))"
proof -
  let ?b = "appReceiveBatch (app s)"
  have batch: "call_takes CallTake s = ?b"
    by (auto simp: call_takes_def takeReceivedStreamData_def queue_defs act_simps)
  have "rx_inv obs R (T @ ?b) (s\<lparr>app := (app s)\<lparr>appReceiveBatch := []\<rparr>\<rparr>)"
    using assms by (simp add: rx_inv_def)
  moreover have "preserves (rx_inv obs R (T @ ?b)) (whenA (?b \<noteq> []) (blockA
       [modify (\<lambda>s. s\<lparr>releasableStreamReceiveBytes := releasableStreamReceiveBytes s + length ?b\<rparr>),
        whenA (bytesBefore = 0) (queueInternalOperation ReleaseStreamRecvCredit)]))" for bytesBefore
    by (intro preserves_intros preserves_modify rx_internal; erule rx_cong; simp)
  ultimately have "rx_inv obs R (T @ ?b) (snd (whenA (?b \<noteq> []) (blockA
       [modify (\<lambda>s. s\<lparr>releasableStreamReceiveBytes := releasableStreamReceiveBytes s + length ?b\<rparr>),
        whenA (bytesBefore = 0) (queueInternalOperation ReleaseStreamRecvCredit)])
      (s\<lparr>app := (app s)\<lparr>appReceiveBatch := []\<rparr>\<rparr>)))" for bytesBefore
    by (rule preservesD [rotated])
  then show ?thesis
    unfolding takeReceivedStreamData_def batch bind_gets bind_modApp by (rule snd_bind_ret)
qed

lemma rx_step:
  assumes env: "rx_env E obs" and inv: "rx_inv obs R T s"
    and run: "run_call E c (s\<lparr>onWorker := by_worker c\<rparr>) = (r, s')"
  shows "rx_inv obs R (T @ call_takes c (s\<lparr>onWorker := by_worker c\<rparr>)) s'"
proof (cases "c = CallTake")
  case True
  let ?s = "s\<lparr>onWorker := by_worker c\<rparr>"
  have "rx_inv obs R T ?s" by (rule rx_cong [OF inv]) simp_all
  moreover have "s' = snd (takeReceivedStreamData ?s)"
    using run True by (auto simp: act_simps split: prod.splits sum.splits)
  ultimately show ?thesis using rx_take True by simp
next
  case False
  have "preserves (rx_inv obs R T) (run_call E c)"
    using False by (cases c) (auto intro!: preserves_intros rx_calls rx_next [OF env])
  moreover have "rx_inv obs R T (s\<lparr>onWorker := by_worker c\<rparr>)" by (rule rx_cong [OF inv]) simp_all
  moreover have "call_takes c (s\<lparr>onWorker := by_worker c\<rparr>) = []"
    using False by (cases c) (simp_all add: call_takes_def)
  ultimately show ?thesis using run preservesD2 by fastforce
qed

lemma rx_trace:
  assumes "conn_trace E (connection_new r cert key addr baddr ready agents w) W T s" and "rx_env E obs"
  shows "rx_inv obs (obs w) T s"
  using assms(1)
proof (induction rule: conn_trace.induct)
  case trace_init
  then show ?case by (simp add: rx_inv_def connection_new_def proto_new_def app_new_def world_def)
next
  case (trace_step W T s c r s')
  then show ?case using rx_step [OF assms(2)] by blast
qed

section \<open>What the receive side promises\<close>

text \<open>C2. The stream reaches the application intact: in every run, what the application has taken,
  followed by what is published and what waits for the next flush, is exactly the beginning of
  the peer's stream up to the receive offset, whatever order ngtcp2 calls back in; and once the
  application is told that the peer has finished, nothing of the stream is missing.\<close>

theorem stream_delivered_in_order:
  assumes "conn_trace E (connection_new r cert key addr baddr ready agents w) W T s" and "rx_env E obs"
  shows "let stream = obs w (rxStreamID (proto s)) in
    T @ appReceiveBatch (app s) @ streamReceiveBatch s = take (rxOffset (proto s)) stream \<and>
    rxOffset (proto s) \<le> length stream \<and>
    (isPeerFinished s \<longrightarrow> T @ appReceiveBatch (app s) = stream)"
  using rx_trace [OF assms] by (auto simp: rx_inv_def isPeerFinished_def Let_def)

text \<open>In the demonstration environment the peer's stream 0 is the three bytes 1, 2 and 3.\<close>

lemma demo_rx_env: "rx_env demo_env (\<lambda>_ sid. if sid = 0 then [1, 2, 3] else [])"
  unfolding rx_env_def env_respects_def keeps_def
proof (intro conjI allI, goal_cases)
  case (18 n f sid d t w)
  then show ?case by (cases d) (simp_all add: demo_env_defs rx_okw_def)
qed (simp_all only: demo_env_defs quic_env.simps,
    simp_all add: ret_keeps_def rx_okw_def rx_okcb_def demo_juice_def)

theorem stream_delivered_in_order_witness:
  "\<exists>s. conn_trace demo_env demo_conn [] [1, 2, 3] s \<and> isPeerFinished s \<and> rxOffset (proto s) = 3 \<and>
     [1, 2, 3] @ appReceiveBatch (app s) = [1, 2, 3]"
proof -
  obtain s where run: "run_calls demo_env demo_reads ([], [], demo_conn) = Some ([], [1, 2, 3], s)"
    and s: "isPeerFinished s" "rxStreamID (proto s) = 0" "rxOffset (proto s) = 3"
    using demo_reads_run by blast
  have trace: "conn_trace demo_env demo_conn [] [1, 2, 3] s"
    by (rule run_calls_trace [OF trace_init run])
  show ?thesis
    using stream_delivered_in_order [OF trace [unfolded demo_conn_def] demo_rx_env] trace s
    by (auto simp: Let_def)
qed

end
