(* ===== verification/Platform.thy ===== *)
theory Platform
  imports Timer_Wheel
begin

text \<open>
  Model of \<open>native/platform/Platform.{h,cpp}\<close>: the event the worker sleeps on, the thread
  object, environment variables, and of \<open>native/core/RuntimeConfiguration.{h,cpp}\<close>, which
  reads them. The clock, \<open>getenv\<close> and the results of the pthread calls are arguments. The
  POSIX branch is modelled.
\<close>

section \<open>Event\<close>

definition event_set :: "bool \<Rightarrow> bool" where "event_set signaled = True"

definition event_reset :: "bool \<Rightarrow> bool" where "event_reset signaled = False"

text \<open>What a wait returns and the flag it leaves, \<open>None\<close> while it is still blocked.
  \<open>arrives\<close> says whether \<open>set\<close> is called while the thread waits on the condition.\<close>

definition event_wait :: "bool \<Rightarrow> bool \<Rightarrow> (unit \<times> bool) option" where
  "event_wait arrives signaled = (if signaled \<or> arrives then Some ((), False) else None)"

definition event_waitUntil :: "timestamp \<Rightarrow> timestamp \<Rightarrow> bool \<Rightarrow> bool \<Rightarrow> (bool \<times> bool) option" where
  "event_waitUntil deadline current arrives signaled =
     (if signaled then Some (True, False)
      else if deadline = InfiniteTimestamp then (if arrives then Some (True, False) else None)
      else if deadline \<le> current then Some (False, signaled)
      else if arrives then Some (True, False) else Some (False, signaled))"

text \<open>A wait on the event consumes a signal that was set before it without blocking, returns
  at its deadline at the latest unless the deadline is infinite, and reports \<open>false\<close> only when
  no signal was there to lose.\<close>

theorem waitUntil_loses_no_signal:
  "event_waitUntil d t arrives (event_set b) = Some (True, False) \<and>
   (event_waitUntil d t arrives b = None \<longleftrightarrow> \<not> b \<and> \<not> arrives \<and> d = InfiniteTimestamp) \<and>
   (event_waitUntil d t arrives b = Some (False, b') \<longrightarrow> \<not> b \<and> \<not> b' \<and> (arrives \<longrightarrow> d \<le> t)) \<and>
   (event_waitUntil d t arrives b = Some (True, b') \<longrightarrow> \<not> b' \<and> (b \<or> arrives))"
  by (auto simp: event_waitUntil_def event_set_def)

theorem waitUntil_loses_no_signal_witness:
  "event_waitUntil 5 9 False True = Some (True, False) \<and> event_waitUntil 5 9 True False = Some (False, False)"
  using waitUntil_loses_no_signal [of 5 9 False True] waitUntil_loses_no_signal [of 5 9 True False]
  by (simp add: event_waitUntil_def InfiniteTimestamp_def event_set_def)

section \<open>Thread\<close>

record thread_impl =
  th_joinable :: bool
  th_stackSize :: nat

definition thread_new :: thread_impl where
  "thread_new = \<lparr>th_joinable = False, th_stackSize = 0\<rparr>"

text \<open>Decimal digits of a number, as \<open>std::to_string\<close> prints them.\<close>

definition digit_char :: "nat \<Rightarrow> char" where
  "digit_char d = char_of (48 + d)"

fun show_nat :: "nat \<Rightarrow> string" where
  "show_nat n = (if n < 10 then [digit_char n] else show_nat (n div 10) @ [digit_char (n mod 10)])"

declare show_nat.simps [simp del]

definition show_int :: "int \<Rightarrow> string" where
  "show_int i = (if i < 0 then ''-'' @ show_nat (nat (- i)) else show_nat (nat i))"

text \<open>The results of the pthread calls, in the order of the calls.\<close>

record pthread_results =
  pr_attr_init :: int
  pr_setstacksize :: int
  pr_create :: int
  pr_join :: int

definition thread_isJoinable :: "thread_impl \<Rightarrow> bool" where
  "thread_isJoinable t = th_joinable t"

definition thread_start :: "pthread_results \<Rightarrow> bool \<Rightarrow> nat \<Rightarrow> (thread_impl, unit) act" where
  "thread_start pr callable stack =
     (if \<not> callable then throw (InvalidArgument ''thread function must be callable'')
      else bindA (gets thread_isJoinable) (\<lambda>running.
        if running then throw (RuntimeError ''thread is already running'')
        else if pr_attr_init pr \<noteq> 0
        then throw (RuntimeError (''pthread_attr_init failed: '' @ show_int (pr_attr_init pr)))
        else if stack \<noteq> 0 \<and> pr_setstacksize pr \<noteq> 0
        then throw (RuntimeError (''pthread_attr_setstacksize failed: '' @ show_int (pr_setstacksize pr)))
        else if pr_create pr \<noteq> 0
        then throw (RuntimeError (''pthread_create failed: '' @ show_int (pr_create pr)))
        else modify (\<lambda>t. t\<lparr>th_joinable := True, th_stackSize := stack\<rparr>)))"

definition thread_join :: "pthread_results \<Rightarrow> (thread_impl, unit) act" where
  "thread_join pr = bindA (gets thread_isJoinable) (\<lambda>running.
     if \<not> running then ret ()
     else if pr_join pr \<noteq> 0 then throw (RuntimeError (''pthread_join failed: '' @ show_int (pr_join pr)))
     else modify (\<lambda>t. t\<lparr>th_joinable := False\<rparr>))"

text \<open>The destructor: \<open>True\<close> when the object could be destroyed, \<open>False\<close> for
  \<open>std::terminate\<close>.\<close>

definition thread_destroy :: "pthread_results \<Rightarrow> thread_impl \<Rightarrow> bool" where
  "thread_destroy pr t = (if \<not> thread_isJoinable t then True
     else (case fst (thread_join pr t) of Inl _ \<Rightarrow> False | Inr _ \<Rightarrow> True))"

section \<open>Environment\<close>

definition getEnvironmentVariable :: "(string \<Rightarrow> string option) \<Rightarrow> string option \<Rightarrow> string option" where
  "getEnvironmentVariable getenv name =
     (case name of
        None \<Rightarrow> None
      | Some n \<Rightarrow>
          if n = [] then None
          else (case getenv n of None \<Rightarrow> None | Some v \<Rightarrow> if v = [] then None else Some v))"

definition kDefaultWorkerCount :: u16 where "kDefaultWorkerCount = 2"
definition kMaximumWorkerCount :: nat where "kMaximumWorkerCount = 16"

definition isEnvironmentEnabled :: "(string \<Rightarrow> string option) \<Rightarrow> string \<Rightarrow> bool" where
  "isEnvironmentEnabled getenv name =
     (case getEnvironmentVariable getenv (Some name) of
        None \<Rightarrow> False
      | Some v \<Rightarrow> v = ''1'' \<or> v = ''true'' \<or> v = ''yes'' \<or> v = ''on'')"

definition is_digit :: "char \<Rightarrow> bool" where
  "is_digit c \<longleftrightarrow> 48 \<le> (of_char c :: nat) \<and> (of_char c :: nat) \<le> 57"

definition digits_value :: "string \<Rightarrow> nat" where
  "digits_value ds = foldl (\<lambda>n c. 10 * n + (of_char c - 48)) 0 ds"

text \<open>\<open>std::from_chars\<close> for \<open>unsigned int\<close>: whether there was no error, the value (left at
  0 on an error) and the characters not consumed.\<close>

definition from_chars :: "string \<Rightarrow> bool \<times> nat \<times> string" where
  "from_chars s =
     (let ds = takeWhile is_digit s; rest = dropWhile is_digit s in
      if ds = [] then (False, 0, s)
      else if digits_value ds < 2 ^ 32 then (True, digits_value ds, rest)
      else (False, 0, rest))"

definition parseWorkerCount :: "string \<Rightarrow> exn + u16" where
  "parseWorkerCount v =
     (case from_chars v of (ok, parsed, rest) \<Rightarrow>
        if (\<not> ok \<or> rest \<noteq> []) \<or> (parsed = 0 \<or> parsed > kMaximumWorkerCount)
        then Inl (InvalidArgument ''FFL_P2P_QUIC_WORKERS must be an integer between 1 and 16'')
        else Inr (of_nat parsed))"

definition workerCount :: "(string \<Rightarrow> string option) \<Rightarrow> exn + u16" where
  "workerCount getenv =
     (case getEnvironmentVariable getenv (Some ''FFL_P2P_QUIC_WORKERS'') of
        None \<Rightarrow> Inr kDefaultWorkerCount
      | Some v \<Rightarrow> parseWorkerCount v)"

definition isSendSegmentationDisabled :: "(string \<Rightarrow> string option) \<Rightarrow> bool" where
  "isSendSegmentationDisabled getenv = isEnvironmentEnabled getenv ''FFL_P2P_QUIC_DISABLE_GSO''"

definition isReceiveBatchingDisabled :: "(string \<Rightarrow> string option) \<Rightarrow> bool" where
  "isReceiveBatchingDisabled getenv = isEnvironmentEnabled getenv ''FFL_P2P_QUIC_DISABLE_RECV_BATCH''"

definition isReceiveCoalescingDisabled :: "(string \<Rightarrow> string option) \<Rightarrow> bool" where
  "isReceiveCoalescingDisabled getenv = isEnvironmentEnabled getenv ''FFL_P2P_QUIC_DISABLE_RECV_COALESCING''"

subsection \<open>Numbers that are printed parse back\<close>

lemma is_digit_char: "d < 10 \<Longrightarrow> is_digit (digit_char d)"
  by (simp add: is_digit_def digit_char_def of_char_of)

lemma digit_char_value: "d < 10 \<Longrightarrow> of_char (digit_char d) - (48::nat) = d"
  by (simp add: digit_char_def of_char_of)

lemma digits_value_snoc: "digits_value (ds @ [c]) = 10 * digits_value ds + (of_char c - 48)"
  by (simp add: digits_value_def)

lemma show_nat_parses: "digits_value (show_nat n) = n \<and> (\<forall>c \<in> set (show_nat n). is_digit c) \<and> show_nat n \<noteq> []"
proof (induction n rule: show_nat.induct)
  case (1 n)
  show ?case
  proof (cases "n < 10")
    case True
    then show ?thesis
      by (simp add: show_nat.simps [of n] is_digit_char digit_char_value digits_value_def)
  next
    case False
    then show ?thesis
      using 1 by (auto simp: show_nat.simps [of n] digits_value_snoc is_digit_char digit_char_value)
  qed
qed

lemma from_chars_all:
  "(\<forall>c \<in> set v. is_digit c) \<Longrightarrow> from_chars v =
     (if v = [] then (False, 0, []) else if digits_value v < 2 ^ 32 then (True, digits_value v, []) else (False, 0, []))"
  by (auto simp: from_chars_def Let_def takeWhile_eq_all_conv [THEN iffD2] dropWhile_eq_Nil_conv [THEN iffD2])

lemma from_chars_complete: "from_chars v = (True, n, []) \<Longrightarrow> (\<forall>c \<in> set v. is_digit c) \<and> v \<noteq> [] \<and> digits_value v = n"
  by (auto simp: from_chars_def Let_def dropWhile_eq_Nil_conv split: if_splits)
    (metis takeWhile_eq_all_conv)+

text \<open>\<open>FFL_P2P_QUIC_WORKERS\<close> is read as documented: a value is accepted exactly when it is
  a non-empty string of decimal digits (leading zeros allowed, no sign, no blank) that denotes a
  number from 1 to 16, and that number is the worker count; every number from 1 to 16 has such a
  value, every other value is the error, whatever its length, and an absent or empty variable means 2.\<close>

theorem worker_count_parsed:
  "(parseWorkerCount v = Inr n \<longleftrightarrow> v \<noteq> [] \<and> (\<forall>c \<in> set v. is_digit c) \<and>
      1 \<le> digits_value v \<and> digits_value v \<le> 16 \<and> n = of_nat (digits_value v)) \<and>
   (1 \<le> k \<and> k \<le> 16 \<longrightarrow> parseWorkerCount (show_nat k) = Inr (of_nat k)) \<and>
   (\<forall>e. parseWorkerCount v = Inl e \<longrightarrow>
      e = InvalidArgument ''FFL_P2P_QUIC_WORKERS must be an integer between 1 and 16'') \<and>
   (getenv ''FFL_P2P_QUIC_WORKERS'' \<in> {None, Some ''''} \<longrightarrow> workerCount getenv = Inr 2)"
proof (intro conjI impI allI)
  show "parseWorkerCount v = Inr n \<longleftrightarrow> v \<noteq> [] \<and> (\<forall>c \<in> set v. is_digit c) \<and>
      1 \<le> digits_value v \<and> digits_value v \<le> 16 \<and> n = of_nat (digits_value v)"
  proof
    assume "parseWorkerCount v = Inr n"
    then obtain p where "from_chars v = (True, p, [])" and "p \<noteq> 0" "p \<le> 16" "n = of_nat p"
      by (auto simp: parseWorkerCount_def kMaximumWorkerCount_def split: prod.splits if_splits)
    then show "v \<noteq> [] \<and> (\<forall>c \<in> set v. is_digit c) \<and>
      1 \<le> digits_value v \<and> digits_value v \<le> 16 \<and> n = of_nat (digits_value v)"
      using from_chars_complete by fastforce
  qed (auto simp: parseWorkerCount_def from_chars_all kMaximumWorkerCount_def)
  show "parseWorkerCount (show_nat k) = Inr (of_nat k)" if "1 \<le> k \<and> k \<le> 16"
    using that show_nat_parses [of k]
    by (simp add: parseWorkerCount_def from_chars_all kMaximumWorkerCount_def)
  show "e = InvalidArgument ''FFL_P2P_QUIC_WORKERS must be an integer between 1 and 16''"
    if "parseWorkerCount v = Inl e" for e
    using that by (auto simp: parseWorkerCount_def split: prod.splits if_splits)
  show "workerCount getenv = Inr 2" if "getenv ''FFL_P2P_QUIC_WORKERS'' \<in> {None, Some ''''}"
    using that by (auto simp: workerCount_def getEnvironmentVariable_def kDefaultWorkerCount_def)
qed

theorem worker_count_parsed_witness:
  "parseWorkerCount ''007'' = Inr 7 \<and> parseWorkerCount (show_nat 12) = Inr 12 \<and>
   (\<exists>m. parseWorkerCount ''17'' = Inl (InvalidArgument m))"
proof (intro conjI)
  show "parseWorkerCount ''007'' = Inr 7"
    using worker_count_parsed [of "''007''" 7] by (simp add: is_digit_def digits_value_def)
  show "parseWorkerCount (show_nat 12) = Inr 12"
    using worker_count_parsed [of "''1''" 7 12] by simp
  show "\<exists>m. parseWorkerCount ''17'' = Inl (InvalidArgument m)"
    using worker_count_parsed [of "''17''"] by (cases "parseWorkerCount ''17''") (auto simp: digits_value_def)
qed


section \<open>Socket addresses and the host\<close>

text \<open>The compilers the code distinguishes; a Cosmopolitan binary asks its host at run time.\<close>

datatype build_target = BuildWindows | BuildCosmopolitan | BuildLinux | BuildOther

fun isLinux :: "build_target \<Rightarrow> bool \<Rightarrow> bool" where
  "isLinux BuildWindows hostIsLinux = False"
| "isLinux BuildCosmopolitan hostIsLinux = hostIsLinux"
| "isLinux BuildLinux hostIsLinux = True"
| "isLinux BuildOther hostIsLinux = False"

record SocketAddress =
  storage :: bytes
  address_size :: nat

definition SocketAddress_new :: SocketAddress where
  "SocketAddress_new = \<lparr>storage = replicate 128 0, address_size = 0\<rparr>"

definition thread_stackSize :: "thread_impl option \<Rightarrow> nat" where
  "thread_stackSize impl = (case impl of None \<Rightarrow> 0 | Some t \<Rightarrow> th_stackSize t)"

text \<open>\<open>sockaddr_in\<close> on a little-endian host: the family, then port and address in network order, then eight zeros.\<close>

definition sockaddr_in :: "u16 \<Rightarrow> bytes" where
  "sockaddr_in port = [2, 0, ucast (drop_bit 8 port), ucast port, 127, 0, 0, 1] @ replicate 8 0"

definition createLoopbackIPv4Address :: "u16 \<Rightarrow> SocketAddress" where
  "createLoopbackIPv4Address port =
     (let address = SocketAddress_new; native = sockaddr_in port in
      address\<lparr>storage := native @ drop (length native) (storage address), address_size := length native\<rparr>)"

text \<open>The port that a socket address names.\<close>

definition address_port :: "SocketAddress \<Rightarrow> u16" where
  "address_port a = or (push_bit 8 (ucast (storage a ! 2))) (ucast (storage a ! 3))"

lemma loopback_port: "address_port (createLoopbackIPv4Address port) = port"
proof -
  have "or (push_bit 8 (ucast (ucast (drop_bit 8 port) :: u8))) (ucast (ucast port :: u8)) = port"
    by (rule bit_word_eqI) (auto simp: bit_simps)
  then show ?thesis
    by (simp add: address_port_def createLoopbackIPv4Address_def sockaddr_in_def)
qed

lemma loopback_shape:
  "length (storage (createLoopbackIPv4Address port)) = 128" "address_size (createLoopbackIPv4Address port) = 16"
  by (simp_all add: createLoopbackIPv4Address_def sockaddr_in_def SocketAddress_new_def)

text \<open>The two ends of the fixed path of a connection are different addresses.\<close>

lemma loopback_distinct: "p \<noteq> q \<Longrightarrow> createLoopbackIPv4Address p \<noteq> createLoopbackIPv4Address q"
  using loopback_port by metis

end
