(* ===== verification/Worker.thy ===== *)
theory Worker
  imports Connection_Run Platform Fifo
begin

text \<open>
  Model of \<open>native/core/Worker.{h,cpp}\<close>: the worker's connection queue, its loop over timers
  and connections, its end, and the pool of workers. The release build is modelled.

  A worker refers to its connections by identity; \<open>objects\<close> are the connections that exist. A
  call on a connection of the worker runs the connection's action and then performs the calls of
  \<open>queueConnection\<close> it made (\<open>scheduled\<close> counts them). One round of the worker's loop is one
  step, application calls and datagram deliveries come between rounds; \<open>Scheduling\<close> has the
  queueing protocol step by step.
\<close>

section \<open>State\<close>

record 'w pool_worker =
  w_index :: u16
  running :: bool
  ready :: bool                   \<comment> \<open>the event\<close>
  thread :: thread_impl
  conns :: "nat list"             \<comment> \<open>the \<open>deque\<close> of connections\<close>
  timerWheel :: timer_wheel
  objects :: "nat \<Rightarrow> 'w conn option"
  next_id :: nat                  \<comment> \<open>identities given out so far\<close>

type_synonym ('w, 'a) wact = "('w pool_worker, 'a) act"

definition worker_new :: "u16 \<Rightarrow> 'w pool_worker" where
  "worker_new i = \<lparr>w_index = i, running = False, ready = False, thread = thread_new, conns = [],
     timerWheel = [], objects = (\<lambda>_. None), next_id = 0\<rparr>"

definition kConnectionOperationBudget :: nat where "kConnectionOperationBudget = 64"
definition kWorkerStackSize :: nat where "kWorkerStackSize = 1024 * 1024"

definition alive :: "'w pool_worker \<Rightarrow> nat \<Rightarrow> bool" where
  "alive w c \<longleftrightarrow> objects w c \<noteq> None"

section \<open>The connection queue\<close>

definition deque_push :: "nat \<Rightarrow> nat list \<Rightarrow> nat list" where
  "deque_push c q = q @ [c]"

definition deque_pop :: "nat list \<Rightarrow> (nat \<times> nat list) option" where
  "deque_pop q = (case q of [] \<Rightarrow> None | c # cs \<Rightarrow> Some (c, cs))"

interpretation worker_queue: fifo "[]" deque_push deque_pop "\<lambda>q. q" "\<lambda>_. True"
  by unfold_locales (auto simp: deque_push_def deque_pop_def split: list.splits)

definition queueConnection :: "nat option \<Rightarrow> ('w, unit) wact" where
  "queueConnection connection =
     (case connection of
        None \<Rightarrow> ret ()
      | Some c \<Rightarrow> blockA
          [modify (\<lambda>w. w\<lparr>conns := deque_push c (conns w)\<rparr>),
           modify (\<lambda>w. w\<lparr>ready := event_set (ready w)\<rparr>)])"

definition popConnection :: "('w, nat option) wact" where
  "popConnection = (\<lambda>w. case deque_pop (conns w) of
       None \<Rightarrow> (Inr None, w)
     | Some (c, q) \<Rightarrow> (Inr (Some c), w\<lparr>conns := q\<rparr>))"

text \<open>A member function of connection \<open>c\<close>, called on the worker's thread or on another one.\<close>

definition callOn :: "bool \<Rightarrow> nat \<Rightarrow> ('w, 'a) cact \<Rightarrow> ('w, 'a) wact" where
  "callOn owner c m w =
     (case objects w c of
        None \<Rightarrow> (Inl Undefined, w)
      | Some s \<Rightarrow>
          (case m (s\<lparr>onWorker := owner\<rparr>) of (r, s') \<Rightarrow>
             (r, snd (blockA (replicate (scheduled s' - scheduled s) (queueConnection (Some c)))
                        (w\<lparr>objects := (objects w)(c \<mapsto> s')\<rparr>)))))"

section \<open>The loop\<close>

definition processTimers :: "timestamp \<Rightarrow> ('w, unit) wact" where
  "processTimers now = (\<lambda>w.
     case wheel_takeExpired (alive w) now (timerWheel w) of (expired, rest) \<Rightarrow>
       blockA (map (\<lambda>c. callOn True c queueTimerExpired) expired) (w\<lparr>timerWheel := rest\<rparr>))"

definition updateTimer :: "'w quic_env \<Rightarrow> nat \<Rightarrow> ('w, unit) wact" where
  "updateTimer E c = bindA (callOn True c (gets isStopped)) (\<lambda>st.
     bindA (callOn True c (gets connAddr)) (\<lambda>a.
       if st then modify (\<lambda>w. w\<lparr>timerWheel := wheel_remove (Some a) (timerWheel w)\<rparr>)
       else bindA (callOn True c (getNextExpiry E)) (\<lambda>expiry.
         modify (\<lambda>w. w\<lparr>timerWheel := wheel_update (Some \<lparr>cr_addr = a, cr_id = c\<rparr>) expiry (timerWheel w)\<rparr>))))"

definition runConnection :: "'w quic_env \<Rightarrow> nat \<Rightarrow> ('w, unit) wact" where
  "runConnection E c = blockA
     [callOn True c beginWorkerProcessing,
      bindA (callOn True c (processOperations E kConnectionOperationBudget)) (\<lambda>_. ret ()),
      updateTimer E c,
      callOn True c finishWorkerProcessing]"

definition nextDeadline :: "'w pool_worker \<Rightarrow> timestamp" where
  "nextDeadline w = wheel_getNextExpiry (alive w) (timerWheel w)"

text \<open>The body of the loop, at time \<open>now\<close>: whether a connection was run, or the deadline it then
  waits for.\<close>

definition workerPass :: "'w quic_env \<Rightarrow> timestamp \<Rightarrow> ('w, timestamp option) wact" where
  "workerPass E now = bindA (gets nextDeadline) (\<lambda>expiry.
     bindA (whenA (expiry \<le> now) (processTimers now)) (\<lambda>_.
     bindA popConnection (\<lambda>popped.
       case popped of
         Some c \<Rightarrow> bindA (runConnection E c) (\<lambda>_. ret None)
       | None \<Rightarrow> gets (\<lambda>w. Some (nextDeadline w)))))"

text \<open>The end of the wait.\<close>

definition workerWake :: "timestamp \<Rightarrow> timestamp \<Rightarrow> bool \<Rightarrow> ('w, bool option) wact" where
  "workerWake deadline current arrives = (\<lambda>w.
     case event_waitUntil deadline current arrives (ready w) of
       None \<Rightarrow> (Inr None, w)
     | Some (b, signaled) \<Rightarrow> (Inr (Some b), w\<lparr>ready := signaled\<rparr>))"

text \<open>The loop after the worker has been stopped, for so many rounds: \<open>True\<close> when it has ended.\<close>

primrec drainLoop :: "'w quic_env \<Rightarrow> nat \<Rightarrow> ('w, bool) wact" where
  "drainLoop E 0 = ret False"
| "drainLoop E (Suc n) = bindA popConnection (\<lambda>popped.
     case popped of
       None \<Rightarrow> ret True
     | Some c \<Rightarrow> bindA (callOn True c (failFromRuntime E ''QUIC worker stopped'')) (\<lambda>_. drainLoop E n))"

section \<open>Start and stop\<close>

definition worker_start :: "pthread_results \<Rightarrow> ('w, unit) wact" where
  "worker_start pr = bindA (gets running) (\<lambda>r.
     if r then ret ()
     else bindA (modify (\<lambda>w. w\<lparr>running := True\<rparr>)) (\<lambda>_.
       catchA (zoomA thread (\<lambda>t w. w\<lparr>thread := t\<rparr>) (thread_start pr True kWorkerStackSize))
         (\<lambda>e. bindA (modify (\<lambda>w. w\<lparr>running := False\<rparr>)) (\<lambda>_. throw e))))"

definition worker_stop :: "pthread_results \<Rightarrow> ('w, unit) wact" where
  "worker_stop pr = bindA (gets running) (\<lambda>r.
     bindA (modify (\<lambda>w. w\<lparr>running := False\<rparr>)) (\<lambda>_.
       if \<not> r then ret ()
       else blockA
         [modify (\<lambda>w. w\<lparr>ready := event_set (ready w)\<rparr>),
          zoomA thread (\<lambda>t w. w\<lparr>thread := t\<rparr>) (thread_join pr)]))"

section \<open>The pool\<close>

record 'w worker_pool =
  workers :: "'w pool_worker list"
  nextWorker :: u32

text \<open>The constructor's loop; an exception leaves the workers started so far, which the unwinding
  destroys.\<close>

fun start_workers :: "(nat \<Rightarrow> pthread_results) \<Rightarrow> nat \<Rightarrow> nat \<Rightarrow> exn + 'w pool_worker list" where
  "start_workers pr index 0 = Inr []"
| "start_workers pr index (Suc n) =
     (case worker_start (pr index) (worker_new (of_nat index)) of
        (Inl e, _) \<Rightarrow> Inl e
      | (Inr _, w) \<Rightarrow>
          (case start_workers pr (Suc index) n of
             Inl e \<Rightarrow> Inl e
           | Inr ws \<Rightarrow> Inr (w # ws)))"

definition worker_pool_new :: "(nat \<Rightarrow> pthread_results) \<Rightarrow> u16 \<Rightarrow> exn + 'w worker_pool" where
  "worker_pool_new pr n =
     (if n = 0 then Inl (InvalidArgument ''workerCount must be positive'')
      else (case start_workers pr 0 (unat n) of
          Inl e \<Rightarrow> Inl e
        | Inr ws \<Rightarrow> Inr \<lparr>workers = ws, nextWorker = 0\<rparr>))"

text \<open>The worker's place in the vector.\<close>

definition assignConnection :: "'w worker_pool \<Rightarrow> nat \<times> 'w worker_pool" where
  "assignConnection p = (unat (nextWorker p) mod length (workers p), p\<lparr>nextWorker := nextWorker p + 1\<rparr>)"

definition worker_pool_size :: "'w worker_pool \<Rightarrow> u16" where
  "worker_pool_size p = of_nat (length (workers p))"

definition getRuntimeWorkerPool ::
  "(nat \<Rightarrow> pthread_results) \<Rightarrow> (string \<Rightarrow> string option) \<Rightarrow> exn + 'w worker_pool" where
  "getRuntimeWorkerPool pr getenv =
     (case workerCount getenv of Inl e \<Rightarrow> Inl e | Inr n \<Rightarrow> worker_pool_new pr n)"

fun assign_many :: "nat \<Rightarrow> 'w worker_pool \<Rightarrow> nat list" where
  "assign_many 0 p = []"
| "assign_many (Suc n) p = (case assignConnection p of (i, p') \<Rightarrow> i # assign_many n p')"

lemma start_workers_length:
  "start_workers pr i n = Inr ws \<Longrightarrow> length ws = n \<and> map w_index ws = map of_nat [i..<i + n]"
proof (induction n arbitrary: i ws)
  case (Suc n)
  then obtain w ws' where w: "worker_start (pr i) (worker_new (of_nat i)) = (Inr (), w)"
    and ws': "start_workers pr (Suc i) n = Inr ws'" "ws = w # ws'"
    by (auto split: prod.splits sum.splits)
  have "w_index w = of_nat i"
    using w by (auto simp: worker_start_def act_simps zoomA_def worker_new_def split: if_splits prod.splits sum.splits)
  moreover have "[i..<i + Suc n] = i # [Suc i..<Suc i + n]" by (simp add: upt_rec)
  ultimately show ?case using Suc.IH [OF ws'(1)] ws'(2) by simp
qed simp

lemma assign_many_nth:
  "k < n \<Longrightarrow> assign_many n p ! k = unat (nextWorker p + of_nat k) mod length (workers p)"
proof (induction n arbitrary: k p)
  case (Suc n)
  then show ?case
    by (cases k) (simp_all add: assignConnection_def add.assoc [symmetric])
qed simp

lemma length_assign_many [simp]: "length (assign_many n p) = n"
  by (induction n arbitrary: p) (simp_all add: assignConnection_def)

text \<open>The process-wide pool can always be indexed: with any environment its construction
  either reports an error (a bad variable or a thread that could not be created) or gives 1 to 16
  workers that are numbered in order; connections are then assigned round robin, the k-th to worker \<open>k mod n\<close> for the first
  \<open>2 ^ 32\<close> of them, and every assignment, past the wrap of the counter too, is inside the vector.\<close>

theorem pool_round_robin:
  assumes "getRuntimeWorkerPool pr getenv = Inr p"
  shows "1 \<le> length (workers p) \<and> length (workers p) \<le> 16 \<and>
    map w_index (workers p) = map of_nat [0..<length (workers p)] \<and>
    (\<forall>k < m. assign_many m p ! k < length (workers p)) \<and>
    (\<forall>k < m. k < 2 ^ 32 \<longrightarrow> assign_many m p ! k = k mod length (workers p))"
proof -
  obtain n where n: "workerCount getenv = Inr n" and p: "worker_pool_new pr n = Inr p"
    using assms by (auto simp: getRuntimeWorkerPool_def split: sum.splits)
  then obtain ws where ws: "start_workers pr 0 (unat n) = Inr ws" "p = \<lparr>workers = ws, nextWorker = 0\<rparr>" "n \<noteq> 0"
    by (auto simp: worker_pool_new_def split: if_splits sum.splits)
  have "unat n \<le> 16"
    using n by (auto simp: workerCount_def parseWorkerCount_def kDefaultWorkerCount_def kMaximumWorkerCount_def
        unat_of_nat take_bit_nat_eq_self split: option.splits prod.splits if_splits)
  moreover have "1 \<le> unat n" using ws(3) by (metis One_nat_def Suc_leI unat_gt_0)
  moreover note start_workers_length [OF ws(1)]
  ultimately show ?thesis
    using ws(2) by (auto simp: assign_many_nth unat_of_nat take_bit_nat_eq_self)
qed

theorem pool_round_robin_witness:
  "let pr = (\<lambda>_. \<lparr>pr_attr_init = 0, pr_setstacksize = 0, pr_create = 0, pr_join = 0\<rparr>) in
   \<exists>p :: bytes worker_pool. getRuntimeWorkerPool pr (\<lambda>_. Some ''3'') = Inr p \<and>
     length (workers p) = 3 \<and> assign_many 7 p ! 5 = 2"
proof -
  let ?pr = "\<lambda>_. \<lparr>pr_attr_init = 0, pr_setstacksize = 0, pr_create = 0, pr_join = 0\<rparr>"
  have "parseWorkerCount ''3'' = Inr 3"
    by (simp add: parseWorkerCount_def from_chars_def is_digit_def digits_value_def kMaximumWorkerCount_def)
  moreover have "start_workers ?pr i n \<noteq> Inl e" for i n and e :: exn
    by (induction n arbitrary: i)
      (auto simp: worker_start_def thread_start_def thread_new_def thread_isJoinable_def worker_new_def
        zoomA_def act_simps split: sum.splits prod.splits)
  then obtain ws :: "bytes pool_worker list" where ws: "start_workers ?pr 0 3 = Inr ws"
    by (metis sum.exhaust)
  ultimately have run: "getRuntimeWorkerPool ?pr (\<lambda>_. Some ''3'') = Inr \<lparr>workers = ws, nextWorker = 0\<rparr>"
    by (simp add: getRuntimeWorkerPool_def workerCount_def getEnvironmentVariable_def worker_pool_new_def)
  have "length ws = 3" using start_workers_length [OF ws] by simp
  then show ?thesis
    using run pool_round_robin [OF run, of 7] by (auto simp: Let_def)
qed

end
