(* ===== verification/Scheduling.thy ===== *)
theory Scheduling
  imports Worker "HOL-Library.Multiset"
begin

text \<open>
  How work reaches the worker when every thread runs at its own pace. Elsewhere a call of
  \<open>queueOperation\<close> is one step; here each of its critical sections and atomic accesses is a step
  of its own, and so is each of the worker's loop (\<open>native/core/Worker.cpp\<close>,
  \<open>Connection::queueOperation\<close>, \<open>scheduleIfIdle\<close>, \<open>beginWorkerProcessing\<close>,
  \<open>finishWorkerProcessing\<close> in \<open>native/quic/Connection.cpp\<close>). Any number of threads push
  operations to any number of connections of one worker.

  Connections are values of \<open>'c\<close>, operations of \<open>'o\<close>.
\<close>

section \<open>State\<close>

text \<open>Where a thread inside \<open>queueOperation\<close> is: it has pushed and not yet tried the
  compare-exchange; it has won it and not yet entered \<open>queueConnection\<close>; it has pushed the
  connection and not yet set the event.\<close>

datatype producer_at = Pushed | Won | Enqueued

text \<open>Where the worker's loop is.\<close>

datatype 'c worker_at =
    AtTop
  | AtPopped 'c            \<comment> \<open>before \<open>beginWorkerProcessing\<close>\<close>
  | AtRunning 'c nat       \<comment> \<open>in \<open>processOperations\<close>, so many operations left of its budget\<close>
  | AtDraining 'c          \<comment> \<open>the connection has stopped, in \<open>drainFailedOperations\<close>\<close>
  | AtFinishing 'c         \<comment> \<open>before the store of \<open>Idle\<close>\<close>
  | AtStored 'c            \<comment> \<open>before the queue is looked at again\<close>
  | AtRecheck 'c           \<comment> \<open>before the compare-exchange of \<open>finishWorkerProcessing\<close>\<close>
  | AtRequeue 'c           \<comment> \<open>won, before \<open>queueConnection\<close>\<close>
  | AtSignal               \<comment> \<open>before \<open>ready_.set()\<close>\<close>
  | AtWait                 \<comment> \<open>in \<open>ready_.waitUntil\<close>\<close>

text \<open>\<open>queued_ops\<close> and \<open>done_ops\<close> are ghosts: all operations ever pushed and popped.\<close>

record ('c, 'o) sys =
  ops :: "'c \<Rightarrow> 'o list"
  state :: "'c \<Rightarrow> schedule_state"
  producers :: "('c \<times> producer_at) multiset"
  connections :: "'c list"
  signaled :: bool
  worker :: "'c worker_at"
  queued_ops :: "'c \<Rightarrow> 'o list"
  done_ops :: "'c \<Rightarrow> 'o list"

definition sys_new :: "('c, 'o) sys" where
  "sys_new = \<lparr>ops = (\<lambda>_. []), state = (\<lambda>_. Idle), producers = {#}, connections = [], signaled = False,
     worker = AtTop, queued_ops = (\<lambda>_. []), done_ops = (\<lambda>_. [])\<rparr>"

section \<open>Steps\<close>

text \<open>The operation queue's critical section in \<open>queueOperation\<close>. The worker itself pushes too,
  while it runs a connection; its compare-exchange is the same step as any other thread's.\<close>

definition push :: "'c \<Rightarrow> 'o \<Rightarrow> ('c, 'o) sys \<Rightarrow> ('c, 'o) sys" where
  "push c oper s = s\<lparr>ops := (ops s)(c := ops s c @ [oper]), queued_ops := (queued_ops s)(c := queued_ops s c @ [oper]),
     producers := add_mset (c, Pushed) (producers s)\<rparr>"

text \<open>The rest of a call of \<open>queueOperation\<close>.\<close>

inductive producer_step :: "('c, 'o) sys \<Rightarrow> ('c, 'o) sys \<Rightarrow> bool" where
  cas_wins: "(c, Pushed) \<in># producers s \<Longrightarrow> state s c = Idle \<Longrightarrow>
    producer_step s (s\<lparr>state := (state s)(c := Queued),
      producers := add_mset (c, Won) (producers s - {#(c, Pushed)#})\<rparr>)"
| cas_loses: "(c, Pushed) \<in># producers s \<Longrightarrow> state s c \<noteq> Idle \<Longrightarrow>
    producer_step s (s\<lparr>producers := producers s - {#(c, Pushed)#}\<rparr>)"
| enqueues: "(c, Won) \<in># producers s \<Longrightarrow>
    producer_step s (s\<lparr>connections := connections s @ [c],
      producers := add_mset (c, Enqueued) (producers s - {#(c, Won)#})\<rparr>)"
| sets_event: "(c, Enqueued) \<in># producers s \<Longrightarrow>
    producer_step s (s\<lparr>signaled := True, producers := producers s - {#(c, Enqueued)#}\<rparr>)"

text \<open>The worker's loop, without timers.\<close>

inductive worker_step :: "('c, 'o) sys \<Rightarrow> ('c, 'o) sys \<Rightarrow> bool" where
  pops: "worker s = AtTop \<Longrightarrow> connections s = c # cs \<Longrightarrow>
    worker_step s (s\<lparr>connections := cs, worker := AtPopped c\<rparr>)"
| finds_none: "worker s = AtTop \<Longrightarrow> connections s = [] \<Longrightarrow> worker_step s (s\<lparr>worker := AtWait\<rparr>)"
| wakes: "worker s = AtWait \<Longrightarrow> signaled s \<Longrightarrow> worker_step s (s\<lparr>signaled := False, worker := AtTop\<rparr>)"
| begins: "worker s = AtPopped c \<Longrightarrow>
    worker_step s (s\<lparr>state := (state s)(c := Processing), worker := AtRunning c kConnectionOperationBudget\<rparr>)"
| processes: "worker s = AtRunning c (Suc n) \<Longrightarrow> ops s c = oper # q \<Longrightarrow>
    worker_step s (s\<lparr>ops := (ops s)(c := q), done_ops := (done_ops s)(c := done_ops s c @ [oper]),
      worker := AtRunning c n\<rparr>)"
| stops: "worker s = AtRunning c (Suc n) \<Longrightarrow> ops s c = oper # q \<Longrightarrow>
    worker_step s (s\<lparr>ops := (ops s)(c := q), done_ops := (done_ops s)(c := done_ops s c @ [oper]),
      worker := AtDraining c\<rparr>)"
| drains: "worker s = AtDraining c \<Longrightarrow> ops s c = oper # q \<Longrightarrow>
    worker_step s (s\<lparr>ops := (ops s)(c := q), done_ops := (done_ops s)(c := done_ops s c @ [oper])\<rparr>)"
| drained: "worker s = AtDraining c \<Longrightarrow> ops s c = [] \<Longrightarrow> worker_step s (s\<lparr>worker := AtFinishing c\<rparr>)"
| runs_out: "worker s = AtRunning c n \<Longrightarrow> n = 0 \<or> ops s c = [] \<Longrightarrow> worker_step s (s\<lparr>worker := AtFinishing c\<rparr>)"
| stores_idle: "worker s = AtFinishing c \<Longrightarrow>
    worker_step s (s\<lparr>state := (state s)(c := Idle), worker := AtStored c\<rparr>)"
| looks_empty: "worker s = AtStored c \<Longrightarrow> ops s c = [] \<Longrightarrow> worker_step s (s\<lparr>worker := AtTop\<rparr>)"
| looks_more: "worker s = AtStored c \<Longrightarrow> ops s c \<noteq> [] \<Longrightarrow> worker_step s (s\<lparr>worker := AtRecheck c\<rparr>)"
| wins_again: "worker s = AtRecheck c \<Longrightarrow> state s c = Idle \<Longrightarrow>
    worker_step s (s\<lparr>state := (state s)(c := Queued), worker := AtRequeue c\<rparr>)"
| loses_again: "worker s = AtRecheck c \<Longrightarrow> state s c \<noteq> Idle \<Longrightarrow> worker_step s (s\<lparr>worker := AtTop\<rparr>)"
| requeues: "worker s = AtRequeue c \<Longrightarrow>
    worker_step s (s\<lparr>connections := connections s @ [c], worker := AtSignal\<rparr>)"
| signals: "worker s = AtSignal \<Longrightarrow> worker_step s (s\<lparr>signaled := True, worker := AtTop\<rparr>)"

text \<open>The wait may also end at a deadline.\<close>

definition deadline :: "('c, 'o) sys \<Rightarrow> ('c, 'o) sys" where
  "deadline s = (if worker s = AtWait then s\<lparr>worker := AtTop\<rparr> else s)"

definition inner_step :: "('c, 'o) sys \<Rightarrow> ('c, 'o) sys \<Rightarrow> bool" where
  "inner_step s s' \<longleftrightarrow> producer_step s s' \<or> worker_step s s'"

inductive sys_reachable :: "('c, 'o) sys \<Rightarrow> bool" where
  sys_init: "sys_reachable sys_new"
| sys_push: "sys_reachable s \<Longrightarrow> sys_reachable (push c oper s)"
| sys_deadline: "sys_reachable s \<Longrightarrow> sys_reachable (deadline s)"
| sys_inner: "sys_reachable s \<Longrightarrow> inner_step s s' \<Longrightarrow> sys_reachable s'"

inductive_cases producer_stepE: "producer_step s s'"
inductive_cases worker_stepE: "worker_step s s'"

section \<open>The invariant\<close>

text \<open>A queued connection has one token: it is in the worker's queue, or on its way into it, or just
  popped from it.\<close>

definition tokens :: "'c \<Rightarrow> ('c, 'o) sys \<Rightarrow> nat" where
  "tokens c s = count_list (connections s) c + count (producers s) (c, Won) +
     (if worker s = AtPopped c then 1 else 0) + (if worker s = AtRequeue c then 1 else 0)"

definition busy :: "'c worker_at \<Rightarrow> 'c set" where
  "busy w = (case w of AtRunning c n \<Rightarrow> {c} | AtDraining c \<Rightarrow> {c} | AtFinishing c \<Rightarrow> {c} | _ \<Rightarrow> {})"

definition about_to_look :: "'c worker_at \<Rightarrow> 'c set" where
  "about_to_look w = (case w of AtStored c \<Rightarrow> {c} | AtRecheck c \<Rightarrow> {c} | _ \<Rightarrow> {})"

definition conn_ok :: "'c \<Rightarrow> ('c, 'o) sys \<Rightarrow> bool" where
  "conn_ok c s \<longleftrightarrow> tokens c s = (if state s c = Queued then 1 else 0) \<and>
     (state s c = Processing \<longleftrightarrow> c \<in> busy (worker s)) \<and>
     (ops s c \<noteq> [] \<longrightarrow> state s c \<noteq> Idle \<or> (c, Pushed) \<in># producers s \<or> c \<in> about_to_look (worker s)) \<and>
     queued_ops s c = done_ops s c @ ops s c"

definition event_ok :: "('c, 'o) sys \<Rightarrow> bool" where
  "event_ok s \<longleftrightarrow> (connections s \<noteq> [] \<and> worker s = AtWait \<longrightarrow>
     signaled s \<or> (\<exists>c. (c, Enqueued) \<in># producers s))"

definition sys_inv :: "('c, 'o) sys \<Rightarrow> bool" where
  "sys_inv s \<longleftrightarrow> (\<forall>c. conn_ok c s) \<and> event_ok s \<and> finite {c. ops s c \<noteq> []}"

lemma sys_inv_new: "sys_inv sys_new"
  by (simp add: sys_inv_def conn_ok_def event_ok_def sys_new_def tokens_def busy_def about_to_look_def)

lemma finite_ops_update:
  "finite {c. f c \<noteq> []} \<Longrightarrow> finite {c. (f(d := q)) c \<noteq> []}"
  by (rule finite_subset [of _ "insert d {c. f c \<noteq> []}"]) auto

lemma in_minus_other: "x \<in># m \<Longrightarrow> x \<noteq> y \<Longrightarrow> x \<in># m - {#y#}"
  by (simp add: in_diff_count)

lemma count_pos: "x \<in># m \<Longrightarrow> 0 < count m x"
  by simp

lemma conn_ok_push: "conn_ok d s \<Longrightarrow> conn_ok d (push c oper s)"
  by (auto simp: conn_ok_def push_def tokens_def split: if_splits)

lemma conn_ok_deadline: "conn_ok d s \<Longrightarrow> conn_ok d (deadline s)"
  by (auto simp: conn_ok_def deadline_def tokens_def busy_def about_to_look_def split: if_splits)

lemma conn_ok_producer:
  assumes "conn_ok d s" and "producer_step s s'"
  shows "conn_ok d s'"
  using assms(2)
proof cases
  case (cas_wins c)
  then show ?thesis using assms(1)
    by (cases "d = c") (auto simp: conn_ok_def tokens_def in_diff_count split: if_splits)
next
  case (cas_loses c)
  then show ?thesis using assms(1)
    by (cases "d = c") (auto simp: conn_ok_def tokens_def in_minus_other split: if_splits)
next
  case (enqueues c)
  then show ?thesis using assms(1) count_pos [OF enqueues(2)]
    by (cases "d = c") (auto simp: conn_ok_def tokens_def in_minus_other simp del: count_greater_zero_iff split: if_splits)
next
  case (sets_event c)
  then show ?thesis using assms(1)
    by (cases "d = c") (auto simp: conn_ok_def tokens_def in_minus_other split: if_splits)
qed

lemma conn_ok_worker:
  assumes "conn_ok d s" and "worker_step s s'"
  shows "conn_ok d s'"
  using assms(2)
  by cases
    (use assms(1) in \<open>auto simp: conn_ok_def tokens_def busy_def about_to_look_def split: if_splits\<close>)

lemma event_ok_push: "event_ok s \<Longrightarrow> event_ok (push c oper s)"
  by (auto simp: event_ok_def push_def)

lemma event_ok_deadline: "event_ok s \<Longrightarrow> event_ok (deadline s)"
  by (auto simp: event_ok_def deadline_def)

lemma event_ok_producer:
  assumes "event_ok s" and "producer_step s s'"
  shows "event_ok s'"
  using assms(2)
proof cases
  case (enqueues c)
  then show ?thesis by (auto simp: event_ok_def)
qed (use assms(1) in \<open>auto simp: event_ok_def in_diff_count\<close>)

lemma event_ok_worker:
  assumes "event_ok s" and "worker_step s s'"
  shows "event_ok s'"
  using assms(2) by cases (use assms(1) in \<open>auto simp: event_ok_def\<close>)

lemma finite_ops_inner:
  assumes "finite {c. ops s c \<noteq> []}" and "inner_step s s'"
  shows "finite {c. ops s' c \<noteq> []}"
proof -
  have "{c. ops s' c \<noteq> []} \<subseteq> {c. ops s c \<noteq> []}"
    using assms(2) unfolding inner_step_def
    by (auto elim!: producer_step.cases worker_step.cases split: if_splits)
  then show ?thesis by (rule finite_subset) (rule assms(1))
qed

lemma sys_inv_push: "sys_inv s \<Longrightarrow> sys_inv (push c oper s)"
  using finite_ops_update [of "ops s" c "ops s c @ [oper]"]
  by (simp add: sys_inv_def conn_ok_push event_ok_push) (simp add: push_def)

lemma sys_inv_deadline: "sys_inv s \<Longrightarrow> sys_inv (deadline s)"
  by (simp add: sys_inv_def conn_ok_deadline event_ok_deadline) (simp add: deadline_def)

lemma sys_inv_inner: "sys_inv s \<Longrightarrow> inner_step s s' \<Longrightarrow> sys_inv s'"
  using finite_ops_inner [of s s'] unfolding sys_inv_def inner_step_def
  by (metis conn_ok_producer conn_ok_worker event_ok_producer event_ok_worker)

lemma sys_inv_reachable: "sys_reachable s \<Longrightarrow> sys_inv s"
  by (induction rule: sys_reachable.induct) (blast intro: sys_inv_new sys_inv_push sys_inv_deadline sys_inv_inner)+

section \<open>What it gives\<close>

text \<open>A state in which nothing inside can move: every producer has returned and the worker waits.\<close>

definition quiescent :: "('c, 'o) sys \<Rightarrow> bool" where
  "quiescent s \<longleftrightarrow> (\<forall>s'. \<not> inner_step s s')"

lemma producer_moves:
  assumes "p \<in># producers s"
  shows "\<exists>s'. producer_step s s'"
proof (cases p)
  case (Pair c a)
  show ?thesis
  proof (cases a)
    case Pushed
    with assms Pair show ?thesis by (cases "state s c = Idle") (blast intro: producer_step.intros)+
  qed (use assms Pair in \<open>blast intro: producer_step.intros\<close>)+
qed

lemma worker_moves:
  assumes "worker s \<noteq> AtWait \<or> signaled s"
  shows "\<exists>s'. worker_step s s'"
proof (cases "worker s")
  case AtTop
  then show ?thesis by (cases "connections s") (blast intro: worker_step.intros)+
next
  case (AtRunning c n)
  then show ?thesis
    by (cases n; cases "ops s c") (blast intro: worker_step.intros)+
next
  case (AtDraining c)
  then show ?thesis by (cases "ops s c") (blast intro: worker_step.intros)+
next
  case (AtRecheck c)
  then show ?thesis by (cases "state s c = Idle") (blast intro: worker_step.intros)+
next
  case AtWait
  with assms have "worker s = AtWait" and "signaled s" by simp_all
  then show ?thesis by (blast intro: wakes)
qed (blast intro: worker_step.intros)+

lemma quiescentD:
  assumes "quiescent s"
  shows "producers s = {#}" and "worker s = AtWait" and "\<not> signaled s"
proof -
  have no: "\<not> producer_step s s'" "\<not> worker_step s s'" for s'
    using assms by (simp_all add: quiescent_def inner_step_def)
  show "producers s = {#}" using no(1) producer_moves by (metis multiset_nonemptyE)
  show "worker s = AtWait" and "\<not> signaled s" using no(2) worker_moves by metis+
qed

lemma quiescent_empty:
  assumes inv: "sys_inv s" and q: "quiescent s"
  shows "connections s = [] \<and> ops s c = [] \<and> done_ops s c = queued_ops s c \<and> state s c = Idle"
proof -
  note s = quiescentD [OF q]
  have conns: "connections s = []" using inv s by (auto simp: sys_inv_def event_ok_def)
  have ok: "conn_ok c s" using inv by (simp add: sys_inv_def)
  then have idle: "state s c = Idle"
    using s conns by (cases "state s c") (auto simp: conn_ok_def tokens_def busy_def)
  with ok s conns show ?thesis by (auto simp: conn_ok_def about_to_look_def)
qed


section \<open>The worker comes to rest\<close>

definition backlog :: "('c \<Rightarrow> 'o list) \<Rightarrow> nat" where
  "backlog f = (\<Sum>c | f c \<noteq> []. length (f c))"

definition kind_count :: "producer_at \<Rightarrow> ('c, 'o) sys \<Rightarrow> nat" where
  "kind_count a s = count (image_mset snd (producers s)) a"

definition worker_weight :: "('c \<Rightarrow> 'o list) \<Rightarrow> 'c worker_at \<Rightarrow> nat" where
  "worker_weight f w = (case w of AtTop \<Rightarrow> 1 | AtPopped c \<Rightarrow> 5
     | AtRunning c n \<Rightarrow> if n < kConnectionOperationBudget then 14 else 4
     | AtDraining c \<Rightarrow> 4 | AtFinishing c \<Rightarrow> if f c = [] then 3 else 13
     | AtStored c \<Rightarrow> if f c = [] then 2 else 12 | AtRecheck c \<Rightarrow> 11 | AtRequeue c \<Rightarrow> 10
     | AtSignal \<Rightarrow> 4 | AtWait \<Rightarrow> 0)"

text \<open>A bound on the steps still to come: eleven for an operation, which may cost a round trip of its
  connection through the worker's queue, ten for a thread that has just pushed one.\<close>

definition work :: "('c, 'o) sys \<Rightarrow> nat" where
  "work s = 11 * backlog (ops s) + 10 * kind_count Pushed s + 9 * kind_count Won s +
     3 * kind_count Enqueued s + 5 * length (connections s) + (if signaled s then 2 else 0) +
     worker_weight (ops s) (worker s)"

lemma backlog_on:
  assumes "finite A" and "{c. f c \<noteq> []} \<subseteq> A"
  shows "backlog f = (\<Sum>c\<in>A. length (f c))"
  unfolding backlog_def by (rule sum.mono_neutral_left) (use assms in auto)

lemma backlog_pop:
  assumes fin: "finite {c. f c \<noteq> []}" and f: "f c = x # q"
  shows "backlog f = Suc (backlog (f(c := q)))"
proof -
  let ?A = "{c. f c \<noteq> []}"
  have c: "c \<in> ?A" using f by simp
  have "backlog (f(c := q)) = (\<Sum>d\<in>?A. length ((f(c := q)) d))"
    by (rule backlog_on) (use fin f in auto)
  also have "\<dots> = length q + (\<Sum>d\<in>?A - {c}. length (f d))"
    using fin c by (simp add: sum.remove)
  also have "Suc \<dots> = (\<Sum>d\<in>?A. length (f d))"
    using sum.remove [OF fin c, of "\<lambda>d. length (f d)"] f by simp
  finally show ?thesis by (simp add: backlog_def)
qed

lemma kind_count_remove:
  assumes "(c, b) \<in># producers s"
  shows "kind_count a s = (if a = b then 1 else 0) + count (image_mset snd (producers s - {#(c, b)#})) a"
proof -
  have "producers s = add_mset (c, b) (producers s - {#(c, b)#})" using assms by simp
  then have "kind_count a s = count (image_mset snd (add_mset (c, b) (producers s - {#(c, b)#}))) a"
    unfolding kind_count_def by simp
  then show ?thesis by simp
qed

lemma work_producer:
  assumes "producer_step s s'"
  shows "work s' < work s"
  using assms
proof cases
  case (cas_wins c)
  then show ?thesis using kind_count_remove [OF cas_wins(2)]
    by (simp add: work_def kind_count_def)
next
  case (cas_loses c)
  then show ?thesis using kind_count_remove [OF cas_loses(2)]
    by (simp add: work_def kind_count_def)
next
  case (enqueues c)
  then show ?thesis using kind_count_remove [OF enqueues(2)]
    by (simp add: work_def kind_count_def)
next
  case (sets_event c)
  then show ?thesis using kind_count_remove [OF sets_event(2)]
    by (simp add: work_def kind_count_def)
qed

lemma work_worker:
  assumes fin: "finite {c. ops s c \<noteq> []}" and "worker_step s s'"
  shows "work s' < work s"
  using assms(2)
proof cases
  case (processes c n oper q)
  then show ?thesis using backlog_pop [OF fin processes(3)]
    by (simp add: work_def worker_weight_def kind_count_def)
next
  case (stops c n oper q)
  then show ?thesis using backlog_pop [OF fin stops(3)]
    by (simp add: work_def worker_weight_def kind_count_def)
next
  case (drains c oper q)
  then show ?thesis using backlog_pop [OF fin drains(3)]
    by (simp add: work_def worker_weight_def kind_count_def)
qed (auto simp: work_def worker_weight_def kind_count_def kConnectionOperationBudget_def)

lemma work_inner: "sys_inv s \<Longrightarrow> inner_step s s' \<Longrightarrow> work s' < work s"
  using work_producer work_worker by (auto simp: sys_inv_def inner_step_def)


text \<open>Runs of inner steps alone: no further operation is queued and no deadline passes.\<close>

inductive inner_run :: "nat \<Rightarrow> ('c, 'o) sys \<Rightarrow> ('c, 'o) sys \<Rightarrow> bool" where
  run_nil: "inner_run 0 s s"
| run_cons: "inner_step s s' \<Longrightarrow> inner_run n s' s'' \<Longrightarrow> inner_run (Suc n) s s''"

lemma inner_run_reachable: "inner_run n s s' \<Longrightarrow> sys_reachable s \<Longrightarrow> sys_reachable s'"
  by (induction rule: inner_run.induct) (auto intro: sys_inner)

lemma inner_run_inv: "inner_run n s s' \<Longrightarrow> sys_inv s \<Longrightarrow> sys_inv s'"
  by (induction rule: inner_run.induct) (auto intro: sys_inv_inner)

lemma inner_step_queued: "inner_step s s' \<Longrightarrow> queued_ops s' = queued_ops s"
  unfolding inner_step_def by (auto elim!: producer_step.cases worker_step.cases)

lemma inner_run_queued: "inner_run n s s' \<Longrightarrow> queued_ops s' = queued_ops s"
  by (induction rule: inner_run.induct) (auto simp: inner_step_queued)

lemma inner_run_work: "inner_run n s s' \<Longrightarrow> sys_inv s \<Longrightarrow> n + work s' \<le> work s"
proof (induction rule: inner_run.induct)
  case (run_cons s s' n s'')
  then have "work s' < work s" and "n + work s'' \<le> work s'"
    using work_inner sys_inv_inner by blast+
  then show ?case by simp
qed simp

lemma comes_to_rest: "sys_inv s \<Longrightarrow> \<exists>n s'. inner_run n s s' \<and> quiescent s'"
proof (induction "work s" arbitrary: s rule: less_induct)
  case less
  show ?case
  proof (cases "quiescent s")
    case True
    then show ?thesis by (blast intro: run_nil)
  next
    case False
    then obtain s1 where s1: "inner_step s s1" by (auto simp: quiescent_def)
    with less obtain n s' where "inner_run n s1 s'" and "quiescent s'"
      using work_inner sys_inv_inner by blast
    with s1 show ?thesis by (blast intro: run_cons)
  qed
qed

lemma queued_within_work: "finite {c. ops s c \<noteq> []} \<Longrightarrow> length (ops s c) \<le> backlog (ops s)"
proof (cases "ops s c = []")
  case False
  assume "finite {c. ops s c \<noteq> []}"
  with False show ?thesis
    unfolding backlog_def
    by (intro member_le_sum [of c "{c. ops s c \<noteq> []}" "\<lambda>c. length (ops s c)"]) auto
qed simp

section \<open>Properties\<close>

text \<open>C27. Whatever the interleaving of the threads that queue operations and of the worker, a
  connection is being processed exactly while its schedule state says so, it stands in the worker's
  queue (or is on its way between the queue and the worker) exactly once while the state is
  \<open>Queued\<close> and not at all otherwise, so it is never processed twice at a time and never queued behind itself; and the operations
  taken from it are a prefix of those queued, in order.\<close>

theorem connection_scheduled_once:
  assumes "sys_reachable s"
  shows "(state s c = Processing \<longleftrightarrow> c \<in> busy (worker s)) \<and>
    tokens c s = (if state s c = Queued then 1 else 0) \<and> queued_ops s c = done_ops s c @ ops s c"
  using sys_inv_reachable [OF assms] by (simp add: sys_inv_def conn_ok_def)

text \<open>Two connections: the worker runs the first, which is given one more operation meanwhile, and
  a second thread has won the exchange for the other one.\<close>

definition contended :: "(nat, nat) sys" where
  "contended = \<lparr>ops = (\<lambda>c. if c = 0 then [11] else if c = 1 then [20] else []),
     state = (\<lambda>c. if c = 0 then Processing else if c = 1 then Queued else Idle),
     producers = {#(0, Pushed), (1, Won)#}, connections = [], signaled = True, worker = AtRunning 0 63,
     queued_ops = (\<lambda>c. if c = 0 then [10, 11] else if c = 1 then [20] else []),
     done_ops = (\<lambda>c. if c = 0 then [10] else [])\<rparr>"

lemma sys_producer: "sys_reachable s \<Longrightarrow> producer_step s s' \<Longrightarrow> sys_reachable s'"
  by (metis sys_inner inner_step_def)

lemma sys_worker: "sys_reachable s \<Longrightarrow> worker_step s s' \<Longrightarrow> sys_reachable s'"
  by (metis sys_inner inner_step_def)

lemma contended_reachable: "sys_reachable contended"
proof -
  note sys = push_def sys_new_def kConnectionOperationBudget_def
  note d0 = sys_push [OF sys_init, of "0 :: nat" "10 :: nat"]
  note d1 = sys_producer [OF d0 cas_wins [of 0]]
  note d2 = sys_producer [OF d1 enqueues [of 0]]
  note d3 = sys_producer [OF d2 sets_event [of 0]]
  note d4 = sys_worker [OF d3 pops [of _ 0 "[]"]]
  note d5 = sys_worker [OF d4 begins [of _ 0]]
  note d6 = sys_worker [OF d5 processes [of _ 0 63 10 "[]"]]
  note d7 = sys_push [OF sys_push [OF d6, of 0 11], of 1 20]
  note d8 = sys_producer [OF d7 cas_wins [of 1]]
  show ?thesis
    by (rule subst [where P = sys_reachable, OF _ d8]) (auto simp: sys contended_def fun_eq_iff)
qed

theorem connection_scheduled_once_witness:
  "state contended 0 = Processing \<and> tokens 0 contended = 0 \<and> tokens 1 contended = 1 \<and>
   queued_ops contended 0 = done_ops contended 0 @ [11]"
  using connection_scheduled_once [OF contended_reachable, of 0]
    connection_scheduled_once [OF contended_reachable, of 1]
  by (simp add: contended_def)

text \<open>C7. No wake-up is lost. Whenever every thread that queued an operation has returned and the
  worker sleeps with its event not set, no connection is waiting in the worker's queue and every
  operation ever queued on any connection has been taken.\<close>

theorem no_lost_wakeup:
  assumes "sys_reachable s" and "producers s = {#}" and "worker s = AtWait" and "\<not> signaled s"
  shows "connections s = [] \<and> ops s c = [] \<and> done_ops s c = queued_ops s c \<and> state s c = Idle"
proof -
  have "quiescent s"
    using assms(2-4) unfolding quiescent_def inner_step_def
    by (auto elim!: producer_step.cases worker_step.cases)
  then show ?thesis using sys_inv_reachable [OF assms(1)] by (intro quiescent_empty)
qed

theorem no_lost_wakeup_witness:
  "\<exists>s :: (nat, nat) sys. sys_reachable s \<and> worker s = AtWait \<and> done_ops s 0 = [10, 11] \<and> done_ops s 1 = [20]"
proof -
  obtain n s where run: "inner_run n contended s" and q: "quiescent s"
    using comes_to_rest sys_inv_reachable [OF contended_reachable] by blast
  note r = inner_run_reachable [OF run contended_reachable]
  note q = quiescentD [OF q]
  have "done_ops s c = queued_ops s c" for c
    using no_lost_wakeup [OF r q] by simp
  with r q show ?thesis
    by (intro exI [of _ s]) (simp add: inner_run_queued [OF run] contended_def)
qed



end
