(* ===== verification/Worker_Frame.thy ===== *)
theory Worker_Frame
  imports Worker
begin

text \<open>
  What the calls a worker makes on a connection, and those other threads make, leave alone:
  who owns the connection, whether it stands in the worker's queue, its deadline.
\<close>

section \<open>The queue requests\<close>

text \<open>A connection asks for a place in its worker's queue exactly when its schedule state turns to
  \<open>Queued\<close>; only \<open>beginWorkerProcessing\<close> and \<open>finishWorkerProcessing\<close> take it in and out of
  \<open>Processing\<close>.\<close>

definition request_inv :: "nat \<Rightarrow> bool \<Rightarrow> bool \<Rightarrow> bool \<Rightarrow> nat \<Rightarrow> 'w conn \<Rightarrow> bool" where
  "request_inv k processing asked owner a s \<longleftrightarrow> scheduled s = k + (if scheduleState s = Queued then 1 else 0) \<and>
     (scheduleState s = Processing \<longleftrightarrow> processing) \<and> (asked \<longrightarrow> scheduleState s \<noteq> Idle) \<and> onWorker s = owner \<and> connAddr s = a"

lemma request_cong:
  "request_inv k b ask ow a s \<Longrightarrow> scheduled s' = scheduled s \<Longrightarrow> scheduleState s' = scheduleState s \<Longrightarrow>
   onWorker s' = onWorker s \<Longrightarrow> connAddr s' = connAddr s \<Longrightarrow> request_inv k b ask ow a s'"
  by (simp add: request_inv_def)

lemma request_push: "preserves (request_inv k b ask ow a) (queueOperation oper)"
  by (auto simp: preserves_def queueOperation_def completeOperation_def scheduleIfIdle_def act_simps
      request_inv_def split: option.split)

lemma request_flush: "preserves (request_inv k b ask ow a) queueSendFlush"
  "preserves (request_inv k b ask ow a) queueStreamReceiveFlush"
  unfolding queueSendFlush_def queueStreamReceiveFlush_def assertWorkerOwner_def queueInternalOperation_def
  by (auto intro!: preserves_intros preserves_modify request_push simp: request_inv_def)

lemma request_received:
  "preserves (request_inv k b ask ow a) (receiveStreamDataCallback fin sid off data)"
  unfolding receiveStreamDataCallback_def appendReceivedStreamData_def markPeerFinished_def
    assertWorkerOwner_def modProto_def cb_fail_def cb_ok_def
  by (auto intro!: preserves_intros preserves_modify request_flush simp: request_inv_def)

lemma request_acked:
  "preserves (request_inv k b ask ow a) (acknowledgedStreamDataCallback sid off len)"
  unfolding acknowledgedStreamDataCallback_def markAcknowledged_def modProto_def cb_fail_def cb_ok_def
  by (auto intro!: preserves_intros preserves_modify simp: request_inv_def)

lemma request_queueReceive: "preserves (request_inv k b ask ow a) (queueReceive d)"
  unfolding queueReceive_def queueInternalOperation_def
  by (auto intro!: preserves_intros preserves_modify preserves_zoom request_push simp: request_inv_def)

interpretation request_plain: conn_plain E "\<lambda>_. ()" "\<lambda>_ _. True" "\<lambda>_ _ _ _. True" "request_inv k b ask ow a" for E k b ask ow a
  by unfold_locales
    (rule env_calls_trivial | erule preservesD [OF request_received]
      | erule preservesD [OF request_acked] | simp add: request_inv_def)+

interpretation request: conn_feeder E "\<lambda>_. ()" "\<lambda>_ _. True" "\<lambda>_ _ _ _. True" "request_inv k b ask ow a" for E k b ask ow a
  by unfold_locales
    (rule env_receives_trivial request_plain.writing request_flush request_queueReceive | simp add: request_inv_def)+

lemma request_internal: "preserves (request_inv k b ask ow a) (queueInternalOperation ty)"
  unfolding queueInternalOperation_def by (rule request_push)

interpretation request: conn_handlers E "\<lambda>_. ()" "\<lambda>_ _. True" "\<lambda>_ _ _ _. True" "request_inv k b ask ow a" for E k b ask ow a
proof unfold_locales
  show "preserves (request_inv k b ask ow a) processStreamReceive"
    unfolding processStreamReceive_def assertWorkerOwner_def modApp_def
    by (intro preserves_intros preserves_modify) (simp_all add: request_inv_def)
  show "preserves (request_inv k b ask ow a) (processReleaseStreamReceiveCredit E)"
    unfolding processReleaseStreamReceiveCredit_def assertWorkerOwner_def
    by (intro preserves_intros preserves_modify request_flush)
      (simp_all add: request_inv_def preserves_def act_simps)
qed (rule request_internal | simp add: request_inv_def)+

lemma request_processSend: "preserves (request_inv k b ask ow a) (processSend E oper)"
  unfolding processSend_def
  by (intro preserves_intros preserves_modify request.chooseStream_inv request_flush request_plain.publish_inv)
    (simp_all add: preserves_def act_simps request_inv_def)

lemma request_frame: "preserves (request_inv k b ask ow a) (completeOperation oper m)"
  "preserves (request_inv k b ask ow a) (setError m)"
  "preserves (request_inv k b ask ow a) (releaseTransport E)"
  "preserves (request_inv k b ask ow a) (modify (\<lambda>s. s\<lparr>stopped := True\<rparr>))"
  "preserves (request_inv k b ask ow a) (drainFailedOperations m)"
  "preserves (request_inv k b ask ow a) publishApplicationState"
  "preserves (request_inv k b ask ow a) assertWorkerOwner"
  unfolding completeOperation_def drainFailedOperations_def assertWorkerOwner_def
  by (rule request_plain.mark_inv request.releaseTransport_inv preserves_modify request_plain.publish_inv
      preserves_intros | (erule request_cong; simp split: option.split) | simp add: request_inv_def)+

lemma request_next: "preserves (request_inv k b ask ow a) (processNext E)"
proof -
  have "preserves (request_inv k b ask ow a) (processOperation E oper)" for oper
    by (cases "op_type oper = APISend")
      (simp_all add: processOperation_def request_processSend request.processOperation_inv [unfolded processOperation_def])
  then have attempt: "preserves (request_inv k b ask ow a) (tryOperation E oper)" for oper
    unfolding tryOperation_def failOperation_def
    by (intro preserves_intros request_frame) auto
  show ?thesis
    unfolding processNext_def
    by (auto intro!: preserves_intros preserves_modify attempt request_frame simp: request_inv_def split: option.split)
qed

lemma request_api:
  "preserves (request_inv k b ask ow a) (start_request g ag n)" "preserves (request_inv k b ask ow a) close_request"
  "preserves (request_inv k b ask ow a) (queueDataAsync d fin)" "preserves (request_inv k b ask ow a) takeReceivedStreamData"
  "preserves (request_inv k b ask ow a) (binding_onReceive d)" "preserves (request_inv k b ask ow a) queueTimerExpired"
  "preserves (request_inv k b ask ow a) (start_finish c)" "preserves (request_inv k b ask ow a) (close_finish c)"
  "preserves (request_inv k b ask ow a) (failFromRuntime E m)"
  unfolding start_request_def close_request_def queueDataAsync_def createSendOperation_def
    takeReceivedStreamData_def modApp_def binding_onReceive_def queueTimerExpired_def newCompletion_def
    start_finish_def close_finish_def failFromRuntime_def
  by (intro preserves_intros preserves_modify preserves_withIo detach_inv request_push request_internal
      request_queueReceive preserves_wait request_frame; simp add: request_inv_def)+

lemma request_call:
  assumes "c \<noteq> WorkerBegin" and "c \<noteq> WorkerFinish"
  shows "preserves (request_inv k b ask ow a) (run_call E c)"
  using assms by (cases c) (auto intro!: preserves_intros request_api request_next request_frame)

section \<open>The deadline\<close>

text \<open>What \<open>getNextExpiry\<close> returns on the worker.\<close>

definition conn_expiry :: "'w quic_env \<Rightarrow> 'w conn \<Rightarrow> timestamp" where
  "conn_expiry E s = (if stopped s then InfiniteTimestamp
     else min (if hasConn (proto s) then q_get_expiry E (world s) else InfiniteTimestamp) (sendRetryExpiry s))"

text \<open>Calls from outside leave it, and take nothing from the operation queue.\<close>

definition outside_inv :: "'w conn \<Rightarrow> 'w conn \<Rightarrow> bool" where
  "outside_inv s0 s \<longleftrightarrow> stopped s = stopped s0 \<and> proto s = proto s0 \<and> world s = world s0 \<and>
     sendRetryExpiry s = sendRetryExpiry s0 \<and> set (operationQueue s0) \<subseteq> set (operationQueue s)"

lemma outside_push: "preserves (outside_inv s0) (queueOperation oper)"
  by (auto simp: preserves_def queueOperation_def completeOperation_def scheduleIfIdle_def act_simps
      outside_inv_def queue_push_def world_def split: option.split)

lemma outside_withIo:
  assumes "\<And>t. io_world (snd (m t)) = io_world t"
  shows "preserves (outside_inv s0) (withIo m)"
  using assms by (auto simp: preserves_def withIo_def zoomA_def outside_inv_def world_def split: prod.splits)
    (metis snd_conv)+

lemma outside_binding:
  "preserves (outside_inv s0) (withIo (binding_attach self a this))"
  "preserves (outside_inv s0) (withIo (modify (binding_limitDatagramSize n)))"
  "preserves (outside_inv s0) detachBinding"
  unfolding detachBinding_def
  by (intro outside_withIo preserves_intros;
      auto simp: binding_attach_def binding_detach_def binding_limitDatagramSize_def modify_def split: prod.splits)+

lemma outside_modify:
  assumes "\<And>s. stopped (f s) = stopped s \<and> proto (f s) = proto s \<and> io (f s) = io s \<and>
    sendRetryExpiry (f s) = sendRetryExpiry s \<and> operationQueue (f s) = operationQueue s"
  shows "preserves (outside_inv s0) (modify f)"
  using assms by (simp add: preserves_def modify_def outside_inv_def world_def)

lemma outside_receive: "preserves (outside_inv s0) (queueReceive d)"
proof -
  have "preserves (outside_inv s0) (zoomA receiveBatch (\<lambda>b s. s\<lparr>receiveBatch := b\<rparr>) m)" for m
    by (auto simp: preserves_def zoomA_def outside_inv_def world_def split: prod.splits)
  then show ?thesis
    unfolding queueReceive_def queueInternalOperation_def
    by (intro preserves_intros outside_push outside_modify) simp_all
qed

lemma outside_api:
  "preserves (outside_inv s0) (start_request g ag n)" "preserves (outside_inv s0) close_request"
  "preserves (outside_inv s0) (queueDataAsync d fin)" "preserves (outside_inv s0) takeReceivedStreamData"
  "preserves (outside_inv s0) (binding_onReceive d)" "preserves (outside_inv s0) queueTimerExpired"
  "preserves (outside_inv s0) (start_finish c)" "preserves (outside_inv s0) (close_finish c)"
  unfolding start_request_def close_request_def queueDataAsync_def createSendOperation_def
    takeReceivedStreamData_def modApp_def binding_onReceive_def queueTimerExpired_def newCompletion_def
    start_finish_def close_finish_def queueInternalOperation_def
  by (intro preserves_intros outside_modify outside_binding outside_push outside_receive preserves_wait; simp)+

lemma outside_call: "\<not> by_worker c \<Longrightarrow> preserves (outside_inv s0) (run_call E c)"
  by (cases c) (auto intro!: preserves_intros outside_api)

lemma outside_expiry: "outside_inv s0 s \<Longrightarrow> conn_expiry E s = conn_expiry E s0"
  by (simp add: outside_inv_def conn_expiry_def)

section \<open>A worker's pass over one connection\<close>

text \<open>What it does between taking the connection and giving it back is a run of the connection.\<close>

lemma loop_reachable:
  "request_inv k b ask True a s \<Longrightarrow> conn_reachable E s0 s \<Longrightarrow> processLoop E n m s = (r, s') \<Longrightarrow> r \<noteq> Inl Undefined \<Longrightarrow>
   conn_reachable E s0 s' \<and> request_inv k b ask True a s' \<and> (\<exists>x. r = Inr x)"
proof (induction n arbitrary: m s)
  case 0
  then show ?case by (auto simp: act_simps)
next
  case (Suc n)
  obtain q t where one: "processNext E s = (q, t)" by fastforce
  have ow: "s\<lparr>onWorker := True\<rparr> = s" using Suc.prems(1) by (simp add: request_inv_def)
  have inv: "request_inv k b ask True a t" by (rule preservesD2 [OF request_next Suc.prems(1) one])
  show ?case
  proof (cases q)
    case (Inl e)
    then have "e = Undefined" using next_throws one by blast
    then show ?thesis using one Inl Suc.prems(3,4) by (auto simp: act_simps)
  next
    case (Inr l)
    then have "conn_step E s t"
      using one by (intro conn_step [of _ WorkerNext _ "Inr ()"]) (simp_all add: act_simps ow)
    then have reach: "conn_reachable E s0 t" using Suc.prems(2) by (rule conn_reachable.step [rotated])
    show ?thesis
    proof (cases l)
      case LoopNext
      then show ?thesis using Suc.IH [OF inv reach] Suc.prems(3,4) one Inr by (simp add: act_simps)
    qed (use Suc.prems(3) one Inr inv reach in \<open>auto simp: act_simps\<close>)
  qed
qed

lemma operations_reachable:
  assumes "request_inv k b ask True a s" and "conn_reachable E s0 s" and "processOperations E n s = (r, s')" and "r \<noteq> Inl Undefined"
  shows "conn_reachable E s0 s' \<and> request_inv k b ask True a s' \<and> (\<exists>x. r = Inr x)"
proof -
  obtain q t where loop: "processLoop E n 0 s = (q, t)" by fastforce
  have ow: "onWorker s" using assms(1) by (simp add: request_inv_def)
  then have "q \<noteq> Inl Undefined"
    using assms(3,4) loop by (auto simp: processOperations_def assertWorkerOwner_def act_simps)
  note t = loop_reachable [OF assms(1,2) loop this]
  obtain u where u: "publishApplicationState t = (Inr (), u)"
    by (auto simp: publishApplicationState_def act_simps)
  have "t\<lparr>onWorker := True\<rparr> = t" using t by (simp add: request_inv_def)
  then have "conn_step E t u" using u by (intro conn_step [of _ WorkerPublish _ "Inr ()"]) simp_all
  moreover have "request_inv k b ask True a u" by (rule preservesD2 [OF request_frame(6) _ u]) (use t in simp)
  moreover have "s' = u \<and> (\<exists>x. r = Inr x)"
    using assms(3) loop t u ow by (auto simp: processOperations_def assertWorkerOwner_def act_simps)
  ultimately show ?thesis using t by (auto intro: conn_reachable.step)
qed


lemma callOn_None: "objects w c = None \<Longrightarrow> callOn ow c m w = (Inl Undefined, w)"
  by (simp add: callOn_def)

lemma queue_many:
  "blockA (replicate n (queueConnection (Some c))) w =
     (Inr (), w\<lparr>conns := conns w @ replicate n c, ready := ready w \<or> 0 < n\<rparr>)"
proof (induction n arbitrary: w)
  case (Suc n)
  have "queueConnection (Some c) w = (Inr (), w\<lparr>conns := conns w @ [c], ready := True\<rparr>)"
    by (simp add: queueConnection_def deque_push_def event_set_def act_simps)
  then show ?case
    by (simp add: Suc.IH blockA_Cons del: blockA.simps)
qed (simp add: act_simps)

lemma callOn_Some:
  assumes "objects w c = Some s" and "m (s\<lparr>onWorker := ow\<rparr>) = (r, s')"
  shows "callOn ow c m w = (r, w\<lparr>objects := (objects w)(c \<mapsto> s'),
     conns := conns w @ replicate (scheduled s' - scheduled s) c,
     ready := ready w \<or> scheduled s < scheduled s'\<rparr>)"
  using assms by (simp add: callOn_def queue_many)

lemma callOn_quiet:
  assumes "objects w c = Some s" and "m (s\<lparr>onWorker := ow\<rparr>) = (r, s')" and "scheduled s' = scheduled s"
  shows "callOn ow c m w = (r, w\<lparr>objects := (objects w)(c \<mapsto> s')\<rparr>)"
  using callOn_Some [of w c s m ow r s'] assms by simp


text \<open>The whole of \<open>runConnection\<close>.\<close>

definition wheel_after :: "'w quic_env \<Rightarrow> nat \<Rightarrow> 'w conn \<Rightarrow> timer_wheel \<Rightarrow> timer_wheel" where
  "wheel_after E c s w = (if stopped s then wheel_remove (Some (connAddr s)) w
     else wheel_update (Some \<lparr>cr_addr = connAddr s, cr_id = c\<rparr>) (conn_expiry E s) w)"

lemma updateTimer_eq:
  assumes "objects w c = Some s" and "onWorker s"
  shows "updateTimer E c w = (Inr (), w\<lparr>timerWheel := wheel_after E c s (timerWheel w)\<rparr>)"
proof -
  have s: "s\<lparr>onWorker := True\<rparr> = s" using assms(2) by simp
  have same: "w\<lparr>objects := (objects w)(c \<mapsto> s)\<rparr> = w" using assms(1) by (simp add: fun_upd_idem)
  have 1: "callOn True c (gets isStopped) w = (Inr (stopped s), w)"
    "callOn True c (gets connAddr) w = (Inr (connAddr s), w)"
    using callOn_quiet [OF assms(1), of "gets isStopped" True "Inr (stopped s)" s]
      callOn_quiet [OF assms(1), of "gets connAddr" True "Inr (connAddr s)" s]
    by (simp_all add: s same gets_apply isStopped_def)
  have 2: "callOn True c (getNextExpiry E) w = (Inr (conn_expiry E s), w)"
    using callOn_quiet [OF assms(1), of "getNextExpiry E" True "Inr (conn_expiry E s)" s]
    by (simp add: s same getNextExpiry_def assertWorkerOwner_def act_simps assms(2) conn_expiry_def)
  show ?thesis
    by (simp add: updateTimer_def bindA_apply 1 2 modify_apply wheel_after_def)
qed

lemma finish_worker:
  assumes "request_inv k True ask True a s" and "conn_reachable E s0 s"
  shows "\<exists>s'. finishWorkerProcessing s = (Inr (), s') \<and> conn_reachable E s0 s' \<and>
    scheduled s' = scheduled s + (if operationQueue s = [] then 0 else 1) \<and>
    scheduleState s' = (if operationQueue s = [] then Idle else Queued) \<and>
    operationQueue s' = operationQueue s \<and> connAddr s' = a \<and>
    outside_inv s s'"
proof -
  define s' where "s' = snd (finishWorkerProcessing s)"
  have ow: "onWorker s" using assms(1) by (simp add: request_inv_def)
  then have run: "finishWorkerProcessing s = (Inr (), s')"
    by (auto simp: s'_def finishWorkerProcessing_def assertWorkerOwner_def scheduleIfIdle_def act_simps)
  have "s\<lparr>onWorker := True\<rparr> = s" using ow by simp
  with run have "conn_step E s s'"
    by (intro conn_step [of _ WorkerFinish _ "Inr ()"]) simp_all
  then show ?thesis
    using run assms ow
    by (auto simp: finishWorkerProcessing_def assertWorkerOwner_def scheduleIfIdle_def act_simps
        request_inv_def queue_empty_def outside_inv_def world_def intro: conn_reachable.step)
qed

lemma begin_worker:
  assumes "scheduleState s = Queued" and "0 < scheduled s" and "conn_reachable E s0 s"
  shows "\<exists>s'. beginWorkerProcessing (s\<lparr>onWorker := True\<rparr>) = (Inr (), s') \<and> conn_reachable E s0 s' \<and>
    request_inv (scheduled s) True True True (connAddr s) s'"
proof -
  have run: "beginWorkerProcessing (s\<lparr>onWorker := True\<rparr>) =
      (Inr (), s\<lparr>onWorker := True, scheduleState := Processing\<rparr>)"
    by (simp add: beginWorkerProcessing_def assertWorkerOwner_def act_simps)
  then have "conn_step E s (s\<lparr>onWorker := True, scheduleState := Processing\<rparr>)"
    by (intro conn_step [of _ WorkerBegin _ "Inr ()"]) simp_all
  then show ?thesis
    using run assms(3) by (auto simp: request_inv_def intro: conn_reachable.step)
qed

lemma runConnection_spec:
  assumes "objects w c = Some s" and "scheduleState s = Queued" and "0 < scheduled s"
    and "conn_reachable E s0 s" and "runConnection E c w = (r, w')" and "r \<noteq> Inl Undefined"
  shows "\<exists>s'. r = Inr () \<and> conn_reachable E s0 s' \<and> connAddr s' = connAddr s \<and>
    scheduleState s' = (if operationQueue s' = [] then Idle else Queued) \<and>
    (scheduleState s' = Queued \<longrightarrow> 0 < scheduled s') \<and>
    w' = w\<lparr>objects := (objects w)(c \<mapsto> s'), conns := conns w @ (if operationQueue s' = [] then [] else [c]),
      ready := ready w \<or> operationQueue s' \<noteq> [], timerWheel := wheel_after E c s' (timerWheel w)\<rparr>"
proof -
  obtain s1 where s1: "beginWorkerProcessing (s\<lparr>onWorker := True\<rparr>) = (Inr (), s1)"
      "conn_reachable E s0 s1" "request_inv (scheduled s) True True True (connAddr s) s1"
    using begin_worker [OF assms(2-4)] by blast
  let ?w1 = "w\<lparr>objects := (objects w)(c \<mapsto> s1)\<rparr>"
  have 1: "callOn True c beginWorkerProcessing w = (Inr (), ?w1)"
    by (rule callOn_quiet) (use assms(1) s1 in \<open>simp_all add: request_inv_def\<close>)
  obtain r2 s2 where run2: "processOperations E kConnectionOperationBudget s1 = (r2, s2)" by fastforce
  have ow1: "s1\<lparr>onWorker := True\<rparr> = s1" using s1(3) by (simp add: request_inv_def)
  have sched2: "scheduled s2 = scheduled s1" if "request_inv (scheduled s) True True True (connAddr s) s2"
    using s1(3) that by (simp add: request_inv_def)
  have defined2: "r2 \<noteq> Inl Undefined"
  proof
    assume "r2 = Inl Undefined"
    then have "fst (callOn True c (processOperations E kConnectionOperationBudget) ?w1) = Inl Undefined"
      using run2 by (simp add: callOn_def ow1)
    then show False
      using assms(5,6) 1
      by (auto simp: runConnection_def act_simps split: prod.splits sum.splits simp del: blockA.simps)
  qed
  note s2 = operations_reachable [OF s1(3,2) run2 defined2]
  let ?w2 = "w\<lparr>objects := (objects w)(c \<mapsto> s2)\<rparr>"
  have 2: "callOn True c (processOperations E kConnectionOperationBudget) ?w1 = (r2, ?w2)"
    using callOn_quiet [of ?w1 c s1 "processOperations E kConnectionOperationBudget" True r2 s2] run2 s2 ow1 sched2
    by simp
  let ?w3 = "?w2\<lparr>timerWheel := wheel_after E c s2 (timerWheel w)\<rparr>"
  have 3: "updateTimer E c ?w2 = (Inr (), ?w3)"
    using updateTimer_eq [of ?w2 c s2 E] s2 by (simp add: request_inv_def)
  obtain s' where s': "finishWorkerProcessing s2 = (Inr (), s')" "conn_reachable E s0 s'"
    "scheduled s' = scheduled s2 + (if operationQueue s2 = [] then 0 else 1)"
    "scheduleState s' = (if operationQueue s2 = [] then Idle else Queued)"
    "operationQueue s' = operationQueue s2" "connAddr s' = connAddr s" "outside_inv s2 s'"
    using finish_worker [of "scheduled s" True "connAddr s" s2 E s0] s2 by blast
  have ow2: "s2\<lparr>onWorker := True\<rparr> = s2" using s2 by (simp add: request_inv_def)
  have 4: "callOn True c finishWorkerProcessing ?w3 = (Inr (), ?w3\<lparr>objects := (objects w)(c \<mapsto> s'),
      conns := conns w @ (if operationQueue s' = [] then [] else [c]), ready := ready w \<or> operationQueue s' \<noteq> []\<rparr>)"
    using callOn_Some [of ?w3 c s2 finishWorkerProcessing True "Inr ()" s'] s' ow2 by simp
  have "wheel_after E c s2 = wheel_after E c s'"
    using s' s2 outside_expiry [OF s'(7), of E]
    by (simp add: wheel_after_def outside_inv_def request_inv_def fun_eq_iff)
  moreover have "runConnection E c w = (Inr (), snd (callOn True c finishWorkerProcessing ?w3))"
    using 1 2 3 4 s2 by (auto simp: runConnection_def act_simps simp del: blockA.simps)
  ultimately show ?thesis
    using assms(5) 4 s' by (intro exI [of _ s']) simp
qed


end
