(* ===== verification/Worker_Inv.thy ===== *)
theory Worker_Inv
  imports Worker_Frame
begin

text \<open>
  The worker between its rounds: runs of a worker with its connections, the invariant that ties the
  connection queue and the timer wheel to the connections, and what follows from it: nothing that a
  connection has to do is forgotten, no deadline is missed, connections take turns.
\<close>

section \<open>Runs\<close>

text \<open>What can happen between two rounds of the worker's loop: a connection is created, the
  application or a datagram calls one, the last reference to one goes, the worker ends its wait.\<close>

inductive outside_step :: "'w quic_env \<Rightarrow> 'w pool_worker \<Rightarrow> 'w pool_worker \<Rightarrow> bool" for E where
  w_create: "(\<And>d s. objects w d = Some s \<Longrightarrow> connAddr s \<noteq> addr) \<Longrightarrow>
    outside_step E w (w\<lparr>objects := (objects w)(next_id w \<mapsto> connection_new r cert key addr baddr rdy ag wd),
      next_id := Suc (next_id w)\<rparr>)"
| w_call: "\<not> by_worker cl \<Longrightarrow> callOn False c (run_call E cl) w = (r, w') \<Longrightarrow> r \<noteq> Inl Undefined \<Longrightarrow>
    outside_step E w w'"
| w_release: "c \<notin> set (conns w) \<Longrightarrow> outside_step E w (w\<lparr>objects := (objects w)(c := None)\<rparr>)"
| w_wake: "workerWake d t arrives w = (r, w') \<Longrightarrow> outside_step E w w'"

text \<open>Runs, with the number of the worker's rounds.\<close>

inductive worker_run :: "'w quic_env \<Rightarrow> nat \<Rightarrow> 'w pool_worker \<Rightarrow> 'w pool_worker \<Rightarrow> bool" for E where
  wr_nil: "worker_run E 0 w w"
| wr_pass: "worker_run E n w w' \<Longrightarrow> workerPass E now w' = (r, w'') \<Longrightarrow> r \<noteq> Inl Undefined \<Longrightarrow>
    worker_run E (Suc n) w w''"
| wr_other: "worker_run E n w w' \<Longrightarrow> outside_step E w' w'' \<Longrightarrow> worker_run E n w w''"

definition worker_reachable :: "'w quic_env \<Rightarrow> 'w pool_worker \<Rightarrow> bool" where
  "worker_reachable E w \<longleftrightarrow> (\<exists>i n. worker_run E n (worker_new i) w)"

section \<open>The invariant\<close>

definition conn_from :: "'w quic_env \<Rightarrow> 'w conn \<Rightarrow> bool" where
  "conn_from E s \<longleftrightarrow> (\<exists>r cert key addr baddr rdy ag wd.
     conn_reachable E (connection_new r cert key addr baddr rdy ag wd) s)"

lemma conn_from_queue: "conn_from E s \<Longrightarrow> queue_inv s"
  unfolding conn_from_def by (elim exE) (rule queue_inv_reachable)

definition timer_op :: "'w conn \<Rightarrow> bool" where
  "timer_op s \<longleftrightarrow> TimerExpired \<in> op_type ` set (operationQueue s)"

text \<open>The connection's place in the queue.\<close>

definition place_ok :: "nat list \<Rightarrow> nat \<Rightarrow> 'w conn \<Rightarrow> bool" where
  "place_ok q c s \<longleftrightarrow> scheduleState s \<noteq> Processing \<and>
     count_list q c = (if scheduleState s = Queued then 1 else 0) \<and> (scheduleState s = Queued \<longrightarrow> 0 < scheduled s)"

text \<open>Its deadline is in the wheel, or it has been taken out and the connection been told.\<close>

definition timer_ok :: "'w quic_env \<Rightarrow> timer_wheel \<Rightarrow> nat \<Rightarrow> 'w conn \<Rightarrow> bool" where
  "timer_ok E w c s \<longleftrightarrow> conn_expiry E s = InfiniteTimestamp \<or> timer_op s \<or>
     (connAddr s, \<lparr>te_conn = c, te_expiry = conn_expiry E s\<rparr>) \<in> set w"

text \<open>\<open>X\<close> are connections whose expiry is still to be reported.\<close>

definition objects_inv :: "'w quic_env \<Rightarrow> nat set \<Rightarrow> 'w pool_worker \<Rightarrow> bool" where
  "objects_inv E X w \<longleftrightarrow> (\<forall>c s. objects w c = Some s \<longrightarrow> c < next_id w \<and> conn_from E s \<and>
     place_ok (conns w) c s \<and> (c \<in> X \<or> timer_ok E (timerWheel w) c s))"

definition own_addrs :: "(nat \<Rightarrow> 'w conn option) \<Rightarrow> bool" where
  "own_addrs objs \<longleftrightarrow> (\<forall>c d s t. objs c = Some s \<and> objs d = Some t \<and> connAddr s = connAddr t \<longrightarrow> c = d)"

lemma own_addrsD: "own_addrs objs \<Longrightarrow> objs c = Some s \<Longrightarrow> objs d = Some t \<Longrightarrow> connAddr s = connAddr t \<Longrightarrow> c = d"
  unfolding own_addrs_def by blast

definition wheel_refs :: "'w quic_env \<Rightarrow> (nat \<Rightarrow> 'w conn option) \<Rightarrow> timer_wheel \<Rightarrow> nat \<Rightarrow> bool" where
  "wheel_refs E objs wheel n \<longleftrightarrow> wheel_ok wheel \<and> (\<forall>a e. (a, e) \<in> set wheel \<longrightarrow> te_conn e < n \<and>
     (\<forall>s. objs (te_conn e) = Some s \<longrightarrow> a = connAddr s \<and> te_expiry e = conn_expiry E s))"

lemma wheel_refsD:
  "wheel_refs E objs wheel n \<Longrightarrow> (a, e) \<in> set wheel \<Longrightarrow> objs (te_conn e) = Some s \<Longrightarrow>
     a = connAddr s \<and> te_expiry e = conn_expiry E s"
  unfolding wheel_refs_def by blast

lemma wheel_refs_id: "wheel_refs E objs wheel n \<Longrightarrow> (a, e) \<in> set wheel \<Longrightarrow> te_conn e < n"
  unfolding wheel_refs_def by blast

lemma alive_wheel [simp]: "alive (w\<lparr>timerWheel := x\<rparr>) = alive w"
  by (simp add: alive_def fun_eq_iff)

definition refs_inv :: "'w quic_env \<Rightarrow> (nat \<Rightarrow> 'w conn option) \<Rightarrow> nat list \<Rightarrow> timer_wheel \<Rightarrow> nat \<Rightarrow> bool" where
  "refs_inv E objs q wheel n \<longleftrightarrow> (\<forall>c \<in> set q. objs c \<noteq> None) \<and> own_addrs objs \<and> wheel_refs E objs wheel n"

definition worker_inv :: "'w quic_env \<Rightarrow> nat set \<Rightarrow> 'w pool_worker \<Rightarrow> bool" where
  "worker_inv E X w \<longleftrightarrow> objects_inv E X w \<and>
     refs_inv E (objects w) (conns w) (timerWheel w) (next_id w)"

lemma worker_inv_new: "worker_inv E X (worker_new i)"
  by (simp add: worker_inv_def objects_inv_def refs_inv_def own_addrs_def wheel_refs_def worker_new_def)

lemma worker_inv_cong:
  assumes "worker_inv E X w" and "conns w' = conns w" and "timerWheel w' = timerWheel w"
    and "objects w' = objects w" and "next_id w' = next_id w"
  shows "worker_inv E X w'"
  using assms by (simp add: worker_inv_def objects_inv_def refs_inv_def)

lemma own_addrs_update:
  "own_addrs objs \<Longrightarrow> objs c = Some s \<Longrightarrow> connAddr s' = connAddr s \<Longrightarrow> own_addrs (objs(c \<mapsto> s'))"
  unfolding own_addrs_def by (metis fun_upd_apply option.inject)

lemma wheel_refs_update:
  assumes "wheel_refs E objs wheel n" and "objs c = Some s" and "connAddr s' = connAddr s"
    and "conn_expiry E s' = conn_expiry E s"
  shows "wheel_refs E (objs(c \<mapsto> s')) wheel n"
  using assms unfolding wheel_refs_def by (metis fun_upd_apply option.inject)

lemma refs_inv_update:
  assumes "refs_inv E objs q wheel n" and "objs c = Some s" and "connAddr s' = connAddr s"
    and "conn_expiry E s' = conn_expiry E s" and "set q' \<subseteq> insert c (set q)"
  shows "refs_inv E (objs(c \<mapsto> s')) q' wheel n"
  using assms own_addrs_update wheel_refs_update unfolding refs_inv_def by fastforce

text \<open>A connection is replaced by what a call from outside, or the report of its expiry, makes of it.\<close>

lemma worker_inv_call:
  assumes inv: "worker_inv E X w" and c: "objects w c = Some s"
    and s': "conn_from E s'" "outside_inv s s'" "connAddr s' = connAddr s"
    and place: "request_inv (scheduled s - (if scheduleState s = Queued then 1 else 0)) False (scheduleState s = Queued) ow (connAddr s) s'"
    and Y: "Y = X \<or> Y = X - {c} \<and> timer_ok E (timerWheel w) c s'"
  shows "worker_inv E Y (w\<lparr>objects := (objects w)(c \<mapsto> s'),
     conns := conns w @ replicate (scheduled s' - scheduled s) c, ready := rd\<rparr>)"
proof -
  let ?w = "w\<lparr>objects := (objects w)(c \<mapsto> s'), conns := conns w @ replicate (scheduled s' - scheduled s) c, ready := rd\<rparr>"
  have ok: "c < next_id w" "place_ok (conns w) c s" "c \<in> X \<or> timer_ok E (timerWheel w) c s"
    using inv c by (simp_all add: worker_inv_def objects_inv_def)
  note expiry = outside_expiry [OF s'(2), of E]
  have "timer_ok E (timerWheel w) c s \<Longrightarrow> timer_ok E (timerWheel w) c s'"
    using s'(2,3) by (auto simp: timer_ok_def expiry timer_op_def outside_inv_def)
  then have t: "c \<in> Y \<or> timer_ok E (timerWheel w) c s'" using ok(3) Y by auto
  have p: "place_ok (conns ?w) c s'"
    using ok(2) place
    by (cases "scheduleState s'") (auto simp: place_ok_def request_inv_def count_list_append split: if_splits)
  have others: "d < next_id w \<and> conn_from E u \<and> place_ok (conns ?w) d u \<and> (d \<in> Y \<or> timer_ok E (timerWheel w) d u)"
    if "objects w d = Some u" and "d \<noteq> c" for d u
  proof -
    have "place_ok (conns w) d u \<and> d < next_id w \<and> conn_from E u \<and> (d \<in> X \<or> timer_ok E (timerWheel w) d u)"
      using inv that by (simp add: worker_inv_def objects_inv_def)
    moreover have "count_list (conns ?w) d = count_list (conns w) d"
      using that(2) by (simp add: count_list_append)
    ultimately show ?thesis using Y that(2) by (auto simp: place_ok_def)
  qed
  have "objects_inv E Y ?w"
    using others ok(1) p t s'(1) by (auto simp: objects_inv_def)
  moreover have "refs_inv E (objects ?w) (conns ?w) (timerWheel ?w) (next_id ?w)"
    using refs_inv_update [of E "objects w" "conns w" "timerWheel w" "next_id w" c s s' "conns ?w"] inv c s'(3) expiry
    by (simp add: worker_inv_def set_replicate_conv_if subset_insertI split: if_splits)
  ultimately show ?thesis by (simp add: worker_inv_def)
qed

lemma called_inv:
  assumes inv: "worker_inv E X w" and run: "callOn ow c (run_call E cl) w = (r, w')" and r: "r \<noteq> Inl Undefined"
    and cl: "\<not> by_worker cl \<or> cl = WorkerTimer" and ow: "ow = by_worker cl"
  shows "worker_inv E (if cl = WorkerTimer then X - {c} else X) w'"
proof -
  obtain s where c: "objects w c = Some s"
    using run r by (cases "objects w c") (simp_all add: callOn_None)
  obtain s' where m: "run_call E cl (s\<lparr>onWorker := ow\<rparr>) = (r, s')" and w': "w' = w\<lparr>objects := (objects w)(c \<mapsto> s'),
     conns := conns w @ replicate (scheduled s' - scheduled s) c, ready := ready w \<or> scheduled s < scheduled s'\<rparr>"
    using callOn_Some [OF c, of "run_call E cl" ow] run by (cases "run_call E cl (s\<lparr>onWorker := ow\<rparr>)") auto
  have ok: "place_ok (conns w) c s" "conn_from E s"
    using inv c by (simp_all add: worker_inv_def objects_inv_def)
  have from_s: "conn_from E s'"
  proof -
    have "conn_step E s s'" using conn_step [OF _ r] m ow by simp
    then show ?thesis using ok(2) unfolding conn_from_def by (meson conn_reachable.step)
  qed
  have out: "outside_inv s s'"
  proof -
    have "preserves (outside_inv s) (run_call E cl)"
      using cl outside_call outside_api(6) by auto
    then have "outside_inv s (snd (run_call E cl (s\<lparr>onWorker := ow\<rparr>)))"
      by (rule preservesD) (simp add: outside_inv_def world_def)
    then show ?thesis using m by simp
  qed
  have req: "request_inv (scheduled s - (if scheduleState s = Queued then 1 else 0)) False (scheduleState s = Queued) ow (connAddr s) s'"
  proof (rule preservesD2 [OF request_call _ m])
    show "request_inv (scheduled s - (if scheduleState s = Queued then 1 else 0)) False (scheduleState s = Queued) ow (connAddr s) (s\<lparr>onWorker := ow\<rparr>)"
      using ok(1) by (auto simp: request_inv_def place_ok_def)
  qed (use cl in auto)
  have timer: "timer_ok E (timerWheel w) c s'" if "cl = WorkerTimer"
  proof (cases "stopped s")
    case True
    then have "stopped s'" using out by (simp add: outside_inv_def)
    then show ?thesis by (simp add: timer_ok_def conn_expiry_def)
  next
    case False
    then show ?thesis
      using m that by (auto simp: queueTimerExpired_def queueInternalOperation_def queueOperation_def
          scheduleIfIdle_def act_simps timer_ok_def timer_op_def queue_push_def operation_of_def)
  qed
  show ?thesis
    unfolding w' by (rule worker_inv_call [OF inv c from_s out _ req])
      (use req timer in \<open>auto simp: request_inv_def\<close>)
qed

section \<open>Each step keeps it\<close>

lemma wheel_refs_subset:
  "wheel_refs E objs wheel n \<Longrightarrow> set wheel' \<subseteq> set wheel \<Longrightarrow> wheel_ok wheel' \<Longrightarrow> wheel_refs E objs wheel' n"
  unfolding wheel_refs_def by blast

lemma take_expired_inv:
  assumes inv: "worker_inv E {} w"
    and take: "wheel_takeExpired (alive w) now (timerWheel w) = (expired, rest)"
  shows "worker_inv E (set expired) (w\<lparr>timerWheel := rest\<rparr>) \<and> (\<forall>c \<in> set expired. objects w c \<noteq> None)"
proof -
  have refs: "wheel_refs E (objects w) (timerWheel w) (next_id w)"
    using inv by (simp add: worker_inv_def refs_inv_def)
  then have ok: "wheel_ok (timerWheel w)" by (simp add: wheel_refs_def)
  have rest: "rest = filter (\<lambda>(k, e). alive w (te_conn e) \<and> now < te_expiry e) (timerWheel w)"
    and expired: "expired = map (\<lambda>(k, e). te_conn e) (filter (\<lambda>(k, e). alive w (te_conn e) \<and> te_expiry e \<le> now) (timerWheel w))"
    using wheel_takeExpired_rest [of "alive w" now "timerWheel w"]
      wheel_takeExpired_expired [of "alive w" now "timerWheel w"] take by simp_all
  have "wheel_ok rest" using wheel_ok_takeExpired [OF ok, of "alive w" now] take by simp
  then have refs': "wheel_refs E (objects w) rest (next_id w)"
    using wheel_refs_subset [OF refs] rest by auto
  have "c \<in> set expired \<or> timer_ok E rest c s" if "objects w c = Some s" for c s
  proof -
    have "timer_ok E (timerWheel w) c s" using inv that by (simp add: worker_inv_def objects_inv_def)
    moreover have "alive w c" using that by (simp add: alive_def)
    moreover have "c \<in> set expired \<or> (connAddr s, \<lparr>te_conn = c, te_expiry = conn_expiry E s\<rparr>) \<in> set rest"
      if "(connAddr s, \<lparr>te_conn = c, te_expiry = conn_expiry E s\<rparr>) \<in> set (timerWheel w)"
      using that \<open>alive w c\<close>
      by (cases "conn_expiry E s \<le> now") (force simp: rest expired image_iff not_le)+
    ultimately show ?thesis by (auto simp: timer_ok_def)
  qed
  then have "objects_inv E (set expired) (w\<lparr>timerWheel := rest\<rparr>)"
    using inv by (simp add: worker_inv_def objects_inv_def)
  moreover have "objects w c \<noteq> None" if "c \<in> set expired" for c
    using that by (auto simp: expired alive_def)
  ultimately show ?thesis
    using inv refs' by (simp add: worker_inv_def refs_inv_def)
qed

lemma alive_call:
  assumes "callOn ow c m w = (r, w')"
  obtains n where "alive w' = alive w" and "next_id w' = next_id w" and "timerWheel w' = timerWheel w"
    and "conns w' = conns w @ replicate n c"
  using assms
  by (cases "objects w c") (auto simp: callOn_def queue_many alive_def fun_eq_iff split: prod.splits)

lemma queueTimerExpired_returns: "fst (queueTimerExpired s) = Inr ()"
  by (auto simp: queueTimerExpired_def queueInternalOperation_def queueOperation_def completeOperation_def
      scheduleIfIdle_def act_simps)

lemma timers_inv:
  "worker_inv E (set cs) w \<Longrightarrow> (\<forall>c \<in> set cs. alive w c) \<Longrightarrow>
   \<exists>w' more. blockA (map (\<lambda>c. callOn True c queueTimerExpired) cs) w = (Inr (), w') \<and> worker_inv E {} w' \<and>
     alive w' = alive w \<and> timerWheel w' = timerWheel w \<and> conns w' = conns w @ more"
proof (induction cs arbitrary: w)
  case (Cons c cs)
  obtain r w1 where run: "callOn True c queueTimerExpired w = (r, w1)" by fastforce
  obtain s where s: "objects w c = Some s" using Cons.prems(2) by (auto simp: alive_def)
  obtain s' where "queueTimerExpired (s\<lparr>onWorker := True\<rparr>) = (Inr (), s')"
    using queueTimerExpired_returns by (metis prod.collapse)
  then have r: "r = Inr ()" using run s by (simp add: callOn_def)
  obtain n where w1: "alive w1 = alive w" "timerWheel w1 = timerWheel w" "conns w1 = conns w @ replicate n c"
    using run by (rule alive_call)
  have "worker_inv E (set (c # cs) - {c}) w1"
    using called_inv [OF Cons.prems(1), of True c WorkerTimer r w1] run r by simp
  then have "worker_inv E (set cs) w1"
    unfolding worker_inv_def objects_inv_def by auto
  then obtain w' more where "blockA (map (\<lambda>c. callOn True c queueTimerExpired) cs) w1 = (Inr (), w')"
    "worker_inv E {} w'" "alive w' = alive w1" "timerWheel w' = timerWheel w1" "conns w' = conns w1 @ more"
    using Cons.IH [of w1] Cons.prems(2) w1(1) by auto
  then show ?case
    using run r w1 by (intro exI [of _ w'] exI [of _ "replicate n c @ more"]) (simp add: blockA_Cons del: blockA.simps)
qed (simp add: act_simps)

lemma rest_later:
  assumes "wheel_ok w" and "now \<noteq> InfiniteTimestamp"
  shows "now < wheel_getNextExpiry a (snd (wheel_takeExpired a now w))"
  using getNextExpiry_le_iff [OF wheel_ok_takeExpired [OF assms(1), of a now] assms(2), of a]
  by (auto simp: wheel_takeExpired_rest not_le [symmetric])

lemma processTimers_inv:
  assumes "worker_inv E {} w"
  shows "\<exists>w' more. processTimers now w = (Inr (), w') \<and> worker_inv E {} w' \<and> conns w' = conns w @ more \<and>
    (now \<noteq> InfiniteTimestamp \<longrightarrow> now < nextDeadline w')"
proof -
  obtain expired rest where take: "wheel_takeExpired (alive w) now (timerWheel w) = (expired, rest)" by fastforce
  note inv = take_expired_inv [OF assms take]
  have "\<forall>c \<in> set expired. alive (w\<lparr>timerWheel := rest\<rparr>) c" using inv by (simp add: alive_def)
  from timers_inv [OF inv [THEN conjunct1] this]
  obtain w' more where w': "blockA (map (\<lambda>c. callOn True c queueTimerExpired) expired) (w\<lparr>timerWheel := rest\<rparr>) = (Inr (), w')"
    "worker_inv E {} w'" "alive w' = alive w" "timerWheel w' = rest" "conns w' = conns w @ more"
    by (auto simp: alive_def)
  have "wheel_ok (timerWheel w)" using assms by (simp add: worker_inv_def refs_inv_def wheel_refs_def)
  from rest_later [OF this, of now "alive w"] show ?thesis
    using w' take by (simp add: processTimers_def nextDeadline_def)
qed

lemma wheel_after_set:
  assumes "wheel_ok w"
  shows "set (wheel_after E c s w) = {p \<in> set w. fst p \<noteq> connAddr s} \<union>
    (if conn_expiry E s = InfiniteTimestamp then {}
     else {(connAddr s, \<lparr>te_conn = c, te_expiry = conn_expiry E s\<rparr>)})"
    and "wheel_ok (wheel_after E c s w)"
proof -
  have "stopped s \<Longrightarrow> conn_expiry E s = InfiniteTimestamp" by (simp add: conn_expiry_def)
  then show "set (wheel_after E c s w) = {p \<in> set w. fst p \<noteq> connAddr s} \<union>
    (if conn_expiry E s = InfiniteTimestamp then {}
     else {(connAddr s, \<lparr>te_conn = c, te_expiry = conn_expiry E s\<rparr>)})"
    using assms by (auto simp: wheel_after_def wheel_update_def wheel_remove_def wheel_ok_def
        set_wheel_erase set_wheel_assign)
  show "wheel_ok (wheel_after E c s w)"
    using assms by (simp add: wheel_after_def wheel_ok_remove wheel_ok_update)
qed

text \<open>The worker has taken \<open>c\<close> from the front of its queue and run it.\<close>

lemma run_inv:
  assumes inv: "worker_inv E {} w" and q: "conns w = c # cs"
    and run: "runConnection E c (w\<lparr>conns := cs\<rparr>) = (r, w')" and r: "r \<noteq> Inl Undefined"
  shows "\<exists>s'. r = Inr () \<and> worker_inv E {} w' \<and> objects w' c = Some s' \<and>
    conns w' = cs @ (if operationQueue s' = [] then [] else [c]) \<and>
    timerWheel w' = wheel_after E c s' (timerWheel w)"
proof -
  have objs: "objects_inv E {} w" and refs: "refs_inv E (objects w) (conns w) (timerWheel w) (next_id w)"
    using inv by (simp_all add: worker_inv_def)
  obtain s where s: "objects w c = Some s" using refs q by (auto simp: refs_inv_def)
  then have place: "place_ok (conns w) c s" and from_s: "conn_from E s" and id: "c < next_id w"
    using objs by (simp_all add: objects_inv_def)
  have one: "count_list (conns w) c = Suc (count_list cs c)" using q by simp
  then have queued: "scheduleState s = Queued" "0 < scheduled s" "count_list cs c = 0"
    using place by (auto simp: place_ok_def split: if_splits)
  obtain s0 where reach: "conn_reachable E s0 s" and s0: "\<And>u. conn_reachable E s0 u \<Longrightarrow> conn_from E u"
    using from_s unfolding conn_from_def by blast
  obtain s' where s': "r = Inr ()" "conn_reachable E s0 s'" "connAddr s' = connAddr s"
    "scheduleState s' = (if operationQueue s' = [] then Idle else Queued)"
    "scheduleState s' = Queued \<longrightarrow> 0 < scheduled s'"
    and w': "w' = w\<lparr>objects := (objects w)(c \<mapsto> s'), conns := cs @ (if operationQueue s' = [] then [] else [c]),
      ready := ready w \<or> operationQueue s' \<noteq> [], timerWheel := wheel_after E c s' (timerWheel w)\<rparr>"
    using runConnection_spec [OF _ queued(1,2) reach run r] s by auto
  have ok: "wheel_ok (timerWheel w)" using refs by (simp add: refs_inv_def wheel_refs_def)
  note wheel = wheel_after_set [OF ok, of E c s']
  have timer: "timer_ok E (timerWheel w') c s'"
    using wheel(1) w' by (simp add: timer_ok_def)
  have "d < next_id w \<and> conn_from E u \<and> place_ok (conns w') d u \<and> timer_ok E (timerWheel w') d u"
    if "objects w' d = Some u" for d u
  proof (cases "d = c")
    case True
    then show ?thesis
      using that s' queued(3) id s0 w' timer by (auto simp: place_ok_def count_list_append)
  next
    case False
    then have u: "objects w d = Some u" using that w' by simp
    then have "connAddr u \<noteq> connAddr s" using own_addrsD [OF _ u s] refs False by (auto simp: refs_inv_def)
    moreover have "count_list (conns w') d = count_list (conns w) d"
      using False q w' by (simp add: count_list_append)
    ultimately show ?thesis
      using objs u w' s'(3) by (auto simp: objects_inv_def place_ok_def timer_ok_def wheel)
  qed
  then have "objects_inv E {} w'" using w' by (simp add: objects_inv_def)
  moreover have "refs_inv E (objects w') (conns w') (timerWheel w') (next_id w')"
  proof -
    have "own_addrs (objects w')"
      using own_addrs_update [of "objects w" c s s', OF _ s s'(3)] refs w' by (simp add: refs_inv_def)
    moreover have "wheel_refs E (objects w') (timerWheel w') (next_id w')"
      unfolding wheel_refs_def
    proof (intro conjI allI impI)
      show "wheel_ok (timerWheel w')" using w' wheel(2) by simp
      fix a e assume e: "(a, e) \<in> set (timerWheel w')"
      then have old: "(a, e) \<in> set (timerWheel w) \<and> a \<noteq> connAddr s \<or> a = connAddr s \<and> e = \<lparr>te_conn = c, te_expiry = conn_expiry E s'\<rparr>"
        using w' wheel(1) s'(3) by (auto split: if_splits)
      have old_ref: "(a, e) \<in> set (timerWheel w) \<Longrightarrow> te_conn e < next_id w"
        using wheel_refs_id refs unfolding refs_inv_def by blast
      then show "te_conn e < next_id w'"
        using old id w' by auto
      fix u assume u: "objects w' (te_conn e) = Some u"
      have "a = connAddr u \<and> te_expiry e = conn_expiry E u"
      proof (cases "te_conn e = c")
        case True
        then have "u = s'" using u w' by simp
        moreover have "a = connAddr s \<and> te_expiry e = conn_expiry E s" if "(a, e) \<in> set (timerWheel w)"
          using wheel_refsD [OF _ that] refs s True unfolding refs_inv_def by blast
        ultimately show ?thesis using old s'(3) by auto
      next
        case False
        then have "objects w (te_conn e) = Some u" using u w' by simp
        moreover have "(a, e) \<in> set (timerWheel w)" using old False by auto
        ultimately show ?thesis
          using wheel_refsD refs unfolding refs_inv_def by blast
      qed
      then show "a = connAddr u" and "te_expiry e = conn_expiry E u" by simp_all
    qed
    ultimately show ?thesis
      using refs q w' s by (auto simp: refs_inv_def)
  qed
  ultimately show ?thesis using s'(1) w' by (auto simp: worker_inv_def)
qed


lemma pass_cases:
  assumes inv: "worker_inv E {} w" and run: "workerPass E now w = (r, w')" and r: "r \<noteq> Inl Undefined"
  shows "\<exists>w1 more. worker_inv E {} w1 \<and> conns w1 = conns w @ more \<and> worker_inv E {} w' \<and>
    (case conns w1 of
       [] \<Rightarrow> w' = w1 \<and> r = Inr (Some (nextDeadline w1)) \<and> (now \<noteq> InfiniteTimestamp \<longrightarrow> now < nextDeadline w1)
     | c # cs \<Rightarrow> r = Inr None \<and> (\<exists>s'. objects w' c = Some s' \<and>
         conns w' = cs @ (if operationQueue s' = [] then [] else [c]) \<and>
         timerWheel w' = wheel_after E c s' (timerWheel w1)))"
proof -
  define w1 where "w1 = (if nextDeadline w \<le> now then snd (processTimers now w) else w)"
  obtain more where w1: "whenA (nextDeadline w \<le> now) (processTimers now) w = (Inr (), w1)"
    and inv1: "worker_inv E {} w1" and more: "conns w1 = conns w @ more"
    and due: "now \<noteq> InfiniteTimestamp \<longrightarrow> now < nextDeadline w1"
  proof (cases "nextDeadline w \<le> now")
    case True
    then show ?thesis using that processTimers_inv [OF inv, of now] by (auto simp: w1_def act_simps)
  next
    case False
    moreover from this have "now < nextDeadline w" by (simp add: not_le)
    ultimately show ?thesis using that [of "[]"] inv by (simp add: w1_def act_simps)
  qed
  show ?thesis
  proof (cases "conns w1")
    case Nil
    then have "w' = w1 \<and> r = Inr (Some (nextDeadline w1))"
      using run w1 by (auto simp: workerPass_def act_simps popConnection_def deque_pop_def)
    then show ?thesis using Nil inv1 more due by (intro exI [of _ w1] exI [of _ more]) simp
  next
    case (Cons c cs)
    obtain r1 where r1: "runConnection E c (w1\<lparr>conns := cs\<rparr>) = (r1, w')" "r1 = Inl e \<Longrightarrow> r = Inl e"
      "r1 = Inr () \<Longrightarrow> r = Inr None" for e
      using run w1 Cons
      by (cases "runConnection E c (w1\<lparr>conns := cs\<rparr>)")
        (auto simp: workerPass_def act_simps popConnection_def deque_pop_def split: sum.splits)
    then have "r1 \<noteq> Inl Undefined" using r by blast
    from run_inv [OF inv1 Cons r1(1) this] show ?thesis
      using Cons more inv1 r1(3) by (intro exI [of _ w1] exI [of _ more]) auto
  qed
qed

lemma pass_inv: "worker_inv E {} w \<Longrightarrow> workerPass E now w = (r, w') \<Longrightarrow> r \<noteq> Inl Undefined \<Longrightarrow> worker_inv E {} w'"
  using pass_cases by blast

lemma create_inv:
  assumes inv: "worker_inv E {} w" and fresh: "\<And>d s. objects w d = Some s \<Longrightarrow> connAddr s \<noteq> addr"
  shows "worker_inv E {} (w\<lparr>objects := (objects w)(next_id w \<mapsto> connection_new r cert key addr baddr rdy ag wd),
      next_id := Suc (next_id w)\<rparr>)"
proof -
  let ?s = "connection_new r cert key addr baddr rdy ag wd"
  have objs: "objects_inv E {} w" and q: "\<forall>c \<in> set (conns w). objects w c \<noteq> None"
    and own: "own_addrs (objects w)" and wheel: "wheel_refs E (objects w) (timerWheel w) (next_id w)"
    using inv by (simp_all add: worker_inv_def refs_inv_def)
  have new: "objects w (next_id w) = None"
    using objs by (cases "objects w (next_id w)") (auto simp: objects_inv_def)
  then have out: "next_id w \<notin> set (conns w)" using q by auto
  have "conn_from E ?s" unfolding conn_from_def by (blast intro: conn_reachable.init)
  moreover have "place_ok (conns w) (next_id w) ?s"
    using out by (simp add: place_ok_def connection_new_def count_list_0_iff)
  moreover have "timer_ok E (timerWheel w) (next_id w) ?s"
    by (simp add: timer_ok_def conn_expiry_def connection_new_def proto_new_def)
  ultimately have "objects_inv E {} (w\<lparr>objects := (objects w)(next_id w \<mapsto> ?s), next_id := Suc (next_id w)\<rparr>)"
    using objs by (auto simp: objects_inv_def less_Suc_eq)
  moreover have "own_addrs ((objects w)(next_id w \<mapsto> ?s))"
    using own fresh unfolding own_addrs_def by (auto simp: connection_new_def split: if_splits)
  moreover have "wheel_refs E ((objects w)(next_id w \<mapsto> ?s)) (timerWheel w) (Suc (next_id w))"
    unfolding wheel_refs_def
  proof (intro conjI allI impI)
    show "wheel_ok (timerWheel w)" using wheel by (simp add: wheel_refs_def)
    fix a e assume e: "(a, e) \<in> set (timerWheel w)"
    then show "te_conn e < Suc (next_id w)" using wheel_refs_id [OF wheel e] by simp
    fix u assume "((objects w)(next_id w \<mapsto> ?s)) (te_conn e) = Some u"
    then have "objects w (te_conn e) = Some u" using wheel_refs_id [OF wheel e] by simp
    from wheel_refsD [OF wheel e this] show "a = connAddr u" "te_expiry e = conn_expiry E u" by simp_all
  qed
  ultimately show ?thesis using q by (simp add: worker_inv_def refs_inv_def)
qed

lemma release_inv:
  assumes "worker_inv E {} w" and "c \<notin> set (conns w)"
  shows "worker_inv E {} (w\<lparr>objects := (objects w)(c := None)\<rparr>)"
proof -
  have "own_addrs (objects w) \<Longrightarrow> own_addrs ((objects w)(c := None))"
    unfolding own_addrs_def by (metis fun_upd_apply option.distinct(1))
  moreover have "wheel_refs E (objects w) wh n \<Longrightarrow> wheel_refs E ((objects w)(c := None)) wh n" for wh n
    unfolding wheel_refs_def by (metis fun_upd_apply option.distinct(1))
  ultimately show ?thesis
    using assms unfolding worker_inv_def refs_inv_def objects_inv_def by auto
qed

lemma outside_step_inv: "outside_step E w w' \<Longrightarrow> worker_inv E {} w \<Longrightarrow> worker_inv E {} w'"
proof (induction rule: outside_step.induct)
  case (w_create w addr r cert key baddr rdy ag wd)
  then show ?case by (intro create_inv)
next
  case (w_call cl c w r w')
  then show ?case
    using called_inv [of E "{}" w False c cl r w'] by (cases "cl = WorkerTimer") auto
next
  case (w_release c w)
  then show ?case by (intro release_inv)
next
  case (w_wake d t arrives w r w')
  then show ?case
    by (auto simp: workerWake_def intro: worker_inv_cong split: option.splits prod.splits)
qed

lemma worker_run_inv: "worker_run E n w w' \<Longrightarrow> worker_inv E {} w \<Longrightarrow> worker_inv E {} w'"
  by (induction rule: worker_run.induct) (auto intro: pass_inv outside_step_inv)

lemma worker_reachable_inv: "worker_reachable E w \<Longrightarrow> worker_inv E {} w"
  unfolding worker_reachable_def using worker_run_inv worker_inv_new by blast

section \<open>Properties\<close>

text \<open>C6. A worker serves all that its connections have to do. At every point of a run of a worker
  with any number of connections, created, called and released at will: each connection is as its
  own calls alone could have made it, so that every property of a single connection holds of it; one
  with queued operations stands in the worker's queue exactly once; one that is not stopped and has
  a deadline has exactly this deadline in the timer wheel or has been queued an expiry it has not yet processed.\<close>

theorem worker_serves_connections:
  assumes "worker_reachable E w" and "objects w c = Some s"
  shows "(\<exists>r cert key addr baddr rdy ag wd. conn_reachable E (connection_new r cert key addr baddr rdy ag wd) s) \<and>
    (operationQueue s \<noteq> [] \<longrightarrow> count_list (conns w) c = 1) \<and>
    (\<not> stopped s \<and> conn_expiry E s \<noteq> InfiniteTimestamp \<longrightarrow>
      (connAddr s, \<lparr>te_conn = c, te_expiry = conn_expiry E s\<rparr>) \<in> set (timerWheel w) \<or>
      (TimerExpired \<in> op_type ` set (operationQueue s) \<and> count_list (conns w) c = 1))"
proof -
  have inv: "conn_from E s" "place_ok (conns w) c s" "timer_ok E (timerWheel w) c s"
    using worker_reachable_inv [OF assms(1)] assms(2) by (auto simp: worker_inv_def objects_inv_def)
  have "queue_inv s" using inv(1) by (rule conn_from_queue)
  then have "scheduleState s \<noteq> Idle" if "operationQueue s \<noteq> []"
    using that by (simp add: queue_inv_def sched_inv_def)
  then have busy: "count_list (conns w) c = 1" if "operationQueue s \<noteq> []"
    using that inv(2) by (cases "scheduleState s") (auto simp: place_ok_def)
  have "timer_op s \<Longrightarrow> operationQueue s \<noteq> []" by (auto simp: timer_op_def)
  then show ?thesis
    using inv busy unfolding conn_from_def timer_ok_def by (auto simp: timer_op_def)
qed

text \<open>C25. No exception leaves a worker's round, whatever its connections meet and whatever the external
  code answers: the round ends normally or, if the environment makes the program do what the
  standard leaves undefined, in that. A round that finds no connection to run goes to sleep with a
  deadline that is not later than that of any of its connections and still ahead of it.\<close>

theorem round_never_throws:
  assumes "worker_reachable E w" and "workerPass E now w = (r, w')"
  shows "(\<forall>e. r = Inl e \<longrightarrow> e = Undefined) \<and>
    (\<forall>d. r = Inr (Some d) \<longrightarrow> conns w' = [] \<and> (now \<noteq> InfiniteTimestamp \<longrightarrow> now < d) \<and>
      (\<forall>c s. objects w' c = Some s \<longrightarrow> operationQueue s = [] \<and> d \<le> conn_expiry E s))"
proof (cases "r = Inl Undefined")
  case False
  note inv = worker_reachable_inv [OF assms(1)]
  obtain w1 more where w1: "worker_inv E {} w'" and c: "case conns w1 of
       [] \<Rightarrow> w' = w1 \<and> r = Inr (Some (nextDeadline w1)) \<and> (now \<noteq> InfiniteTimestamp \<longrightarrow> now < nextDeadline w1)
     | c # cs \<Rightarrow> r = Inr None \<and> (\<exists>s'. objects w' c = Some s' \<and>
         conns w' = cs @ (if operationQueue s' = [] then [] else [c]) \<and>
         timerWheel w' = wheel_after E c s' (timerWheel w1))"
    using pass_cases [OF inv assms(2) False] by blast
  show ?thesis
  proof (cases "conns w1")
    case Nil
    have "operationQueue s = [] \<and> nextDeadline w' \<le> conn_expiry E s" if s: "objects w' c = Some s" for c s
    proof -
      have ok: "conn_from E s" "place_ok (conns w') c s" "timer_ok E (timerWheel w') c s"
        using w1 s by (auto simp: worker_inv_def objects_inv_def)
      have "queue_inv s" using ok(1) by (rule conn_from_queue)
      then have empty: "operationQueue s = []"
        using ok(2) Nil c by (cases "scheduleState s") (auto simp: place_ok_def queue_inv_def sched_inv_def)
      moreover have "alive w' c" using s by (simp add: alive_def)
      ultimately show ?thesis
        using ok(3) wheel_next_from_lower [of _ "\<lparr>te_conn = c, te_expiry = conn_expiry E s\<rparr>" "timerWheel w'" "alive w'"]
        by (auto simp: timer_ok_def timer_op_def nextDeadline_def wheel_getNextExpiry_def)
    qed
    then show ?thesis using Nil c by auto
  next
    case (Cons c cs)
    then show ?thesis using c by auto
  qed
qed auto


lemma outside_step_conns: "outside_step E w w' \<Longrightarrow> \<exists>more. conns w' = conns w @ more"
proof (induction rule: outside_step.induct)
  case (w_call cl c w r w')
  then show ?case by (auto elim: alive_call)
qed (auto simp: workerWake_def split: option.splits prod.splits)

lemma pass_front:
  assumes "worker_inv E {} w" and "workerPass E now w = (r, w')" and "r \<noteq> Inl Undefined" and "conns w = c # cs"
  shows "\<exists>more. conns w' = cs @ more"
  using pass_cases [OF assms(1-3)] assms(4) by auto

text \<open>C26. Connections take turns: a connection with \<open>k\<close> others before it in the worker's queue is at
  the front after \<open>k\<close> rounds, whatever is created, queued and released meanwhile and however much
  the others keep queueing.\<close>

theorem connections_take_turns:
  assumes "worker_reachable E w" and "conns w = xs @ c # ys" and "worker_run E n w w'" and "n \<le> length xs"
  shows "\<exists>zs. conns w' = drop n xs @ c # zs"
  using assms(3,1,2,4)
proof (induction rule: worker_run.induct)
  case (wr_pass n w w' now r w'')
  then obtain zs where zs: "conns w' = drop n xs @ c # zs" by auto
  obtain x where "drop n xs = x # drop (Suc n) xs"
    using wr_pass.prems(3) by (metis Cons_nth_drop_Suc Suc_le_lessD)
  moreover have "worker_inv E {} w'"
    using worker_run_inv wr_pass.hyps(1) worker_reachable_inv wr_pass.prems(1) by blast
  ultimately show ?case
    using pass_front [OF _ wr_pass.hyps(2,3)] zs by fastforce
next
  case (wr_other n w w' w'')
  then show ?case using outside_step_conns [OF wr_other.hyps(2)] by fastforce
qed simp

lemma try_failed_empty:
  assumes "tryOperation E oper u = (Inr False, t)"
  shows "operationQueue t = []"
proof -
  obtain e u' where fail: "failOperation E oper e u' = (Inr False, t)"
    using assms unfolding tryOperation_def
    by (auto simp: act_simps simp del: blockA.simps split: prod.splits sum.splits)
  then have "e \<noteq> Undefined" by (auto simp: failOperation_def act_simps)
  from fail_result [OF this fail] show ?thesis by simp
qed

lemma loop_budget:
  "processLoop E n k s = (Inr m, s') \<Longrightarrow> m \<le> k + n \<and> (m = k + n \<or> operationQueue s' = [])"
proof (induction n arbitrary: k s)
  case (Suc n)
  then obtain l t where one: "processNext E s = (Inr l, t)"
    by (auto simp: act_simps split: prod.splits sum.splits)
  show ?case
  proof (cases l)
    case LoopNext
    then show ?thesis using Suc.IH [of "k + 1" t] Suc.prems one by (simp add: act_simps)
  next
    case LoopEmpty
    then show ?thesis
      using one Suc.prems by (auto simp: act_simps elim: processNext_cases)
  next
    case LoopFailed
    then have "operationQueue t = []"
      using one by (auto elim!: processNext_cases dest: try_failed_empty)
    then show ?thesis using one LoopFailed Suc.prems by (auto simp: act_simps)
  next
    case LoopStopped
    then have "operationQueue t = []"
      using one by (auto elim!: processNext_cases simp: drainFailedOperations_def act_simps)
    then show ?thesis using one LoopStopped Suc.prems by (auto simp: act_simps)
  qed
qed (auto simp: act_simps)


text \<open>A round is bounded and makes progress: it processes at most 64 operations of the connection,
  and when it processes fewer it leaves the connection's queue empty.\<close>

theorem pass_within_budget:
  assumes "onWorker s" and "processOperations E kConnectionOperationBudget s = (Inr k, s')"
  shows "k \<le> 64 \<and> (k < 64 \<longrightarrow> operationQueue s' = [])"
proof -
  obtain s1 where "processLoop E kConnectionOperationBudget 0 s = (Inr k, s1)" and "operationQueue s' = operationQueue s1"
    using assms
    by (auto simp: processOperations_def assertWorkerOwner_def act_simps publishApplicationState_def
        Let_def split: prod.splits sum.splits)
  then show ?thesis using loop_budget [of E kConnectionOperationBudget 0 s k s1]
    by (auto simp: kConnectionOperationBudget_def)
qed

section \<open>Stopping\<close>

lemma count_distinct: "(\<And>x. count_list xs x \<le> 1) \<Longrightarrow> distinct xs"
proof (induction xs)
  case (Cons y ys)
  have "count_list ys x \<le> 1" for x using Cons.prems [of x] by (auto split: if_splits)
  moreover have "y \<notin> set ys" using Cons.prems [of y] by (auto simp: count_list_0_iff)
  ultimately show ?case using Cons.IH by simp
qed simp

lemma fail_on_worker:
  assumes "queue_inv s" and "scheduleState s = Queued" and "0 < scheduled s"
  shows "\<exists>s'. failFromRuntime E m (s\<lparr>onWorker := True\<rparr>) = (Inr (), s') \<and> scheduled s' = scheduled s \<and>
    stopped s' \<and> operationQueue s' = [] \<and> all_completed (completions s')"
proof -
  obtain s' where run: "failFromRuntime E m (s\<lparr>onWorker := True\<rparr>) = (Inr (), s')"
    using fail_runtime_nothrow [of "s\<lparr>onWorker := True\<rparr>" E m] by auto
  have "comp_inv {} (s\<lparr>onWorker := True\<rparr>)" using assms(1) by (simp add: queue_inv_def comp_inv_def)
  from postD [OF failRuntime_comp this run] have "operationQueue s' = [] \<and> all_completed (completions s')" by simp
  moreover have "stopped s'"
    using run
    by (auto simp: failFromRuntime_def act_simps drainFailedOperations_def setError_def
        assertWorkerOwner_def split: if_splits prod.splits sum.splits)
  moreover have "request_inv (scheduled s - 1) False True True (connAddr s) s'"
    by (rule preservesD2 [OF request_api(9) _ run]) (use assms in \<open>simp add: request_inv_def\<close>)
  then have "scheduled s' = scheduled s"
    using assms(3) by (cases "scheduleState s'") (auto simp: request_inv_def)
  ultimately show ?thesis using run by blast
qed

lemma drain_all:
  "distinct (conns w) \<Longrightarrow> length (conns w) < n \<Longrightarrow>
   (\<forall>c \<in> set (conns w). \<exists>s. objects w c = Some s \<and> queue_inv s \<and> scheduleState s = Queued \<and> 0 < scheduled s) \<Longrightarrow>
   \<exists>w'. drainLoop E n w = (Inr True, w') \<and> conns w' = [] \<and>
     (\<forall>d. d \<notin> set (conns w) \<longrightarrow> objects w' d = objects w d) \<and>
     (\<forall>c \<in> set (conns w). \<exists>s'. objects w' c = Some s' \<and> stopped s' \<and> operationQueue s' = [] \<and>
        all_completed (completions s'))"
proof (induction n arbitrary: w)
  case (Suc n)
  show ?case
  proof (cases "conns w")
    case Nil
    then show ?thesis by (simp add: act_simps popConnection_def deque_pop_def)
  next
    case (Cons c cs)
    let ?w = "w\<lparr>conns := cs\<rparr>"
    obtain s where s: "objects w c = Some s" "queue_inv s" "scheduleState s = Queued" "0 < scheduled s"
      using Suc.prems(3) Cons by auto
    obtain s' where s': "failFromRuntime E ''QUIC worker stopped'' (s\<lparr>onWorker := True\<rparr>) = (Inr (), s')"
      "scheduled s' = scheduled s" "stopped s'" "operationQueue s' = []" "all_completed (completions s')"
      using fail_on_worker [OF s(2-4)] by blast
    let ?w1 = "?w\<lparr>objects := (objects w)(c \<mapsto> s')\<rparr>"
    have one: "callOn True c (failFromRuntime E ''QUIC worker stopped'') ?w = (Inr (), ?w1)"
      using callOn_quiet [of ?w c s "failFromRuntime E ''QUIC worker stopped''" True "Inr ()" s'] s s' by simp
    have c: "c \<notin> set cs" using Suc.prems(1) Cons by simp
    obtain w' where w': "drainLoop E n ?w1 = (Inr True, w')" "conns w' = []"
      "\<forall>d. d \<notin> set cs \<longrightarrow> objects w' d = ((objects w)(c \<mapsto> s')) d"
      "\<forall>c \<in> set cs. \<exists>s'. objects w' c = Some s' \<and> stopped s' \<and> operationQueue s' = [] \<and> all_completed (completions s')"
      using Suc.IH [of ?w1] Suc.prems Cons c by fastforce
    then have "drainLoop E (Suc n) w = (Inr True, w')"
      using Cons one by (simp add: act_simps popConnection_def deque_pop_def)
    then show ?thesis using w' Cons c s' by auto
  qed
qed simp

text \<open>C23. A worker that stops leaves no caller blocked: after its loop has ended, the final loop ends too,
  the connection queue is empty, and of every connection the worker has, also of those that were idle
  or still running, every completion ever handed out is done and no operation is left; those that still had work are stopped.\<close>

theorem stopped_worker_fails_waiters:
  assumes "worker_reachable E w" and "length (conns w) < n"
  shows "\<exists>w'. drainLoop E n w = (Inr True, w') \<and> conns w' = [] \<and>
    (\<forall>c s. objects w' c = Some s \<longrightarrow> operationQueue s = [] \<and> all_completed (completions s)) \<and>
    (\<forall>c \<in> set (conns w). \<exists>s. objects w' c = Some s \<and> stopped s)"
proof -
  note inv = worker_reachable_inv [OF assms(1)]
  have objs: "conn_from E s \<and> place_ok (conns w) c s" if "objects w c = Some s" for c s
    using inv that by (simp add: worker_inv_def objects_inv_def)
  have some: "\<exists>s. objects w c = Some s" if "c \<in> set (conns w)" for c
    using inv that by (auto simp: worker_inv_def refs_inv_def)
  have one: "count_list (conns w) c \<le> 1" for c
    using objs some by (cases "c \<in> set (conns w)") (fastforce simp: place_ok_def count_list_0_iff)+
  have ready: "\<exists>s. objects w c = Some s \<and> queue_inv s \<and> scheduleState s = Queued \<and> 0 < scheduled s"
    if c_in: "c \<in> set (conns w)" for c
  proof -
    obtain s where s: "objects w c = Some s" using some [OF c_in] by blast
    have "count_list (conns w) c \<noteq> 0" using c_in by (simp add: count_list_0_iff)
    then show ?thesis using objs [OF s] conn_from_queue s by (auto simp: place_ok_def split: if_splits)
  qed
  obtain w' where w': "drainLoop E n w = (Inr True, w')" "conns w' = []"
    "\<And>d. d \<notin> set (conns w) \<Longrightarrow> objects w' d = objects w d"
    "\<And>c. c \<in> set (conns w) \<Longrightarrow> \<exists>s'. objects w' c = Some s' \<and> stopped s' \<and> operationQueue s' = [] \<and>
        all_completed (completions s')"
    using drain_all [OF count_distinct [OF one] assms(2), of E] ready by blast
  have "operationQueue s = [] \<and> all_completed (completions s)" if "objects w' c = Some s" for c s
  proof (cases "c \<in> set (conns w)")
    case True
    then show ?thesis using w'(4) that by fastforce
  next
    case False
    then have s: "objects w c = Some s" using w'(3) that by simp
    have q: "queue_inv s" using objs [OF s] conn_from_queue by blast
    have "count_list (conns w) c = 0" using False by (simp add: count_list_0_iff)
    then have "operationQueue s = []"
      using objs [OF s] q by (cases "scheduleState s") (auto simp: place_ok_def queue_inv_def sched_inv_def)
    then show ?thesis using q by (auto simp: queue_inv_def comp_inv_def all_completed_def)
  qed
  then show ?thesis using w' by blast
qed


section \<open>Instances\<close>

text \<open>A worker with two connections, both asked to close.\<close>

definition demo_worker :: "bytes pool_worker" where
  "demo_worker = (worker_new 0)\<lparr>objects := [0 \<mapsto> connection_new Client ''PEM'' '''' 1 2 True demo_agents [],
     1 \<mapsto> connection_new Server ''PEM'' ''KEY'' 3 4 True demo_agents []], next_id := 2\<rparr>"

definition demo_closing :: "bytes pool_worker" where
  "demo_closing = snd (callOn False 1 (run_call demo_env CallClose) (snd (callOn False 0 (run_call demo_env CallClose) demo_worker)))"

lemma connection_new_addr [simp]: "connAddr (connection_new r cert key addr baddr rdy ag wd) = addr"
  by (simp add: connection_new_def)

lemma demo_worker_reachable: "worker_run demo_env 0 (worker_new 0) demo_worker"
proof -
  let ?w1 = "(worker_new 0)\<lparr>objects := [0 \<mapsto> connection_new Client ''PEM'' '''' 1 2 True demo_agents []], next_id := 1\<rparr> :: bytes pool_worker"
  have "outside_step demo_env (worker_new 0) ?w1"
    using w_create [of "worker_new 0 :: bytes pool_worker" 1 demo_env Client "''PEM''" "''''" 2 True demo_agents "[]"]
    by (simp add: worker_new_def)
  moreover have "connAddr s \<noteq> 3" if "objects ?w1 d = Some s" for d s
    using that by (auto split: if_splits)
  then have "outside_step demo_env ?w1 demo_worker"
    using w_create [of ?w1 3 demo_env Server "''PEM''" "''KEY''" 4 True demo_agents "[]"]
    by (simp add: demo_worker_def worker_new_def numeral_2_eq_2)
  ultimately show ?thesis by (blast intro: worker_run.intros)
qed

lemma demo_close_call:
  assumes "objects w c = Some s" and "\<not> stopped s" and "scheduleState s = Idle"
  shows "callOn False c (run_call demo_env CallClose) w = (Inr (), w\<lparr>objects := (objects w)(c \<mapsto>
      s\<lparr>onWorker := False, completions := completions s @ [completion_new],
        operationQueue := operationQueue s @ [(operation_of Shutdown)\<lparr>op_completion := Some (length (completions s))\<rparr>],
        scheduleState := Queued, scheduled := scheduled s + 1\<rparr>), conns := conns w @ [c], ready := True\<rparr>)"
  using callOn_Some [of w c s "run_call demo_env CallClose" False "Inr ()"] assms
  by (simp add: close_request_def newCompletion_def queueOperation_def scheduleIfIdle_def act_simps queue_push_def)

lemma demo_closing_reachable: "worker_run demo_env 0 (worker_new 0) demo_closing \<and> conns demo_closing = [0, 1] \<and>
    timerWheel demo_closing = [] \<and>
    (\<exists>s oper. objects demo_closing 0 = Some s \<and> operationQueue s = [oper] \<and> op_type oper = Shutdown)"
proof -
  obtain w1 where w1: "callOn False 0 (run_call demo_env CallClose) demo_worker = (Inr (), w1)"
    and s1: "objects w1 1 = Some (connection_new Server ''PEM'' ''KEY'' 3 4 True demo_agents [])"
    "conns w1 = [0]" "timerWheel w1 = []"
    "\<exists>s oper. objects w1 0 = Some s \<and> operationQueue s = [oper] \<and> op_type oper = Shutdown"
    using demo_close_call [of demo_worker 0]
    by (simp add: demo_worker_def worker_new_def connection_new_def operation_of_def)
  obtain w2 where w2: "callOn False 1 (run_call demo_env CallClose) w1 = (Inr (), w2)"
    and s2: "conns w2 = [0, 1]" "objects w2 0 = objects w1 0" "timerWheel w2 = []"
    using demo_close_call [OF s1(1)] s1(2,3) by (simp add: connection_new_def)
  have "worker_run demo_env 0 (worker_new 0) w2"
    using demo_worker_reachable w_call [of CallClose 0 demo_env] w_call [of CallClose 1 demo_env] w1 w2
    by (metis Inr_not_Inl by_worker.simps(4) wr_other)
  then show ?thesis using w1 w2 s1 s2 by (simp add: demo_closing_def)
qed

theorem worker_serves_connections_witness:
  "\<exists>s. objects demo_closing 0 = Some s \<and> operationQueue s \<noteq> [] \<and> count_list (conns demo_closing) 0 = 1"
proof -
  obtain s oper where s: "objects demo_closing 0 = Some s" "operationQueue s = [oper]"
    using demo_closing_reachable by blast
  have "worker_reachable demo_env demo_closing"
    using demo_closing_reachable unfolding worker_reachable_def by blast
  from worker_serves_connections [OF this s(1)] s show ?thesis by auto
qed

lemma demo_later: "\<not> InfiniteTimestamp \<le> (7 :: timestamp)"
proof
  assume "InfiniteTimestamp \<le> (7 :: timestamp)"
  then have "InfiniteTimestamp = (7 :: timestamp)" by (intro antisym) simp_all
  then show False by (simp add: InfiniteTimestamp_def)
qed

theorem round_never_throws_witness:
  "workerPass demo_env 7 demo_worker = (Inr (Some InfiniteTimestamp), demo_worker) \<and>
   (\<exists>s. objects demo_worker 1 = Some s \<and> InfiniteTimestamp \<le> conn_expiry demo_env s)"
proof -
  have r: "worker_reachable demo_env demo_worker"
    using demo_worker_reachable unfolding worker_reachable_def by blast
  have "nextDeadline demo_worker = InfiniteTimestamp"
    by (simp add: nextDeadline_def wheel_getNextExpiry_def demo_worker_def worker_new_def)
  moreover have "conns demo_worker = []" by (simp add: demo_worker_def worker_new_def)
  ultimately have pass: "workerPass demo_env 7 demo_worker = (Inr (Some InfiniteTimestamp), demo_worker)"
    using demo_later by (simp add: workerPass_def act_simps popConnection_def deque_pop_def)
  obtain s where "objects demo_worker 1 = Some s" by (simp add: demo_worker_def)
  with round_never_throws [OF r pass] pass show ?thesis by blast
qed

theorem stopped_worker_fails_waiters_witness:
  "\<exists>w' s. drainLoop demo_env 3 demo_closing = (Inr True, w') \<and> objects w' 1 = Some s \<and> stopped s \<and>
     all_completed (completions s)"
proof -
  have "worker_reachable demo_env demo_closing"
    using demo_closing_reachable unfolding worker_reachable_def by blast
  from stopped_worker_fails_waiters [OF this, of 3] demo_closing_reachable show ?thesis by fastforce
qed

theorem pass_within_budget_witness:
  "let s = (snd (run_call demo_env CallClose (demo_conn\<lparr>onWorker := False\<rparr>)))\<lparr>onWorker := True\<rparr> in
   operationQueue s \<noteq> [] \<and>
   (\<exists>s'. processOperations demo_env kConnectionOperationBudget s = (Inr 1, s') \<and> operationQueue s' = [])"
proof -
  let ?s = "(snd (run_call demo_env CallClose (demo_conn\<lparr>onWorker := False\<rparr>)))\<lparr>onWorker := True\<rparr>"
  have loop: "processLoop demo_env kConnectionOperationBudget 0 = processLoop demo_env (Suc 63) 0"
    by (simp add: kConnectionOperationBudget_def)
  obtain s' where run: "processOperations demo_env kConnectionOperationBudget ?s = (Inr 1, s')"
    unfolding processOperations_def loop processLoop.simps
    by (simp add: close_request_def demo_simps demo_conn_def processShutdown_def
        releaseTransport_def proto_new_def publishApplicationState_def drainFailedOperations_def Let_def)
  have "operationQueue ?s \<noteq> []"
    by (simp add: close_request_def demo_simps demo_conn_def)
  with pass_within_budget [OF _ run] run show ?thesis by (auto simp: Let_def)
qed

text \<open>A round that runs a connection with a queued shutdown.\<close>

lemma run_shutdown:
  assumes "objects w c = Some s" and "operationQueue s = [oper]" and "op_type oper = Shutdown"
    and "scheduleState s = Queued" and "0 < scheduled s" and "conn_reachable E s0 s"
  shows "\<exists>w'. runConnection E c w = (Inr (), w')"
proof -
  define s1 where "s1 = s\<lparr>onWorker := True, scheduleState := Processing\<rparr>"
  have ow1: "s1\<lparr>onWorker := True\<rparr> = s1" and s1_sched: "scheduled s1 = scheduled s" by (simp_all add: s1_def)
  obtain s2 where s2: "processNext E s1 = (Inr LoopStopped, s2)"
    using shutdown_next [of s1 oper "[]" E] assms(2,3) by (auto simp: s1_def)
  obtain s3 where s3: "publishApplicationState s2 = (Inr (), s3)"
    by (auto simp: publishApplicationState_def act_simps)
  have loop: "processLoop E kConnectionOperationBudget 0 = processLoop E (Suc 63) 0"
    by (simp add: kConnectionOperationBudget_def)
  have run: "processOperations E kConnectionOperationBudget s1 = (Inr 1, s3)"
    unfolding processOperations_def loop processLoop.simps
    using s2 s3 by (simp add: act_simps assertWorkerOwner_def s1_def)
  have begin_s: "beginWorkerProcessing (s\<lparr>onWorker := True\<rparr>) = (Inr (), s1)"
    by (simp add: beginWorkerProcessing_def assertWorkerOwner_def act_simps s1_def)
  then have "conn_step E s s1" by (intro conn_step [of _ WorkerBegin _ "Inr ()"]) simp_all
  then have reach: "conn_reachable E s0 s1" using assms(6) by (rule conn_reachable.step [rotated])
  have "request_inv (scheduled s) True True True (connAddr s) s1" by (simp add: request_inv_def s1_def)
  note s3' = operations_reachable [OF this reach run]
  let ?w1 = "w\<lparr>objects := (objects w)(c \<mapsto> s1)\<rparr>" and ?w2 = "w\<lparr>objects := (objects w)(c \<mapsto> s3)\<rparr>"
  have 1: "callOn True c beginWorkerProcessing w = (Inr (), ?w1)"
    by (rule callOn_quiet [OF assms(1)]) (simp_all add: begin_s, simp add: s1_def)
  have 2: "callOn True c (processOperations E kConnectionOperationBudget) ?w1 = (Inr 1, ?w2)"
    using callOn_quiet [of ?w1 c s1 "processOperations E kConnectionOperationBudget" True "Inr 1" s3] run s3' ow1 s1_sched
    by (simp add: request_inv_def)
  have 3: "updateTimer E c ?w2 = (Inr (), ?w2\<lparr>timerWheel := wheel_after E c s3 (timerWheel w)\<rparr>)"
    using updateTimer_eq [of ?w2 c s3 E] s3' by (simp add: request_inv_def)
  have "s3\<lparr>onWorker := True\<rparr> = s3" using s3' by (simp add: request_inv_def)
  then obtain s4 where 4: "finishWorkerProcessing (s3\<lparr>onWorker := True\<rparr>) = (Inr (), s4)"
    using finish_worker [of "scheduled s" True "connAddr s" s3 E s0] s3' by auto
  show ?thesis
    using 1 2 3 callOn_Some [of "?w2\<lparr>timerWheel := wheel_after E c s3 (timerWheel w)\<rparr>" c s3 finishWorkerProcessing True "Inr ()" s4] 4
    by (simp add: runConnection_def act_simps del: blockA.simps)
qed

theorem connections_take_turns_witness:
  "\<exists>w' zs. worker_run demo_env 1 demo_closing w' \<and> conns w' = 1 # zs"
proof -
  have reach: "worker_reachable demo_env demo_closing"
    using demo_closing_reachable unfolding worker_reachable_def by blast
  obtain s oper where q: "conns demo_closing = [0, 1]" and wheel: "timerWheel demo_closing = []"
    and s: "objects demo_closing 0 = Some s" "operationQueue s = [oper]" "op_type oper = Shutdown"
    using demo_closing_reachable by blast
  have "place_ok (conns demo_closing) 0 s" and from_s: "conn_from demo_env s"
    using worker_reachable_inv [OF reach] s(1) by (simp_all add: worker_inv_def objects_inv_def)
  then have "scheduleState s = Queued" "0 < scheduled s" by (auto simp: place_ok_def q split: if_splits)
  then obtain w' where w': "runConnection demo_env 0 (demo_closing\<lparr>conns := [1]\<rparr>) = (Inr (), w')"
    using run_shutdown [of "demo_closing\<lparr>conns := [1]\<rparr>" 0 s oper] s from_s unfolding conn_from_def by auto
  have "nextDeadline demo_closing = InfiniteTimestamp"
    by (simp add: nextDeadline_def wheel_getNextExpiry_def wheel)
  then have "workerPass demo_env 7 demo_closing = (Inr None, w')"
    using demo_later w' by (simp add: workerPass_def act_simps popConnection_def deque_pop_def q)
  then have "worker_run demo_env (Suc 0) demo_closing w'" by (rule wr_pass [OF wr_nil]) simp
  moreover from connections_take_turns [OF reach _ this, of "[0]" 1 "[]"] have "\<exists>zs. conns w' = 1 # zs"
    by (simp add: q)
  ultimately show ?thesis by auto
qed

end
