(* ===== verification/Node_Queue.thy ===== *)
theory Node_Queue
  imports Fifo
begin

text \<open>
  The singly linked queues of an agent (\<open>EventNode\<close> and \<open>ReceiveNode\<close> in \<open>native/P2P.c\<close>):
  nodes on the heap, a head and a tail pointer. They are refined to lists, as an instance of the
  queue contract; the nodes allocated are exactly those linked, so nothing leaks and nothing is freed twice.
\<close>

record 'a heap_node =
  item :: 'a
  next_node :: "nat option"

text \<open>\<open>fresh\<close> is an address the allocator has not given out yet.\<close>

record 'a node_queue =
  heap :: "nat \<Rightarrow> 'a heap_node option"
  head :: "nat option"
  tail :: "nat option"
  fresh :: nat

definition nodes_new :: "'a node_queue" where
  "nodes_new = \<lparr>heap = (\<lambda>_. None), head = None, tail = None, fresh = 0\<rparr>"

text \<open>The new node is linked behind the tail, or becomes the head, and becomes the tail.\<close>

definition nodes_push :: "'a \<Rightarrow> 'a node_queue \<Rightarrow> 'a node_queue" where
  "nodes_push x q =
     (let a = fresh q; h = (heap q)(a \<mapsto> \<lparr>item = x, next_node = None\<rparr>) in
      case tail q of
        Some t \<Rightarrow> q\<lparr>heap := (case h t of None \<Rightarrow> h | Some n \<Rightarrow> h(t \<mapsto> n\<lparr>next_node := Some a\<rparr>)), tail := Some a, fresh := Suc a\<rparr>
      | None \<Rightarrow> q\<lparr>heap := h, head := Some a, tail := Some a, fresh := Suc a\<rparr>)"

text \<open>The head is unlinked; its contents are handed out and the node is freed.\<close>

definition nodes_pop :: "'a node_queue \<Rightarrow> ('a \<times> 'a node_queue) option" where
  "nodes_pop q = (case head q of
       None \<Rightarrow> None
     | Some h \<Rightarrow> (case heap q h of
           None \<Rightarrow> None
         | Some n \<Rightarrow> Some (item n, q\<lparr>heap := (heap q)(h := None), head := next_node n,
             tail := (if next_node n = None then None else tail q)\<rparr>)))"

section \<open>The list it stands for\<close>

fun path :: "(nat \<Rightarrow> 'a heap_node option) \<Rightarrow> nat option \<Rightarrow> nat list \<Rightarrow> 'a list \<Rightarrow> bool" where
  "path h p [] xs \<longleftrightarrow> p = None \<and> xs = []"
| "path h p (a # as) xs \<longleftrightarrow> p = Some a \<and>
     (\<exists>n ys. h a = Some n \<and> xs = item n # ys \<and> path h (next_node n) as ys)"

fun walk :: "nat \<Rightarrow> (nat \<Rightarrow> 'a heap_node option) \<Rightarrow> nat option \<Rightarrow> 'a list" where
  "walk 0 h p = []"
| "walk (Suc n) h p = (case p of None \<Rightarrow> [] | Some a \<Rightarrow>
     (case h a of None \<Rightarrow> [] | Some m \<Rightarrow> item m # walk n h (next_node m)))"

definition nodes_elems :: "'a node_queue \<Rightarrow> 'a list" where
  "nodes_elems q = walk (fresh q) (heap q) (head q)"

definition nodes_rel :: "'a node_queue \<Rightarrow> nat list \<Rightarrow> 'a list \<Rightarrow> bool" where
  "nodes_rel q as xs \<longleftrightarrow> path (heap q) (head q) as xs \<and> distinct as \<and>
     tail q = (if as = [] then None else Some (last as)) \<and> dom (heap q) = set as \<and> (\<forall>a \<in> set as. a < fresh q)"

definition nodes_ok :: "'a node_queue \<Rightarrow> bool" where
  "nodes_ok q \<longleftrightarrow> (\<exists>as xs. nodes_rel q as xs)"

lemma path_walk: "path h p as xs \<Longrightarrow> length as \<le> n \<Longrightarrow> walk n h p = xs"
  by (induction n arbitrary: p as xs) (case_tac as; auto)+

lemma nodes_rel_elems:
  assumes "nodes_rel q as xs"
  shows "nodes_elems q = xs"
proof -
  have "set as \<subseteq> {..<fresh q}" using assms by (auto simp: nodes_rel_def)
  then have "card (set as) \<le> fresh q" using card_mono [of "{..<fresh q}"] by fastforce
  then have "length as \<le> fresh q" using assms by (simp add: nodes_rel_def distinct_card)
  then show ?thesis using assms path_walk unfolding nodes_rel_def nodes_elems_def by blast
qed

lemma path_frame: "path h p as xs \<Longrightarrow> (\<And>a. a \<in> set as \<Longrightarrow> h' a = h a) \<Longrightarrow> path h' p as xs"
  by (induction h p as xs rule: path.induct) auto

lemma path_length: "path h p as xs \<Longrightarrow> length xs = length as"
  by (induction h p as xs rule: path.induct) auto

text \<open>Linking a node behind the last one.\<close>

lemma path_snoc:
  assumes "path h p as xs" and "as \<noteq> []" and "distinct as" and "b \<notin> set as"
    and "h (last as) = Some n"
  shows "path (h(b \<mapsto> \<lparr>item = x, next_node = None\<rparr>, last as \<mapsto> n\<lparr>next_node := Some b\<rparr>)) p (as @ [b]) (xs @ [x])"
  using assms
proof (induction h p as xs rule: path.induct)
  case (2 h p a as xs)
  let ?h = "h(b \<mapsto> \<lparr>item = x, next_node = None\<rparr>, last (a # as) \<mapsto> n\<lparr>next_node := Some b\<rparr>)"
  obtain m ys where m: "h a = Some m" "xs = item m # ys" "path h (next_node m) as ys" "p = Some a"
    using 2(2) by auto
  show ?case
  proof (cases "as = []")
    case True
    then show ?thesis using m 2(5,6) by auto
  next
    case False
    define g where "g = h(b \<mapsto> \<lparr>item = x, next_node = None\<rparr>, last as \<mapsto> n\<lparr>next_node := Some b\<rparr>)"
    have "path g (next_node m) (as @ [b]) (ys @ [x])"
      unfolding g_def by (rule "2.IH") (use False m(3) 2(4-6) in auto)
    moreover have "g a = Some m" using False m(1) 2(4,5) by (auto simp: g_def)
    moreover have "?h = g" using False by (simp add: g_def)
    ultimately show ?thesis using m(2,4) by (metis append_Cons path.simps(2))
  qed
qed simp

lemma nodes_rel_new: "nodes_rel nodes_new [] []"
  by (simp add: nodes_rel_def nodes_new_def)

lemma nodes_rel_push:
  assumes "nodes_rel q as xs"
  shows "nodes_rel (nodes_push x q) (as @ [fresh q]) (xs @ [x])"
proof (cases "as = []")
  case True
  then show ?thesis
    using assms by (auto simp: nodes_rel_def nodes_push_def Let_def)
next
  case False
  have new: "fresh q \<notin> set as" using assms by (auto simp: nodes_rel_def)
  have "last as \<in> dom (heap q)" using assms False by (simp add: nodes_rel_def)
  then obtain n where n: "heap q (last as) = Some n" by auto
  have ne: "last as \<noteq> fresh q" using new last_in_set [OF False] by metis
  have "path ((heap q)(fresh q \<mapsto> \<lparr>item = x, next_node = None\<rparr>, last as \<mapsto> n\<lparr>next_node := Some (fresh q)\<rparr>))
      (head q) (as @ [fresh q]) (xs @ [x])"
    by (rule path_snoc) (use assms False new n in \<open>simp_all add: nodes_rel_def\<close>)
  then show ?thesis
    using assms False new n ne last_in_set [OF False]
    by (auto simp: nodes_rel_def nodes_push_def Let_def split: if_splits)
qed

lemma nodes_rel_pop:
  assumes "nodes_rel q as xs"
  shows "case xs of [] \<Rightarrow> nodes_pop q = None
    | x # ys \<Rightarrow> (\<exists>q'. nodes_pop q = Some (x, q') \<and> nodes_rel q' (tl as) ys)"
proof (cases as)
  case Nil
  then show ?thesis using assms by (simp add: nodes_rel_def nodes_pop_def)
next
  case (Cons a bs)
  obtain n ys where n: "heap q a = Some n" "xs = item n # ys" "path (heap q) (next_node n) bs ys" "head q = Some a"
    using assms Cons by (auto simp: nodes_rel_def)
  have a: "a \<notin> set bs" using assms Cons by (simp add: nodes_rel_def)
  have "path ((heap q)(a := None)) (next_node n) bs ys"
    by (rule path_frame [OF n(3)]) (use a in auto)
  moreover have "next_node n = None \<longleftrightarrow> bs = []" using n(3) by (cases bs) auto
  ultimately show ?thesis
    using assms Cons n a by (auto simp: nodes_rel_def nodes_pop_def)
qed

interpretation nodes: fifo nodes_new nodes_push nodes_pop nodes_elems nodes_ok
proof unfold_locales
  show "nodes_ok (nodes_new :: 'a node_queue)"
    using nodes_rel_new unfolding nodes_ok_def by blast
  show "nodes_elems (nodes_new :: 'a node_queue) = []"
    by (rule nodes_rel_elems [OF nodes_rel_new])
next
  fix q :: "'a node_queue" and x
  assume "nodes_ok q"
  then obtain as xs where r: "nodes_rel q as xs" by (auto simp: nodes_ok_def)
  note p = nodes_rel_push [OF r, of x]
  show "nodes_ok (nodes_push x q)" using p unfolding nodes_ok_def by blast
  show "nodes_elems (nodes_push x q) = nodes_elems q @ [x]"
    using nodes_rel_elems [OF p] nodes_rel_elems [OF r] by simp
next
  fix q :: "'a node_queue"
  assume "nodes_ok q"
  then obtain as xs where r: "nodes_rel q as xs" by (auto simp: nodes_ok_def)
  show "nodes_pop q = None \<longleftrightarrow> nodes_elems q = []"
    using nodes_rel_pop [OF r] nodes_rel_elems [OF r] by (auto split: list.splits)
next
  fix q q' :: "'a node_queue" and x
  assume "nodes_ok q" and pop: "nodes_pop q = Some (x, q')"
  then obtain as xs where r: "nodes_rel q as xs" by (auto simp: nodes_ok_def)
  obtain ys where "xs = x # ys" and r': "nodes_rel q' (tl as) ys"
    using nodes_rel_pop [OF r] pop by (cases xs) auto
  then show "nodes_ok q'" and "nodes_elems q = x # nodes_elems q'"
    using nodes_rel_elems [OF r] nodes_rel_elems [OF r'] unfolding nodes_ok_def by auto
qed

text \<open>An empty queue has no node left on the heap.\<close>

lemma nodes_empty_heap: "nodes_ok q \<Longrightarrow> nodes_elems q = [] \<Longrightarrow> heap q = Map.empty"
proof -
  assume "nodes_ok q" and e: "nodes_elems q = []"
  then obtain as xs where r: "nodes_rel q as xs" by (auto simp: nodes_ok_def)
  then have "xs = []" using e nodes_rel_elems by blast
  then have "as = []" using r path_length by (fastforce simp: nodes_rel_def)
  then show ?thesis using r by (simp add: nodes_rel_def)
qed

text \<open>Popping all, as the loops that free a queue do.\<close>

definition nodes_clear :: "'a node_queue \<Rightarrow> 'a list \<times> 'a node_queue" where
  "nodes_clear q = pop_many nodes_pop (length (nodes_elems q)) q"

lemma nodes_clear_spec:
  assumes "nodes_ok q"
  shows "fst (nodes_clear q) = nodes_elems q \<and> nodes_ok (snd (nodes_clear q)) \<and>
    nodes_elems (snd (nodes_clear q)) = [] \<and> heap (snd (nodes_clear q)) = Map.empty"
proof -
  obtain xs q' where p: "pop_many nodes_pop (length (nodes_elems q)) q = (xs, q')" by fastforce
  from nodes.pop_many_spec [OF assms p] show ?thesis
    using nodes_empty_heap [of q'] by (simp add: nodes_clear_def p)
qed

text \<open>The test the code makes for emptiness.\<close>

lemma head_elems: "nodes_ok q \<Longrightarrow> head q = None \<longleftrightarrow> nodes_elems q = []"
proof -
  assume "nodes_ok q"
  then obtain as xs where r: "nodes_rel q as xs" by (auto simp: nodes_ok_def)
  then have "head q = None \<longleftrightarrow> as = []" by (cases as) (auto simp: nodes_rel_def)
  moreover have "as = [] \<longleftrightarrow> xs = []" using r path_length [of "heap q" "head q" as xs] by (auto simp: nodes_rel_def)
  ultimately show ?thesis using nodes_rel_elems [OF r] by simp
qed

lemma pop_elems: "nodes_ok q \<Longrightarrow> nodes_pop q = (case nodes_elems q of [] \<Rightarrow> None | x # xs \<Rightarrow> Some (x, snd (the (nodes_pop q))))"
  using nodes.pop_None [of q] nodes.pop_Some [of q] by (cases "nodes_pop q") (auto split: list.splits)

end
