(* ===== verification/Agent.thy ===== *)
theory Agent
  imports Node_Queue Juice_Binding Platform "HOL-Library.Multiset"
begin

text \<open>
  Model of the agent object of \<open>native/P2P.c\<close>: what libjuice reports is queued for Python
  (\<open>queueEvent\<close>, \<open>queueReceive\<close>, \<open>onState\<close>, \<open>onCandidate\<close>, \<open>onGatheringDone\<close>,
  \<open>onReceive\<close>), consumers wait for it and take it (\<open>waitEvents\<close>, \<open>pollEvents\<close>,
  \<open>receiveFFLP2PAgentNative\<close>), and the object's life (\<open>initializeAgent\<close>, \<open>closeAgent\<close>,
  \<open>deallocateAgent\<close>).

  A section under \<open>self->lock\<close> is one step. The two wake tokens are Python locks used as binary
  events: \<open>eventAvailable\<close> and \<open>receiveAvailable\<close> are true while the lock is released, which
  is when a waiter can take it; \<open>None\<close> in a field of locks is the null pointer. The Python C API
  and libjuice are outside: whether an allocation succeeds is an argument.
\<close>

section \<open>The object\<close>

datatype event_kind = EVENT_STATE | EVENT_CANDIDATE | EVENT_GATHERING_DONE | EVENT_RECEIVE

record event_node =
  kind :: event_kind
  ev_state :: int
  ev_text :: "string option"
  ev_data :: bytes

text \<open>\<open>agent_lock\<close>, of the record this one extends, says whether \<open>lock\<close> is not null.\<close>

record agent_obj = agent +
  eventLock :: bool
  receiveLock :: bool
  eventAvailable :: bool
  receiveAvailable :: bool
  eventSignaled :: bool
  receiveSignaled :: bool
  events :: "event_node node_queue"
  receives :: "bytes node_queue"

text \<open>\<open>tp_alloc\<close> zeroes the object.\<close>

definition createP2PObject :: agent_obj where
  "createP2PObject = \<lparr>agent_juice = None, agent_lock = False, agent_closed = False, dataSink = None,
     dataSinkUserPtr = None, eventLock = False, receiveLock = False, eventAvailable = False,
     receiveAvailable = False, eventSignaled = False, receiveSignaled = False, events = nodes_new,
     receives = nodes_new\<rparr>"

text \<open>Python exceptions, and the crash of a null lock.\<close>

datatype py_exc =
    PyValueError string
  | PyRuntimeError string
  | PyTypeError string
  | PyTimeoutError string
  | PyMemoryError
  | PyCallFailed        \<comment> \<open>raised inside the Python C API\<close>
  | PyCrash

section \<open>Producers\<close>

text \<open>The section under the lock and whether the wake token has to be released afterwards.\<close>

definition queueEvent :: "event_node option \<Rightarrow> agent_obj \<Rightarrow> bool \<times> agent_obj" where
  "queueEvent event self =
     (case event of
        None \<Rightarrow> (False, self)
      | Some e \<Rightarrow>
          if \<not> agent_lock self \<or> \<not> eventLock self \<or> agent_closed self then (False, self)
          else (\<not> eventSignaled self, self\<lparr>events := nodes_push e (events self), eventSignaled := True\<rparr>))"

text \<open>The callbacks; the first argument says whether \<open>calloc\<close> succeeds.\<close>

definition onState :: "bool \<Rightarrow> int \<Rightarrow> event_node option" where
  "onState ok state = (if \<not> ok then None
     else Some \<lparr>kind = EVENT_STATE, ev_state = state, ev_text = None, ev_data = []\<rparr>)"

definition duplicateString :: "bool \<Rightarrow> string option \<Rightarrow> string option" where
  "duplicateString ok s = (case s of None \<Rightarrow> None | Some t \<Rightarrow> if ok then Some t else None)"

definition onCandidate :: "bool \<Rightarrow> bool \<Rightarrow> string option \<Rightarrow> event_node option" where
  "onCandidate ok dup candidateSDP = (if \<not> ok then None
     else (case duplicateString dup (Some (case candidateSDP of None \<Rightarrow> '''' | Some c \<Rightarrow> c)) of
         None \<Rightarrow> None
       | Some t \<Rightarrow> Some \<lparr>kind = EVENT_CANDIDATE, ev_state = 0, ev_text = Some t, ev_data = []\<rparr>))"

definition onGatheringDone :: "bool \<Rightarrow> event_node option" where
  "onGatheringDone ok = (if \<not> ok then None
     else Some \<lparr>kind = EVENT_GATHERING_DONE, ev_state = 0, ev_text = None, ev_data = []\<rparr>)"

text \<open>Whether the receive token and the event token have to be released.\<close>

definition queueReceive_agent :: "bytes option \<Rightarrow> agent_obj \<Rightarrow> bool \<times> bool \<times> agent_obj" where
  "queueReceive_agent receive self =
     (case receive of
        None \<Rightarrow> (False, False, self)
      | Some d \<Rightarrow>
          if \<not> agent_lock self \<or> \<not> eventLock self \<or> \<not> receiveLock self \<or> agent_closed self
          then (False, False, self)
          else (\<not> receiveSignaled self, \<not> eventSignaled self,
            self\<lparr>receives := nodes_push d (receives self), receiveSignaled := True, eventSignaled := True\<rparr>))"

text \<open>What becomes of a datagram: the sink it is given to, or the node to be queued.\<close>

datatype receive_route = ToSink nat "nat option" bytes | ToQueue bytes | Dropped

definition onReceive :: "bool \<Rightarrow> bool \<Rightarrow> bytes \<Rightarrow> agent_obj \<Rightarrow> receive_route" where
  "onReceive ok dup data self =
     (if \<not> agent_lock self then Dropped
      else (case (agent_closed self, dataSink self) of
          (False, Some sink) \<Rightarrow> ToSink sink (dataSinkUserPtr self) data
        | _ \<Rightarrow> if \<not> ok \<or> (data \<noteq> [] \<and> \<not> dup) then Dropped else ToQueue data))"

section \<open>Consumers\<close>

text \<open>The result and whether the receive token has to be released again.\<close>

definition popReceiveLocked :: "agent_obj \<Rightarrow> bytes option \<times> bool \<times> agent_obj" where
  "popReceiveLocked self =
     (case nodes_pop (receives self) of
        None \<Rightarrow> (None, False, self)
      | Some (d, q) \<Rightarrow>
          let taken = receiveSignaled self \<and> receiveAvailable self;
              signaled = receiveSignaled self \<and> \<not> taken;
              again = head q \<noteq> None \<and> \<not> signaled
          in (Some d, again, self\<lparr>receives := q, receiveAvailable := (if taken then False else receiveAvailable self),
               receiveSignaled := signaled \<or> again\<rparr>))"

text \<open>The section under the lock of \<open>drainEvents\<close>: events, datagrams, and whether the receive and
  the event token have to be released again.\<close>

definition drain_locked :: "nat \<Rightarrow> agent_obj \<Rightarrow> event_node list \<times> bytes list \<times> bool \<times> bool \<times> agent_obj" where
  "drain_locked maxEvents self =
     (let armed = eventSignaled self \<and> eventAvailable self;
          esig = eventSignaled self \<and> \<not> armed;
          (es, eq) = pop_many nodes_pop maxEvents (events self);
          (rs, rq) = pop_many nodes_pop (maxEvents - length es) (receives self);
          rtaken = rs \<noteq> [] \<and> receiveSignaled self \<and> receiveAvailable self;
          rsig = receiveSignaled self \<and> \<not> rtaken;
          ragain = head rq \<noteq> None \<and> \<not> rsig;
          eagain = (head eq \<noteq> None \<or> head rq \<noteq> None) \<and> \<not> esig
      in (es, rs, ragain, eagain,
          self\<lparr>events := eq, receives := rq,
            eventAvailable := (if armed then False else eventAvailable self), eventSignaled := esig \<or> eagain,
            receiveAvailable := (if rtaken then False else receiveAvailable self), receiveSignaled := rsig \<or> ragain\<rparr>))"

text \<open>What Python sees.\<close>

datatype py_value = PyInt int | PyStr string | PyNone | PyBytes bytes | PyTuple "py_value list"

definition convertEventToPython :: "bool \<Rightarrow> event_node \<Rightarrow> py_exc + string \<times> py_value" where
  "convertEventToPython ok event =
     (if \<not> ok then Inl PyCallFailed
      else Inr (case kind event of
          EVENT_STATE \<Rightarrow> (''state'', PyInt (ev_state event))
        | EVENT_CANDIDATE \<Rightarrow> (''candidate'', PyStr (case ev_text event of None \<Rightarrow> '''' | Some t \<Rightarrow> t))
        | EVENT_GATHERING_DONE \<Rightarrow> (''gatheringDone'', PyNone)
        | EVENT_RECEIVE \<Rightarrow> (''receive'', PyBytes (ev_data event))))"

definition convertReceiveToPython :: "bool \<Rightarrow> bytes \<Rightarrow> py_exc + string \<times> py_value" where
  "convertReceiveToPython ok receive = (if \<not> ok then Inl PyCallFailed else Inr (''receive'', PyBytes receive))"

text \<open>The conversion loops, each conversion with its outcome of the C API; the first failure ends
  them and the rest of the nodes is freed.\<close>

fun convert_all :: "(bool \<Rightarrow> 'a \<Rightarrow> py_exc + 'b) \<Rightarrow> bool list \<Rightarrow> 'a list \<Rightarrow> py_exc + 'b list" where
  "convert_all f oks [] = Inr []"
| "convert_all f oks (x # xs) =
     (case f (case oks of [] \<Rightarrow> True | b # _ \<Rightarrow> b) x of
        Inl e \<Rightarrow> Inl e
      | Inr y \<Rightarrow> (case convert_all f (case oks of [] \<Rightarrow> [] | _ # bs \<Rightarrow> bs) xs of
          Inl e \<Rightarrow> Inl e
        | Inr ys \<Rightarrow> Inr (y # ys)))"

definition drainEvents ::
  "bool \<Rightarrow> bool list \<Rightarrow> bool list \<Rightarrow> nat \<Rightarrow> agent_obj \<Rightarrow> (py_exc + (string \<times> py_value) list) \<times> bool \<times> bool \<times> agent_obj" where
  "drainEvents list_ok eoks roks maxEvents self =
     (if \<not> list_ok then (Inl PyCallFailed, False, False, self)
      else if \<not> agent_lock self then (Inl PyCrash, False, False, self)
      else (case drain_locked maxEvents self of (es, rs, ragain, eagain, self') \<Rightarrow>
        ((case convert_all convertEventToPython eoks es of
            Inl e \<Rightarrow> Inl e
          | Inr xs \<Rightarrow> (case convert_all convertReceiveToPython roks rs of
              Inl e \<Rightarrow> Inl e
            | Inr ys \<Rightarrow> Inr (xs @ ys))), ragain, eagain, self')))"

definition requireOpen :: "agent_obj \<Rightarrow> py_exc + unit" where
  "requireOpen self = (if agent_juice self = None \<or> agent_closed self
     then Inl (PyRuntimeError ''agent is closed'') else Inr ())"

text \<open>\<open>pollEvents\<close> up to \<open>drainEvents\<close>; \<open>parsed\<close> is the argument, \<open>None\<close> if Python
  rejects the call.\<close>

definition pollAgentEvents_check :: "int option \<Rightarrow> py_exc + nat" where
  "pollAgentEvents_check parsed =
     (case parsed of
        None \<Rightarrow> Inl PyCallFailed
      | Some maxEvents \<Rightarrow> if maxEvents < 0 then Inl (PyValueError ''maxEvents must be >= 0'') else Inr (nat maxEvents))"

definition pollAgentEvents ::
  "bool \<Rightarrow> bool list \<Rightarrow> bool list \<Rightarrow> int option \<Rightarrow> agent_obj \<Rightarrow> (py_exc + (string \<times> py_value) list) \<times> bool \<times> bool \<times> agent_obj" where
  "pollAgentEvents list_ok eoks roks parsed self =
     (case pollAgentEvents_check parsed of
        Inl e \<Rightarrow> (Inl e, False, False, self)
      | Inr n \<Rightarrow> drainEvents list_ok eoks roks n self)"

text \<open>\<open>waitEvents\<close> up to its first section under the lock: the number of events asked for and
  whether there is something to take. The timeout is in microseconds.\<close>

definition waitForAgentEvents_check :: "(int \<times> int) option \<Rightarrow> agent_obj \<Rightarrow> py_exc + nat \<times> bool" where
  "waitForAgentEvents_check parsed self =
     (case requireOpen self of
        Inl e \<Rightarrow> Inl e
      | Inr _ \<Rightarrow> (case parsed of
          None \<Rightarrow> Inl PyCallFailed
        | Some (timeout, maxEvents) \<Rightarrow>
            if timeout < 0 then Inl (PyValueError ''timeout must be >= 0'')
            else if maxEvents < 0 then Inl (PyValueError ''maxEvents must be >= 0'')
            else if \<not> agent_lock self then Inl PyCrash
            else Inr (nat maxEvents, head (events self) \<noteq> None \<or> head (receives self) \<noteq> None)))"

text \<open>The section after the token has been taken.\<close>

definition wait_reset :: "agent_obj \<Rightarrow> agent_obj" where
  "wait_reset self = self\<lparr>eventSignaled := False\<rparr>"

text \<open>\<open>receiveFFLP2PAgentNative\<close>: its two sections under the lock.\<close>

definition receive_first :: "agent_obj \<Rightarrow> bytes option \<times> bool \<times> agent_obj" where
  "receive_first self = popReceiveLocked self"

definition receive_second :: "agent_obj \<Rightarrow> bytes option \<times> bool \<times> agent_obj" where
  "receive_second self = popReceiveLocked (self\<lparr>receiveSignaled := False\<rparr>)"

section \<open>Closing\<close>

text \<open>\<open>closeAgent\<close> as far as the object goes; what it does to libjuice is in \<open>Agent_Life\<close>.\<close>

definition closeAgent_obj :: "agent_obj \<Rightarrow> agent_obj" where
  "closeAgent_obj self =
     (let self = (if \<not> agent_closed self \<and> agent_lock self
        then self\<lparr>agent_closed := True, dataSink := None, dataSinkUserPtr := None\<rparr> else self)
      in self\<lparr>agent_juice := None\<rparr>)"

end
