(* ===== verification/Agent_Sys.thy ===== *)
theory Agent_Sys
  imports Agent
begin

text \<open>
  The agent under any number of producers and consumers: every section under the lock and every
  operation on a wake token is a step, in any order. What is released twice is a fatal error of
  Python; nothing is lost, reordered or left asleep.
\<close>

section \<open>Steps\<close>

text \<open>\<open>pendEvent\<close> and \<open>pendReceive\<close> count the threads that have left the lock and not yet
  released the token. Of the threads in \<open>waitEvents\<close>, \<open>waiters\<close> wait for the token, \<open>takers\<close> have it
  and not yet reset the flag, \<open>drainers\<close> are about to drain, each with its number of events;
  \<open>rwaiters\<close> and \<open>rtakers\<close> count those in \<open>receiveFFLP2PAgentNative\<close>. \<open>fatal\<close> says that a
  token was released while it was released. The rest are ghosts: all that was queued, and all that was taken.\<close>

record agent_sys =
  obj :: agent_obj
  pendEvent :: nat
  pendReceive :: nat
  waiters :: "nat multiset"
  takers :: "nat multiset"
  drainers :: "nat multiset"
  rwaiters :: nat
  rtakers :: nat
  fatal :: bool
  ev_in :: "event_node list"
  ev_out :: "event_node list"
  rc_in :: "bytes list"
  rc_out :: "bytes list"

definition pend :: "bool \<Rightarrow> bool \<Rightarrow> agent_sys \<Rightarrow> agent_sys" where
  "pend r e s = s\<lparr>pendReceive := pendReceive s + (if r then 1 else 0), pendEvent := pendEvent s + (if e then 1 else 0)\<rparr>"

text \<open>An agent as \<open>initializeAgent\<close> leaves it.\<close>

definition agent_ready :: "juice_handle \<Rightarrow> agent_obj" where
  "agent_ready jh = createP2PObject\<lparr>agent_juice := Some jh, agent_lock := True, eventLock := True, receiveLock := True\<rparr>"

definition agent_sys_new :: "juice_handle \<Rightarrow> agent_sys" where
  "agent_sys_new jh = \<lparr>obj = agent_ready jh, pendEvent = 0, pendReceive = 0, waiters = {#}, takers = {#},
     drainers = {#}, rwaiters = 0, rtakers = 0, fatal = False, ev_in = [], ev_out = [], rc_in = [], rc_out = []\<rparr>"

inductive agent_step :: "agent_sys \<Rightarrow> agent_sys \<Rightarrow> bool" where
  as_event: "queueEvent (Some e) (obj s) = (sig, self) \<Longrightarrow>
    agent_step s (pend False sig (s\<lparr>obj := self,
      ev_in := ev_in s @ (if agent_closed (obj s) then [] else [e])\<rparr>))"
| as_receive: "queueReceive_agent (Some d) (obj s) = (rsig, esig, self) \<Longrightarrow>
    agent_step s (pend rsig esig (s\<lparr>obj := self,
      rc_in := rc_in s @ (if agent_closed (obj s) then [] else [d])\<rparr>))"
| as_release_event: "pendEvent s = Suc n \<Longrightarrow>
    agent_step s (s\<lparr>pendEvent := n, fatal := fatal s \<or> eventAvailable (obj s), obj := (obj s)\<lparr>eventAvailable := True\<rparr>\<rparr>)"
| as_release_receive: "pendReceive s = Suc n \<Longrightarrow>
    agent_step s (s\<lparr>pendReceive := n, fatal := fatal s \<or> receiveAvailable (obj s), obj := (obj s)\<lparr>receiveAvailable := True\<rparr>\<rparr>)"
| as_poll: "agent_step s (s\<lparr>drainers := add_mset n (drainers s)\<rparr>)"
| as_wait: "waitForAgentEvents_check parsed (obj s) = Inr (n, queued) \<Longrightarrow>
    agent_step s (if queued then s\<lparr>drainers := add_mset n (drainers s)\<rparr> else s\<lparr>waiters := add_mset n (waiters s)\<rparr>)"
| as_take: "n \<in># waiters s \<Longrightarrow> eventAvailable (obj s) \<Longrightarrow>
    agent_step s (s\<lparr>obj := (obj s)\<lparr>eventAvailable := False\<rparr>, waiters := waiters s - {#n#}, takers := add_mset n (takers s)\<rparr>)"
| as_timeout: "n \<in># waiters s \<Longrightarrow>
    agent_step s (s\<lparr>waiters := waiters s - {#n#}, drainers := add_mset n (drainers s)\<rparr>)"
| as_reset: "n \<in># takers s \<Longrightarrow>
    agent_step s (s\<lparr>obj := wait_reset (obj s), takers := takers s - {#n#}, drainers := add_mset n (drainers s)\<rparr>)"
| as_drain: "n \<in># drainers s \<Longrightarrow> drain_locked n (obj s) = (es, rs, ragain, eagain, self) \<Longrightarrow>
    agent_step s (pend ragain eagain (s\<lparr>obj := self, drainers := drainers s - {#n#},
      ev_out := ev_out s @ es, rc_out := rc_out s @ rs\<rparr>))"
| as_first: "receive_first (obj s) = (d, again, self) \<Longrightarrow>
    agent_step s (pend again False (s\<lparr>obj := self, rc_out := rc_out s @ (case d of None \<Rightarrow> [] | Some x \<Rightarrow> [x]),
      rwaiters := rwaiters s + (if d = None \<and> positive_timeout then 1 else 0)\<rparr>))"
| as_rtake: "rwaiters s = Suc n \<Longrightarrow> receiveAvailable (obj s) \<Longrightarrow>
    agent_step s (s\<lparr>obj := (obj s)\<lparr>receiveAvailable := False\<rparr>, rwaiters := n, rtakers := Suc (rtakers s)\<rparr>)"
| as_rtimeout: "rwaiters s = Suc n \<Longrightarrow> agent_step s (s\<lparr>rwaiters := n\<rparr>)"
| as_second: "rtakers s = Suc n \<Longrightarrow> receive_second (obj s) = (d, again, self) \<Longrightarrow>
    agent_step s (pend again False (s\<lparr>obj := self, rtakers := n,
      rc_out := rc_out s @ (case d of None \<Rightarrow> [] | Some x \<Rightarrow> [x])\<rparr>))"
| as_close: "agent_step s (s\<lparr>obj := closeAgent_obj (obj s)\<rparr>)"

inductive agent_reachable :: "juice_handle \<Rightarrow> agent_sys \<Rightarrow> bool" for jh where
  ar_init: "agent_reachable jh (agent_sys_new jh)"
| ar_step: "agent_reachable jh s \<Longrightarrow> agent_step s s' \<Longrightarrow> agent_reachable jh s'"

section \<open>The invariant\<close>

text \<open>A raised flag stands for one token: released, about to be, or taken and not yet booked.\<close>

definition token_ok :: "bool \<Rightarrow> nat \<Rightarrow> nat \<Rightarrow> bool \<Rightarrow> bool" where
  "token_ok available pending taken signaled \<longleftrightarrow>
     (if available then 1 else 0) + pending + taken = (if signaled then 1 else (0::nat))"

lemma token_raise: "token_ok a p t False \<Longrightarrow> token_ok a (Suc p) t True"
  by (simp add: token_ok_def split: if_splits)

lemma token_release: "token_ok a (Suc p) t f \<Longrightarrow> \<not> a \<and> token_ok True p t f"
  by (simp add: token_ok_def split: if_splits)

lemma token_take: "token_ok True p t f \<Longrightarrow> token_ok False p (Suc t) f"
  by (simp add: token_ok_def)

lemma token_reset: "token_ok a p (Suc t) f \<Longrightarrow> token_ok a p t False"
  by (simp add: token_ok_def split: if_splits)

lemma token_arm: "token_ok a p t f \<Longrightarrow> token_ok (a \<and> \<not> f) p t (f \<and> \<not> a)"
  by (simp add: token_ok_def split: if_splits)

definition token_inv :: "agent_sys \<Rightarrow> bool" where
  "token_inv s \<longleftrightarrow>
     token_ok (eventAvailable (obj s)) (pendEvent s) (size (takers s)) (eventSignaled (obj s)) \<and>
     token_ok (receiveAvailable (obj s)) (pendReceive s) (rtakers s) (receiveSignaled (obj s)) \<and> \<not> fatal s"

definition wake_inv :: "agent_sys \<Rightarrow> bool" where
  "wake_inv s \<longleftrightarrow>
     (nodes_elems (events (obj s)) \<noteq> [] \<or> nodes_elems (receives (obj s)) \<noteq> [] \<longrightarrow>
        eventSignaled (obj s) \<or> drainers s \<noteq> {#}) \<and>
     (nodes_elems (receives (obj s)) \<noteq> [] \<longrightarrow> receiveSignaled (obj s))"

definition queues_inv :: "agent_sys \<Rightarrow> bool" where
  "queues_inv s \<longleftrightarrow> nodes_ok (events (obj s)) \<and> nodes_ok (receives (obj s)) \<and>
     ev_in s = ev_out s @ nodes_elems (events (obj s)) \<and> rc_in s = rc_out s @ nodes_elems (receives (obj s)) \<and>
     agent_lock (obj s) \<and> eventLock (obj s) \<and> receiveLock (obj s)"

definition agent_inv :: "agent_sys \<Rightarrow> bool" where
  "agent_inv s \<longleftrightarrow> token_inv s \<and> wake_inv s \<and> queues_inv s"

lemma agent_inv_new: "agent_inv (agent_sys_new jh)"
  by (simp add: agent_inv_def token_inv_def wake_inv_def queues_inv_def agent_sys_new_def agent_ready_def
      createP2PObject_def token_ok_def nodes.ok_empty nodes.elems_empty)

lemmas agent_invs = agent_inv_def token_inv_def wake_inv_def queues_inv_def

lemma pend_sel [simp]:
  "obj (pend r e s) = obj s" "waiters (pend r e s) = waiters s" "takers (pend r e s) = takers s"
  "drainers (pend r e s) = drainers s" "rwaiters (pend r e s) = rwaiters s" "rtakers (pend r e s) = rtakers s"
  "fatal (pend r e s) = fatal s" "ev_in (pend r e s) = ev_in s" "ev_out (pend r e s) = ev_out s"
  "rc_in (pend r e s) = rc_in s" "rc_out (pend r e s) = rc_out s"
  "pendEvent (pend r e s) = pendEvent s + (if e then 1 else 0)"
  "pendReceive (pend r e s) = pendReceive s + (if r then 1 else 0)"
  by (simp_all add: pend_def)

lemma agent_inv_event:
  assumes inv: "agent_inv s" and run: "queueEvent (Some e) (obj s) = (sig, self)"
  shows "agent_inv (pend False sig (s\<lparr>obj := self, ev_in := ev_in s @ (if agent_closed (obj s) then [] else [e])\<rparr>))"
proof (cases "agent_closed (obj s)")
  case True
  then have "self = obj s \<and> \<not> sig" using run by (auto simp: queueEvent_def)
  then show ?thesis using inv True by (simp add: agent_invs)
next
  case False
  then have "sig = (\<not> eventSignaled (obj s)) \<and>
      self = (obj s)\<lparr>events := nodes_push e (events (obj s)), eventSignaled := True\<rparr>"
    using run inv by (simp add: queueEvent_def agent_invs)
  then show ?thesis
    using inv False
    by (cases "eventSignaled (obj s)") (simp_all add: agent_invs nodes.ok_push nodes.elems_push token_raise)
qed

lemma agent_inv_receive:
  assumes inv: "agent_inv s" and run: "queueReceive_agent (Some d) (obj s) = (rsig, esig, self)"
  shows "agent_inv (pend rsig esig (s\<lparr>obj := self, rc_in := rc_in s @ (if agent_closed (obj s) then [] else [d])\<rparr>))"
proof (cases "agent_closed (obj s)")
  case True
  then have "self = obj s \<and> \<not> rsig \<and> \<not> esig" using run by (auto simp: queueReceive_agent_def)
  then show ?thesis using inv True by (simp add: agent_invs)
next
  case False
  then have "rsig = (\<not> receiveSignaled (obj s)) \<and> esig = (\<not> eventSignaled (obj s)) \<and>
      self = (obj s)\<lparr>receives := nodes_push d (receives (obj s)), receiveSignaled := True, eventSignaled := True\<rparr>"
    using run inv by (simp add: queueReceive_agent_def agent_invs)
  then show ?thesis
    using inv False
    by (cases "eventSignaled (obj s)"; cases "receiveSignaled (obj s)")
      (simp_all add: agent_invs nodes.ok_push nodes.elems_push token_raise)
qed

text \<open>Taking datagrams from the front, with the booking of the receive token.\<close>

lemma pop_receive_None:
  "nodes_ok (receives self) \<Longrightarrow> nodes_elems (receives self) = [] \<Longrightarrow> popReceiveLocked self = (None, False, self)"
  using nodes.pop_None [of "receives self"] by (simp add: popReceiveLocked_def)

lemma pop_receive_Some:
  assumes "nodes_ok (receives self)" and "nodes_elems (receives self) = x # xs"
  shows "\<exists>q. nodes_ok q \<and> nodes_elems q = xs \<and> popReceiveLocked self =
     (Some x, xs \<noteq> [] \<and> (receiveSignaled self \<longrightarrow> receiveAvailable self),
      self\<lparr>receives := q, receiveAvailable := receiveAvailable self \<and> \<not> receiveSignaled self,
        receiveSignaled := receiveSignaled self \<and> \<not> receiveAvailable self \<or> xs \<noteq> []\<rparr>)"
proof -
  obtain x' q where p: "nodes_pop (receives self) = Some (x', q)"
    using nodes.pop_None [OF assms(1)] assms(2) by (cases "nodes_pop (receives self)") auto
  have q: "nodes_ok q" and e: "nodes_elems q = xs" and x: "x' = x"
    using nodes.ok_pop [OF assms(1) p] nodes.pop_Some [OF assms(1) p] assms(2) by simp_all
  have h: "(head q \<noteq> None) = (xs \<noteq> [])" using head_elems [OF q] e by simp
  have "popReceiveLocked self =
     (Some x, xs \<noteq> [] \<and> (receiveSignaled self \<longrightarrow> receiveAvailable self),
      self\<lparr>receives := q, receiveAvailable := receiveAvailable self \<and> \<not> receiveSignaled self,
        receiveSignaled := receiveSignaled self \<and> \<not> receiveAvailable self \<or> xs \<noteq> []\<rparr>)"
    unfolding popReceiveLocked_def Let_def p option.case prod.case h x
    by (cases "receiveSignaled self"; cases "receiveAvailable self") simp_all
  then show ?thesis using q e by blast
qed

lemma drain_locked_eq:
  assumes e: "nodes_ok (events self)" and r: "nodes_ok (receives self)"
    and E: "E = nodes_elems (events self)" and R: "R = nodes_elems (receives self)"
  shows "\<exists>eq rq. nodes_ok eq \<and> nodes_elems eq = drop n E \<and> nodes_ok rq \<and> nodes_elems rq = drop (n - length E) R \<and>
    drain_locked n self = (take n E, take (n - length E) R,
      drop (n - length E) R \<noteq> [] \<and> (receiveSignaled self \<longrightarrow> receiveAvailable self \<and> take (n - length E) R \<noteq> []),
      (drop n E \<noteq> [] \<or> drop (n - length E) R \<noteq> []) \<and> (eventSignaled self \<longrightarrow> eventAvailable self),
      self\<lparr>events := eq, receives := rq,
        eventAvailable := eventAvailable self \<and> \<not> eventSignaled self,
        eventSignaled := eventSignaled self \<and> \<not> eventAvailable self \<or> drop n E \<noteq> [] \<or> drop (n - length E) R \<noteq> [],
        receiveAvailable := receiveAvailable self \<and> (receiveSignaled self \<longrightarrow> take (n - length E) R = []),
        receiveSignaled := receiveSignaled self \<and> (receiveAvailable self \<longrightarrow> take (n - length E) R = []) \<or>
          drop (n - length E) R \<noteq> []\<rparr>)"
proof -
  obtain es eq where 1: "pop_many nodes_pop n (events self) = (es, eq)" by fastforce
  note p1 = nodes.pop_many_spec [OF e 1]
  obtain rs rq where 2: "pop_many nodes_pop (n - length es) (receives self) = (rs, rq)" by fastforce
  note p2 = nodes.pop_many_spec [OF r 2]
  have len: "n - length es = n - length E" using p1 E by auto
  have heq: "(head eq \<noteq> None) = (drop n E \<noteq> [])" using head_elems [of eq] p1 E by simp
  have hrq: "(head rq \<noteq> None) = (drop (n - length E) R \<noteq> [])" using head_elems [of rq] p2 R len by simp
  have es: "es = take n E" and rs: "rs = take (n - length E) R" using p1 p2 E R len by simp_all
  have "drain_locked n self = (take n E, take (n - length E) R,
      drop (n - length E) R \<noteq> [] \<and> (receiveSignaled self \<longrightarrow> receiveAvailable self \<and> take (n - length E) R \<noteq> []),
      (drop n E \<noteq> [] \<or> drop (n - length E) R \<noteq> []) \<and> (eventSignaled self \<longrightarrow> eventAvailable self),
      self\<lparr>events := eq, receives := rq,
        eventAvailable := eventAvailable self \<and> \<not> eventSignaled self,
        eventSignaled := eventSignaled self \<and> \<not> eventAvailable self \<or> drop n E \<noteq> [] \<or> drop (n - length E) R \<noteq> [],
        receiveAvailable := receiveAvailable self \<and> (receiveSignaled self \<longrightarrow> take (n - length E) R = []),
        receiveSignaled := receiveSignaled self \<and> (receiveAvailable self \<longrightarrow> take (n - length E) R = []) \<or>
          drop (n - length E) R \<noteq> []\<rparr>)"
    unfolding drain_locked_def Let_def 1 prod.case
    unfolding 2 prod.case
    unfolding heq hrq
    unfolding es [symmetric] rs [symmetric]
    by (cases "receiveSignaled self"; cases "receiveAvailable self"; cases "eventSignaled self"; cases "eventAvailable self")
      simp_all
  then show ?thesis using p1 p2 E R len by (intro exI [of _ eq] exI [of _ rq]) simp
qed

text \<open>A token and its flag after a section that has looked at the token without waiting, and perhaps
  raised the flag again.\<close>

lemma token_section:
  assumes "token_ok a p t f" and "a' = (a \<and> \<not> (f \<and> got))" and "f' = (f \<and> \<not> (a \<and> got) \<or> left)"
    and "again = (left \<and> \<not> (f \<and> \<not> (a \<and> got)))"
  shows "token_ok a' (p + (if again then 1 else 0)) t f'"
  using assms by (cases a; cases f; cases got; cases left) (simp_all add: token_ok_def)

lemma agent_inv_drain:
  assumes inv: "agent_inv s" and n: "n \<in># drainers s" and run: "drain_locked n (obj s) = (es, rs, ragain, eagain, self)"
  shows "agent_inv (pend ragain eagain (s\<lparr>obj := self, drainers := drainers s - {#n#},
      ev_out := ev_out s @ es, rc_out := rc_out s @ rs\<rparr>))"
proof -
  let ?E = "nodes_elems (events (obj s))" and ?R = "nodes_elems (receives (obj s))" and ?o = "obj s"
  have q: "nodes_ok (events ?o)" "nodes_ok (receives ?o)" using inv by (simp_all add: agent_invs)
  let ?got = "take (n - length ?E) ?R \<noteq> []" and ?more = "drop (n - length ?E) ?R \<noteq> []"
  let ?left = "drop n ?E \<noteq> [] \<or> ?more"
  obtain eq rq where eq: "nodes_ok eq" "nodes_elems eq = drop n ?E" and rq: "nodes_ok rq" "nodes_elems rq = drop (n - length ?E) ?R"
    and d: "es = take n ?E" "rs = take (n - length ?E) ?R"
      "ragain = (?more \<and> (receiveSignaled ?o \<longrightarrow> receiveAvailable ?o \<and> ?got))"
      "eagain = (?left \<and> (eventSignaled ?o \<longrightarrow> eventAvailable ?o))"
    and self: "self = ?o\<lparr>events := eq, receives := rq,
        eventAvailable := eventAvailable ?o \<and> \<not> eventSignaled ?o,
        eventSignaled := eventSignaled ?o \<and> \<not> eventAvailable ?o \<or> drop n ?E \<noteq> [] \<or> ?more,
        receiveAvailable := receiveAvailable ?o \<and> (receiveSignaled ?o \<longrightarrow> take (n - length ?E) ?R = []),
        receiveSignaled := receiveSignaled ?o \<and> (receiveAvailable ?o \<longrightarrow> take (n - length ?E) ?R = []) \<or> ?more\<rparr>"
    using drain_locked_eq [OF q refl refl, of n] run by auto
  have te: "token_ok (eventAvailable ?o) (pendEvent s) (size (takers s)) (eventSignaled ?o)"
    and tr: "token_ok (receiveAvailable ?o) (pendReceive s) (rtakers s) (receiveSignaled ?o)" and nf: "\<not> fatal s"
    using inv by (simp_all add: agent_invs)
  have "token_ok (eventAvailable self) (pendEvent s + (if eagain then 1 else 0)) (size (takers s)) (eventSignaled self)"
    by (rule token_section [OF te, where got = True and left = ?left]) (auto simp: self d)
  moreover have "token_ok (receiveAvailable self) (pendReceive s + (if ragain then 1 else 0)) (rtakers s) (receiveSignaled self)"
    by (rule token_section [OF tr, where got = ?got and left = ?more]) (auto simp: self d)
  ultimately have "token_inv (pend ragain eagain (s\<lparr>obj := self, drainers := drainers s - {#n#},
      ev_out := ev_out s @ es, rc_out := rc_out s @ rs\<rparr>))"
    using nf by (simp add: token_inv_def)
  moreover have "wake_inv (pend ragain eagain (s\<lparr>obj := self, drainers := drainers s - {#n#},
      ev_out := ev_out s @ es, rc_out := rc_out s @ rs\<rparr>))"
    by (auto simp: wake_inv_def self eq rq)
  moreover have "queues_inv (pend ragain eagain (s\<lparr>obj := self, drainers := drainers s - {#n#},
      ev_out := ev_out s @ es, rc_out := rc_out s @ rs\<rparr>))"
    using inv by (simp add: agent_inv_def queues_inv_def self eq rq d)
  ultimately show ?thesis by (simp add: agent_inv_def)
qed


lemma agent_inv_pop:
  assumes inv: "agent_inv s" and run: "popReceiveLocked self0 = (d, again, self)"
    and self0: "self0 = (obj s)\<lparr>receiveSignaled := f\<rparr>"
    and tok: "token_ok (receiveAvailable (obj s)) (pendReceive s) m f"
    and flag: "f = receiveSignaled (obj s) \<or> \<not> f"
  shows "agent_inv (pend again False (s\<lparr>obj := self, rtakers := m,
      rc_out := rc_out s @ (case d of None \<Rightarrow> [] | Some x \<Rightarrow> [x])\<rparr>))"
proof (cases "nodes_elems (receives (obj s))")
  case Nil
  have "nodes_ok (receives self0)" using inv self0 by (simp add: agent_invs)
  then have "d = None \<and> \<not> again \<and> self = self0"
    using run pop_receive_None [of self0] Nil self0 by simp
  then show ?thesis using inv Nil self0 tok by (simp add: agent_invs)
next
  case (Cons x xs)
  have ok: "nodes_ok (receives self0)" and el: "nodes_elems (receives self0) = x # xs"
    using inv self0 Cons by (simp_all add: agent_invs)
  obtain q where q: "nodes_ok q" "nodes_elems q = xs" and d: "d = Some x"
    and again: "again = (xs \<noteq> [] \<and> (receiveSignaled self0 \<longrightarrow> receiveAvailable self0))"
    and self: "self = self0\<lparr>receives := q, receiveAvailable := receiveAvailable self0 \<and> \<not> receiveSignaled self0,
        receiveSignaled := receiveSignaled self0 \<and> \<not> receiveAvailable self0 \<or> xs \<noteq> []\<rparr>"
    using pop_receive_Some [OF ok el] run by auto
  have "token_ok (receiveAvailable self) (pendReceive s + (if again then 1 else 0)) m (receiveSignaled self)"
    by (rule token_section [OF tok, where got = True and left = "xs \<noteq> []"]) (auto simp: self self0 again)
  moreover have "eventSignaled self = eventSignaled (obj s)" "events self = events (obj s)"
    "eventAvailable self = eventAvailable (obj s)" "receives self = q"
    "xs \<noteq> [] \<longrightarrow> receiveSignaled self" "agent_lock self = agent_lock (obj s)"
    "eventLock self = eventLock (obj s)" "receiveLock self = receiveLock (obj s)"
    by (simp_all add: self self0)
  ultimately show ?thesis
    using inv q d Cons by (simp add: agent_invs)
qed

lemma agent_inv_step:
  assumes inv: "agent_inv s" and st: "agent_step s s'"
  shows "agent_inv s'"
  using st
proof cases
  case (as_event e sig self)
  then show ?thesis using agent_inv_event [OF inv] by simp
next
  case (as_receive d rsig esig self)
  then show ?thesis using agent_inv_receive [OF inv] by simp
next
  case (as_release_event n)
  then show ?thesis using inv token_release by (auto simp: agent_invs)
next
  case (as_release_receive n)
  then show ?thesis using inv token_release by (auto simp: agent_invs)
next
  case (as_poll n)
  then show ?thesis using inv by (simp add: agent_invs)
next
  case (as_wait parsed n queued)
  then show ?thesis using inv by (simp add: agent_invs)
next
  case (as_take n)
  then show ?thesis using inv token_take by (simp add: agent_invs)
next
  case (as_timeout n)
  then show ?thesis using inv by (simp add: agent_invs)
next
  case (as_reset n)
  then obtain m where "size (takers s) = Suc m" by (metis multi_member_split size_add_mset)
  moreover from this have "token_ok (eventAvailable (obj s)) (pendEvent s) m False"
    using inv token_reset [of "eventAvailable (obj s)" "pendEvent s" m "eventSignaled (obj s)"] by (simp add: agent_invs)
  ultimately show ?thesis
    using as_reset inv by (simp add: agent_invs wait_reset_def size_Diff_singleton)
next
  case (as_drain n es rs ragain eagain self)
  then show ?thesis using agent_inv_drain [OF inv] by simp
next
  case (as_first d again self positive_timeout)
  have "agent_inv (pend again False (s\<lparr>obj := self, rtakers := rtakers s,
      rc_out := rc_out s @ (case d of None \<Rightarrow> [] | Some x \<Rightarrow> [x])\<rparr>))"
    by (rule agent_inv_pop [OF inv, where f = "receiveSignaled (obj s)"])
      (use as_first inv in \<open>simp_all add: receive_first_def agent_invs\<close>)
  then show ?thesis unfolding as_first by (simp add: agent_invs)
next
  case (as_rtake n)
  then show ?thesis using inv token_take by (simp add: agent_invs)
next
  case (as_rtimeout n)
  then show ?thesis using inv by (simp add: agent_invs)
next
  case (as_second n d again self)
  have "agent_inv (pend again False (s\<lparr>obj := self, rtakers := n,
      rc_out := rc_out s @ (case d of None \<Rightarrow> [] | Some x \<Rightarrow> [x])\<rparr>))"
    by (rule agent_inv_pop [OF inv, where f = False])
      (use as_second inv token_reset [of "receiveAvailable (obj s)" "pendReceive s" n "receiveSignaled (obj s)"] in \<open>simp_all add: receive_second_def agent_invs\<close>)
  then show ?thesis unfolding as_second by simp
next
  case as_close
  then show ?thesis using inv by (simp add: agent_invs closeAgent_obj_def Let_def)
qed

lemma agent_inv_reachable: "agent_reachable jh s \<Longrightarrow> agent_inv s"
  by (induction rule: agent_reachable.induct) (auto intro: agent_inv_new agent_inv_step)


section \<open>Properties\<close>

text \<open>C14. The agent's wake-ups are sound under every interleaving of libjuice's callbacks and of any
  number of Python and native consumers: no token is ever released while it is released (which
  Python aborts on); whenever no thread is inside one of the functions and something is queued, a thread that waits or
  will wait for events finds the token, and one that waits for a datagram finds it whenever a
  datagram is queued.\<close>

theorem agent_wakeups_sound:
  assumes "agent_reachable jh s"
  shows "\<not> fatal s \<and>
    ((nodes_elems (events (obj s)) \<noteq> [] \<or> nodes_elems (receives (obj s)) \<noteq> []) \<and>
       pendEvent s = 0 \<and> takers s = {#} \<and> drainers s = {#} \<longrightarrow> eventAvailable (obj s)) \<and>
    (nodes_elems (receives (obj s)) \<noteq> [] \<and> pendReceive s = 0 \<and> rtakers s = 0 \<longrightarrow> receiveAvailable (obj s))"
  using agent_inv_reachable [OF assms] by (auto simp: agent_invs token_ok_def split: if_splits)

definition demo_agent :: agent_sys where
  "demo_agent = (let s = agent_sys_new \<lparr>jh_agent = Some 0\<rparr>;
       (sig, o1) = queueEvent (onState True 3) (obj s); s = pend False sig (s\<lparr>obj := o1, ev_in := ev_in s @ [the (onState True 3)]\<rparr>);
       (rsig, esig, o2) = queueReceive_agent (Some [7]) (obj s); s = pend rsig esig (s\<lparr>obj := o2, rc_in := rc_in s @ [[7]]\<rparr>)
     in s\<lparr>pendEvent := 0, obj := (obj s)\<lparr>eventAvailable := True\<rparr>\<rparr>)"

lemma release_step:
  assumes "pendEvent s = Suc n" and "\<not> eventAvailable (obj s)" and "\<not> fatal s"
  shows "agent_step s (s\<lparr>pendEvent := n, obj := (obj s)\<lparr>eventAvailable := True\<rparr>\<rparr>)"
proof -
  have "s\<lparr>pendEvent := n, fatal := fatal s \<or> eventAvailable (obj s), obj := (obj s)\<lparr>eventAvailable := True\<rparr>\<rparr> =
      s\<lparr>pendEvent := n, obj := (obj s)\<lparr>eventAvailable := True\<rparr>\<rparr>"
    using assms(2,3) by (cases s) simp
  then show ?thesis using as_release_event [OF assms(1)] by (simp only:)
qed

lemma demo_agent_reachable:
  "agent_reachable \<lparr>jh_agent = Some 0\<rparr> demo_agent \<and> pendEvent demo_agent = 0 \<and> takers demo_agent = {#} \<and>
   drainers demo_agent = {#} \<and> nodes_elems (receives (obj demo_agent)) = [[7]] \<and>
   nodes_elems (events (obj demo_agent)) = [the (onState True 3)]"
proof -
  let ?jh = "\<lparr>jh_agent = Some 0\<rparr>"
  let ?s0 = "agent_sys_new ?jh"
  let ?e = "the (onState True 3)"
  obtain sig o1 where q1: "queueEvent (Some ?e) (obj ?s0) = (sig, o1)" by fastforce
  let ?s1 = "pend False sig (?s0\<lparr>obj := o1, ev_in := ev_in ?s0 @ [?e]\<rparr>)"
  have o1: "sig" "o1 = (obj ?s0)\<lparr>events := nodes_push ?e nodes_new, eventSignaled := True\<rparr>"
    using q1 by (simp_all add: queueEvent_def agent_sys_new_def agent_ready_def createP2PObject_def)
  have open0: "\<not> agent_closed (obj ?s0)" by (simp add: agent_sys_new_def agent_ready_def createP2PObject_def)
  have r1: "agent_reachable ?jh ?s1"
    using ar_step [OF ar_init as_event [OF q1]] open0 by simp
  obtain rsig esig o2 where q2: "queueReceive_agent (Some [7]) (obj ?s1) = (rsig, esig, o2)"
    by (cases "queueReceive_agent (Some [7]) (obj ?s1)") auto
  let ?s2 = "pend rsig esig (?s1\<lparr>obj := o2, rc_in := rc_in ?s1 @ [[7]]\<rparr>)"
  have o2: "rsig" "\<not> esig" "o2 = o1\<lparr>receives := nodes_push [7] nodes_new, receiveSignaled := True, eventSignaled := True\<rparr>"
    using q2 o1 by (auto simp: queueReceive_agent_def agent_sys_new_def agent_ready_def createP2PObject_def)
  have open1: "\<not> agent_closed (obj ?s1)" using o1 open0 by simp
  have r2: "agent_reachable ?jh ?s2"
    using ar_step [OF r1 as_receive [OF q2]] open1 by simp
  have one: "pendEvent ?s2 = Suc 0" using o1 o2 by (simp add: agent_sys_new_def)
  let ?s3 = "?s2\<lparr>pendEvent := 0, obj := (obj ?s2)\<lparr>eventAvailable := True\<rparr>\<rparr>"
  have "\<not> eventAvailable (obj ?s2)" "\<not> fatal ?s2"
    using o1 o2 by (simp_all add: agent_sys_new_def agent_ready_def createP2PObject_def)
  then have r3: "agent_reachable ?jh ?s3"
    by (rule ar_step [OF r2 release_step [OF one]])
  have "onState True 3 = Some ?e" by (simp add: onState_def)
  then have eq: "demo_agent = ?s3"
    using q1 q2 by (simp add: demo_agent_def Let_def)
  show ?thesis
    unfolding eq using r3 o1 o2 by (simp add: agent_sys_new_def nodes.elems_push nodes.ok_empty nodes.elems_empty)
qed

theorem agent_wakeups_sound_witness:
  "nodes_elems (events (obj demo_agent)) \<noteq> [] \<and> eventAvailable (obj demo_agent) \<and> \<not> fatal demo_agent"
  using agent_wakeups_sound [OF demo_agent_reachable [THEN conjunct1]] demo_agent_reachable by simp

text \<open>C13. Nothing that libjuice reports to an open agent is lost, repeated or reordered, however
  consumers compete: the events taken so far are a prefix of the events reported, in order, what
  is left is still queued, and likewise for datagrams; and one drain takes at most as many as it was
  asked for, events before datagrams.\<close>

theorem agent_delivers_in_order:
  assumes "agent_reachable jh s" and "drain_locked n (obj s) = (es, rs, ragain, eagain, self)"
  shows "ev_in s = ev_out s @ es @ nodes_elems (events self) \<and>
    rc_in s = rc_out s @ rs @ nodes_elems (receives self) \<and>
    length es + length rs \<le> n \<and> (rs \<noteq> [] \<longrightarrow> nodes_elems (events self) = []) \<and>
    (length es + length rs < n \<longrightarrow> nodes_elems (events self) = [] \<and> nodes_elems (receives self) = [])"
proof -
  let ?E = "nodes_elems (events (obj s))" and ?R = "nodes_elems (receives (obj s))"
  have q: "nodes_ok (events (obj s))" "nodes_ok (receives (obj s))"
    and i: "ev_in s = ev_out s @ ?E" "rc_in s = rc_out s @ ?R"
    using agent_inv_reachable [OF assms(1)] by (simp_all add: agent_invs)
  have "es = take n ?E \<and> rs = take (n - length ?E) ?R \<and> nodes_elems (events self) = drop n ?E \<and>
      nodes_elems (receives self) = drop (n - length ?E) ?R"
    using drain_locked_eq [OF q refl refl, of n] assms(2) by auto
  then show ?thesis using i by auto
qed

theorem agent_delivers_in_order_witness:
  "\<exists>es rs ragain eagain self. drain_locked 2 (obj demo_agent) = (es, rs, ragain, eagain, self) \<and>
     es = [the (onState True 3)] \<and> rs = [[7]]"
proof -
  obtain es rs ragain eagain self where d: "drain_locked 2 (obj demo_agent) = (es, rs, ragain, eagain, self)"
    by (cases "drain_locked 2 (obj demo_agent)") auto
  note o = agent_delivers_in_order [OF demo_agent_reachable [THEN conjunct1] d]
  have i: "ev_in demo_agent = ev_out demo_agent @ [the (onState True 3)]" "rc_in demo_agent = rc_out demo_agent @ [[7]]"
    using agent_inv_reachable [OF demo_agent_reachable [THEN conjunct1]] demo_agent_reachable by (simp_all add: agent_invs)
  then have e: "es @ nodes_elems (events self) = [the (onState True 3)]" and r: "rs @ nodes_elems (receives self) = [[7]]"
    using o by simp_all
  then have "nodes_elems (events self) = []" and "nodes_elems (receives self) = []"
    using o by (auto simp: append_eq_Cons_conv)
  then show ?thesis using d e r by auto
qed


end
