(* ===== verification/Agent_Life.thy ===== *)
theory Agent_Life
  imports Agent_Sys
begin

text \<open>
  The life of an agent object (\<open>native/P2P.c\<close>) and of the libjuice agent it wraps
  (\<open>native/Juice.c\<close>): construction with every failure on the way, the methods that pass a call on
  to libjuice, closing and deallocation.

  libjuice is the parameter \<open>juice_lib\<close>; whether an allocation succeeds is an argument. What the
  program owns is counted in \<open>life_world\<close>: Python locks, \<open>FFLP2PJuice\<close> structures, datapaths and
  libjuice agents.
\<close>

section \<open>libjuice\<close>

record juice_config =
  stun_server_host :: "string option"
  stun_server_port :: nat
  bind_address :: "string option"
  local_port_range_begin :: nat
  local_port_range_end :: nat

datatype juice_state =
    JUICE_STATE_DISCONNECTED | JUICE_STATE_GATHERING | JUICE_STATE_CONNECTING | JUICE_STATE_CONNECTED
  | JUICE_STATE_COMPLETED | JUICE_STATE_FAILED

text \<open>What libjuice is asked for, besides the two send functions of \<open>juice_env\<close>.\<close>

record 'w juice_lib =
  juice_create :: "juice_config \<Rightarrow> 'w \<Rightarrow> nat option \<times> 'w"
  juice_destroy :: "nat \<Rightarrow> 'w \<Rightarrow> 'w"
  juice_gather_candidates :: "nat \<Rightarrow> 'w \<Rightarrow> juice_code \<times> 'w"
  juice_hold_gathering :: "nat \<Rightarrow> 'w \<Rightarrow> juice_code \<times> 'w"
  juice_release_gathering :: "nat \<Rightarrow> 'w \<Rightarrow> juice_code \<times> 'w"
  juice_set_remote_gathering_done :: "nat \<Rightarrow> 'w \<Rightarrow> juice_code \<times> 'w"
  juice_get_local_port :: "nat \<Rightarrow> 'w \<Rightarrow> (juice_code \<times> nat) \<times> 'w"
  juice_get_local_description :: "nat \<Rightarrow> 'w \<Rightarrow> (juice_code \<times> string) \<times> 'w"
  juice_set_remote_description :: "nat \<Rightarrow> string \<Rightarrow> 'w \<Rightarrow> juice_code \<times> 'w"
  juice_add_remote_candidate :: "nat \<Rightarrow> string \<Rightarrow> 'w \<Rightarrow> juice_code \<times> 'w"
  juice_add_local_mapped_candidate :: "nat \<Rightarrow> string \<Rightarrow> nat \<Rightarrow> 'w \<Rightarrow> juice_code \<times> 'w"
  juice_get_selected_addresses :: "nat \<Rightarrow> 'w \<Rightarrow> (juice_code \<times> string \<times> string) \<times> 'w"
  juice_get_state :: "nat \<Rightarrow> 'w \<Rightarrow> juice_state \<times> 'w"
  juice_state_number :: "juice_state \<Rightarrow> int"

record 'w life_world =
  live_locks :: nat
  live_wrappers :: nat
  live_datapaths :: nat
  live_agents :: nat
  lib :: 'w

section \<open>The wrapper\<close>

text \<open>\<open>wrapper_ok\<close> and \<open>datapath_ok\<close>: whether the structure and its datapath can be allocated.\<close>

definition createFFLP2PJuice ::
  "'w juice_lib \<Rightarrow> bool \<Rightarrow> bool \<Rightarrow> juice_config option \<Rightarrow> 'w life_world \<Rightarrow> juice_handle option \<times> 'w life_world" where
  "createFFLP2PJuice L wrapper_ok datapath_ok config w =
     (case config of
        None \<Rightarrow> (None, w)
      | Some c \<Rightarrow>
          if \<not> wrapper_ok then (None, w)
          else let w = w\<lparr>live_wrappers := live_wrappers w + 1\<rparr> in
            if \<not> datapath_ok then (None, w\<lparr>live_wrappers := live_wrappers w - 1\<rparr>)
            else let w = w\<lparr>live_datapaths := live_datapaths w + 1\<rparr> in
              (case juice_create L c (lib w) of
                 (None, x) \<Rightarrow> (None, w\<lparr>live_datapaths := live_datapaths w - 1, live_wrappers := live_wrappers w - 1, lib := x\<rparr>)
               | (Some a, x) \<Rightarrow> (Some \<lparr>jh_agent = Some a\<rparr>, w\<lparr>live_agents := live_agents w + 1, lib := x\<rparr>)))"

definition destroyFFLP2PJuice ::
  "'w juice_lib \<Rightarrow> juice_handle option \<Rightarrow> 'w life_world \<Rightarrow> 'w life_world" where
  "destroyFFLP2PJuice L juice w =
     (case juice of
        None \<Rightarrow> w
      | Some jh \<Rightarrow>
          let w = (case jh_agent jh of None \<Rightarrow> w
            | Some a \<Rightarrow> w\<lparr>live_agents := live_agents w - 1, lib := juice_destroy L a (lib w)\<rparr>)
          in w\<lparr>live_datapaths := live_datapaths w - 1, live_wrappers := live_wrappers w - 1\<rparr>)"

text \<open>The guard every accessor has, \<open>bad\<close> being what it answers without an agent.\<close>

definition juice_guard ::
  "'r \<Rightarrow> (nat \<Rightarrow> 'w \<Rightarrow> 'r \<times> 'w) \<Rightarrow> juice_handle option \<Rightarrow> 'w life_world \<Rightarrow> 'r \<times> 'w life_world" where
  "juice_guard bad f juice w =
     (case juice of
        None \<Rightarrow> (bad, w)
      | Some jh \<Rightarrow> (case jh_agent jh of
            None \<Rightarrow> (bad, w)
          | Some a \<Rightarrow> (case f a (lib w) of (r, x) \<Rightarrow> (r, w\<lparr>lib := x\<rparr>))))"

definition gatherFFLP2PJuice :: "'w juice_lib \<Rightarrow> juice_handle option \<Rightarrow> 'w life_world \<Rightarrow> juice_code \<times> 'w life_world" where
  "gatherFFLP2PJuice L = juice_guard JUICE_ERR_INVALID (juice_gather_candidates L)"

definition holdFFLP2PJuiceGathering :: "'w juice_lib \<Rightarrow> juice_handle option \<Rightarrow> 'w life_world \<Rightarrow> juice_code \<times> 'w life_world" where
  "holdFFLP2PJuiceGathering L = juice_guard JUICE_ERR_INVALID (juice_hold_gathering L)"

definition releaseFFLP2PJuiceGathering :: "'w juice_lib \<Rightarrow> juice_handle option \<Rightarrow> 'w life_world \<Rightarrow> juice_code \<times> 'w life_world" where
  "releaseFFLP2PJuiceGathering L = juice_guard JUICE_ERR_INVALID (juice_release_gathering L)"

definition completeFFLP2PJuiceRemoteGathering ::
  "'w juice_lib \<Rightarrow> juice_handle option \<Rightarrow> 'w life_world \<Rightarrow> juice_code \<times> 'w life_world" where
  "completeFFLP2PJuiceRemoteGathering L = juice_guard JUICE_ERR_INVALID (juice_set_remote_gathering_done L)"

definition getFFLP2PJuiceLocalPort ::
  "'w juice_lib \<Rightarrow> juice_handle option \<Rightarrow> 'w life_world \<Rightarrow> (juice_code \<times> nat) \<times> 'w life_world" where
  "getFFLP2PJuiceLocalPort L = juice_guard (JUICE_ERR_INVALID, 0) (juice_get_local_port L)"

definition getFFLP2PJuiceLocalDescription ::
  "'w juice_lib \<Rightarrow> juice_handle option \<Rightarrow> 'w life_world \<Rightarrow> (juice_code \<times> string) \<times> 'w life_world" where
  "getFFLP2PJuiceLocalDescription L = juice_guard (JUICE_ERR_INVALID, '''') (juice_get_local_description L)"

definition setFFLP2PJuiceRemoteDescription ::
  "'w juice_lib \<Rightarrow> juice_handle option \<Rightarrow> string \<Rightarrow> 'w life_world \<Rightarrow> juice_code \<times> 'w life_world" where
  "setFFLP2PJuiceRemoteDescription L juice sdp =
     juice_guard JUICE_ERR_INVALID (\<lambda>a. juice_set_remote_description L a sdp) juice"

definition addFFLP2PJuiceRemoteCandidate ::
  "'w juice_lib \<Rightarrow> juice_handle option \<Rightarrow> string \<Rightarrow> 'w life_world \<Rightarrow> juice_code \<times> 'w life_world" where
  "addFFLP2PJuiceRemoteCandidate L juice candidateSDP =
     juice_guard JUICE_ERR_INVALID (\<lambda>a. juice_add_remote_candidate L a candidateSDP) juice"

definition addFFLP2PJuiceMappedCandidate ::
  "'w juice_lib \<Rightarrow> juice_handle option \<Rightarrow> string \<Rightarrow> nat \<Rightarrow> 'w life_world \<Rightarrow> juice_code \<times> 'w life_world" where
  "addFFLP2PJuiceMappedCandidate L juice address port =
     juice_guard JUICE_ERR_INVALID (\<lambda>a. juice_add_local_mapped_candidate L a address port) juice"

definition getFFLP2PJuiceSelectedAddresses ::
  "'w juice_lib \<Rightarrow> juice_handle option \<Rightarrow> 'w life_world \<Rightarrow> (juice_code \<times> string \<times> string) \<times> 'w life_world" where
  "getFFLP2PJuiceSelectedAddresses L = juice_guard (JUICE_ERR_INVALID, '''', '''') (juice_get_selected_addresses L)"

definition getFFLP2PJuiceState ::
  "'w juice_lib \<Rightarrow> juice_handle option \<Rightarrow> 'w life_world \<Rightarrow> juice_state \<times> 'w life_world" where
  "getFFLP2PJuiceState L = juice_guard JUICE_STATE_FAILED (juice_get_state L)"

section \<open>Construction\<close>

text \<open>The arguments as Python passes them. The format \<open>I\<close> of \<open>PyArg_ParseTupleAndKeywords\<close>
  converts an integer to \<open>unsigned int\<close> without an overflow check.\<close>

record agent_args =
  stunHost :: "string option"
  stunPort :: int
  bindAddress :: "string option"
  portBegin :: int
  portEnd :: int

definition unsigned_arg :: "int \<Rightarrow> u32" where
  "unsigned_arg n = word_of_int n"

record alloc_outcome =
  lock_ok :: bool
  event_ok :: bool
  receive_ok :: bool
  wrapper_ok :: bool
  datapath_ok :: bool

definition count_true :: "bool list \<Rightarrow> nat" where
  "count_true bs = length (filter id bs)"

definition initializeAgent ::
  "'w juice_lib \<Rightarrow> alloc_outcome \<Rightarrow> agent_args option \<Rightarrow> agent_obj \<times> 'w life_world
     \<Rightarrow> (py_exc + unit) \<times> agent_obj \<times> 'w life_world" where
  "initializeAgent L al parsed s =
     (case parsed of
        None \<Rightarrow> (Inl PyCallFailed, s)
      | Some args \<Rightarrow>
          (let sp = unsigned_arg (stunPort args); pb = unsigned_arg (portBegin args); pe = unsigned_arg (portEnd args);
               self = fst s; w = snd s
           in if sp > 65535 \<or> pb > 65535 \<or> pe > 65535 then (Inl (PyValueError ''port out of range''), s)
           else
             let self = self\<lparr>agent_lock := lock_ok al, eventLock := event_ok al, receiveLock := receive_ok al\<rparr>;
                 n = count_true [lock_ok al, event_ok al, receive_ok al];
                 w = w\<lparr>live_locks := live_locks w + n\<rparr>
             in if \<not> lock_ok al \<or> \<not> event_ok al \<or> \<not> receive_ok al
             then (Inl PyMemoryError, self\<lparr>agent_lock := False, eventLock := False, receiveLock := False\<rparr>,
                   w\<lparr>live_locks := live_locks w - n\<rparr>)
             else
               let self = self\<lparr>eventAvailable := False, receiveAvailable := False\<rparr>;
                   config = \<lparr>stun_server_host = stunHost args, stun_server_port = unat sp,
                     bind_address = bindAddress args, local_port_range_begin = unat pb, local_port_range_end = unat pe\<rparr>
               in (case createFFLP2PJuice L (wrapper_ok al) (datapath_ok al) (Some config) w of
                     (None, w) \<Rightarrow> (Inl (PyRuntimeError ''createFFLP2PJuice failed''),
                        self\<lparr>agent_juice := None, receiveLock := False, eventLock := False, agent_lock := False\<rparr>,
                        w\<lparr>live_locks := live_locks w - 3\<rparr>)
                   | (Some jh, w) \<Rightarrow> (Inr (), self\<lparr>agent_juice := Some jh\<rparr>, w))))"

section \<open>Closing and deallocation\<close>

definition closeAgent ::
  "'w juice_lib \<Rightarrow> agent_obj \<times> 'w life_world \<Rightarrow> (py_exc + py_value) \<times> agent_obj \<times> 'w life_world" where
  "closeAgent L s = (Inr PyNone, closeAgent_obj (fst s), destroyFFLP2PJuice L (agent_juice (fst s)) (snd s))"

text \<open>The nodes still queued are freed; the object is left for \<open>tp_free\<close>.\<close>

definition deallocateAgent :: "'w juice_lib \<Rightarrow> agent_obj \<times> 'w life_world \<Rightarrow> agent_obj \<times> 'w life_world" where
  "deallocateAgent L s =
     (let self = fst s;
          w = destroyFFLP2PJuice L (agent_juice self) (snd s);
          n = count_true [agent_lock self, receiveLock self, eventLock self];
          self = (if agent_lock self
            then self\<lparr>agent_closed := True, dataSink := None, dataSinkUserPtr := None,
              events := snd (nodes_clear (events self)), receives := snd (nodes_clear (receives self)), agent_lock := False\<rparr>
            else self)
      in (self\<lparr>agent_juice := None, receiveLock := False, eventLock := False\<rparr>, w\<lparr>live_locks := live_locks w - n\<rparr>))"

section \<open>The methods\<close>

definition checkJuiceResult :: "'w juice_env \<Rightarrow> juice_code \<Rightarrow> string \<Rightarrow> py_exc + unit" where
  "checkJuiceResult J result op_name =
     (if result = JUICE_ERR_SUCCESS then Inr ()
      else Inl (PyRuntimeError (op_name @ '' failed: libjuice error '' @ juice_text J result)))"

type_synonym 'w agent_method = "agent_obj \<Rightarrow> 'w life_world \<Rightarrow> (py_exc + py_value) \<times> 'w life_world"

text \<open>The end of a method whose call has a result code.\<close>

definition juice_checked ::
  "'w juice_env \<Rightarrow> string \<Rightarrow> py_value \<Rightarrow> juice_code \<times> 'w life_world \<Rightarrow> (py_exc + py_value) \<times> 'w life_world" where
  "juice_checked J label value r =
     (case checkJuiceResult J (fst r) label of
        Inl e \<Rightarrow> (Inl e, snd r)
      | Inr _ \<Rightarrow> (Inr value, snd r))"

definition if_open :: "'w agent_method \<Rightarrow> 'w agent_method" where
  "if_open body self w = (case requireOpen self of Inl e \<Rightarrow> (Inl e, w) | Inr _ \<Rightarrow> body self w)"

definition SIMPLE_AGENT_METHOD ::
  "'w juice_env \<Rightarrow> (juice_handle option \<Rightarrow> 'w life_world \<Rightarrow> juice_code \<times> 'w life_world) \<Rightarrow> string \<Rightarrow> 'w agent_method" where
  "SIMPLE_AGENT_METHOD J f label = if_open (\<lambda>self w. juice_checked J label PyNone (f (agent_juice self) w))"

definition gatherAgent :: "'w juice_env \<Rightarrow> 'w juice_lib \<Rightarrow> 'w agent_method" where
  "gatherAgent J L = SIMPLE_AGENT_METHOD J (gatherFFLP2PJuice L) ''gather''"

definition holdAgentGathering :: "'w juice_env \<Rightarrow> 'w juice_lib \<Rightarrow> 'w agent_method" where
  "holdAgentGathering J L = SIMPLE_AGENT_METHOD J (holdFFLP2PJuiceGathering L) ''holdGathering''"

definition releaseAgentGathering :: "'w juice_env \<Rightarrow> 'w juice_lib \<Rightarrow> 'w agent_method" where
  "releaseAgentGathering J L = SIMPLE_AGENT_METHOD J (releaseFFLP2PJuiceGathering L) ''releaseGathering''"

definition completeAgentRemoteGathering :: "'w juice_env \<Rightarrow> 'w juice_lib \<Rightarrow> 'w agent_method" where
  "completeAgentRemoteGathering J L = SIMPLE_AGENT_METHOD J (completeFFLP2PJuiceRemoteGathering L) ''remoteGatheringDone''"

definition getAgentLocalPort :: "'w juice_env \<Rightarrow> 'w juice_lib \<Rightarrow> 'w agent_method" where
  "getAgentLocalPort J L = if_open (\<lambda>self w.
     (case getFFLP2PJuiceLocalPort L (agent_juice self) w of
        ((result, port), w) \<Rightarrow> juice_checked J ''localPort'' (PyInt (int port)) (result, w)))"

definition getAgentLocalDescription :: "'w juice_env \<Rightarrow> 'w juice_lib \<Rightarrow> 'w agent_method" where
  "getAgentLocalDescription J L = if_open (\<lambda>self w.
     (case getFFLP2PJuiceLocalDescription L (agent_juice self) w of
        ((result, buffer), w) \<Rightarrow> juice_checked J ''localDescription'' (PyStr buffer) (result, w)))"

text \<open>A text argument is \<open>None\<close> when Python cannot encode it.\<close>

definition setAgentRemoteDescription :: "'w juice_env \<Rightarrow> 'w juice_lib \<Rightarrow> string option \<Rightarrow> 'w agent_method" where
  "setAgentRemoteDescription J L argument = if_open (\<lambda>self w.
     (case argument of
        None \<Rightarrow> (Inl PyCallFailed, w)
      | Some sdp \<Rightarrow> juice_checked J ''setRemoteDescription'' PyNone (setFFLP2PJuiceRemoteDescription L (agent_juice self) sdp w)))"

definition addAgentRemoteCandidate :: "'w juice_env \<Rightarrow> 'w juice_lib \<Rightarrow> string option \<Rightarrow> 'w agent_method" where
  "addAgentRemoteCandidate J L argument = if_open (\<lambda>self w.
     (case argument of
        None \<Rightarrow> (Inl PyCallFailed, w)
      | Some sdp \<Rightarrow> juice_checked J ''addRemoteCandidate'' PyNone (addFFLP2PJuiceRemoteCandidate L (agent_juice self) sdp w)))"

definition addAgentMappedCandidate :: "'w juice_env \<Rightarrow> 'w juice_lib \<Rightarrow> (string \<times> int) option \<Rightarrow> 'w agent_method" where
  "addAgentMappedCandidate J L args = if_open (\<lambda>self w.
     (case args of
        None \<Rightarrow> (Inl PyCallFailed, w)
      | Some (address, n) \<Rightarrow>
          let port = unsigned_arg n in
          if port = 0 \<or> port > 65535 then (Inl (PyValueError ''port out of range''), w)
          else juice_checked J ''addMappedCandidate'' PyNone
            (addFFLP2PJuiceMappedCandidate L (agent_juice self) address (unat port) w)))"

text \<open>\<open>view\<close> is the buffer of the argument, \<open>None\<close> if it has none.\<close>

definition sendAgent :: "'w juice_env \<Rightarrow> bytes option \<Rightarrow> 'w agent_method" where
  "sendAgent J view = if_open (\<lambda>self w.
     (case view of
        None \<Rightarrow> (Inl PyCallFailed, w)
      | Some data \<Rightarrow> (case sendFFLP2PJuice J (agent_juice self) data (lib w) of
          (result, x) \<Rightarrow> juice_checked J ''send'' PyNone (result, w\<lparr>lib := x\<rparr>))))"

definition getAgentState :: "'w juice_lib \<Rightarrow> 'w agent_method" where
  "getAgentState L = if_open (\<lambda>self w.
     (case getFFLP2PJuiceState L (agent_juice self) w of (st, w) \<Rightarrow> (Inr (PyInt (juice_state_number L st)), w)))"

definition getAgentSelectedAddresses :: "'w juice_env \<Rightarrow> 'w juice_lib \<Rightarrow> 'w agent_method" where
  "getAgentSelectedAddresses J L = if_open (\<lambda>self w.
     (case getFFLP2PJuiceSelectedAddresses L (agent_juice self) w of
        ((result, local, remote), w) \<Rightarrow>
          if result = JUICE_ERR_NOT_AVAIL then (Inr PyNone, w)
          else juice_checked J ''selectedAddresses'' (PyTuple [PyStr local, PyStr remote]) (result, w)))"

section \<open>The native side\<close>

definition getFFLP2PAgentNativeHandle :: "bool \<Rightarrow> nat \<Rightarrow> py_exc + nat" where
  "getFFLP2PAgentNativeHandle is_agent object =
     (if is_agent then Inr object else Inl (PyTypeError ''agent must be an _ffl_p2p.Agent''))"

text \<open>\<open>receiveFFLP2PAgentNative\<close> with output pointers that are not null. \<open>others\<close> is what other
  threads do to the agent while the call waits, \<open>acquired\<close> whether it gets the token in time.\<close>

definition release_receive :: "bool \<Rightarrow> agent_obj \<Rightarrow> agent_obj" where
  "release_receive again self = (if again then self\<lparr>receiveAvailable := True\<rparr> else self)"

definition receiveFFLP2PAgentNative ::
  "int \<Rightarrow> bool \<Rightarrow> (agent_obj \<Rightarrow> agent_obj) \<Rightarrow> agent_obj \<Rightarrow> (int \<times> bytes option) \<times> agent_obj" where
  "receiveFFLP2PAgentNative timeout acquired others self =
     (if timeout < 0 then ((- 1, None), self)
      else (case receive_first self of (receive, again, self) \<Rightarrow>
        let self = release_receive again self in
        case receive of
          Some d \<Rightarrow> ((1, Some d), self)
        | None \<Rightarrow>
            if timeout = 0 then ((0, None), self)
            else let self = others self in
              if \<not> acquired then ((0, None), self)
              else (case receive_second (self\<lparr>receiveAvailable := False\<rparr>) of (receive, again, self) \<Rightarrow>
                (case receive of None \<Rightarrow> (0, None) | Some d \<Rightarrow> (1, Some d), release_receive again self))))"


section \<open>What the program owns\<close>

definition owned :: "'w life_world \<Rightarrow> nat \<times> nat \<times> nat \<times> nat" where
  "owned w = (live_locks w, live_wrappers w, live_datapaths w, live_agents w)"

text \<open>\<open>owned_with w0 self w\<close>: beyond what was owned in \<open>w0\<close>, only what the object refers to.\<close>

definition owned_with :: "'w life_world \<Rightarrow> agent_obj \<Rightarrow> 'w life_world \<Rightarrow> bool" where
  "owned_with w0 self w \<longleftrightarrow>
     (let j = (if agent_juice self = None then 0 else 1) in
      live_locks w = live_locks w0 + count_true [agent_lock self, receiveLock self, eventLock self] \<and>
      live_wrappers w = live_wrappers w0 + j \<and> live_datapaths w = live_datapaths w0 + j \<and>
      live_agents w = live_agents w0 + j)"

definition agent_methods :: "'w juice_env \<Rightarrow> 'w juice_lib \<Rightarrow> 'w agent_method set" where
  "agent_methods J L =
     {gatherAgent J L, holdAgentGathering J L, releaseAgentGathering J L, completeAgentRemoteGathering J L,
      getAgentLocalPort J L, getAgentLocalDescription J L, getAgentState L, getAgentSelectedAddresses J L} \<union>
     range (setAgentRemoteDescription J L) \<union> range (addAgentRemoteCandidate J L) \<union>
     range (addAgentMappedCandidate J L) \<union> range (sendAgent J)"

lemma count_true_simps [simp]: "count_true [] = 0" "count_true (b # bs) = (if b then 1 else 0) + count_true bs"
  by (simp_all add: count_true_def)

lemma owned_lib [simp]: "owned (w\<lparr>lib := x\<rparr>) = owned w"
  by (simp add: owned_def)

lemma juice_guard_owned: "juice_guard bad f juice w = (r, w') \<Longrightarrow> owned w' = owned w"
  by (auto simp: juice_guard_def split: option.splits prod.splits)

lemma juice_guard_owned_snd [simp]: "owned (snd (juice_guard bad f juice w)) = owned w"
  using juice_guard_owned prod.collapse by metis

lemma juice_checked_snd [simp]: "snd (juice_checked J label v r) = snd r"
  by (simp add: juice_checked_def split: sum.split)

definition keeps_owned :: "'w agent_method \<Rightarrow> bool" where
  "keeps_owned m \<longleftrightarrow> (\<forall>self w. owned (snd (m self w)) = owned w)"

lemma keeps_if_open: "(\<And>self w. owned (snd (body self w)) = owned w) \<Longrightarrow> keeps_owned (if_open body)"
  by (simp add: keeps_owned_def if_open_def split: sum.split)

lemmas juice_calls = gatherFFLP2PJuice_def holdFFLP2PJuiceGathering_def releaseFFLP2PJuiceGathering_def
  completeFFLP2PJuiceRemoteGathering_def getFFLP2PJuiceLocalPort_def getFFLP2PJuiceLocalDescription_def
  setFFLP2PJuiceRemoteDescription_def addFFLP2PJuiceRemoteCandidate_def addFFLP2PJuiceMappedCandidate_def
  getFFLP2PJuiceSelectedAddresses_def getFFLP2PJuiceState_def

lemmas agent_method_defs = gatherAgent_def holdAgentGathering_def releaseAgentGathering_def
  completeAgentRemoteGathering_def SIMPLE_AGENT_METHOD_def getAgentLocalPort_def getAgentLocalDescription_def
  getAgentState_def getAgentSelectedAddresses_def setAgentRemoteDescription_def addAgentRemoteCandidate_def
  addAgentMappedCandidate_def sendAgent_def

text \<open>Every method first asks whether the agent is open.\<close>

lemma agent_methods_closed:
  assumes "m \<in> agent_methods J L" and "agent_juice self = None \<or> agent_closed self"
  shows "m self w = (Inl (PyRuntimeError ''agent is closed''), w)"
  using assms by (auto simp: agent_methods_def agent_method_defs if_open_def requireOpen_def)

lemma agent_methods_owned:
  assumes "m \<in> agent_methods J L"
  shows "keeps_owned m"
  using assms unfolding agent_methods_def agent_method_defs juice_calls
  by (auto intro!: keeps_if_open dest: juice_guard_owned simp: Let_def split: prod.split option.split)

section \<open>Construction succeeds or leaves nothing behind\<close>

definition config_of :: "agent_args \<Rightarrow> juice_config" where
  "config_of args = \<lparr>stun_server_host = stunHost args, stun_server_port = unat (unsigned_arg (stunPort args)),
     bind_address = bindAddress args, local_port_range_begin = unat (unsigned_arg (portBegin args)),
     local_port_range_end = unat (unsigned_arg (portEnd args))\<rparr>"

definition ports_ok :: "agent_args \<Rightarrow> bool" where
  "ports_ok args \<longleftrightarrow> unsigned_arg (stunPort args) \<le> 65535 \<and> unsigned_arg (portBegin args) \<le> 65535 \<and>
     unsigned_arg (portEnd args) \<le> 65535"

lemma createFFLP2PJuice_result:
  assumes "createFFLP2PJuice L wo do (Some c) w = (r, w')"
  shows "(case r of
      None \<Rightarrow> owned w' = owned w \<and> (wo \<and> do \<longrightarrow> fst (juice_create L c (lib w)) = None)
    | Some jh \<Rightarrow> wo \<and> do \<and> (\<exists>a. jh = \<lparr>jh_agent = Some a\<rparr> \<and> fst (juice_create L c (lib w)) = Some a) \<and>
        owned w' = (live_locks w, Suc (live_wrappers w), Suc (live_datapaths w), Suc (live_agents w)))"
  using assms
  by (auto simp: createFFLP2PJuice_def Let_def owned_def split: if_splits prod.splits option.splits)

lemma ports_ok_not: "\<not> ports_ok args \<longleftrightarrow> unsigned_arg (stunPort args) > 65535 \<or> unsigned_arg (portBegin args) > 65535 \<or>
    unsigned_arg (portEnd args) > 65535"
  by (auto simp: ports_ok_def not_le)

text \<open>C33. Constructing an agent either succeeds, with the three locks, one libjuice agent created
  with the arguments given, empty queues and both wake tokens taken; or it raises: \<open>ValueError\<close> for
  a port out of range, \<open>MemoryError\<close> if a lock could not be allocated, \<open>RuntimeError\<close> if libjuice or
  its wrapper could not be created, and then the object is as it was and nothing stays allocated.\<close>

theorem initialise_all_or_nothing:
  assumes run: "initializeAgent L al (Some args) (createP2PObject, w) = (r, self, w')"
  shows "(case r of
      Inl e \<Rightarrow> self = createP2PObject \<and> owned w' = owned w \<and>
        (e = PyValueError ''port out of range'' \<and> \<not> ports_ok args \<or>
         e = PyMemoryError \<and> ports_ok args \<and> \<not> (lock_ok al \<and> event_ok al \<and> receive_ok al) \<or>
         e = PyRuntimeError ''createFFLP2PJuice failed'' \<and> ports_ok args \<and> lock_ok al \<and> event_ok al \<and> receive_ok al \<and>
           \<not> (wrapper_ok al \<and> datapath_ok al \<and> fst (juice_create L (config_of args) (lib w)) \<noteq> None))
    | Inr _ \<Rightarrow> ports_ok args \<and> (\<exists>a. fst (juice_create L (config_of args) (lib w)) = Some a \<and>
        self = agent_ready \<lparr>jh_agent = Some a\<rparr>) \<and>
        owned w' = (live_locks w + 3, live_wrappers w + 1, live_datapaths w + 1, live_agents w + 1))"
proof (cases "ports_ok args")
  case False
  then have "(r, self, w') = (Inl (PyValueError ''port out of range''), createP2PObject, w)"
    using run unfolding initializeAgent_def Let_def ports_ok_not by simp
  then show ?thesis using False by simp
next
  case ok: True
  then have ports: "\<not> (unsigned_arg (stunPort args) > 65535 \<or> unsigned_arg (portBegin args) > 65535 \<or>
    unsigned_arg (portEnd args) > 65535)" using ports_ok_not by blast
  show ?thesis
  proof (cases "lock_ok al \<and> event_ok al \<and> receive_ok al")
    case False
    then have "(r, self, w') = (Inl PyMemoryError, createP2PObject, w)"
      using run ports by (auto simp: initializeAgent_def Let_def createP2PObject_def)
    then show ?thesis using False ok by auto
  next
    case locks: True
    obtain j w1 where c: "createFFLP2PJuice L (wrapper_ok al) (datapath_ok al) (Some (config_of args))
        (w\<lparr>live_locks := live_locks w + 3\<rparr>) = (j, w1)" by fastforce
    note cr = createFFLP2PJuice_result [OF c]
    have eq: "(r, self, w') = (case j of
        None \<Rightarrow> (Inl (PyRuntimeError ''createFFLP2PJuice failed''), createP2PObject, w1\<lparr>live_locks := live_locks w1 - 3\<rparr>)
      | Some jh \<Rightarrow> (Inr (), agent_ready jh, w1))"
      using run ports locks c unfolding config_of_def
      by (cases j) (auto simp: initializeAgent_def Let_def createP2PObject_def agent_ready_def numeral_3_eq_3)
    show ?thesis using eq cr ok locks by (cases j) (auto simp: owned_def)
  qed
qed


text \<open>A libjuice that grants everything, for concrete runs.\<close>

definition demo_juice_lib :: "unit juice_lib" where
  "demo_juice_lib = \<lparr>juice_create = (\<lambda>c w. (Some 7, w)), juice_destroy = (\<lambda>a w. w),
     juice_gather_candidates = (\<lambda>a w. (JUICE_ERR_SUCCESS, w)), juice_hold_gathering = (\<lambda>a w. (JUICE_ERR_SUCCESS, w)),
     juice_release_gathering = (\<lambda>a w. (JUICE_ERR_SUCCESS, w)),
     juice_set_remote_gathering_done = (\<lambda>a w. (JUICE_ERR_SUCCESS, w)),
     juice_get_local_port = (\<lambda>a w. ((JUICE_ERR_SUCCESS, 4000), w)),
     juice_get_local_description = (\<lambda>a w. ((JUICE_ERR_SUCCESS, ''a''), w)),
     juice_set_remote_description = (\<lambda>a d w. (JUICE_ERR_SUCCESS, w)),
     juice_add_remote_candidate = (\<lambda>a d w. (JUICE_ERR_SUCCESS, w)),
     juice_add_local_mapped_candidate = (\<lambda>a d p w. (JUICE_ERR_SUCCESS, w)),
     juice_get_selected_addresses = (\<lambda>a w. ((JUICE_ERR_NOT_AVAIL, '''', ''''), w)),
     juice_get_state = (\<lambda>a w. (JUICE_STATE_DISCONNECTED, w)), juice_state_number = (\<lambda>s. 0)\<rparr>"

definition demo_args :: agent_args where
  "demo_args = \<lparr>stunHost = None, stunPort = 3478, bindAddress = None, portBegin = 0, portEnd = 0\<rparr>"

definition demo_alloc :: "bool \<Rightarrow> alloc_outcome" where
  "demo_alloc b = \<lparr>lock_ok = True, event_ok = True, receive_ok = True, wrapper_ok = True, datapath_ok = b\<rparr>"

definition demo_life_world :: "unit life_world" where
  "demo_life_world = \<lparr>live_locks = 2, live_wrappers = 0, live_datapaths = 0, live_agents = 0, lib = ()\<rparr>"

lemma demo_create:
  "initializeAgent demo_juice_lib (demo_alloc True) (Some demo_args) (createP2PObject, demo_life_world) =
     (Inr (), agent_ready \<lparr>jh_agent = Some 7\<rparr>,
      \<lparr>live_locks = 5, live_wrappers = 1, live_datapaths = 1, live_agents = 1, lib = ()\<rparr>)"
  "initializeAgent demo_juice_lib (demo_alloc False) (Some demo_args) (createP2PObject, demo_life_world) =
     (Inl (PyRuntimeError ''createFFLP2PJuice failed''), createP2PObject, demo_life_world)"
  by (simp_all add: initializeAgent_def demo_juice_lib_def demo_args_def demo_alloc_def demo_life_world_def Let_def
      unsigned_arg_def createP2PObject_def agent_ready_def createFFLP2PJuice_def)

theorem initialise_all_or_nothing_witness:
  "owned (snd (snd (initializeAgent demo_juice_lib (demo_alloc False) (Some demo_args) (createP2PObject, demo_life_world))))
     = owned demo_life_world"
  using initialise_all_or_nothing [OF demo_create(2)] demo_create(2) by simp

section \<open>The whole life\<close>

text \<open>An object from construction on, through anything that can happen to it before deallocation.\<close>

inductive agent_life :: "'w juice_env \<Rightarrow> 'w juice_lib \<Rightarrow> 'w life_world \<Rightarrow> agent_obj \<Rightarrow> 'w life_world \<Rightarrow> bool"
  for J L w0 where
  life_init: "initializeAgent L al parsed (createP2PObject, w0) = (r, self, w) \<Longrightarrow> agent_life J L w0 self w"
| life_method: "agent_life J L w0 self w \<Longrightarrow> m \<in> agent_methods J L \<Longrightarrow> m self w = (r, w') \<Longrightarrow> agent_life J L w0 self w'"
| life_event: "agent_life J L w0 self w \<Longrightarrow> queueEvent e self = (sig, self') \<Longrightarrow> agent_life J L w0 self' w"
| life_receive: "agent_life J L w0 self w \<Longrightarrow> queueReceive_agent d self = (rsig, esig, self') \<Longrightarrow> agent_life J L w0 self' w"
| life_drain: "agent_life J L w0 self w \<Longrightarrow> drain_locked n self = (es, rs, ragain, eagain, self') \<Longrightarrow> agent_life J L w0 self' w"
| life_pop: "agent_life J L w0 self w \<Longrightarrow> popReceiveLocked self = (d, again, self') \<Longrightarrow> agent_life J L w0 self' w"
| life_token: "agent_life J L w0 self w \<Longrightarrow>
    agent_life J L w0 (self\<lparr>eventAvailable := a, receiveAvailable := b, eventSignaled := c, receiveSignaled := d\<rparr>) w"
| life_sink: "agent_life J L w0 self w \<Longrightarrow> agent_life J L w0 (self\<lparr>dataSink := f, dataSinkUserPtr := u\<rparr>) w"
| life_close: "agent_life J L w0 self w \<Longrightarrow> closeAgent L (self, w) = (r, self', w') \<Longrightarrow> agent_life J L w0 self' w'"

definition life_inv :: "'w life_world \<Rightarrow> agent_obj \<Rightarrow> 'w life_world \<Rightarrow> bool" where
  "life_inv w0 self w \<longleftrightarrow> owned_with w0 self w \<and> nodes_ok (events self) \<and> nodes_ok (receives self) \<and>
     (\<forall>jh. agent_juice self = Some jh \<longrightarrow> jh_agent jh \<noteq> None) \<and>
     (\<not> agent_lock self \<longrightarrow> events self = nodes_new \<and> receives self = nodes_new)"

lemma owned_with_owned:
  assumes "owned w' = owned w" and "owned_with w0 self w" and "agent_juice self' = agent_juice self"
    and "agent_lock self' = agent_lock self" and "eventLock self' = eventLock self" and "receiveLock self' = receiveLock self"
  shows "owned_with w0 self' w'"
  using assms by (simp add: owned_with_def owned_def Let_def)

lemma life_inv_init:
  assumes "initializeAgent L al parsed (createP2PObject, w0) = (r, self, w)"
  shows "life_inv w0 self w"
proof (cases parsed)
  case None
  then show ?thesis using assms
    by (auto simp: nodes.ok_empty initializeAgent_def life_inv_def owned_with_def createP2PObject_def Let_def)
next
  case (Some args)
  note i = initialise_all_or_nothing [OF assms [unfolded Some]]
  show ?thesis
  proof (cases r)
    case (Inl e)
    then show ?thesis using i
      by (auto simp: nodes.ok_empty life_inv_def owned_with_def createP2PObject_def owned_def Let_def)
  next
    case (Inr u)
    then show ?thesis using i
      by (auto simp: nodes.ok_empty life_inv_def owned_with_def createP2PObject_def agent_ready_def owned_def Let_def)
  qed
qed


lemma destroy_owned:
  assumes "owned_with w0 self w" and "\<forall>jh. agent_juice self = Some jh \<longrightarrow> jh_agent jh \<noteq> None"
  shows "owned_with w0 (self\<lparr>agent_juice := None\<rparr>) (destroyFFLP2PJuice L (agent_juice self) w)"
  using assms by (auto simp: owned_with_def destroyFFLP2PJuice_def Let_def split: option.splits)

lemma closeAgent_obj_fields [simp]:
  "agent_juice (closeAgent_obj self) = None" "agent_lock (closeAgent_obj self) = agent_lock self"
  "eventLock (closeAgent_obj self) = eventLock self" "receiveLock (closeAgent_obj self) = receiveLock self"
  "events (closeAgent_obj self) = events self" "receives (closeAgent_obj self) = receives self"
  by (simp_all add: closeAgent_obj_def Let_def)

lemma life_inv_obj:
  assumes "life_inv w0 self w" and "agent_juice self' = agent_juice self" and "agent_lock self' = agent_lock self"
    and "eventLock self' = eventLock self" and "receiveLock self' = receiveLock self"
    and "agent_lock self \<Longrightarrow> nodes_ok (events self) \<Longrightarrow> nodes_ok (events self')"
    and "agent_lock self \<Longrightarrow> nodes_ok (receives self) \<Longrightarrow> nodes_ok (receives self')"
    and "\<not> agent_lock self \<Longrightarrow> events self' = events self \<and> receives self' = receives self"
  shows "life_inv w0 self' w"
  using assms owned_with_owned [of w w w0 self self'] by (cases "agent_lock self") (auto simp: life_inv_def)

lemma pop_many_new: "pop_many nodes_pop k nodes_new = ([], nodes_new)"
  by (cases k) (simp_all add: nodes_pop_def nodes_new_def)

lemma life_inv_drain:
  assumes "life_inv w0 self w" and "drain_locked n self = (es, rs, ragain, eagain, self')"
  shows "life_inv w0 self' w"
proof -
  have ok: "nodes_ok (events self)" "nodes_ok (receives self)" using assms(1) by (simp_all add: life_inv_def)
  obtain es' eq where 1: "pop_many nodes_pop n (events self) = (es', eq)" by fastforce
  obtain rs' rq where 2: "pop_many nodes_pop (n - length es') (receives self) = (rs', rq)" by fastforce
  have s: "events self' = eq \<and> receives self' = rq \<and> agent_juice self' = agent_juice self \<and>
      agent_lock self' = agent_lock self \<and> eventLock self' = eventLock self \<and> receiveLock self' = receiveLock self"
    using assms(2) 1 2 by (auto simp: drain_locked_def Let_def)
  have "\<not> agent_lock self \<Longrightarrow> eq = events self \<and> rq = receives self"
    using assms(1) 1 2 by (auto simp: life_inv_def pop_many_new)
  then show ?thesis
    using life_inv_obj [OF assms(1), of self'] s nodes.pop_many_spec [OF ok(1) 1] nodes.pop_many_spec [OF ok(2) 2] by simp
qed

lemma life_inv_pop:
  assumes "life_inv w0 self w" and "popReceiveLocked self = (d, again, self')"
  shows "life_inv w0 self' w"
proof (cases "nodes_pop (receives self)")
  case None
  then show ?thesis using assms by (simp add: popReceiveLocked_def)
next
  case (Some p)
  obtain x q where p: "p = (x, q)" by fastforce
  have "agent_lock self"
    using assms(1) Some by (cases "agent_lock self") (auto simp: life_inv_def nodes_pop_def nodes_new_def)
  moreover have "nodes_ok q" using nodes.ok_pop assms(1) Some p by (fastforce simp: life_inv_def)
  moreover have "receives self' = q \<and> events self' = events self \<and> agent_juice self' = agent_juice self \<and>
      agent_lock self' = agent_lock self \<and> eventLock self' = eventLock self \<and> receiveLock self' = receiveLock self"
    using assms(2) Some p by (auto simp: popReceiveLocked_def Let_def)
  ultimately show ?thesis using life_inv_obj [OF assms(1), of self'] by simp
qed

lemma agent_life_inv:
  assumes "agent_life J L w0 self w"
  shows "life_inv w0 self w"
  using assms
proof induction
  case (life_init al parsed r self w)
  then show ?case by (rule life_inv_init)
next
  case (life_method self w m r w')
  then have "owned w' = owned w" using agent_methods_owned by (metis keeps_owned_def snd_conv)
  then show ?case using life_method owned_with_owned [of w' w w0 self self] by (simp add: life_inv_def)
next
  case (life_event self w e sig self')
  then show ?case
    by (auto simp: queueEvent_def nodes.ok_push split: option.splits if_splits intro!: life_inv_obj [OF life_event(3)])
next
  case (life_receive self w d rsig esig self')
  then show ?case
    by (auto simp: queueReceive_agent_def nodes.ok_push split: option.splits if_splits intro!: life_inv_obj [OF life_receive(3)])
next
  case (life_drain self w n es rs ragain eagain self')
  then show ?case using life_inv_drain by blast
next
  case (life_pop self w d again self')
  then show ?case using life_inv_pop by blast
next
  case (life_token self w a b c d)
  then show ?case by (auto intro: life_inv_obj)
next
  case (life_sink self w f u)
  then show ?case by (auto intro: life_inv_obj)
next
  case (life_close self w r self' w')
  have o: "owned_with w0 (self\<lparr>agent_juice := None\<rparr>) (destroyFFLP2PJuice L (agent_juice self) w)"
    using destroy_owned life_close.IH by (auto simp: life_inv_def)
  have "owned_with w0 self' w'"
    using owned_with_owned [OF _ o, of w' self'] life_close by (auto simp: closeAgent_def)
  then show ?case using life_close by (auto simp: closeAgent_def life_inv_def)
qed




section \<open>After close\<close>

text \<open>A closed agent refuses everything and loses nothing: every method raises \<open>agent is closed\<close>
  without reaching libjuice, what libjuice still reports is dropped, a native send is refused, no
  sink can be installed, and what had been queued before the close is handed out as before.\<close>

theorem closed_agent_refuses:
  assumes closed: "self' = closeAgent_obj self" and m: "m \<in> agent_methods J L"
    and agents: "agents h = agent.truncate self'"
  shows "m self' w = (Inl (PyRuntimeError ''agent is closed''), w) \<and>
    queueEvent e self' = (False, self') \<and> queueReceive_agent d self' = (False, False, self') \<and>
    (\<forall>ok dup data f u x. onReceive ok dup data self' \<noteq> ToSink f u x) \<and>
    sendFFLP2PAgentNative J (Some h) data agents x = (JUICE_ERR_INVALID, x) \<and>
    fst (setFFLP2PAgentNativeDataSink (Some h) sink user agents) = -1 \<and>
    fst (drain_locked n self') = fst (drain_locked n self) \<and>
    fst (snd (drain_locked n self')) = fst (snd (drain_locked n self))"
proof (intro conjI allI)
  show "m self' w = (Inl (PyRuntimeError ''agent is closed''), w)"
    using agent_methods_closed [OF m] closed by simp
  show "queueEvent e self' = (False, self')"
    using closed by (auto simp: queueEvent_def closeAgent_obj_def Let_def split: option.split)
  show "queueReceive_agent d self' = (False, False, self')"
    using closed by (auto simp: queueReceive_agent_def closeAgent_obj_def Let_def split: option.split)
  show "onReceive ok dup data self' \<noteq> ToSink f u x" for ok dup data f u x
    using closed by (auto simp: onReceive_def closeAgent_obj_def Let_def split: bool.split option.split)
  have none: "agent_juice (agents h) = None" using agents closed by (simp add: agent.defs)
  show "sendFFLP2PAgentNative J (Some h) data agents x = (JUICE_ERR_INVALID, x)"
    using none by (simp add: sendFFLP2PAgentNative_def)
  show "fst (setFFLP2PAgentNativeDataSink (Some h) sink user agents) = -1"
    using none by (simp add: setFFLP2PAgentNativeDataSink_def Let_def)
  show "fst (drain_locked n self') = fst (drain_locked n self)"
    using closed by (simp add: drain_locked_def Let_def split: prod.split)
  show "fst (snd (drain_locked n self')) = fst (snd (drain_locked n self))"
    using closed by (simp add: drain_locked_def Let_def split: prod.split)
qed

theorem closed_agent_refuses_witness:
  "fst (gatherAgent \<lparr>juice_send = (\<lambda>_ _ w. (JUICE_ERR_SUCCESS, w)),
      juice_send_aggregate_progress = (\<lambda>_ d _ w. ((JUICE_ERR_SUCCESS, length d), w)), juice_text = (\<lambda>_. ''0'')\<rparr>
      demo_juice_lib (closeAgent_obj (agent_ready \<lparr>jh_agent = Some 7\<rparr>)) demo_life_world)
     = Inl (PyRuntimeError ''agent is closed'')"
proof -
  define J :: "unit juice_env" where "J = \<lparr>juice_send = (\<lambda>_ _ w. (JUICE_ERR_SUCCESS, w)),
      juice_send_aggregate_progress = (\<lambda>_ d _ w. ((JUICE_ERR_SUCCESS, length d), w)), juice_text = (\<lambda>_. ''0'')\<rparr>"
  have "gatherAgent J demo_juice_lib \<in> agent_methods J demo_juice_lib" by (simp add: agent_methods_def)
  from conjunct1 [OF closed_agent_refuses [OF refl this, where agents = "\<lambda>_. agent.truncate (closeAgent_obj (agent_ready \<lparr>jh_agent = Some 7\<rparr>))"]]
  show ?thesis unfolding J_def by simp
qed

section \<open>Misuse the object does not guard against\<close>

text \<open>\<open>pollEvents\<close> has no \<open>requireOpen\<close>: on an object whose construction failed it locks a null lock.\<close>

lemma poll_uninitialised_crashes:
  "fst (pollAgentEvents True [] [] (Some 128) createP2PObject) = Inl PyCrash"
  by (simp add: pollAgentEvents_def pollAgentEvents_check_def drainEvents_def createP2PObject_def)

text \<open>A second \<open>__init__\<close> overwrites the locks and the libjuice agent; the first ones are never released.\<close>

lemma initialise_twice_leaks:
  "let s = snd (initializeAgent demo_juice_lib (demo_alloc True) (Some demo_args) (createP2PObject, demo_life_world));
       s = snd (initializeAgent demo_juice_lib (demo_alloc True) (Some demo_args) s)
   in owned (snd (deallocateAgent demo_juice_lib s)) = (5, 1, 1, 1) \<and> owned demo_life_world = (2, 0, 0, 0)"
  by (simp add: demo_create) (simp add: initializeAgent_def demo_juice_lib_def demo_args_def demo_alloc_def demo_life_world_def
      Let_def unsigned_arg_def agent_ready_def createP2PObject_def createFFLP2PJuice_def deallocateAgent_def
      destroyFFLP2PJuice_def owned_def)

text \<open>A port that is out of range by a multiple of 4294967296 passes the range check.\<close>

lemma port_check_wraps:
  "initializeAgent demo_juice_lib (demo_alloc True) (Some (demo_args\<lparr>stunPort := 4294967296 + 3478\<rparr>))
     (createP2PObject, demo_life_world) =
   initializeAgent demo_juice_lib (demo_alloc True) (Some demo_args) (createP2PObject, demo_life_world)"
  by (simp add: initializeAgent_def demo_juice_lib_def demo_args_def demo_alloc_def demo_life_world_def
      Let_def unsigned_arg_def)


end
