(* ===== verification/Port_Mapping.thy ===== *)
theory Port_Mapping
  imports Agent_Life "HOL-Library.AList"
begin

text \<open>
  Port mappings and log levels: the wrapper of libplum (\<open>native/Plum.c\<close>), the Python object
  \<open>PortMapping\<close> and \<open>setLogLevel\<close> (\<open>native/P2P.c\<close>), and the log line (\<open>native/Log.c\<close>).

  libplum is the parameter \<open>plum_lib\<close>. The static variables of \<open>Plum.c\<close> are fields of
  \<open>plum_world\<close>, with the number of wrapper structures allocated and, as a ghost, the
  mappings libplum has been asked for and not yet told to destroy.
\<close>

section \<open>libplum\<close>

datatype plum_code = PLUM_ERR_SUCCESS | PLUM_ERR_INVALID | PlumCode int

datatype ip_protocol = PLUM_IP_PROTOCOL_TCP | PLUM_IP_PROTOCOL_UDP

datatype plum_state =
    PLUM_STATE_DESTROYED | PLUM_STATE_PENDING | PLUM_STATE_SUCCESS | PLUM_STATE_FAILURE | PLUM_STATE_DESTROYING
  | PlumState int

datatype mapping_protocol =
    PLUM_MAPPING_PROTOCOL_PCP | PLUM_MAPPING_PROTOCOL_NATPMP | PLUM_MAPPING_PROTOCOL_UPNP
  | PLUM_MAPPING_PROTOCOL_DIRECT | PlumMappingProtocol int

text \<open>\<open>plum_mapping_t\<close> as a query fills it; the host is the whole character array.\<close>

record plum_mapping =
  pm_protocol :: mapping_protocol
  internal_port :: u16
  external_port :: u16
  external_host :: string

record 'w plum_lib =
  plum_init :: "int \<Rightarrow> 'w \<Rightarrow> plum_code \<times> 'w"
  plum_cleanup :: "'w \<Rightarrow> 'w"
  plum_set_log_level :: "int \<Rightarrow> 'w \<Rightarrow> 'w"
  plum_create_mapping :: "ip_protocol \<Rightarrow> nat \<Rightarrow> 'w \<Rightarrow> int \<times> 'w"
  plum_query_mapping :: "int \<Rightarrow> 'w \<Rightarrow> (plum_code \<times> plum_state \<times> plum_mapping) \<times> 'w"
  plum_destroy_mapping :: "int \<Rightarrow> 'w \<Rightarrow> 'w"
  plum_text :: "plum_code \<Rightarrow> string"

record 'w plum_world =
  initialized :: bool
  logLevel :: int
  live_mappings :: nat
  open_mappings :: "int multiset"
  plum :: 'w

section \<open>The wrapper\<close>

definition setFFLP2PPortMappingLogLevel :: "'w plum_lib \<Rightarrow> int \<Rightarrow> 'w plum_world \<Rightarrow> 'w plum_world" where
  "setFFLP2PPortMappingLogLevel P level w =
     (let w = w\<lparr>logLevel := level\<rparr> in
      if initialized w then w\<lparr>plum := plum_set_log_level P level (plum w)\<rparr> else w)"

definition initializeFFLP2PPortMapping :: "'w plum_lib \<Rightarrow> 'w plum_world \<Rightarrow> plum_code \<times> 'w plum_world" where
  "initializeFFLP2PPortMapping P w =
     (if initialized w then (PLUM_ERR_SUCCESS, w)
      else (case plum_init P (logLevel w) (plum w) of (result, x) \<Rightarrow>
        (result, w\<lparr>plum := x, initialized := (result = PLUM_ERR_SUCCESS)\<rparr>)))"

definition cleanupFFLP2PPortMapping :: "'w plum_lib \<Rightarrow> 'w plum_world \<Rightarrow> 'w plum_world" where
  "cleanupFFLP2PPortMapping P w =
     (if \<not> initialized w then w else w\<lparr>plum := plum_cleanup P (plum w), initialized := False\<rparr>)"

record native_mapping =
  mapping_id :: int
  destroyed :: bool

text \<open>\<open>alloc\<close>: whether \<open>calloc\<close> succeeds.\<close>

definition createFFLP2PPortMapping ::
  "'w plum_lib \<Rightarrow> bool \<Rightarrow> ip_protocol \<Rightarrow> u16 \<Rightarrow> 'w plum_world \<Rightarrow> native_mapping option \<times> 'w plum_world" where
  "createFFLP2PPortMapping P alloc protocol internalPort w =
     (if internalPort = 0 then (None, w)
      else (case initializeFFLP2PPortMapping P w of (result, w) \<Rightarrow>
        if result \<noteq> PLUM_ERR_SUCCESS then (None, w)
        else if \<not> alloc then (None, w)
        else let w = w\<lparr>live_mappings := live_mappings w + 1\<rparr> in
          (case plum_create_mapping P protocol (unat internalPort) (plum w) of (n, x) \<Rightarrow>
            if n < 0 then (None, w\<lparr>plum := x, live_mappings := live_mappings w - 1\<rparr>)
            else (Some \<lparr>mapping_id = n, destroyed = False\<rparr>,
                  w\<lparr>plum := x, open_mappings := add_mset n (open_mappings w)\<rparr>))))"

record mapping_result =
  res_state :: plum_state
  res_protocol :: mapping_protocol
  res_internalPort :: u16
  res_externalPort :: u16
  res_externalHost :: string

text \<open>The last byte of the array is overwritten.\<close>

definition terminate_host :: "string \<Rightarrow> string" where
  "terminate_host h = (if h = [] then [] else h[length h - 1 := CHR 0x00])"

definition queryFFLP2PPortMapping ::
  "'w plum_lib \<Rightarrow> native_mapping option \<Rightarrow> 'w plum_world \<Rightarrow> (plum_code \<times> mapping_result option) \<times> 'w plum_world" where
  "queryFFLP2PPortMapping P mapping w =
     (case mapping of
        None \<Rightarrow> ((PLUM_ERR_INVALID, None), w)
      | Some m \<Rightarrow>
          if destroyed m then ((PLUM_ERR_INVALID, None), w)
          else (case plum_query_mapping P (mapping_id m) (plum w) of
            ((code, st, current), x) \<Rightarrow>
              let w = w\<lparr>plum := x\<rparr> in
              if code \<noteq> PLUM_ERR_SUCCESS then ((code, None), w)
              else ((PLUM_ERR_SUCCESS, Some \<lparr>res_state = st, res_protocol = pm_protocol current,
                  res_internalPort = internal_port current, res_externalPort = external_port current,
                  res_externalHost = terminate_host (external_host current)\<rparr>), w)))"

definition destroyFFLP2PPortMapping ::
  "'w plum_lib \<Rightarrow> native_mapping option \<Rightarrow> 'w plum_world \<Rightarrow> 'w plum_world" where
  "destroyFFLP2PPortMapping P mapping w =
     (case mapping of
        None \<Rightarrow> w
      | Some m \<Rightarrow>
          let w = (if destroyed m then w
            else w\<lparr>plum := plum_destroy_mapping P (mapping_id m) (plum w),
                   open_mappings := open_mappings w - {#mapping_id m#}\<rparr>)
          in w\<lparr>live_mappings := live_mappings w - 1\<rparr>)"

section \<open>The Python object\<close>

record port_mapping_obj =
  mapping :: "native_mapping option"
  mapping_closed :: bool

definition new_port_mapping :: port_mapping_obj where
  "new_port_mapping = \<lparr>mapping = None, mapping_closed = False\<rparr>"

definition quoted :: "string \<Rightarrow> string" where
  "quoted s = [CHR 0x27] @ s @ [CHR 0x27]"

definition initializePortMapping ::
  "'w plum_lib \<Rightarrow> bool \<Rightarrow> (string \<times> int) option \<Rightarrow> port_mapping_obj \<times> 'w plum_world
     \<Rightarrow> (py_exc + unit) \<times> port_mapping_obj \<times> 'w plum_world" where
  "initializePortMapping P alloc parsed s =
     (case parsed of
        None \<Rightarrow> (Inl PyCallFailed, s)
      | Some (protocol, n) \<Rightarrow>
          let internalPort = unsigned_arg n in
          if internalPort = 0 \<or> internalPort > 65535
          then (Inl (PyValueError ''internalPort out of range''), s)
          else if protocol \<noteq> ''udp'' \<and> protocol \<noteq> ''tcp''
          then (Inl (PyValueError (''protocol must be '' @ quoted ''udp'' @ '' or '' @ quoted ''tcp'')), s)
          else
            let nativeProtocol = (if protocol = ''udp'' then PLUM_IP_PROTOCOL_UDP else PLUM_IP_PROTOCOL_TCP)
            in (case createFFLP2PPortMapping P alloc nativeProtocol (ucast internalPort) (snd s) of
                  (None, w) \<Rightarrow> (Inl (PyRuntimeError ''port mapping creation failed''), (fst s)\<lparr>mapping := None\<rparr>, w)
                | (Some m, w) \<Rightarrow> (Inr (), (fst s)\<lparr>mapping := Some m\<rparr>, w)))"

definition deallocatePortMapping ::
  "'w plum_lib \<Rightarrow> port_mapping_obj \<times> 'w plum_world \<Rightarrow> port_mapping_obj \<times> 'w plum_world" where
  "deallocatePortMapping P s = ((fst s)\<lparr>mapping := None\<rparr>, destroyFFLP2PPortMapping P (mapping (fst s)) (snd s))"

definition closePortMapping ::
  "'w plum_lib \<Rightarrow> port_mapping_obj \<times> 'w plum_world \<Rightarrow> port_mapping_obj \<times> 'w plum_world" where
  "closePortMapping P s =
     ((fst s)\<lparr>mapping := None, mapping_closed := True\<rparr>, destroyFFLP2PPortMapping P (mapping (fst s)) (snd s))"

fun getMappingStateName :: "plum_state \<Rightarrow> string" where
  "getMappingStateName PLUM_STATE_DESTROYED = ''destroyed''"
| "getMappingStateName PLUM_STATE_PENDING = ''pending''"
| "getMappingStateName PLUM_STATE_SUCCESS = ''success''"
| "getMappingStateName PLUM_STATE_FAILURE = ''failure''"
| "getMappingStateName PLUM_STATE_DESTROYING = ''destroying''"
| "getMappingStateName (PlumState _) = ''unknown''"

fun getMappingProtocolName :: "mapping_protocol \<Rightarrow> string" where
  "getMappingProtocolName PLUM_MAPPING_PROTOCOL_PCP = ''pcp''"
| "getMappingProtocolName PLUM_MAPPING_PROTOCOL_NATPMP = ''nat-pmp''"
| "getMappingProtocolName PLUM_MAPPING_PROTOCOL_UPNP = ''upnp''"
| "getMappingProtocolName PLUM_MAPPING_PROTOCOL_DIRECT = ''direct''"
| "getMappingProtocolName (PlumMappingProtocol _) = ''unknown''"

text \<open>A dictionary under construction; \<open>ok\<close> says whether the C API makes and stores the value.
  A C string ends at the first null.\<close>

type_synonym py_dict = "(string \<times> py_value) list"

definition c_string :: "string \<Rightarrow> string" where
  "c_string s = takeWhile (\<lambda>c. c \<noteq> CHR 0x00) s"

definition setDictionaryString :: "bool \<Rightarrow> string \<Rightarrow> string \<Rightarrow> py_dict \<Rightarrow> py_dict option" where
  "setDictionaryString ok key value d = (if ok then Some (AList.update key (PyStr (c_string value)) d) else None)"

definition setDictionaryUInt64 :: "bool \<Rightarrow> string \<Rightarrow> nat \<Rightarrow> py_dict \<Rightarrow> py_dict option" where
  "setDictionaryUInt64 ok key value d = (if ok then Some (AList.update key (PyInt (int value)) d) else None)"

definition mapping_dictionary :: "(nat \<Rightarrow> bool) \<Rightarrow> mapping_result \<Rightarrow> py_dict option" where
  "mapping_dictionary ok r =
     Option.bind (setDictionaryString (ok 0) ''state'' (getMappingStateName (res_state r)) [])
    (\<lambda>d. Option.bind (setDictionaryString (ok 1) ''mappingProtocol'' (getMappingProtocolName (res_protocol r)) d)
    (\<lambda>d. Option.bind (setDictionaryUInt64 (ok 2) ''internalPort'' (unat (res_internalPort r)) d)
    (\<lambda>d. Option.bind (setDictionaryUInt64 (ok 3) ''externalPort'' (unat (res_externalPort r)) d)
    (\<lambda>d. setDictionaryString (ok 4) ''externalHost'' (res_externalHost r) d))))"

definition queryPortMapping ::
  "'w plum_lib \<Rightarrow> bool \<Rightarrow> (nat \<Rightarrow> bool) \<Rightarrow> port_mapping_obj \<Rightarrow> 'w plum_world \<Rightarrow> (py_exc + py_dict) \<times> 'w plum_world" where
  "queryPortMapping P dict_ok ok self w =
     (if mapping self = None \<or> mapping_closed self then (Inl (PyRuntimeError ''mapping is closed''), w)
      else (case queryFFLP2PPortMapping P (mapping self) w of
        ((code, res), w) \<Rightarrow>
          (case res of
             None \<Rightarrow> (Inl (PyRuntimeError (''port mapping query failed: libplum error '' @ plum_text P code)), w)
           | Some r \<Rightarrow>
               if \<not> dict_ok then (Inl PyCallFailed, w)
               else (case mapping_dictionary ok r of None \<Rightarrow> (Inl PyCallFailed, w) | Some d \<Rightarrow> (Inr d, w)))))"

section \<open>Logging\<close>

text \<open>The numbers of the levels are libjuice's and a parameter; \<open>None\<close> is the failure.\<close>

datatype juice_log_level =
    JUICE_LOG_LEVEL_VERBOSE | JUICE_LOG_LEVEL_DEBUG | JUICE_LOG_LEVEL_INFO | JUICE_LOG_LEVEL_WARN
  | JUICE_LOG_LEVEL_ERROR | JUICE_LOG_LEVEL_FATAL | JUICE_LOG_LEVEL_NONE

definition parseNativeLogLevel :: "string \<Rightarrow> juice_log_level option" where
  "parseNativeLogLevel name =
     (if name = ''verbose'' then Some JUICE_LOG_LEVEL_VERBOSE
      else if name = ''debug'' then Some JUICE_LOG_LEVEL_DEBUG
      else if name = ''info'' then Some JUICE_LOG_LEVEL_INFO
      else if name = ''warning'' \<or> name = ''warn'' then Some JUICE_LOG_LEVEL_WARN
      else if name = ''error'' then Some JUICE_LOG_LEVEL_ERROR
      else if name = ''fatal'' then Some JUICE_LOG_LEVEL_FATAL
      else if name = ''none'' then Some JUICE_LOG_LEVEL_NONE
      else None)"

text \<open>\<open>juice_set\<close> is \<open>setFFLP2PJuiceLogLevel\<close>'s pair of calls of libjuice.\<close>

definition setLogLevel ::
  "'w plum_lib \<Rightarrow> (juice_log_level \<Rightarrow> int) \<Rightarrow> (int \<Rightarrow> 'w \<Rightarrow> 'w) \<Rightarrow> string option \<Rightarrow> 'w plum_world
     \<Rightarrow> (py_exc + py_value) \<times> 'w plum_world" where
  "setLogLevel P number juice_set parsed w =
     (case parsed of
        None \<Rightarrow> (Inl PyCallFailed, w)
      | Some name \<Rightarrow>
          (case parseNativeLogLevel name of
             None \<Rightarrow> (Inl (PyValueError ''log level must be verbose, debug, info, warning, error, fatal, or none''), w)
           | Some level \<Rightarrow>
               let w = w\<lparr>plum := juice_set (number level) (plum w)\<rparr> in
               (Inr PyNone, setFFLP2PPortMappingLogLevel P (number level) w)))"

definition log_names :: "string list" where
  "log_names = [''VERBOSE'', ''DEBUG'', ''INFO'', ''WARN'', ''ERROR'', ''FATAL'']"

definition logLevelName :: "int \<Rightarrow> string" where
  "logLevelName level =
     (if level < 0 \<or> level \<ge> int (length log_names) then ''LOG'' else log_names ! nat level)"

text \<open>What is printed.\<close>

definition writeFFLP2PNativeLog :: "int \<Rightarrow> string option \<Rightarrow> string" where
  "writeFFLP2PNativeLog level message =
     (case message of None \<Rightarrow> [] | Some m \<Rightarrow> logLevelName level @ '' '' @ c_string m @ [CHR 0x0A])"

section \<open>What the program owns\<close>

definition held :: "'w plum_world \<Rightarrow> nat \<times> int multiset" where
  "held w = (live_mappings w, open_mappings w)"

text \<open>Beyond \<open>w0\<close>, only the object's mapping.\<close>

definition mapping_inv :: "'w plum_world \<Rightarrow> port_mapping_obj \<Rightarrow> 'w plum_world \<Rightarrow> bool" where
  "mapping_inv w0 self w \<longleftrightarrow>
     (case mapping self of
        None \<Rightarrow> held w = held w0
      | Some m \<Rightarrow> \<not> destroyed m \<and> \<not> mapping_closed self \<and> mapping_id m \<ge> 0 \<and>
          held w = (Suc (live_mappings w0), add_mset (mapping_id m) (open_mappings w0)))"

lemma initialize_plum_held: "initializeFFLP2PPortMapping P w = (r, w') \<Longrightarrow> held w' = held w"
  by (auto simp: initializeFFLP2PPortMapping_def held_def split: if_splits prod.splits)

lemma create_mapping_held:
  assumes "createFFLP2PPortMapping P alloc protocol port w = (r, w')"
  shows "(case r of
      None \<Rightarrow> held w' = held w
    | Some m \<Rightarrow> \<not> destroyed m \<and> mapping_id m \<ge> 0 \<and> port \<noteq> 0 \<and> initialized w' \<and>
        held w' = (Suc (live_mappings w), add_mset (mapping_id m) (open_mappings w)))"
proof -
  obtain c w1 where i: "initializeFFLP2PPortMapping P w = (c, w1)" by fastforce
  have h: "held w1 = held w" using initialize_plum_held [OF i] .
  have init: "c = PLUM_ERR_SUCCESS \<Longrightarrow> initialized w1"
    using i by (auto simp: initializeFFLP2PPortMapping_def split: if_splits prod.splits)
  show ?thesis
    using assms h init unfolding createFFLP2PPortMapping_def i
    by (auto simp: held_def Let_def not_less split: if_splits prod.splits)
qed

lemma destroy_mapping_held:
  assumes "mapping_inv w0 self w"
  shows "held (destroyFFLP2PPortMapping P (mapping self) w) = held w0"
  using assms by (auto simp: mapping_inv_def destroyFFLP2PPortMapping_def held_def Let_def split: option.splits)

lemma query_mapping_held: "queryFFLP2PPortMapping P m w = (r, w') \<Longrightarrow> held w' = held w"
  by (auto simp: queryFFLP2PPortMapping_def held_def Let_def split: option.splits if_splits prod.splits)

lemma queryPortMapping_held: "queryPortMapping P dok ok self w = (r, w') \<Longrightarrow> held w' = held w"
  by (auto simp: queryPortMapping_def dest: query_mapping_held split: option.splits if_splits prod.splits)

lemma set_log_level_held: "held (setFFLP2PPortMappingLogLevel P level w) = held w"
  by (simp add: setFFLP2PPortMappingLogLevel_def held_def Let_def)

lemma mapping_inv_held: "held w' = held w \<Longrightarrow> mapping_inv w0 self w' = mapping_inv w0 self w"
  by (simp add: mapping_inv_def split: option.split)

text \<open>A mapping from construction on, through anything its methods, the log level and other mappings do.\<close>

inductive mapping_life ::
  "'w plum_lib \<Rightarrow> 'w plum_world \<Rightarrow> port_mapping_obj \<Rightarrow> 'w plum_world \<Rightarrow> bool" for P w0 where
  ml_init: "initializePortMapping P alloc parsed (new_port_mapping, w0) = (r, self, w) \<Longrightarrow> mapping_life P w0 self w"
| ml_query: "mapping_life P w0 self w \<Longrightarrow> queryPortMapping P dok ok self w = (r, w') \<Longrightarrow> mapping_life P w0 self w'"
| ml_close: "mapping_life P w0 self w \<Longrightarrow> closePortMapping P (self, w) = (self', w') \<Longrightarrow> mapping_life P w0 self' w'"
| ml_log: "mapping_life P w0 self w \<Longrightarrow> setLogLevel P number js parsed w = (r, w') \<Longrightarrow> mapping_life P w0 self w'"

lemma mapping_life_inv:
  assumes "mapping_life P w0 self w"
  shows "mapping_inv w0 self w"
  using assms
proof induction
  case (ml_init alloc parsed r self w)
  then show ?case
    by (auto simp: initializePortMapping_def mapping_inv_def new_port_mapping_def held_def Let_def
        dest!: create_mapping_held split: option.splits if_splits prod.splits)
next
  case (ml_query self w dok ok r w')
  then show ?case using mapping_inv_held [OF queryPortMapping_held] by blast
next
  case (ml_close self w self' w')
  then show ?case
    using destroy_mapping_held [OF ml_close(3), of P] by (auto simp: closePortMapping_def mapping_inv_def)
next
  case (ml_log self w number js parsed r w')
  have "held w' = held w" using ml_log(2)
    by (auto simp: setLogLevel_def Let_def set_log_level_held split: option.splits)
      (auto simp: held_def)
  then show ?case using ml_log(3) mapping_inv_held by blast
qed


text \<open>A libplum that grants every mapping, with identifier 3.\<close>

definition demo_mapping :: plum_mapping where
  "demo_mapping = \<lparr>pm_protocol = PLUM_MAPPING_PROTOCOL_PCP, internal_port = 4000, external_port = 5000,
     external_host = [CHR ''h'', CHR 0x00, CHR ''x'', CHR ''y'']\<rparr>"

definition demo_plum :: "unit plum_lib" where
  "demo_plum = \<lparr>plum_init = (\<lambda>l w. (PLUM_ERR_SUCCESS, w)), plum_cleanup = (\<lambda>w. w), plum_set_log_level = (\<lambda>l w. w),
     plum_create_mapping = (\<lambda>pr po w. (3, w)),
     plum_query_mapping = (\<lambda>n w. ((PLUM_ERR_SUCCESS, PLUM_STATE_SUCCESS, demo_mapping), w)),
     plum_destroy_mapping = (\<lambda>n w. w), plum_text = (\<lambda>c. ''0'')\<rparr>"

definition demo_plum_world :: "unit plum_world" where
  "demo_plum_world = \<lparr>initialized = False, logLevel = 3, live_mappings = 1, open_mappings = {#8#}, plum = ()\<rparr>"

lemma demo_mapping_create:
  "initializePortMapping demo_plum True (Some (''udp'', 4000)) (new_port_mapping, demo_plum_world) =
     (Inr (), \<lparr>mapping = Some \<lparr>mapping_id = 3, destroyed = False\<rparr>, mapping_closed = False\<rparr>,
      \<lparr>initialized = True, logLevel = 3, live_mappings = 2, open_mappings = {#3, 8#}, plum = ()\<rparr>)"
  by (simp add: initializePortMapping_def createFFLP2PPortMapping_def initializeFFLP2PPortMapping_def demo_plum_def
      demo_plum_world_def new_port_mapping_def unsigned_arg_def Let_def)

text \<open>Whatever is done with a port mapping (construction that succeeds or fails, queries, closing
  any number of times), after deallocation the structure is freed and libplum has been told to
  destroy exactly the mapping it created, once; other mappings are not touched.\<close>

theorem mapping_life_balanced:
  assumes "mapping_life P w0 self w" and "deallocatePortMapping P (self, w) = (self', w')"
  shows "live_mappings w' = live_mappings w0 \<and> open_mappings w' = open_mappings w0 \<and> mapping self' = None"
  using destroy_mapping_held [OF mapping_life_inv [OF assms(1)], of P] assms(2)
  by (auto simp: deallocatePortMapping_def held_def)

theorem mapping_life_balanced_witness:
  "open_mappings (snd (deallocatePortMapping demo_plum (snd (initializePortMapping demo_plum True
     (Some (''udp'', 4000)) (new_port_mapping, demo_plum_world))))) = {#8#}"
proof -
  let ?s = "snd (initializePortMapping demo_plum True (Some (''udp'', 4000)) (new_port_mapping, demo_plum_world))"
  have "mapping_life demo_plum demo_plum_world (fst ?s) (snd ?s)"
    by (rule ml_init [of _ True "Some (''udp'', 4000)" _ "Inr ()"]) (simp add: demo_mapping_create)
  from mapping_life_balanced [OF this, of "fst (deallocatePortMapping demo_plum ?s)" "snd (deallocatePortMapping demo_plum ?s)"]
  show ?thesis by (simp add: demo_plum_world_def)
qed

section \<open>What a query reports\<close>

lemma takeWhile_update_last:
  "h \<noteq> [] \<Longrightarrow> takeWhile (\<lambda>c. c \<noteq> CHR 0x00) (h[length h - 1 := CHR 0x00]) =
     takeWhile (\<lambda>c. c \<noteq> CHR 0x00) (butlast h)"
  by (induction h rule: rev_induct) (auto simp: takeWhile_append list_update_append takeWhile_eq_all_conv [THEN iffD2])

lemma c_string_terminate: "c_string (terminate_host h) = c_string (butlast h)"
  using takeWhile_update_last by (auto simp: c_string_def terminate_host_def)

text \<open>A query of an open mapping answers with libplum's state and protocol by name, the two ports,
  and the host as a string that ends inside the array whatever libplum left in it; an error of
  libplum and a closed mapping are a \<open>RuntimeError\<close>.\<close>

theorem mapping_query_reports:
  assumes open_mapping: "mapping self = Some m" "\<not> mapping_closed self" "\<not> destroyed m"
    and answer: "plum_query_mapping P (mapping_id m) (plum w) = ((code, st, current), x)"
  shows "queryPortMapping P True (\<lambda>_. True) self w =
      ((if code = PLUM_ERR_SUCCESS
        then Inr [(''state'', PyStr (getMappingStateName st)),
                  (''mappingProtocol'', PyStr (getMappingProtocolName (pm_protocol current))),
                  (''internalPort'', PyInt (uint (internal_port current))),
                  (''externalPort'', PyInt (uint (external_port current))),
                  (''externalHost'', PyStr (c_string (butlast (external_host current))))]
        else Inl (PyRuntimeError (''port mapping query failed: libplum error '' @ plum_text P code))),
       w\<lparr>plum := x\<rparr>) \<and>
    queryPortMapping P True (\<lambda>_. True) (fst (closePortMapping P (self, w))) w =
      (Inl (PyRuntimeError ''mapping is closed''), w)"
proof -
  have state: "c_string (getMappingStateName st) = getMappingStateName st"
    by (cases st) (simp_all add: c_string_def)
  have protocol: "c_string (getMappingProtocolName p) = getMappingProtocolName p" for p
    by (cases p) (simp_all add: c_string_def)
  show ?thesis
    using assms by (simp add: queryPortMapping_def queryFFLP2PPortMapping_def mapping_dictionary_def setDictionaryString_def
        setDictionaryUInt64_def closePortMapping_def state protocol c_string_terminate)
qed

theorem mapping_query_reports_witness:
  "fst (queryPortMapping demo_plum True (\<lambda>_. True) \<lparr>mapping = Some \<lparr>mapping_id = 3, destroyed = False\<rparr>, mapping_closed = False\<rparr>
     demo_plum_world) =
   Inr [(''state'', PyStr ''success''), (''mappingProtocol'', PyStr ''pcp''), (''internalPort'', PyInt 4000),
     (''externalPort'', PyInt 5000), (''externalHost'', PyStr ''h'')]"
  using mapping_query_reports [where P = demo_plum and w = demo_plum_world and m = "\<lparr>mapping_id = 3, destroyed = False\<rparr>"
      and self = "\<lparr>mapping = Some \<lparr>mapping_id = 3, destroyed = False\<rparr>, mapping_closed = False\<rparr>"
      and code = PLUM_ERR_SUCCESS and st = PLUM_STATE_SUCCESS and current = demo_mapping and x = "()"]
  by (simp add: demo_plum_def demo_mapping_def c_string_def)


end
