(* ===== verification/Credentials.thy ===== *)
theory Credentials
  imports Prelude
begin

text \<open>
  Generation of the server's key and self-signed certificate (\<open>native/quic/Credentials.cpp\<close>).
  GnuTLS is a parameter: every call the code makes, with its arguments, is a constructor of
  \<open>gnutls_call\<close>, and the parameter answers each with a result code and, where the call has one,
  an output. The key and the certificate live in GnuTLS; \<open>live_keys\<close> and \<open>live_certs\<close> count
  those initialised and not yet released.
\<close>

section \<open>GnuTLS\<close>

datatype gnutls_call =
    X509_privkey_init
  | X509_privkey_generate_RSA nat
  | X509_crt_init
  | X509_crt_set_version nat
  | Rnd nat
  | X509_crt_set_serial bytes
  | X509_crt_set_activation_time int
  | X509_crt_set_expiration_time int
  | X509_crt_set_dn_common_name string
  | X509_crt_set_subject_alt_name_dns string
  | X509_crt_set_key
  | X509_crt_set_basic_constraints int int
  | X509_crt_set_key_usage_digital_signature
  | X509_crt_set_key_purpose_tls_www_server
  | X509_crt_sign2_sha256
  | X509_crt_export2_pem
  | X509_privkey_export2_pem
  | X509_crt_deinit
  | X509_privkey_deinit

record 'g gnutls =
  gnutls_do :: "gnutls_call \<Rightarrow> 'g \<Rightarrow> (int \<times> bytes) \<times> 'g"
  gnutls_strerror :: "int \<Rightarrow> string"
  gnutls_string :: "bytes \<Rightarrow> string"
  gnutls_time :: "'g \<Rightarrow> int"

record 'g cred_world =
  live_keys :: nat
  live_certs :: nat
  gstate :: 'g

type_synonym ('g, 'a) gact = "('g cred_world, 'a) act"

definition cred_kServerName :: string where "cred_kServerName = ''ffl-p2p''"

section \<open>The code\<close>

definition cred_checkGnuTLS :: "'g gnutls \<Rightarrow> int \<Rightarrow> string \<Rightarrow> ('g, unit) gact" where
  "cred_checkGnuTLS G result op_name =
     (if result < 0 then throw (RuntimeError (op_name @ '': '' @ gnutls_strerror G result)) else ret ())"

definition gcall :: "'g gnutls \<Rightarrow> gnutls_call \<Rightarrow> ('g, int \<times> bytes) gact" where
  "gcall G c = (\<lambda>s. case gnutls_do G c (gstate s) of (r, g) \<Rightarrow> (Inr r, s\<lparr>gstate := g\<rparr>))"

text \<open>A call whose result is checked; the value is its output.\<close>

definition gchecked :: "'g gnutls \<Rightarrow> gnutls_call \<Rightarrow> string \<Rightarrow> ('g, bytes) gact" where
  "gchecked G c op_name = bindA (gcall G c) (\<lambda>r. bindA (cred_checkGnuTLS G (fst r) op_name) (\<lambda>_. ret (snd r)))"

definition gstep :: "'g gnutls \<Rightarrow> gnutls_call \<Rightarrow> string \<Rightarrow> ('g, unit) gact" where
  "gstep G c op_name = bindA (gchecked G c op_name) (\<lambda>_. ret ())"

definition exportCertificatePEM :: "'g gnutls \<Rightarrow> ('g, string) gact" where
  "exportCertificatePEM G = bindA (gchecked G X509_crt_export2_pem ''gnutls_x509_crt_export2'') (\<lambda>output. ret (gnutls_string G output))"

definition exportPrivateKeyPEM :: "'g gnutls \<Rightarrow> ('g, string) gact" where
  "exportPrivateKeyPEM G = bindA (gchecked G X509_privkey_export2_pem ''gnutls_x509_privkey_export2'') (\<lambda>output. ret (gnutls_string G output))"

record credentials =
  cred_certificatePEM :: string
  cred_privateKeyPEM :: string

definition deinit_certificate :: "'g gnutls \<Rightarrow> ('g, unit) gact" where
  "deinit_certificate G = bindA (gcall G X509_crt_deinit) (\<lambda>_. modify (\<lambda>s. s\<lparr>live_certs := live_certs s - 1\<rparr>))"

definition deinit_key :: "'g gnutls \<Rightarrow> ('g, unit) gact" where
  "deinit_key G = bindA (gcall G X509_privkey_deinit) (\<lambda>_. modify (\<lambda>s. s\<lparr>live_keys := live_keys s - 1\<rparr>))"

text \<open>The statements of the \<open>try\<close> block up to the export.\<close>

definition init_certificate :: "'g gnutls \<Rightarrow> ('g, unit) gact" where
  "init_certificate G = blockA
     [gstep G (X509_privkey_generate_RSA 2048) ''gnutls_x509_privkey_generate'',
      gstep G X509_crt_init ''gnutls_x509_crt_init'',
      modify (\<lambda>s. s\<lparr>live_certs := live_certs s + 1\<rparr>)]"

definition fill_certificate :: "'g gnutls \<Rightarrow> ('g, unit) gact" where
  "fill_certificate G = blockA
     [gstep G (X509_crt_set_version 3) ''gnutls_x509_crt_set_version'',
      bindA (gchecked G (Rnd 16) ''gnutls_rnd(serial)'') (\<lambda>serial.
        gstep G (X509_crt_set_serial serial) ''gnutls_x509_crt_set_serial''),
      bindA (gets (\<lambda>s. gnutls_time G (gstate s))) (\<lambda>current. blockA
        [gstep G (X509_crt_set_activation_time (current - 60)) ''gnutls_x509_crt_set_activation_time'',
         gstep G (X509_crt_set_expiration_time (current + 24 * 60 * 60)) ''gnutls_x509_crt_set_expiration_time'']),
      gstep G (X509_crt_set_dn_common_name cred_kServerName) ''gnutls_x509_crt_set_dn_by_oid'',
      gstep G (X509_crt_set_subject_alt_name_dns cred_kServerName) ''gnutls_x509_crt_set_subject_alt_name'',
      gstep G X509_crt_set_key ''gnutls_x509_crt_set_key'',
      gstep G (X509_crt_set_basic_constraints 0 (- 1)) ''gnutls_x509_crt_set_basic_constraints'',
      gstep G X509_crt_set_key_usage_digital_signature ''gnutls_x509_crt_set_key_usage'',
      gstep G X509_crt_set_key_purpose_tls_www_server ''gnutls_x509_crt_set_key_purpose_oid'',
      gstep G X509_crt_sign2_sha256 ''gnutls_x509_crt_sign2'']"

definition export_credentials :: "'g gnutls \<Rightarrow> ('g, credentials) gact" where
  "export_credentials G =
     bindA (exportCertificatePEM G) (\<lambda>certificate.
     bindA (exportPrivateKeyPEM G) (\<lambda>key.
       ret \<lparr>cred_certificatePEM = certificate, cred_privateKeyPEM = key\<rparr>))"

text \<open>The handler: \<open>made\<close> says whether the certificate is not null.\<close>

definition release_credentials :: "'g gnutls \<Rightarrow> bool \<Rightarrow> exn \<Rightarrow> ('g, 'a) gact" where
  "release_credentials G made e = bindA (whenA made (deinit_certificate G)) (\<lambda>_. bindA (deinit_key G) (\<lambda>_. throw e))"

definition generateCredentials :: "'g gnutls \<Rightarrow> ('g, unit) gact \<Rightarrow> ('g, credentials) gact" where
  "generateCredentials G ensure =
     bindA ensure (\<lambda>_.
     bindA (gstep G X509_privkey_init ''gnutls_x509_privkey_init'') (\<lambda>_.
     bindA (modify (\<lambda>s. s\<lparr>live_keys := live_keys s + 1\<rparr>)) (\<lambda>_.
     bindA (catchA (init_certificate G) (release_credentials G False)) (\<lambda>_.
       catchA
         (bindA (fill_certificate G) (\<lambda>_.
          bindA (export_credentials G) (\<lambda>result.
          bindA (deinit_certificate G) (\<lambda>_.
          bindA (deinit_key G) (\<lambda>_. ret result)))))
         (release_credentials G True)))))"

section \<open>All or nothing\<close>

text \<open>Actions that leave the two counters alone and throw, if they do, a \<open>runtime_error\<close>.\<close>

definition cred_neutral :: "('g, 'a) gact \<Rightarrow> bool" where
  "cred_neutral m \<longleftrightarrow> (\<forall>s. live_keys (snd (m s)) = live_keys s \<and> live_certs (snd (m s)) = live_certs s \<and>
     (\<forall>e. fst (m s) = Inl e \<longrightarrow> (\<exists>x. e = RuntimeError x)))"

lemma neutral_ret: "cred_neutral (ret x)"
  by (simp add: cred_neutral_def act_simps)

lemma neutral_gets: "cred_neutral (gets f)"
  by (simp add: cred_neutral_def act_simps)

lemma neutral_bind: "cred_neutral m \<Longrightarrow> (\<And>x. cred_neutral (f x)) \<Longrightarrow> cred_neutral (bindA m f)"
  unfolding cred_neutral_def bindA_def by (auto split: prod.split sum.split) (metis fst_conv snd_conv)+

lemma neutral_call: "cred_neutral (gcall G c)"
  by (simp add: cred_neutral_def gcall_def split: prod.split)

lemma neutral_check: "cred_neutral (cred_checkGnuTLS G r m)"
  by (simp add: cred_neutral_def cred_checkGnuTLS_def act_simps)

lemma neutral_block: "(\<And>m. m \<in> set ms \<Longrightarrow> cred_neutral m) \<Longrightarrow> cred_neutral (blockA ms)"
  by (induction ms rule: blockA.induct) (auto intro: neutral_ret neutral_bind)

lemma neutral_step: "cred_neutral (gchecked G c m)" "cred_neutral (gstep G c m)"
  unfolding gchecked_def gstep_def by (intro neutral_bind neutral_call neutral_check neutral_ret)+

lemma neutral_fill: "cred_neutral (fill_certificate G)"
  unfolding fill_certificate_def
  by (rule neutral_block) (auto intro!: neutral_step neutral_bind neutral_gets)

lemma neutral_export: "cred_neutral (export_credentials G)"
  unfolding export_credentials_def exportCertificatePEM_def exportPrivateKeyPEM_def
  by (intro neutral_bind neutral_step neutral_ret)

lemma neutralD:
  assumes "cred_neutral m" and "m s = (r, s')"
  shows "live_keys s' = live_keys s \<and> live_certs s' = live_certs s \<and> (\<forall>e. r = Inl e \<longrightarrow> (\<exists>x. e = RuntimeError x))"
  using assms unfolding cred_neutral_def by (metis fst_conv snd_conv)

lemma deinit_certificate_result:
  "deinit_certificate G s = (r, s') \<Longrightarrow> r = Inr () \<and> live_keys s' = live_keys s \<and> live_certs s' = live_certs s - 1"
  by (auto simp: deinit_certificate_def gcall_def act_simps split: prod.splits)

lemma deinit_key_result:
  "deinit_key G s = (r, s') \<Longrightarrow> r = Inr () \<and> live_certs s' = live_certs s \<and> live_keys s' = live_keys s - 1"
  by (auto simp: deinit_key_def gcall_def act_simps split: prod.splits)

lemma release_result:
  assumes "release_credentials G made e s = (r, s')"
  shows "r = Inl e \<and> live_keys s' = live_keys s - 1 \<and> live_certs s' = live_certs s - (if made then 1 else 0)"
proof -
  obtain r1 s1 where 1: "deinit_certificate G s = (r1, s1)" by fastforce
  obtain r2 s2 where 2: "deinit_key G s1 = (r2, s2)" by fastforce
  obtain r3 s3 where 3: "deinit_key G s = (r3, s3)" by fastforce
  show ?thesis
    using assms 1 2 3 deinit_certificate_result [OF 1] deinit_key_result [OF 2] deinit_key_result [OF 3]
    by (auto simp: release_credentials_def whenA_def act_simps split: if_splits)
qed

lemma init_certificate_result:
  assumes "init_certificate G s = (r, s')"
  shows "live_keys s' = live_keys s \<and> (case r of
      Inl e \<Rightarrow> live_certs s' = live_certs s \<and> (\<exists>x. e = RuntimeError x)
    | Inr _ \<Rightarrow> live_certs s' = Suc (live_certs s))"
proof -
  obtain r1 s1 where 1: "gstep G (X509_privkey_generate_RSA 2048) ''gnutls_x509_privkey_generate'' s = (r1, s1)" by fastforce
  obtain r2 s2 where 2: "gstep G X509_crt_init ''gnutls_x509_crt_init'' s1 = (r2, s2)" by fastforce
  show ?thesis
    using assms 1 2 neutralD [OF neutral_step(2) 1] neutralD [OF neutral_step(2) 2]
    by (cases r1; cases r2) (auto simp: init_certificate_def act_simps)
qed

text \<open>C34. Generating credentials never leaks: whichever GnuTLS call fails, and also when none does, the
  key and the certificate that were initialised are released exactly once, and a failure is a
  \<open>runtime_error\<close>.\<close>

theorem credentials_never_leak:
  fixes G :: "'g gnutls"
  assumes ensure: "cred_neutral ensure" and run: "generateCredentials G ensure s = (r, s')"
  shows "live_keys s' = live_keys s \<and> live_certs s' = live_certs s \<and> (\<forall>e. r = Inl e \<longrightarrow> (\<exists>x. e = RuntimeError x))"
proof -
  obtain r0 s0 where 0: "ensure s = (r0, s0)" by fastforce
  obtain r1 s1 where 1: "gstep G X509_privkey_init ''gnutls_x509_privkey_init'' s0 = (r1, s1)" by fastforce
  let ?s1 = "s1\<lparr>live_keys := live_keys s1 + 1\<rparr>"
  obtain r2 s2 where 2: "init_certificate G ?s1 = (r2, s2)" by fastforce
  obtain r3 s3 where 3: "fill_certificate G s2 = (r3, s3)" by fastforce
  obtain r4 s4 where 4: "export_credentials G s3 = (r4, s4)" by fastforce
  obtain r5 s5 where 5: "deinit_certificate G s4 = (r5, s5)" by fastforce
  obtain r6 s6 where 6: "deinit_key G s5 = (r6, s6)" by fastforce
  note facts = neutralD [OF ensure 0] neutralD [OF neutral_step(2) 1] init_certificate_result [OF 2]
    neutralD [OF neutral_fill 3] neutralD [OF neutral_export 4] deinit_certificate_result [OF 5] deinit_key_result [OF 6]
  show ?thesis
  proof (cases r0)
    case (Inl e)
    then show ?thesis using run facts 0 by (auto simp: generateCredentials_def act_simps)
  next
    case r0: (Inr u)
    show ?thesis
    proof (cases r1)
      case (Inl e)
      then show ?thesis using run facts 0 1 r0 by (auto simp: generateCredentials_def act_simps)
    next
      case r1: (Inr v)
      show ?thesis
      proof (cases r2)
        case (Inl e)
        obtain q t where rel: "(release_credentials G False e :: ('g, unit) gact) s2 = (q, t)" by fastforce
        show ?thesis using run facts 0 1 2 r0 r1 Inl rel release_result [OF rel]
          by (auto simp: generateCredentials_def act_simps)
      next
        case (Inr w)
        then show ?thesis using run facts 0 1 2 3 4 5 6 r0 r1
          by (cases r3; cases r4) (auto simp: generateCredentials_def act_simps dest!: release_result)
      qed
    qed
  qed
qed


text \<open>A GnuTLS in which signing fails.\<close>

definition demo_gnutls :: "unit gnutls" where
  "demo_gnutls = \<lparr>gnutls_do = (\<lambda>c g. ((if c = X509_crt_sign2_sha256 then - 5 else 0, []), g)),
     gnutls_strerror = (\<lambda>n. ''failed''), gnutls_string = (\<lambda>b. ''pem''), gnutls_time = (\<lambda>g. 1000)\<rparr>"

theorem credentials_never_leak_witness:
  "let (r, s) = generateCredentials demo_gnutls (ret ()) \<lparr>live_keys = 0, live_certs = 0, gstate = ()\<rparr>
   in r = Inl (RuntimeError ''gnutls_x509_crt_sign2: failed'') \<and> live_keys s = 0 \<and> live_certs s = 0"
proof -
  let ?s = "\<lparr>live_keys = 0, live_certs = 0, gstate = ()\<rparr>"
  obtain r s where run: "generateCredentials demo_gnutls (ret ()) ?s = (r, s)" by fastforce
  have "r = Inl (RuntimeError ''gnutls_x509_crt_sign2: failed'')"
    using run by (simp add: generateCredentials_def init_certificate_def fill_certificate_def gstep_def gchecked_def
        gcall_def cred_checkGnuTLS_def release_credentials_def deinit_certificate_def deinit_key_def demo_gnutls_def
        whenA_def act_simps)
  then show ?thesis using credentials_never_leak [OF neutral_ret run] run by simp
qed


end
