(* ===== verification/Quic_Session.thy ===== *)
theory Quic_Session
  imports Connection_Run Credentials Port_Mapping
begin

text \<open>
  The Python objects over a connection (\<open>native/Quic.cpp\<close>): \<open>QUICCredentials\<close> and
  \<open>QUICSession\<close>. A session holds its connection, a counted reference to the agent it is attached
  to and the datagrams that arrived before it was started; its methods turn exceptions into Python
  errors.

  Where a method releases the GIL and blocks, other threads go on: \<open>others\<close> is what happens to the
  connection in between, any number of calls of \<open>conn_others\<close>. \<open>py_world\<close> counts the references
  sessions hold to each agent and the buffers of Python objects that are exported.
\<close>

section \<open>What a session touches\<close>

record py_world =
  agent_refs :: "nat \<Rightarrow> nat"
  buffer_views :: nat

definition incref :: "nat \<Rightarrow> py_world \<Rightarrow> py_world" where
  "incref a w = w\<lparr>agent_refs := (agent_refs w)(a := agent_refs w a + 1)\<rparr>"

definition decref :: "nat \<Rightarrow> py_world \<Rightarrow> py_world" where
  "decref a w = w\<lparr>agent_refs := (agent_refs w)(a := agent_refs w a - 1)\<rparr>"

definition xdecref :: "nat option \<Rightarrow> py_world \<Rightarrow> py_world" where
  "xdecref a w = (case a of None \<Rightarrow> w | Some x \<Rightarrow> decref x w)"

definition take_view :: "bytes option \<Rightarrow> py_world \<Rightarrow> py_world" where
  "take_view v w = (if v = None then w else w\<lparr>buffer_views := buffer_views w + 1\<rparr>)"

definition release_view :: "bytes option \<Rightarrow> py_world \<Rightarrow> py_world" where
  "release_view v w = (if v = None then w else w\<lparr>buffer_views := buffer_views w - 1\<rparr>)"

section \<open>Credentials\<close>

text \<open>The object is the pointer to its state.\<close>

definition initializeCredentials ::
  "'g gnutls \<Rightarrow> ('g, unit) gact \<Rightarrow> credentials option \<Rightarrow> 'g cred_world
     \<Rightarrow> (py_exc + unit) \<times> credentials option \<times> 'g cred_world" where
  "initializeCredentials G ensure state s =
     (case generateCredentials G ensure s of
        (Inl e, s) \<Rightarrow> (Inl (PyRuntimeError (what e)), state, s)
      | (Inr c, s) \<Rightarrow> (Inr (), Some c, s))"

definition getCredentialsCertificate :: "(string \<Rightarrow> bool) \<Rightarrow> credentials option \<Rightarrow> py_exc + py_value" where
  "getCredentialsCertificate is_utf8 state =
     (case state of
        None \<Rightarrow> Inl (PyRuntimeError ''QUIC credentials are closed'')
      | Some c \<Rightarrow> if is_utf8 (cred_certificatePEM c) then Inr (PyStr (cred_certificatePEM c)) else Inl PyCallFailed)"

section \<open>The session\<close>

record 'w quic_session =
  connection :: "'w conn option"
  agentObject :: "nat option"
  initialPacket :: "bytes option"
  session_started :: bool

definition new_session :: "'w quic_session" where
  "new_session = \<lparr>connection = None, agentObject = None, initialPacket = None, session_started = False\<rparr>"

definition of_exn :: "exn \<Rightarrow> py_exc" where
  "of_exn e = (if e = Undefined then PyCrash else PyRuntimeError (what e))"

text \<open>The pattern \<open>catch (const std::exception \&error) errorMessage = error.what()\<close> and the test
  for an empty message after it.\<close>

definition caught :: "exn + 'a \<Rightarrow> py_exc option" where
  "caught r = (case r of
      Inr _ \<Rightarrow> None
    | Inl e \<Rightarrow> if e \<noteq> Undefined \<and> what e = '''' then None else Some (of_exn e))"

definition requireConnection :: "'w quic_session \<Rightarrow> py_exc + 'w conn" where
  "requireConnection self =
     (case connection self of
        None \<Rightarrow> Inl (PyRuntimeError ''QUIC session is closed'')
      | Some c \<Rightarrow> if getError c \<noteq> '''' then Inl (PyRuntimeError (getError c)) else Inr c)"

text \<open>The second argument of \<open>initializeSession\<close>: where a new connection finds itself.\<close>

record 'w session_place =
  place_addr :: nat
  place_binding :: nat
  place_tls :: bool
  place_agents :: "nat \<Rightarrow> agent"
  place_world :: 'w

record session_args =
  arg_role :: string
  arg_certificate :: "string option"
  arg_credentials :: "credentials option option"  \<comment> \<open>\<open>None\<close>: not a \<open>QUICCredentials\<close>\<close>
  arg_initialPacket :: "bytes option"

definition makeConnection :: "'w session_place \<Rightarrow> session_args \<Rightarrow> exn + 'w conn" where
  "makeConnection p args =
     (if arg_role args = ''client'' then
        (case arg_certificate args of
           None \<Rightarrow> Inl (RuntimeError ''client requires the pinned QUIC certificate'')
         | Some cert \<Rightarrow>
             if cert = '''' then Inl (RuntimeError ''client requires the pinned QUIC certificate'')
             else Inr (createClient cert (place_addr p) (place_binding p) (place_tls p) (place_agents p) (place_world p)))
      else if arg_role args = ''server'' then
        (case arg_credentials args of
           None \<Rightarrow> Inl (RuntimeError ''server requires QUICCredentials'')
         | Some None \<Rightarrow> Inl (RuntimeError ''QUIC credentials are closed'')
         | Some (Some c) \<Rightarrow> Inr (createServer (cred_certificatePEM c) (cred_privateKeyPEM c)
             (place_addr p) (place_binding p) (place_tls p) (place_agents p) (place_world p)))
      else Inl (RuntimeError (''role must be '' @ quoted ''client'' @ '' or '' @ quoted ''server'')))"

definition initializeSession ::
  "'w session_place \<Rightarrow> session_args option \<Rightarrow> 'w quic_session \<times> py_world \<Rightarrow> (py_exc + unit) \<times> 'w quic_session \<times> py_world" where
  "initializeSession p parsed s =
     (case parsed of
        None \<Rightarrow> (Inl PyCallFailed, s)
      | Some args \<Rightarrow>
          let view = arg_initialPacket args; w = take_view view (snd s) in
          (case makeConnection p args of
             Inl e \<Rightarrow> (Inl (of_exn e), fst s, release_view view w)
           | Inr c \<Rightarrow> (Inr (), (fst s)\<lparr>connection := Some c, agentObject := None,
               initialPacket := (case view of None \<Rightarrow> None | Some d \<Rightarrow> if d = [] then None else Some d),
               session_started := False\<rparr>, release_view view w)))"

section \<open>Starting\<close>

record start_args =
  start_agent :: nat
  start_is_agent :: bool
  start_aggregate :: bool
  start_timeout :: int          \<comment> \<open>in microseconds\<close>
  start_maxDatagramSize :: int

definition startSession_check :: "start_args option \<Rightarrow> 'w quic_session \<Rightarrow> py_exc + start_args \<times> 'w conn" where
  "startSession_check parsed self =
     (case requireConnection self of
        Inl e \<Rightarrow> Inl e
      | Inr c \<Rightarrow> (case parsed of
          None \<Rightarrow> Inl PyCallFailed
        | Some args \<Rightarrow>
            if start_maxDatagramSize args < 0 then Inl (PyValueError ''maxDatagramSize must not be negative'')
            else if start_timeout args \<le> 0 then Inl (PyValueError ''timeout must be positive'')
            else if session_started self then Inl (PyRuntimeError ''QUIC runtime is already started'')
            else (case getFFLP2PAgentNativeHandle (start_is_agent args) (start_agent args) of
              Inl e \<Rightarrow> Inl e
            | Inr _ \<Rightarrow> Inr (args, c))))"

text \<open>What runs without the GIL: \<open>start\<close>, whose wait lets the others run, then the initial packet.\<close>

definition startConnection ::
  "(nat \<Rightarrow> 'w conn \<Rightarrow> 'w conn) \<Rightarrow> start_args \<Rightarrow> bytes option \<Rightarrow> ('w, unit) cact" where
  "startConnection others args packet =
     bindA (start_request (Some (start_agent args)) (start_aggregate args) (nat (start_maxDatagramSize args))) (\<lambda>c.
     bindA (modify (others 0)) (\<lambda>_.
     bindA (start_finish c) (\<lambda>_.
     bindA (modify (others 1)) (\<lambda>_.
       case packet of
         None \<Rightarrow> ret ()
       | Some d \<Rightarrow> if d = [] then ret () else queueReceive (Span d)))))"

definition startSession ::
  "(nat \<Rightarrow> 'w conn \<Rightarrow> 'w conn) \<Rightarrow> start_args option \<Rightarrow> 'w quic_session \<times> py_world
     \<Rightarrow> (py_exc + py_value) \<times> 'w quic_session \<times> py_world" where
  "startSession others parsed s =
     (let self = fst s in
      case startSession_check parsed self of
        Inl e \<Rightarrow> (Inl e, s)
      | Inr (args, c) \<Rightarrow>
          let w = incref (start_agent args) (snd s) in
          (case startConnection others args (initialPacket self) c of
            (r, c) \<Rightarrow> (case caught r of
              Some e \<Rightarrow> (Inl e, self\<lparr>connection := Some c\<rparr>, decref (start_agent args) w)
            | None \<Rightarrow> (Inr PyNone, self\<lparr>connection := Some c, agentObject := Some (start_agent args),
                session_started := True, initialPacket := None\<rparr>, w))))"

section \<open>The other methods\<close>

definition queueSessionAsync ::
  "(bytes \<times> bool) option \<Rightarrow> 'w quic_session \<times> py_world \<Rightarrow> (py_exc + py_value) \<times> 'w quic_session \<times> py_world" where
  "queueSessionAsync parsed s =
     (case requireConnection (fst s) of
        Inl e \<Rightarrow> (Inl e, s)
      | Inr c \<Rightarrow> (case parsed of
          None \<Rightarrow> (Inl PyCallFailed, s)
        | Some (data, fin) \<Rightarrow>
            let w = take_view (Some data) (snd s) in
            (case queueDataAsync (Span data) fin c of
              (r, c) \<Rightarrow> ((case caught r of Some e \<Rightarrow> Inl e | None \<Rightarrow> Inr PyNone),
                (fst s)\<lparr>connection := Some c\<rparr>, release_view (Some data) w))))"

text \<open>The result is a number, as Python's \<open>bool\<close> is.\<close>

definition py_bool :: "bool \<Rightarrow> py_value" where
  "py_bool b = PyInt (if b then 1 else 0)"

definition waitForSession ::
  "('w conn \<Rightarrow> 'w conn) \<Rightarrow> int option \<Rightarrow> 'w quic_session \<Rightarrow> (py_exc + py_value) \<times> 'w quic_session" where
  "waitForSession others parsed self =
     (case requireConnection self of
        Inl e \<Rightarrow> (Inl e, self)
      | Inr c \<Rightarrow> (case parsed of
          None \<Rightarrow> (Inl PyCallFailed, self)
        | Some timeout \<Rightarrow>
            if timeout < 0 then (Inl (PyValueError ''timeout must be >= 0''), self)
            else let c' = others c in
              (Inr (py_bool (waitForChange (appGeneration (app c)) c')), self\<lparr>connection := Some c'\<rparr>)))"

definition checkSessionError :: "'w quic_session \<Rightarrow> py_exc + py_value" where
  "checkSessionError self =
     (case requireConnection self of
        Inl e \<Rightarrow> Inl e
      | Inr c \<Rightarrow> if getError c \<noteq> '''' then Inl (PyRuntimeError (getError c)) else Inr PyNone)"

text \<open>\<open>bytes_ok\<close> says whether Python can allocate the result. The batch is gone in both cases. Copying
  a batch into a buffer of its own size is \<open>stream_batch_copyTo_exact\<close>.\<close>

definition readSession :: "bool \<Rightarrow> 'w quic_session \<Rightarrow> (py_exc + py_value) \<times> 'w quic_session" where
  "readSession bytes_ok self =
     (case requireConnection self of
        Inl e \<Rightarrow> (Inl e, self)
      | Inr c \<Rightarrow> (case takeReceivedStreamData c of
          (Inl e, c) \<Rightarrow> (Inl (of_exn e), self\<lparr>connection := Some c\<rparr>)
        | (Inr batch, c) \<Rightarrow>
            ((if bytes_ok then Inr (PyBytes batch) else Inl PyMemoryError), self\<lparr>connection := Some c\<rparr>)))"

text \<open>\<open>Connection::close\<close>, whose wait lets the others run.\<close>

definition closeConnection :: "('w conn \<Rightarrow> 'w conn) \<Rightarrow> ('w, unit) cact" where
  "closeConnection others =
     bindA close_request (\<lambda>waiting.
       case waiting of
         None \<Rightarrow> ret ()
       | Some c \<Rightarrow> bindA (modify others) (\<lambda>_. close_finish c))"

definition closeSession ::
  "('w conn \<Rightarrow> 'w conn) \<Rightarrow> 'w quic_session \<times> py_world \<Rightarrow> (py_exc + py_value) \<times> 'w quic_session \<times> py_world" where
  "closeSession others s =
     (case connection (fst s) of
        None \<Rightarrow> (Inr PyNone, s)
      | Some c \<Rightarrow> (case closeConnection others c of
          (r, c) \<Rightarrow> ((case caught r of Some e \<Rightarrow> Inl e | None \<Rightarrow> Inr PyNone),
            (fst s)\<lparr>connection := Some c, agentObject := None, session_started := False\<rparr>,
            xdecref (agentObject (fst s)) (snd s))))"

text \<open>What is left of the connection when the object is gone: the worker may still hold it.\<close>

definition closeSessionNoThrow :: "('w conn \<Rightarrow> 'w conn) \<Rightarrow> 'w quic_session \<Rightarrow> 'w conn option" where
  "closeSessionNoThrow others self = map_option (\<lambda>c. snd (closeConnection others c)) (connection self)"

definition deallocateSession ::
  "('w conn \<Rightarrow> 'w conn) \<Rightarrow> 'w quic_session \<times> py_world \<Rightarrow> 'w conn option \<times> py_world" where
  "deallocateSession others s = (closeSessionNoThrow others (fst s), xdecref (agentObject (fst s)) (snd s))"

definition session_getter :: "('w conn \<Rightarrow> py_value) \<Rightarrow> 'w quic_session \<Rightarrow> py_exc + py_value" where
  "session_getter f self = (case requireConnection self of Inl e \<Rightarrow> Inl e | Inr c \<Rightarrow> Inr (f c))"

definition getSessionHandshakeComplete :: "'w quic_session \<Rightarrow> py_exc + py_value" where
  "getSessionHandshakeComplete = session_getter (\<lambda>c. py_bool (isHandshakeComplete c))"

definition getSessionHandshakeConfirmed :: "'w quic_session \<Rightarrow> py_exc + py_value" where
  "getSessionHandshakeConfirmed = session_getter (\<lambda>c. py_bool (isHandshakeConfirmed c))"

definition getSessionPeerFinished :: "'w quic_session \<Rightarrow> py_exc + py_value" where
  "getSessionPeerFinished = session_getter (\<lambda>c. py_bool (isPeerFinished c))"

definition getSessionPendingWrite :: "'w quic_session \<Rightarrow> py_exc + py_value" where
  "getSessionPendingWrite = session_getter (\<lambda>c. py_bool (hasPendingWrite c))"

definition getSessionBufferedWriteBytes :: "'w quic_session \<Rightarrow> py_exc + py_value" where
  "getSessionBufferedWriteBytes = session_getter (\<lambda>c. PyInt (int (getBufferedWriteBytes c)))"

definition getSessionWriteAcknowledged :: "'w quic_session \<Rightarrow> py_exc + py_value" where
  "getSessionWriteAcknowledged = session_getter (\<lambda>c. py_bool (isWriteAcknowledged c))"

definition getSessionStreamClosed :: "'w quic_session \<Rightarrow> py_exc + py_value" where
  "getSessionStreamClosed = session_getter (\<lambda>c. py_bool (isStreamClosed c))"

definition getSessionRuntimeV2 :: "'w quic_session \<Rightarrow> py_exc + py_value" where
  "getSessionRuntimeV2 self = Inr (py_bool True)"

definition getSessionTooLargeSendDrops :: "'w quic_session \<Rightarrow> py_exc + py_value" where
  "getSessionTooLargeSendDrops = session_getter (\<lambda>c. PyInt (uint (getTooLargeSendDrops c)))"

text \<open>The index of the worker and the size of the pool come from the caller.\<close>

definition getSessionWorkerIndex :: "u16 \<Rightarrow> 'w quic_session \<Rightarrow> py_exc + py_value" where
  "getSessionWorkerIndex index = session_getter (\<lambda>c. PyInt (uint index))"

definition getSessionWorkerCount :: "u16 \<Rightarrow> 'w quic_session \<Rightarrow> py_exc + py_value" where
  "getSessionWorkerCount workers = session_getter (\<lambda>c. PyInt (uint workers))"


end
