(* ===== verification/Session_Inv.thy ===== *)
theory Session_Inv
  imports Quic_Session Demo_Run
begin

text \<open>
  What a session guarantees: nothing but \<open>start\<close> and \<open>close\<close> changes to which agent a connection is
  attached, a start that fails leaves it detached, and references and buffers balance over a
  session's life.
\<close>

section \<open>Who may change the attachment\<close>

definition attached :: "binding \<Rightarrow> (nat \<Rightarrow> agent) \<Rightarrow> 'w conn \<Rightarrow> bool" where
  "attached b ags s \<longleftrightarrow> io_binding (io s) = b \<and> io_agents (io s) = ags"

lemma attached_push: "preserves (attached b ags) (queueOperation oper)"
  by (auto simp: preserves_def queueOperation_def completeOperation_def scheduleIfIdle_def act_simps
      attached_def split: option.split)

lemma attached_internal: "preserves (attached b ags) (queueInternalOperation ty)"
  unfolding queueInternalOperation_def by (rule attached_push)

lemma attached_flush: "preserves (attached b ags) queueSendFlush"
  "preserves (attached b ags) queueStreamReceiveFlush"
  unfolding queueSendFlush_def queueStreamReceiveFlush_def assertWorkerOwner_def
  by (auto intro!: preserves_intros preserves_modify attached_internal simp: attached_def)

lemma attached_received: "preserves (attached b ags) (receiveStreamDataCallback fin sid off data)"
  unfolding receiveStreamDataCallback_def appendReceivedStreamData_def markPeerFinished_def
    assertWorkerOwner_def modProto_def cb_fail_def cb_ok_def
  by (auto intro!: preserves_intros preserves_modify attached_flush simp: attached_def)

lemma attached_acked: "preserves (attached b ags) (acknowledgedStreamDataCallback sid off len)"
  unfolding acknowledgedStreamDataCallback_def markAcknowledged_def modProto_def cb_fail_def cb_ok_def
  by (auto intro!: preserves_intros preserves_modify simp: attached_def)

lemma attached_queueReceive: "preserves (attached b ags) (queueReceive d)"
  unfolding queueReceive_def
  by (auto intro!: preserves_intros preserves_modify preserves_zoom attached_internal simp: attached_def)

interpretation attached_plain: conn_plain E "\<lambda>_. ()" "\<lambda>_ _. True" "\<lambda>_ _ _ _. True" "attached b ags" for E b ags
  by unfold_locales
    (rule env_calls_trivial | erule preservesD [OF attached_received]
      | erule preservesD [OF attached_acked] | simp add: attached_def)+

interpretation attached: conn_feeder E "\<lambda>_. ()" "\<lambda>_ _. True" "\<lambda>_ _ _ _. True" "attached b ags" for E b ags
  by unfold_locales
    (rule env_receives_trivial attached_plain.writing attached_flush attached_queueReceive | simp add: attached_def)+

interpretation attached: conn_handlers E "\<lambda>_. ()" "\<lambda>_ _. True" "\<lambda>_ _ _ _. True" "attached b ags" for E b ags
proof unfold_locales
  show "preserves (attached b ags) processStreamReceive"
    unfolding processStreamReceive_def assertWorkerOwner_def modApp_def
    by (intro preserves_intros preserves_modify) (simp_all add: attached_def)
  show "preserves (attached b ags) (processReleaseStreamReceiveCredit E)"
    unfolding processReleaseStreamReceiveCredit_def assertWorkerOwner_def
    by (intro preserves_intros preserves_modify attached_flush) (simp_all add: attached_def preserves_def act_simps)
qed (rule attached_internal | simp add: attached_def)+

lemma attached_processSend: "preserves (attached b ags) (processSend E oper)"
  unfolding processSend_def
  by (intro preserves_intros preserves_modify attached.chooseStream_inv attached_flush attached_plain.publish_inv)
    (simp_all add: preserves_def act_simps attached_def)

lemma attached_processOperation: "preserves (attached b ags) (processOperation E oper)"
proof (cases "op_type oper = APISend")
  case True
  then show ?thesis unfolding processOperation_def by (simp add: attached_processSend)
next
  case False
  then show ?thesis by (rule attached.processOperation_inv)
qed

lemma attached_complete: "preserves (attached b ags) (completeOperation oper m)"
  unfolding completeOperation_def
  by (rule preserves_modify) (auto simp: attached_def split: option.split)

lemma attached_drain: "preserves (attached b ags) (drainFailedOperations m)"
  unfolding drainFailedOperations_def by (rule preserves_modify) (simp add: attached_def)

lemma attached_setError: "preserves (attached b ags) (setError m)"
  unfolding setError_def modApp_def by (rule preserves_modify) (simp add: attached_def)

lemma attached_processNext: "preserves (attached b ags) (processNext E)"
proof -
  have stop: "preserves (attached b ags) (modify (\<lambda>s. s\<lparr>stopped := True\<rparr>))"
    and pop: "preserves (attached b ags) (modify (\<lambda>s. s\<lparr>operationQueue := q\<rparr>))" for q
    by (rule preserves_modify; simp add: attached_def)+
  have trying: "preserves (attached b ags) (tryOperation E oper)" for oper
    unfolding tryOperation_def failOperation_def
    by (intro preserves_intros attached_processOperation attached_complete attached_setError stop
        attached.releaseTransport_inv attached_drain)
  show ?thesis
    unfolding processNext_def by (intro preserves_intros pop trying attached_drain)
qed

text \<open>All that other threads may do to a connection while its owner starts or closes it.\<close>

fun attaching :: "conn_call \<Rightarrow> bool" where
  "attaching (CallStart _ _ _) = True"
| "attaching (CallStarted _) = True"
| "attaching CallClose = True"
| "attaching (CallClosed _) = True"
| "attaching _ = False"

inductive conn_others :: "'w quic_env \<Rightarrow> 'w conn \<Rightarrow> 'w conn \<Rightarrow> bool" for E where
  others_none: "conn_others E s s"
| others_call: "conn_others E s s' \<Longrightarrow> \<not> attaching c \<Longrightarrow> run_call E c (s'\<lparr>onWorker := by_worker c\<rparr>) = (r, s'') \<Longrightarrow>
    conn_others E s s''"

lemma attached_call: "\<not> attaching c \<Longrightarrow> preserves (attached b ags) (run_call E c)"
proof -
  have take: "preserves (attached b ags) takeReceivedStreamData"
    unfolding takeReceivedStreamData_def modApp_def
    by (intro preserves_intros preserves_modify attached_internal) (simp_all add: attached_def)
  have send: "preserves (attached b ags) (queueDataAsync d fin)" for d fin
    unfolding queueDataAsync_def createSendOperation_def
    by (intro preserves_intros preserves_modify attached_push) (simp_all add: attached_def)
  have begin_finish: "preserves (attached b ags) beginWorkerProcessing" "preserves (attached b ags) finishWorkerProcessing"
    unfolding beginWorkerProcessing_def finishWorkerProcessing_def assertWorkerOwner_def scheduleIfIdle_def
    by (intro preserves_intros preserves_modify; simp add: attached_def)+
  have timer: "preserves (attached b ags) queueTimerExpired"
    unfolding queueTimerExpired_def by (intro preserves_intros attached_internal)
  have fail: "preserves (attached b ags) (failFromRuntime E m)" for m
    unfolding failFromRuntime_def assertWorkerOwner_def
    by (intro preserves_intros preserves_modify attached_setError attached.releaseTransport_inv attached_drain)
      (simp add: attached_def)
  assume "\<not> attaching c"
  then show ?thesis
    by (cases c) (auto intro!: preserves_intros take send begin_finish timer fail attached_processNext
        attached_plain.publish_inv attached_queueReceive simp: binding_onReceive_def)
qed

lemma attached_others: "conn_others E s s' \<Longrightarrow> attached b ags s \<Longrightarrow> attached b ags s'"
proof (induction rule: conn_others.induct)
  case (others_call s s' c r s'')
  then have "attached b ags (s'\<lparr>onWorker := by_worker c\<rparr>)" by (simp add: attached_def)
  then show ?case using preservesD2 [OF attached_call] others_call by blast
qed simp

section \<open>Starting and closing\<close>

lemma binding_detach_result: "fst (binding_detach self t) = Inr () \<and> agentHandle (io_binding (snd (binding_detach self t))) = None"
  by (simp add: binding_detach_def)

lemma detachBinding_result:
  "\<exists>t. detachBinding s = (Inr (), s\<lparr>io := t\<rparr>) \<and> agentHandle (io_binding t) = None"
proof -
  obtain r t where d: "binding_detach (bindingAddr s) (io s) = (r, t)" by fastforce
  have "detachBinding s = (r, s\<lparr>io := t\<rparr>)" by (simp add: detachBinding_def act_simps d)
  then show ?thesis using binding_detach_result [of "bindingAddr s" "io s"] d by auto
qed

definition handle :: "'w conn \<Rightarrow> nat option" where
  "handle c = agentHandle (io_binding (io c))"

lemma handle_preserved: "preserves (\<lambda>s. handle s = h) m" if "\<And>b ags. preserves (attached b ags) m"
  using that by (auto simp: preserves_def attached_def handle_def)

lemma handle_kept: "(\<And>b ags. preserves (attached b ags) m) \<Longrightarrow> m s = (r, s') \<Longrightarrow> handle s' = handle s"
  using handle_preserved [of m "handle s"] by (simp add: preserves_def) (metis snd_conv)

lemma handle_others: "conn_others E s s' \<Longrightarrow> handle s' = handle s"
  using attached_others [of E s s' "io_binding (io s)" "io_agents (io s)"] by (simp add: attached_def handle_def)

lemma queueOperation_result: "\<exists>s'. queueOperation oper s = (Inr (), s') \<and> handle s' = handle s"
  by (auto simp: queueOperation_def completeOperation_def scheduleIfIdle_def act_simps handle_def split: option.split)

lemma attach_result:
  assumes "binding_attach self (Some a) (Some c) t = (r, t')" and "agentHandle (io_binding t) = None"
  shows "case r of
      Inr _ \<Rightarrow> agentHandle (io_binding t') = Some a
    | Inl e \<Rightarrow> agentHandle (io_binding t') = None \<and> what e \<noteq> '''' \<and> e \<noteq> Undefined"
  using assms by (auto simp: binding_attach_def split: if_splits prod.splits)

lemma attach_step:
  assumes "handle s = None"
  shows "\<exists>r s'. withIo (binding_attach self (Some a) (Some c)) s = (r, s') \<and>
    (case r of Inr _ \<Rightarrow> handle s' = Some a | Inl e \<Rightarrow> handle s' = None \<and> what e \<noteq> '''' \<and> e \<noteq> Undefined)"
proof -
  obtain r t where r: "binding_attach self (Some a) (Some c) (io s) = (r, t)" by fastforce
  show ?thesis using attach_result [OF r] assms r
    by (auto simp: act_simps handle_def split: sum.splits)
qed

text \<open>A request that fails leaves the connection detached, one that succeeds attaches it.\<close>

lemma start_request_result:
  assumes none: "handle s = None" and run: "start_request (Some a) g n s = (r, s')"
  shows "case r of Inr _ \<Rightarrow> handle s' = Some a | Inl e \<Rightarrow> handle s' = None \<and> what e \<noteq> '''' \<and> e \<noteq> Undefined"
proof (cases "started s")
  case True
  then show ?thesis using none run by (auto simp: start_request_def act_simps)
next
  case False
  define s1 where "s1 = s\<lparr>aggregatePackets := g, io := binding_limitDatagramSize n (io s)\<rparr>"
  have n1: "handle s1 = None" using none by (simp add: s1_def handle_def binding_limitDatagramSize_def)
  obtain q s2 where 2: "withIo (binding_attach (bindingAddr s1) (Some a) (Some (connAddr s1))) s1 = (q, s2)"
    and q: "case q of Inr _ \<Rightarrow> handle s2 = Some a | Inl e \<Rightarrow> handle s2 = None \<and> what e \<noteq> '''' \<and> e \<noteq> Undefined"
    using attach_step [OF n1] by blast
  define s3 where "s3 = s2\<lparr>completions := completions s2 @ [completion_new]\<rparr>"
  obtain s4 where 4: "queueOperation ((operation_of APIStart)\<lparr>op_completion := Some (length (completions s2))\<rparr>) s3 = (Inr (), s4)"
    and h4: "handle s4 = handle s3" using queueOperation_result by blast
  have eq: "start_request (Some a) g n s = (case q of Inl e \<Rightarrow> (Inl e, s2) | Inr _ \<Rightarrow> (Inr (length (completions s2)), s4))"
    using False 2 4 by (auto simp: start_request_def newCompletion_def bindA_def gets_def modify_def ret_def
        withIo_def zoomA_def s1_def s3_def split: sum.split prod.splits)
  show ?thesis using eq run q h4 by (auto simp: s3_def handle_def split: sum.splits)
qed

lemma start_finish_result:
  assumes "start_finish c s = (r, s')"
  shows "case r of Inr _ \<Rightarrow> handle s' = handle s | Inl e \<Rightarrow> handle s' = None \<and> what e \<noteq> '''' \<and> e \<noteq> Undefined"
  using assms detachBinding_result [of s]
  by (auto simp: start_finish_def act_simps handle_def split: wait_result.splits if_splits)

lemma queueReceive_result:
  assumes "d \<noteq> []" and "length d \<le> 65535"
  shows "\<exists>s'. queueReceive (Span d) s = (Inr (), s') \<and> handle s' = handle s"
proof -
  have "fst (queueReceive (Span d) s) = Inr ()"
    using assms queueOperation_result [of "operation_of FlushRecv"]
    by (auto simp: queueReceive_def packets_append_def kUINT16_MAX_def act_simps queueInternalOperation_def
        queueOperation_def completeOperation_def scheduleIfIdle_def operation_of_def zoomA_def Let_def)
  moreover have "handle (snd (queueReceive (Span d) s)) = handle s"
    using preservesD [OF handle_preserved [OF attached_queueReceive]] by blast
  ultimately show ?thesis by (metis prod.collapse)
qed


lemma close_finish_result: "close_finish c s = (r, s') \<Longrightarrow> handle s' = None \<and> r \<noteq> Inl Undefined"
  using detachBinding_result [of s] by (auto simp: close_finish_def act_simps handle_def split: wait_result.splits if_splits)

lemma startConnection_result:
  assumes others: "\<And>n s. conn_others E s (others n s)" and none: "handle s = None"
    and packet: "\<And>d. packet = Some d \<Longrightarrow> length d \<le> 65535"
    and run: "startConnection others args packet s = (r, s')"
  shows "case r of Inr _ \<Rightarrow> handle s' = Some (start_agent args) | Inl e \<Rightarrow> handle s' = None \<and> what e \<noteq> '''' \<and> e \<noteq> Undefined"
proof -
  let ?n = "nat (start_maxDatagramSize args)"
  obtain q s1 where 1: "start_request (Some (start_agent args)) (start_aggregate args) ?n s = (q, s1)" by fastforce
  note r1 = start_request_result [OF none 1]
  show ?thesis
  proof (cases q)
    case (Inl e)
    then show ?thesis using run r1 1 by (auto simp: startConnection_def act_simps)
  next
    case (Inr c)
    obtain q2 s2 where 2: "start_finish c (others 0 s1) = (q2, s2)" by fastforce
    note r2 = start_finish_result [OF 2]
    have h0: "handle (others 0 s1) = handle s1" and h1: "handle (others 1 s2) = handle s2"
      using handle_others [OF others] by blast+
    show ?thesis
    proof (cases q2)
      case (Inl e)
      then show ?thesis using run r2 1 2 Inr by (auto simp: startConnection_def act_simps)
    next
      case q2: (Inr u)
      then have h: "handle (others 1 s2) = Some (start_agent args)" using r1 r2 h0 h1 Inr by simp
      show ?thesis
      proof (cases "packet = None \<or> packet = Some []")
        case True
        then show ?thesis using run 1 2 Inr q2 h by (auto simp: startConnection_def act_simps)
      next
        case False
        then obtain d where d: "packet = Some d" "d \<noteq> []" by auto
        obtain s3 where "queueReceive (Span d) (others 1 s2) = (Inr (), s3)" and "handle s3 = handle (others 1 s2)"
          using queueReceive_result d packet by blast
        then show ?thesis using run 1 2 Inr q2 h d by (auto simp: startConnection_def act_simps)
      qed
    qed
  qed
qed

lemma closeConnection_result:
  assumes run: "closeConnection others s = (r, s')"
  shows "handle s' = None"
proof (cases "stopped s")
  case True
  then show ?thesis using run detachBinding_result [of s]
    by (auto simp: closeConnection_def close_request_def act_simps handle_def)
next
  case False
  let ?c = "length (completions s)" and ?s = "s\<lparr>completions := completions s @ [completion_new]\<rparr>"
  obtain s1 where "queueOperation ((operation_of Shutdown)\<lparr>op_completion := Some ?c\<rparr>) ?s = (Inr (), s1)"
    using queueOperation_result by blast
  then have "closeConnection others s = close_finish ?c (others s1)"
    using False by (simp add: closeConnection_def close_request_def newCompletion_def act_simps)
  then show ?thesis using run close_finish_result by metis
qed

section \<open>The life of a session\<close>

text \<open>Construction, then methods and other threads in any order. A message can be queued before the
  start if it is a datagram.\<close>

definition datagram_args :: "session_args option \<Rightarrow> bool" where
  "datagram_args parsed \<longleftrightarrow> (\<forall>args d. parsed = Some args \<longrightarrow> arg_initialPacket args = Some d \<longrightarrow> length d \<le> 65535)"

inductive session_life :: "'w quic_env \<Rightarrow> py_world \<Rightarrow> 'w quic_session \<Rightarrow> py_world \<Rightarrow> bool" for E w0 where
  sl_init: "initializeSession p parsed (new_session, w0) = (r, self, w) \<Longrightarrow> datagram_args parsed \<Longrightarrow> session_life E w0 self w"
| sl_start: "session_life E w0 self w \<Longrightarrow> (\<And>n s. conn_others E s (others n s)) \<Longrightarrow>
    startSession others parsed_start (self, w) = (r, self', w') \<Longrightarrow> session_life E w0 self' w'"
| sl_send: "session_life E w0 self w \<Longrightarrow> queueSessionAsync parsed_send (self, w) = (r, self', w') \<Longrightarrow> session_life E w0 self' w'"
| sl_wait: "session_life E w0 self w \<Longrightarrow> (\<And>s. conn_others E s (others_wait s)) \<Longrightarrow>
    waitForSession others_wait timeout self = (r, self') \<Longrightarrow> session_life E w0 self' w"
| sl_read: "session_life E w0 self w \<Longrightarrow> readSession ok self = (r, self') \<Longrightarrow> session_life E w0 self' w"
| sl_close: "session_life E w0 self w \<Longrightarrow> closeSession others_wait (self, w) = (r, self', w') \<Longrightarrow> session_life E w0 self' w'"
| sl_others: "session_life E w0 self w \<Longrightarrow> connection self = Some c \<Longrightarrow> conn_others E c c' \<Longrightarrow>
    session_life E w0 (self\<lparr>connection := Some c'\<rparr>) w"

definition refs_with :: "py_world \<Rightarrow> nat option \<Rightarrow> py_world" where
  "refs_with w a = (case a of None \<Rightarrow> w | Some x \<Rightarrow> incref x w)"

definition session_inv :: "py_world \<Rightarrow> 'w quic_session \<Rightarrow> py_world \<Rightarrow> bool" where
  "session_inv w0 self w \<longleftrightarrow>
     w = refs_with w0 (agentObject self) \<and>
     (case connection self of None \<Rightarrow> agentObject self = None | Some c \<Rightarrow> handle c = agentObject self) \<and>
     (session_started self \<longleftrightarrow> agentObject self \<noteq> None) \<and>
     (\<forall>d. initialPacket self = Some d \<longrightarrow> length d \<le> 65535)"

lemma decref_incref [simp]: "decref a (incref a w) = w"
  by (simp add: incref_def decref_def)

lemma view_balance [simp]: "release_view v (take_view v w) = w"
  by (simp add: release_view_def take_view_def)

lemma requireConnection_Inr: "requireConnection self = Inr c \<Longrightarrow> connection self = Some c"
  by (auto simp: requireConnection_def split: option.splits if_splits)

lemma makeConnection_handle: "makeConnection p args = Inr c \<Longrightarrow> handle c = None"
  by (auto simp: makeConnection_def createClient_def createServer_def connection_new_def handle_def binding_new_def
      split: if_splits option.splits)

lemma session_inv_conn:
  assumes "session_inv w0 self w" and "connection self = Some c" and "handle c' = handle c"
  shows "session_inv w0 (self\<lparr>connection := Some c'\<rparr>) w"
  using assms by (simp add: session_inv_def)

lemma session_inv_init:
  assumes "initializeSession p parsed (new_session, w0) = (r, self, w)" and "datagram_args parsed"
  shows "session_inv w0 self w"
  using assms makeConnection_handle
  by (auto simp: initializeSession_def session_inv_def new_session_def refs_with_def datagram_args_def Let_def
      split: option.splits sum.splits if_splits)


lemma startSession_check_Inr:
  "startSession_check parsed self = Inr (args, c) \<Longrightarrow> connection self = Some c \<and> \<not> session_started self"
  by (auto simp: startSession_check_def dest: requireConnection_Inr split: sum.splits option.splits if_splits)

lemma session_inv_start:
  assumes inv: "session_inv w0 self w" and others: "\<And>n s. conn_others E s (others n s)"
    and run: "startSession others parsed (self, w) = (r, self', w')"
  shows "session_inv w0 self' w'"
proof (cases "startSession_check parsed self")
  case (Inl e)
  then show ?thesis using run inv by (simp add: startSession_def)
next
  case (Inr q)
  then obtain args c where q: "startSession_check parsed self = Inr (args, c)" by (cases q) auto
  note check = startSession_check_Inr [OF q]
  have none: "handle c = None" and agent: "agentObject self = None" using inv check by (auto simp: session_inv_def)
  have packet: "\<And>d. initialPacket self = Some d \<Longrightarrow> length d \<le> 65535" using inv by (simp add: session_inv_def)
  obtain x c' where go: "startConnection others args (initialPacket self) c = (x, c')" by fastforce
  note res = startConnection_result [OF others none packet go]
  show ?thesis
  proof (cases x)
    case (Inl e)
    then have "caught x = Some (of_exn e)" using res by (simp add: caught_def)
    then show ?thesis using run q go res inv agent check Inl
      by (auto simp: startSession_def session_inv_def refs_with_def)
  next
    case (Inr u)
    then show ?thesis using run q go res inv agent
      by (auto simp: startSession_def session_inv_def refs_with_def caught_def)
  qed
qed

lemma session_inv_close:
  assumes inv: "session_inv w0 self w" and run: "closeSession others (self, w) = (r, self', w')"
  shows "session_inv w0 self' w'"
proof (cases "connection self")
  case None
  then show ?thesis using run inv by (simp add: closeSession_def)
next
  case (Some c)
  obtain x c' where go: "closeConnection others c = (x, c')" by fastforce
  then show ?thesis using run inv Some closeConnection_result [OF go]
    by (auto simp: closeSession_def session_inv_def refs_with_def xdecref_def split: option.splits)
qed

lemma session_inv_send:
  assumes inv: "session_inv w0 self w" and run: "queueSessionAsync parsed (self, w) = (r, self', w')"
  shows "session_inv w0 self' w'"
proof (cases "requireConnection self")
  case (Inl e)
  then show ?thesis using run inv by (simp add: queueSessionAsync_def)
next
  case (Inr c)
  have keep: "queueDataAsync (Span d) fin c = (x, c') \<Longrightarrow> handle c' = handle c" for d fin x c'
    using handle_kept [OF attached_call [of "CallSend (Span d) fin"]] by simp
  show ?thesis using run Inr session_inv_conn [OF inv requireConnection_Inr [OF Inr] keep] inv
    by (auto simp: queueSessionAsync_def split: option.splits prod.splits)
qed

lemma session_inv_wait:
  assumes inv: "session_inv w0 self w" and others: "\<And>s. conn_others E s (others s)"
    and run: "waitForSession others timeout self = (r, self')"
  shows "session_inv w0 self' w"
proof (cases "requireConnection self")
  case (Inl e)
  then show ?thesis using run inv by (simp add: waitForSession_def)
next
  case (Inr c)
  show ?thesis using run Inr inv session_inv_conn [OF inv requireConnection_Inr [OF Inr] handle_others [OF others]]
    by (auto simp: waitForSession_def Let_def split: option.splits if_splits)
qed

lemma session_inv_read:
  assumes inv: "session_inv w0 self w" and run: "readSession ok self = (r, self')"
  shows "session_inv w0 self' w"
proof (cases "requireConnection self")
  case (Inl e)
  then show ?thesis using run inv by (simp add: readSession_def)
next
  case (Inr c)
  obtain x c' where t: "takeReceivedStreamData c = (x, c')" by fastforce
  have "preserves (attached b ags) takeReceivedStreamData" for b ags
    unfolding takeReceivedStreamData_def modApp_def
    by (intro preserves_intros preserves_modify attached_internal) (simp_all add: attached_def)
  then have "handle c' = handle c"
    using handle_kept t by blast
  then show ?thesis using run Inr t session_inv_conn [OF inv requireConnection_Inr [OF Inr], of c']
    by (cases x) (auto simp: readSession_def)
qed

lemma session_life_inv:
  assumes "session_life E w0 self w"
  shows "session_inv w0 self w"
  using assms
proof induction
  case (sl_others self w c c')
  then show ?case using session_inv_conn handle_others by blast
qed (blast intro: session_inv_init session_inv_start session_inv_send session_inv_wait session_inv_read session_inv_close)+



section \<open>A concrete session\<close>

definition demo_place :: "bytes session_place" where
  "demo_place = \<lparr>place_addr = 1, place_binding = 2, place_tls = True, place_agents = demo_agents, place_world = []\<rparr>"

definition demo_session_args :: "bytes option \<Rightarrow> session_args" where
  "demo_session_args d = \<lparr>arg_role = ''client'', arg_certificate = Some ''PEM'', arg_credentials = None, arg_initialPacket = d\<rparr>"

definition demo_start_args :: start_args where
  "demo_start_args = \<lparr>start_agent = 0, start_is_agent = True, start_aggregate = False, start_timeout = 5,
     start_maxDatagramSize = 1200\<rparr>"

text \<open>While \<open>start\<close> waits, the worker takes the first operation.\<close>

definition demo_others :: "nat \<Rightarrow> bytes conn \<Rightarrow> bytes conn" where
  "demo_others n c = (if n = 0 then snd (run_call demo_env WorkerNext (c\<lparr>onWorker := True\<rparr>)) else c)"

definition demo_py :: py_world where
  "demo_py = \<lparr>agent_refs = (\<lambda>_. 1), buffer_views = 0\<rparr>"

definition demo_session :: "bytes option \<Rightarrow> (py_exc + py_value) \<times> bytes quic_session \<times> py_world" where
  "demo_session d = startSession demo_others (Some demo_start_args)
     (snd (initializeSession demo_place (Some (demo_session_args d)) (new_session, demo_py)))"

lemma demo_others_ok: "conn_others demo_env s (demo_others n s)"
  using others_call [OF others_none, of WorkerNext demo_env s]
  by (cases "n = 0") (auto simp: demo_others_def intro: others_none surjective_pairing)

lemma demo_session_life: "session_life demo_env demo_py (fst (snd (demo_session None))) (snd (snd (demo_session None)))"
proof -
  let ?i = "initializeSession demo_place (Some (demo_session_args None)) (new_session, demo_py)"
  have "session_life demo_env demo_py (fst (snd ?i)) (snd (snd ?i))"
    by (rule sl_init [of demo_place "Some (demo_session_args None)" _ "fst ?i"])
      (simp_all add: datagram_args_def demo_session_args_def)
  then show ?thesis
    by (rule sl_start [where r = "fst (demo_session None)", OF _ demo_others_ok]) (simp add: demo_session_def)
qed


text \<open>The concrete start, up to the initial packet.\<close>

lemma demo_started:
  "\<exists>c. startConnection demo_others demo_start_args (Some d) demo_conn = queueReceive (Span d) c \<and> handle c = Some 0 \<and> \<not> stopped c"
  if "d \<noteq> []"
  using that
  by (simp add: startConnection_def demo_start_args_def demo_others_def demo_conn_def demo_simps demo_start
      start_finish_def completion_wait_def handle_def) (rule exI, rule conjI, rule refl, simp)

text \<open>A packet that is not a datagram makes \<open>startSession\<close> fail after the connection has started: the
  reference to the agent is given back while the connection stays attached to it and running.\<close>

theorem oversized_packet_leaves_attached:
  "\<exists>self w c. demo_session (Some (replicate 65536 0)) =
      (Inl (PyRuntimeError ''receive buffer has insufficient capacity''), self, w) \<and>
    connection self = Some c \<and> agentHandle (io_binding (io c)) = Some 0 \<and> \<not> stopped c \<and>
    agentObject self = None \<and> agent_refs w 0 = agent_refs demo_py 0"
proof -
  let ?d = "replicate 65536 (0 :: byte)"
  have d: "?d \<noteq> []" by simp
  obtain c where c: "startConnection demo_others demo_start_args (Some ?d) demo_conn = queueReceive (Span ?d) c"
    and h: "handle c = Some 0" "\<not> stopped c" using demo_started [OF d] by blast
  have q: "queueReceive (Span ?d) c = (Inl (LengthError ''receive buffer has insufficient capacity''), c)"
    using h by (simp add: queueReceive_def packets_append_def kUINT16_MAX_def act_simps zoomA_def)
  have i: "initializeSession demo_place (Some (demo_session_args (Some ?d))) (new_session, demo_py) =
      (Inr (), \<lparr>connection = Some demo_conn, agentObject = None, initialPacket = Some ?d, session_started = False\<rparr>, demo_py)"
    by (simp add: initializeSession_def makeConnection_def demo_session_args_def demo_place_def demo_conn_def createClient_def
        new_session_def Let_def d)
  have k: "startSession_check (Some demo_start_args) \<lparr>connection = Some demo_conn, agentObject = None,
      initialPacket = Some ?d, session_started = False\<rparr> = Inr (demo_start_args, demo_conn)"
    by (simp add: startSession_check_def requireConnection_def getError_def demo_start_args_def demo_conn_def
        connection_new_def app_new_def getFFLP2PAgentNativeHandle_def)
  show ?thesis
    unfolding demo_session_def i snd_conv startSession_def Let_def fst_conv k quic_session.select_convs
    using c q h by (simp add: caught_def of_exn_def handle_def)
qed

text \<open>If Python cannot allocate the result of \<open>read\<close>, the bytes taken from the connection are gone.\<close>

lemma read_failure_loses_data:
  assumes "requireConnection self = Inr c"
  shows "\<exists>c'. readSession False self = (Inl PyMemoryError, self\<lparr>connection := Some c'\<rparr>) \<and> appReceiveBatch (app c') = []"
  using assms
  by (auto simp: readSession_def takeReceivedStreamData_def queueInternalOperation_def queueOperation_def
      completeOperation_def scheduleIfIdle_def operation_of_def act_simps Let_def)

end
