(* ===== verification/Datapath.thy ===== *)
theory Datapath
  imports Prelude Platform
begin

text \<open>
  The socket layer behind libjuice (\<open>native/datapath/Datapath.cpp\<close>, \<open>native/datapath/DatapathPOSIX.cpp\<close>,
  \<open>native/platform/DatagramBatch.cpp\<close>, Linux branches): aggregates are sent with one \<open>sendmsg\<close> and a
  segment size, datagrams are received in batches with \<open>recvmmsg\<close>, and both fall back when the
  kernel turns out not to support them.

  The kernel is the parameter \<open>kernel\<close> over an opaque state. A failing call answers with its \<open>errno\<close>;
  \<open>recvmmsg\<close> and \<open>recvfrom\<close> answer with what they wrote into the buffers.
\<close>

section \<open>The kernel\<close>

datatype errno =
    E_NONE | EINVAL | ENOPROTOOPT | EOPNOTSUPP | ENOSYS | EAGAIN | EWOULDBLOCK | ECONNRESET | ENETRESET
  | ECONNREFUSED | EMSGSIZE | EIO | Errno int

text \<open>A message as the kernel leaves it: what it wrote to the payload and address buffers, the sizes
  it reports and whether the flag \<open>MSG_TRUNC\<close> is set.\<close>

record kernel_message =
  km_payload :: bytes
  km_length :: nat
  km_address :: bytes
  km_address_length :: nat
  km_truncated :: bool

record 'k kernel =
  k_isLinux :: bool
  k_socket :: "'k \<Rightarrow> nat option \<times> 'k"
  k_close :: "nat \<Rightarrow> 'k \<Rightarrow> 'k"
  k_bind_loopback :: "nat \<Rightarrow> 'k \<Rightarrow> bool \<times> 'k"
  k_getsockname :: "nat \<Rightarrow> 'k \<Rightarrow> bytes option \<times> 'k"
  k_sendmsg :: "nat \<Rightarrow> bytes \<Rightarrow> bytes \<Rightarrow> u16 \<Rightarrow> 'k \<Rightarrow> (errno + nat) \<times> 'k"
  k_recvmmsg :: "nat \<Rightarrow> nat list \<Rightarrow> 'k \<Rightarrow> (errno + kernel_message list) \<times> 'k"
  k_recvfrom :: "nat \<Rightarrow> nat \<Rightarrow> 'k \<Rightarrow> (errno + bytes \<times> bytes) \<times> 'k"

section \<open>Constants\<close>

text \<open>The capacity of libjuice's batch and its address storage are libjuice's; the static assertions
  bound them by the sizes here.\<close>

definition kReceiveDatagramSize :: nat where "kReceiveDatagramSize = 4096"
definition kMaxGSOSegments :: nat where "kMaxGSOSegments = 64"
definition kProbeSegmentSize :: nat where "kProbeSegmentSize = 1200"
definition kProbeSegmentCount :: nat where "kProbeSegmentCount = 2"
definition MaxBatchSize :: nat where "MaxBatchSize = 64"
definition kSockaddrStorageSize :: nat where "kSockaddrStorageSize = 128"

record juice_limits =
  JUICE_UDP_RECV_BATCH_CAPACITY :: nat
  JUICE_UDP_RECV_ADDRESS_STORAGE_SIZE :: nat

section \<open>The batch receiver\<close>

record receive_buffer_desc =
  data_null :: bool
  dataCapacity :: nat
  address_null :: bool
  sourceAddressCapacity :: nat

text \<open>A filled buffer: the memory it points to and the three output fields.\<close>

record received_buffer =
  rbuf_payload :: bytes
  rbuf_address :: bytes
  dataSize :: nat
  sourceAddressSize :: nat
  flag_truncated :: bool

definition receiver_isSupported :: "'k kernel \<Rightarrow> bool" where
  "receiver_isSupported K = k_isLinux K"

definition buffer_invalid :: "receive_buffer_desc \<Rightarrow> bool" where
  "buffer_invalid b \<longleftrightarrow> data_null b \<or> dataCapacity b = 0 \<or> address_null b \<or> sourceAddressCapacity b = 0 \<or>
     sourceAddressCapacity b > 4294967295"

definition fill_buffer :: "kernel_message \<Rightarrow> received_buffer" where
  "fill_buffer m = \<lparr>rbuf_payload = km_payload m, rbuf_address = km_address m, dataSize = km_length m,
     sourceAddressSize = km_address_length m, flag_truncated = km_truncated m\<rparr>"

definition receiver_receive ::
  "'k kernel \<Rightarrow> nat \<Rightarrow> receive_buffer_desc list \<Rightarrow> 'k \<Rightarrow> (errno + received_buffer list) \<times> 'k" where
  "receiver_receive K fd buffers k =
     (if buffers = [] \<or> length buffers > MaxBatchSize then (Inl EINVAL, k)
      else if \<not> receiver_isSupported K then (Inl ENOSYS, k)
      else if list_ex buffer_invalid buffers then (Inl EINVAL, k)
      else (case k_recvmmsg K fd (map dataCapacity buffers) k of
          (Inl e, k) \<Rightarrow> (Inl e, k)
        | (Inr ms, k) \<Rightarrow> (Inr (map fill_buffer ms), k)))"

section \<open>The backend\<close>

record datapath_options =
  disableSendSegmentation :: bool
  disableReceiveBatching :: bool
  disableReceiveCoalescing :: bool

record backend =
  sendSegmentationDisabled :: bool
  receiveBatchingDisabled :: bool
  sendSegmentationEnabled :: bool
  receiveBatchingEnabled :: bool

text \<open>A socket that is closed at the end of its scope.\<close>

definition scoped_close :: "'k kernel \<Rightarrow> nat option \<Rightarrow> 'k \<Rightarrow> 'k" where
  "scoped_close K s k = (case s of None \<Rightarrow> k | Some h \<Rightarrow> k_close K h k)"

definition probe_send :: "'k kernel \<Rightarrow> nat \<Rightarrow> nat \<Rightarrow> 'k \<Rightarrow> bool \<times> 'k" where
  "probe_send K sender receiver k =
     (case k_bind_loopback K receiver k of (bound, k) \<Rightarrow>
        if \<not> bound then (False, k)
        else (case k_getsockname K receiver k of (name, k) \<Rightarrow>
          (case name of
             None \<Rightarrow> (False, k)
           | Some address \<Rightarrow>
               let payload = replicate (kProbeSegmentSize * kProbeSegmentCount) 0 in
               (case k_sendmsg K sender address payload (of_nat kProbeSegmentSize) k of
                  (Inl e, k) \<Rightarrow> (False, k)
                | (Inr n, k) \<Rightarrow> (n = length payload, k)))))"

definition probeSendSegmentation :: "'k kernel \<Rightarrow> 'k \<Rightarrow> bool \<times> 'k" where
  "probeSendSegmentation K k =
     (if \<not> k_isLinux K then (False, k)
      else (case k_socket K k of (sender, k) \<Rightarrow>
        (case k_socket K k of (receiver, k) \<Rightarrow>
          (case (case (sender, receiver) of
                (Some a, Some b) \<Rightarrow> probe_send K a b k
              | _ \<Rightarrow> (False, k)) of
             (ok, k) \<Rightarrow> (ok, scoped_close K sender (scoped_close K receiver k))))))"

definition backend_new :: "'k kernel \<Rightarrow> datapath_options \<Rightarrow> 'k \<Rightarrow> backend \<times> 'k" where
  "backend_new K options k =
     (case (if k_isLinux K then probeSendSegmentation K k else (False, k)) of
        (segmentationSupported, k) \<Rightarrow>
          (\<lparr>sendSegmentationDisabled = disableSendSegmentation options,
            receiveBatchingDisabled = disableReceiveBatching options,
            sendSegmentationEnabled = (segmentationSupported \<and> \<not> disableSendSegmentation options),
            receiveBatchingEnabled = (k_isLinux K \<and> receiver_isSupported K \<and> \<not> disableReceiveBatching options)\<rparr>, k))"

section \<open>Sending\<close>

datatype aggregate_result = Handled | NotHandled | Failed

definition isSegmentationCapabilityError :: "errno \<Rightarrow> bool" where
  "isSegmentationCapabilityError e \<longleftrightarrow> e = EINVAL \<or> e = ENOPROTOOPT \<or> e = EOPNOTSUPP \<or> e = ENOSYS"

text \<open>The answer to libjuice: result, \<open>sentSize\<close>, \<open>socketError\<close>.\<close>

type_synonym send_answer = "aggregate_result \<times> nat \<times> errno"

definition sendAggregate ::
  "'k kernel \<Rightarrow> nat \<Rightarrow> bytes \<Rightarrow> bytes \<Rightarrow> nat \<Rightarrow> backend \<Rightarrow> 'k \<Rightarrow> send_answer \<times> backend \<times> 'k" where
  "sendAggregate K fd destination data segmentSize b k =
     (let n = length data; datagramCount = (n + segmentSize - 1) div segmentSize in
      if \<not> sendSegmentationEnabled b \<or> n \<le> segmentSize \<or> segmentSize > 65535
      then ((NotHandled, 0, E_NONE), b, k)
      else if datagramCount > kMaxGSOSegments \<or> length destination > kSockaddrStorageSize
      then ((NotHandled, 0, E_NONE), b, k)
      else (case k_sendmsg K fd destination data (of_nat segmentSize) k of
          (Inl e, k) \<Rightarrow>
            if isSegmentationCapabilityError e
            then ((NotHandled, 0, E_NONE), b\<lparr>sendSegmentationEnabled := False\<rparr>, k)
            else ((Failed, 0, e), b, k)
        | (Inr sent, k) \<Rightarrow>
            if sent \<noteq> n then ((Failed, 0, EIO), b, k) else ((Handled, n, E_NONE), b, k)))"

text \<open>\<open>sendFFLP2PDatapathAggregate\<close> with output pointers that are not null; a null pointer is \<open>None\<close>.\<close>

definition sendFFLP2PDatapathAggregate ::
  "'k kernel \<Rightarrow> nat \<Rightarrow> bytes option \<Rightarrow> bytes option \<Rightarrow> nat \<Rightarrow> backend option \<Rightarrow> 'k \<Rightarrow> send_answer \<times> backend option \<times> 'k" where
  "sendFFLP2PDatapathAggregate K fd destination data segmentSize user k =
     (case (user, destination, data) of
        (Some b, Some addr, Some d) \<Rightarrow>
          if addr = [] \<or> d = [] \<or> segmentSize = 0 \<or> segmentSize > length d then ((Failed, 0, EINVAL), user, k)
          else (case sendAggregate K fd addr d segmentSize b k of (r, b, k) \<Rightarrow> (r, Some b, k))
      | _ \<Rightarrow> ((Failed, 0, EINVAL), user, k))"

section \<open>Receiving\<close>

text \<open>A datagram handed to libjuice: payload and source address; the answer is \<open>socketError\<close> or the
  datagrams, none meaning 0.\<close>

type_synonym datagram = "bytes \<times> bytes"
type_synonym receive_answer = "errno + datagram list"

definition isIgnoredUDPError :: "errno \<Rightarrow> bool" where
  "isIgnoredUDPError e \<longleftrightarrow> e = ECONNRESET \<or> e = ENETRESET \<or> e = ECONNREFUSED"

text \<open>The two loops that repeat a call while it reports an ignored error; they have no bound of their own.\<close>

partial_function (option) single_loop ::
  "'k kernel \<Rightarrow> nat \<Rightarrow> 'k \<Rightarrow> ((errno + bytes \<times> bytes) \<times> 'k) option" where
  "single_loop K fd k =
     (case k_recvfrom K fd kReceiveDatagramSize k of (r, k') \<Rightarrow>
        (case r of
           Inl e \<Rightarrow> if isIgnoredUDPError e then single_loop K fd k' else Some (Inl e, k')
         | Inr x \<Rightarrow> Some (Inr x, k')))"

partial_function (option) batch_loop ::
  "'k kernel \<Rightarrow> nat \<Rightarrow> receive_buffer_desc list \<Rightarrow> 'k \<Rightarrow> ((errno + received_buffer list) \<times> 'k) option" where
  "batch_loop K fd buffers k =
     (case receiver_receive K fd buffers k of (r, k') \<Rightarrow>
        (case r of
           Inl e \<Rightarrow> if isIgnoredUDPError e then batch_loop K fd buffers k' else Some (Inl e, k')
         | Inr x \<Rightarrow> Some (Inr x, k')))"

definition receiveSingle :: "juice_limits \<Rightarrow> 'k kernel \<Rightarrow> nat \<Rightarrow> 'k \<Rightarrow> (receive_answer \<times> 'k) option" where
  "receiveSingle J K fd k =
     (case single_loop K fd k of
        None \<Rightarrow> None
      | Some (Inl e, k) \<Rightarrow> Some (Inl e, k)
      | Some (Inr (payload, source), k) \<Rightarrow>
          if payload = [] then Some (Inr [], k)
          else if source = [] \<or> length source > JUICE_UDP_RECV_ADDRESS_STORAGE_SIZE J then Some (Inl EMSGSIZE, k)
          else Some (Inr [(payload, source)], k))"

definition bad_buffer :: "juice_limits \<Rightarrow> received_buffer \<Rightarrow> bool" where
  "bad_buffer J b \<longleftrightarrow> flag_truncated b \<or> dataSize b > kReceiveDatagramSize \<or> sourceAddressSize b = 0 \<or>
     sourceAddressSize b > JUICE_UDP_RECV_ADDRESS_STORAGE_SIZE J"

definition datagram_of :: "received_buffer \<Rightarrow> datagram" where
  "datagram_of b = (take (dataSize b) (rbuf_payload b), take (sourceAddressSize b) (rbuf_address b))"

definition own_buffer :: receive_buffer_desc where
  "own_buffer = \<lparr>data_null = False, dataCapacity = kReceiveDatagramSize, address_null = False,
     sourceAddressCapacity = kSockaddrStorageSize\<rparr>"

definition receiveMessages ::
  "juice_limits \<Rightarrow> 'k kernel \<Rightarrow> nat \<Rightarrow> nat \<Rightarrow> backend \<Rightarrow> 'k \<Rightarrow> (receive_answer \<times> backend \<times> 'k) option" where
  "receiveMessages J K fd capacity b k =
     (let messageCapacity = min capacity (min (JUICE_UDP_RECV_BATCH_CAPACITY J) MaxBatchSize) in
      case batch_loop K fd (replicate messageCapacity own_buffer) k of
        None \<Rightarrow> None
      | Some (Inl e, k) \<Rightarrow>
          if e = EAGAIN \<or> e = EWOULDBLOCK then Some (Inr [], b, k)
          else if e = ENOSYS \<or> e = EOPNOTSUPP then
            (case receiveSingle J K fd k of
               None \<Rightarrow> None
             | Some (r, k) \<Rightarrow> Some (r, b\<lparr>receiveBatchingEnabled := False\<rparr>, k))
          else Some (Inl e, b, k)
      | Some (Inr bs, k) \<Rightarrow>
          if list_ex (bad_buffer J) bs then Some (Inl EMSGSIZE, b, k)
          else Some (Inr (map datagram_of bs), b, k))"

definition receiveBatch ::
  "juice_limits \<Rightarrow> 'k kernel \<Rightarrow> nat \<Rightarrow> nat \<Rightarrow> backend \<Rightarrow> 'k \<Rightarrow> (receive_answer \<times> backend \<times> 'k) option" where
  "receiveBatch J K fd capacity b k =
     (if receiveBatchingEnabled b then receiveMessages J K fd capacity b k
      else (case receiveSingle J K fd k of None \<Rightarrow> None | Some (r, k) \<Rightarrow> Some (r, b, k)))"

text \<open>\<open>receiveFFLP2PDatapathBatch\<close> with an error pointer that is not null.\<close>

definition receiveFFLP2PDatapathBatch ::
  "juice_limits \<Rightarrow> 'k kernel \<Rightarrow> nat \<Rightarrow> bool \<Rightarrow> nat \<Rightarrow> backend option \<Rightarrow> 'k \<Rightarrow> (receive_answer \<times> backend option \<times> 'k) option" where
  "receiveFFLP2PDatapathBatch J K fd datagrams_null capacity user k =
     (case user of
        None \<Rightarrow> Some (Inl EINVAL, user, k)
      | Some b \<Rightarrow>
          if datagrams_null \<or> capacity = 0 then Some (Inl EINVAL, user, k)
          else (case receiveBatch J K fd capacity b k of
              None \<Rightarrow> None
            | Some (r, b, k) \<Rightarrow> Some (r, Some b, k)))"

text \<open>\<open>createFFLP2PDatapath\<close>: \<open>alloc\<close> and \<open>built\<close> say whether the two allocations succeed.\<close>

definition createFFLP2PDatapath ::
  "'k kernel \<Rightarrow> bool \<Rightarrow> bool \<Rightarrow> (string \<Rightarrow> string option) \<Rightarrow> 'k \<Rightarrow> backend option \<times> 'k" where
  "createFFLP2PDatapath K alloc built env k =
     (if \<not> alloc then (None, k)
      else
        let options = \<lparr>disableSendSegmentation = isSendSegmentationDisabled env,
          disableReceiveBatching = isReceiveBatchingDisabled env,
          disableReceiveCoalescing = isReceiveCoalescingDisabled env\<rparr>
        in if \<not> built then (None, k)
        else (case backend_new K options k of (b, k) \<Rightarrow> (Some b, k)))"

section \<open>Sending: the contract\<close>

text \<open>C39. An aggregate is handed to the kernel only whole and within what one call may carry (segments
  of at most 65535 bytes, at most 64 of them, an address that fits); \<open>Handled\<close> means all of it has
  been sent, and in every other case nothing is reported as sent. A kernel that cannot segment is
  not asked again: the aggregate is left to libjuice, then and ever after.\<close>

theorem sendAggregate_contract:
  assumes run: "sendAggregate K fd destination data segmentSize b k = ((r, sent, e), b', k')" and pos: "0 < segmentSize"
  shows "(k' = k \<and> b' = b \<and> r = NotHandled \<or>
      (\<exists>answer. k_sendmsg K fd destination data (of_nat segmentSize) k = (answer, k') \<and>
        unat (of_nat segmentSize :: u16) = segmentSize \<and> length data \<le> 64 * segmentSize \<and>
        segmentSize < length data \<and> length destination \<le> 128 \<and> sendSegmentationEnabled b \<and>
        (r = Handled \<longleftrightarrow> answer = Inr (length data)) \<and>
        (r = NotHandled \<longleftrightarrow> (\<exists>x. answer = Inl x \<and> isSegmentationCapabilityError x)) \<and>
        sendSegmentationEnabled b' = (r \<noteq> NotHandled))) \<and>
    sent = (if r = Handled then length data else 0) \<and>
    (\<not> sendSegmentationEnabled b \<longrightarrow> r = NotHandled \<and> k' = k \<and> b' = b)"
proof (cases "\<not> sendSegmentationEnabled b \<or> length data \<le> segmentSize \<or> segmentSize > 65535 \<or>
    (length data + segmentSize - 1) div segmentSize > kMaxGSOSegments \<or> length destination > kSockaddrStorageSize")
  case True
  then show ?thesis using run by (auto simp: sendAggregate_def Let_def split: if_splits)
next
  case False
  define n where "n = length data"
  have count: "(n + segmentSize - 1) div segmentSize \<le> 64" using False by (simp add: n_def kMaxGSOSegments_def)
  have "n \<le> 64 * segmentSize"
  proof -
    have "n + segmentSize - 1 < (64 + 1) * segmentSize"
      using count pos by (metis div_less_iff_less_mult le_imp_less_Suc Suc_eq_plus1)
    then show ?thesis using pos by simp
  qed
  moreover have "unat (of_nat segmentSize :: u16) = segmentSize" using False by (simp add: unat_of_nat)
  moreover obtain answer k1 where "k_sendmsg K fd destination data (of_nat segmentSize) k = (answer, k1)" by fastforce
  ultimately show ?thesis
    using run False by (cases answer) (auto simp: sendAggregate_def Let_def n_def kSockaddrStorageSize_def split: if_splits)
qed


text \<open>Concrete kernels: one that cannot segment, has two messages waiting and reports one ignored
  error before them. The state counts the errors still to come and the sockets that are open.\<close>

definition demo_message :: "bytes \<Rightarrow> bool \<Rightarrow> kernel_message" where
  "demo_message d trunc = \<lparr>km_payload = d, km_length = length d, km_address = [9], km_address_length = 1, km_truncated = trunc\<rparr>"

definition demo_kernel :: "bool \<Rightarrow> (nat \<times> nat) kernel" where
  "demo_kernel trunc = \<lparr>k_isLinux = True, k_socket = (\<lambda>(n, s). (Some s, (n, s + 1))), k_close = (\<lambda>h (n, s). (n, s - 1)),
     k_bind_loopback = (\<lambda>h k. (True, k)), k_getsockname = (\<lambda>h k. (Some [1], k)),
     k_sendmsg = (\<lambda>h a d g k. (Inl ENOPROTOOPT, k)),
     k_recvmmsg = (\<lambda>h bufs (n, s). if n > 0 then (Inl ECONNREFUSED, (n - 1, s))
       else (Inr (take (length bufs) [demo_message [1, 2] False, demo_message [3] trunc]), (n, s))),
     k_recvfrom = (\<lambda>h c (n, s). if n > 0 then (Inl ECONNREFUSED, (n - 1, s)) else (Inl EAGAIN, (n, s)))\<rparr>"

definition demo_limits :: juice_limits where
  "demo_limits = \<lparr>JUICE_UDP_RECV_BATCH_CAPACITY = 64, JUICE_UDP_RECV_ADDRESS_STORAGE_SIZE = 128\<rparr>"

definition demo_backend :: backend where
  "demo_backend = \<lparr>sendSegmentationDisabled = False, receiveBatchingDisabled = False,
     sendSegmentationEnabled = True, receiveBatchingEnabled = True\<rparr>"

theorem sendAggregate_contract_witness:
  "fst (sendAggregate (demo_kernel False) 4 [9] [1, 2, 3] 2 demo_backend (0, 0)) = (NotHandled, 0, E_NONE) \<and>
   \<not> sendSegmentationEnabled (fst (snd (sendAggregate (demo_kernel False) 4 [9] [1, 2, 3] 2 demo_backend (0, 0))))"
proof -
  have run: "sendAggregate (demo_kernel False) 4 [9] [1, 2, 3] 2 demo_backend (0, 0) =
      ((NotHandled, 0, E_NONE), demo_backend\<lparr>sendSegmentationEnabled := False\<rparr>, (0, 0))"
    by (simp add: sendAggregate_def demo_kernel_def demo_backend_def isSegmentationCapabilityError_def kMaxGSOSegments_def
        kSockaddrStorageSize_def)
  show ?thesis using sendAggregate_contract [OF run] run by auto
qed

section \<open>Probing\<close>

text \<open>\<open>live\<close> counts the open sockets.\<close>

definition socket_contract :: "'k kernel \<Rightarrow> ('k \<Rightarrow> nat) \<Rightarrow> bool" where
  "socket_contract K live \<longleftrightarrow>
     (\<forall>k. live (snd (k_socket K k)) = live k + (if fst (k_socket K k) = None then 0 else 1)) \<and>
     (\<forall>h k. live (k_close K h k) = live k - 1) \<and>
     (\<forall>h k. live (snd (k_bind_loopback K h k)) = live k) \<and> (\<forall>h k. live (snd (k_getsockname K h k)) = live k) \<and>
     (\<forall>h a d g k. live (snd (k_sendmsg K h a d g k)) = live k)"

lemma probe_send_live:
  assumes "socket_contract K live" and "probe_send K a b k = (r, k')"
  shows "live k' = live k"
proof -
  obtain r1 k1 where 1: "k_bind_loopback K b k = (r1, k1)" by fastforce
  obtain r2 k2 where 2: "k_getsockname K b k1 = (r2, k2)" by fastforce
  have l1: "live k1 = live k" and l2: "live k2 = live k1"
    using assms(1) 1 2 unfolding socket_contract_def by (metis snd_conv)+
  show ?thesis
  proof (cases r2)
    case None
    then show ?thesis using assms(2) 1 2 l1 l2 by (auto simp: probe_send_def split: if_splits)
  next
    case (Some addr)
    obtain r3 k3 where 3: "k_sendmsg K a addr (replicate (kProbeSegmentSize * kProbeSegmentCount) 0) (of_nat kProbeSegmentSize) k2 = (r3, k3)"
      by fastforce
    have "live k3 = live k2" using assms(1) 3 unfolding socket_contract_def by (metis snd_conv)
    then show ?thesis using assms(2) 1 2 3 l1 l2 Some
      by (auto simp: probe_send_def Let_def split: if_splits sum.splits)
  qed
qed

text \<open>Creating a backend opens sockets only to probe the kernel and closes them on every path; what it
  enables has been found supported and not been disabled by the configuration.\<close>

theorem backend_new_sockets:
  assumes contract: "socket_contract K live" and run: "backend_new K options k = (b, k')"
  shows "live k' = live k \<and> (sendSegmentationEnabled b \<longrightarrow> k_isLinux K \<and> \<not> disableSendSegmentation options) \<and>
    (receiveBatchingEnabled b \<longleftrightarrow> k_isLinux K \<and> \<not> disableReceiveBatching options)"
proof -
  obtain s1 k1 where 1: "k_socket K k = (s1, k1)" by fastforce
  obtain s2 k2 where 2: "k_socket K k1 = (s2, k2)" by fastforce
  obtain ok k3 where 3: "(case (s1, s2) of (Some a, Some b) \<Rightarrow> probe_send K a b k2 | _ \<Rightarrow> (False, k2)) = (ok, k3)" by fastforce
  have l1: "live k1 = live k + (if s1 = None then 0 else 1)" using contract 1 unfolding socket_contract_def by (metis fst_conv snd_conv)
  have l2: "live k2 = live k1 + (if s2 = None then 0 else 1)" using contract 2 unfolding socket_contract_def by (metis fst_conv snd_conv)
  have l3: "live k3 = live k2" using 3 probe_send_live [OF contract] by (auto split: option.splits)
  have close: "live (k_close K h q) = live q - 1" for h q using contract by (simp add: socket_contract_def)
  have "live (scoped_close K s1 (scoped_close K s2 k3)) = live k"
    using l1 l2 l3 close by (auto simp: scoped_close_def split: option.splits)
  then show ?thesis
    using run 1 2 3 by (auto simp: backend_new_def probeSendSegmentation_def receiver_isSupported_def split: if_splits prod.splits)
qed

theorem backend_new_sockets_witness:
  "snd (snd (backend_new (demo_kernel False) \<lparr>disableSendSegmentation = False, disableReceiveBatching = True,
      disableReceiveCoalescing = False\<rparr> (0, 5))) = 5"
proof -
  have "socket_contract (demo_kernel False) snd" by (auto simp: socket_contract_def demo_kernel_def)
  from backend_new_sockets [OF this surjective_pairing] show ?thesis by simp
qed

section \<open>Receiving: the contract\<close>

text \<open>\<open>recvmmsg\<close> fills at most the buffers it is given and \<open>recvfrom\<close> at most its buffer; an ignored error
  has been taken off the socket.\<close>

definition receive_contract :: "'k kernel \<Rightarrow> ('k \<Rightarrow> nat) \<Rightarrow> bool" where
  "receive_contract K pending \<longleftrightarrow>
     (\<forall>fd caps k ms. fst (k_recvmmsg K fd caps k) = Inr ms \<longrightarrow> length ms \<le> length caps) \<and>
     (\<forall>fd caps k e. fst (k_recvmmsg K fd caps k) = Inl e \<longrightarrow> isIgnoredUDPError e \<longrightarrow> pending (snd (k_recvmmsg K fd caps k)) < pending k) \<and>
     (\<forall>fd c k e. fst (k_recvfrom K fd c k) = Inl e \<longrightarrow> isIgnoredUDPError e \<longrightarrow> pending (snd (k_recvfrom K fd c k)) < pending k) \<and>
     (\<forall>fd c k d a. fst (k_recvfrom K fd c k) = Inr (d, a) \<longrightarrow> length d \<le> c)"

lemma single_loop_total: "receive_contract K pending \<Longrightarrow> \<exists>r k'. single_loop K fd k = Some (r, k') \<and>
     (\<forall>e. r = Inl e \<longrightarrow> \<not> isIgnoredUDPError e) \<and> (\<forall>d a. r = Inr (d, a) \<longrightarrow> length d \<le> kReceiveDatagramSize)"
proof (induction "pending k" arbitrary: k rule: less_induct)
  case less
  obtain r k' where call: "k_recvfrom K fd kReceiveDatagramSize k = (r, k')" by fastforce
  show ?case
  proof (cases "\<exists>e. r = Inl e \<and> isIgnoredUDPError e")
    case True
    then have "pending k' < pending k" using less.prems call unfolding receive_contract_def by (metis fst_conv snd_conv)
    from less.hyps [OF this less.prems] True call show ?thesis by (subst single_loop.simps) auto
  next
    case False
    moreover have "r = Inr (d, a) \<Longrightarrow> length d \<le> kReceiveDatagramSize" for d a
      using less.prems call unfolding receive_contract_def by (metis fst_conv)
    ultimately show ?thesis using call by (subst single_loop.simps) (auto split: sum.split)
  qed
qed

lemma batch_loop_total: "receive_contract K pending \<Longrightarrow>
   \<exists>r k'. batch_loop K fd bufs k = Some (r, k') \<and> (\<forall>e. r = Inl e \<longrightarrow> \<not> isIgnoredUDPError e) \<and>
     (\<forall>bs. r = Inr bs \<longrightarrow> length bs \<le> length bufs)"
proof (induction "pending k" arbitrary: k rule: less_induct)
  case less
  obtain r k' where call: "receiver_receive K fd bufs k = (r, k')" by fastforce
  have pend: "r = Inl e \<Longrightarrow> isIgnoredUDPError e \<Longrightarrow> pending k' < pending k" for e
    using call less.prems unfolding receiver_receive_def receive_contract_def
    by (auto simp: isIgnoredUDPError_def split: if_splits prod.splits sum.splits) (metis fst_conv snd_conv)+
  have len: "r = Inr bs \<Longrightarrow> length bs \<le> length bufs" for bs
    using call less.prems unfolding receiver_receive_def receive_contract_def
    by (auto split: if_splits prod.splits sum.splits) (metis fst_conv length_map)
  show ?case
  proof (cases "\<exists>e. r = Inl e \<and> isIgnoredUDPError e")
    case True
    then have "pending k' < pending k" using pend by blast
    from less.hyps [OF this less.prems] True call show ?thesis by (subst batch_loop.simps) auto
  next
    case False
    then show ?thesis using call len by (subst batch_loop.simps) (auto split: sum.split)
  qed
qed


definition deliverable :: "juice_limits \<Rightarrow> nat \<Rightarrow> receive_answer \<Rightarrow> bool" where
  "deliverable J capacity r \<longleftrightarrow>
     (\<forall>e. r = Inl e \<longrightarrow> \<not> isIgnoredUDPError e) \<and>
     (\<forall>ds. r = Inr ds \<longrightarrow> length ds \<le> capacity \<and>
        (\<forall>(d, a) \<in> set ds. length d \<le> kReceiveDatagramSize \<and> length a \<le> JUICE_UDP_RECV_ADDRESS_STORAGE_SIZE J))"

lemma receiveSingle_total:
  assumes "receive_contract K pending" and "0 < capacity"
  shows "\<exists>r k'. receiveSingle J K fd k = Some (r, k') \<and> deliverable J capacity r"
proof -
  obtain r k' where loop: "single_loop K fd k = Some (r, k')" and i: "\<forall>e. r = Inl e \<longrightarrow> \<not> isIgnoredUDPError e"
    and l: "\<forall>d a. r = Inr (d, a) \<longrightarrow> length d \<le> kReceiveDatagramSize"
    using single_loop_total [OF assms(1)] by blast
  show ?thesis
  proof (cases r)
    case (Inl e)
    then show ?thesis using loop i by (simp add: receiveSingle_def deliverable_def)
  next
    case (Inr p)
    then show ?thesis using loop l assms(2)
      by (cases p) (auto simp: receiveSingle_def deliverable_def isIgnoredUDPError_def)
  qed
qed

lemma datagrams_fit:
  "\<not> list_ex (bad_buffer J) bs \<Longrightarrow> \<forall>(d, a) \<in> set (map datagram_of bs). length d \<le> kReceiveDatagramSize \<and>
     length a \<le> JUICE_UDP_RECV_ADDRESS_STORAGE_SIZE J"
  by (auto simp: list_ex_iff bad_buffer_def datagram_of_def)


lemma demo_kernel_contract: "receive_contract (demo_kernel trunc) fst"
  by (auto simp: receive_contract_def demo_kernel_def isIgnoredUDPError_def split: if_splits)


text \<open>One truncated datagram discards the whole batch, also the complete datagrams before it.\<close>

lemma truncated_discards_batch:
  assumes "batch_loop K fd (replicate (min capacity (min (JUICE_UDP_RECV_BATCH_CAPACITY J) MaxBatchSize)) own_buffer) k = Some (Inr bs, k')"
    and "x \<in> set bs" and "flag_truncated x" and "receiveBatchingEnabled b"
  shows "receiveBatch J K fd capacity b k = Some (Inl EMSGSIZE, b, k')"
  using assms by (auto simp: receiveBatch_def receiveMessages_def bad_buffer_def list_ex_iff)

end
