(* ===== verification/Segments.thy ===== *)
theory Segments
  imports Prelude
begin

text \<open>
  A buffer that stands for several datagrams: all of one size, the last one may be shorter. This is how
  an aggregate is handed to libjuice and how a coalesced buffer comes from the operating system.
\<close>

function segments :: "nat \<Rightarrow> 'a list \<Rightarrow> 'a list list" where
  "segments n xs = (if xs = [] \<or> n = 0 then [] else take n xs # segments n (drop n xs))"
  by pat_completeness auto
termination by (relation "measure (\<lambda>(n, xs). length xs)") auto

declare segments.simps [simp del]

lemma segments_Nil [simp]: "segments n [] = []" "segments 0 xs = []"
  by (subst segments.simps, simp)+

lemma segments_Cons: "xs \<noteq> [] \<Longrightarrow> 0 < n \<Longrightarrow> segments n xs = take n xs # segments n (drop n xs)"
  by (subst segments.simps) simp

lemma segments_concat: "0 < n \<Longrightarrow> concat (segments n xs) = xs"
  by (induction n xs rule: segments.induct) (subst segments.simps, auto)

lemma segments_length: "seg \<in> set (segments n xs) \<Longrightarrow> 0 < length seg \<and> length seg \<le> n"
proof (induction n xs rule: segments.induct)
  case (1 n xs)
  show ?case
  proof (cases "xs = [] \<or> n = 0")
    case True
    then show ?thesis using 1(2) by (subst (asm) segments.simps) simp
  next
    case False
    then show ?thesis using 1 by (subst (asm) (2) segments.simps) (auto simp: not_le)
  qed
qed

lemma segments_eq_Nil: "0 < n \<Longrightarrow> segments n xs = [] \<longleftrightarrow> xs = []"
  by (cases "xs = []") (simp_all add: segments_Cons)

lemma segments_short: "xs \<noteq> [] \<Longrightarrow> length xs \<le> n \<Longrightarrow> segments n xs = [xs]"
  by (cases n) (simp_all add: segments_Cons)

lemma segments_min: "segments (min n (length xs)) xs = segments n xs"
proof (cases "xs = [] \<or> n \<le> length xs")
  case False
  then have "segments n xs = [xs]" and "segments (length xs) xs = [xs]" by (simp_all add: segments_short)
  then show ?thesis using False by (simp add: min_def)
qed (auto simp: min_def)

text \<open>A prefix of whole segments, or all of them, splits the list of segments.\<close>

lemma segments_split:
  assumes "n dvd k \<or> length xs \<le> k"
  shows "segments n xs = segments n (take k xs) @ segments n (drop k xs)"
proof (cases "n = 0 \<or> length xs \<le> k")
  case True
  then show ?thesis by auto
next
  case False
  then obtain m where "k = n * m" using assms by auto
  then show ?thesis using False
  proof (induction m arbitrary: k xs)
    case (Suc m)
    then have "xs \<noteq> []" and "n * m < length (drop n xs)" by auto
    then have "segments n (drop n xs) = segments n (take (n * m) (drop n xs)) @ segments n (drop (n * m) (drop n xs))"
      using Suc.IH [of "n * m" "drop n xs"] Suc.prems by simp
    moreover have "take k xs \<noteq> []" "take n (take k xs) = take n xs" "drop n (take k xs) = take (n * m) (drop n xs)"
      "drop k xs = drop (n * m) (drop n xs)"
      using Suc.prems \<open>xs \<noteq> []\<close> by (auto simp: min_def drop_take add.commute)
    moreover have "segments n xs = take n xs # segments n (drop n xs)"
      and "segments n (take k xs) = take n (take k xs) # segments n (drop n (take k xs))"
      using Suc.prems \<open>xs \<noteq> []\<close> calculation(2) by (intro segments_Cons; simp)+
    ultimately show ?case by simp
  qed simp
qed

end
