(* ===== verification/Datapath_Windows.thy ===== *)
theory Datapath_Windows
  imports Segments
begin

text \<open>
  The Windows backend of the datapath (\<open>native/datapath/DatapathWindows.cpp\<close>). With receive coalescing
  the kernel hands over several datagrams of one sender in one buffer and says how long each is; the
  backend splits them, keeping for the next call what the caller has no room for. The socket calls
  are the parameter \<open>winsock\<close> over an opaque state.
\<close>

section \<open>Winsock\<close>

datatype winsock_error =
    WSAECONNRESET | WSAENETRESET | WSAECONNREFUSED | WSAEMSGSIZE | WSAError int

text \<open>A control message: whether it is a \<open>UDP_COALESCED_INFO\<close> long enough to hold its value.\<close>

record control_message =
  cm_coalesced_info :: bool
  cm_value :: nat

record win_message =
  wm_payload :: bytes
  wm_source :: bytes
  wm_control :: "control_message list"

record 'k winsock =
  ws_get_recvmsg :: "nat \<Rightarrow> 'k \<Rightarrow> bool \<times> 'k"
  ws_get_coalesced_size :: "nat \<Rightarrow> 'k \<Rightarrow> bool \<times> 'k"
  ws_set_receive_buffer :: "nat \<Rightarrow> 'k \<Rightarrow> 'k"
  ws_set_coalesced_size :: "nat \<Rightarrow> nat \<Rightarrow> 'k \<Rightarrow> bool \<times> 'k"
  ws_recvfrom :: "nat \<Rightarrow> nat \<Rightarrow> 'k \<Rightarrow> (winsock_error + bytes \<times> bytes) \<times> 'k"
  ws_recvmsg :: "nat \<Rightarrow> nat \<Rightarrow> 'k \<Rightarrow> (winsock_error + win_message) \<times> 'k"

section \<open>The backend\<close>

definition kReceiveBufferSize :: nat where "kReceiveBufferSize = 65535"
definition kMaxUROPayloadLength :: nat where "kMaxUROPayloadLength = 65535 - 8"

record win_backend =
  receiveBuffer :: bytes
  pendingAddress :: bytes
  pendingAddressSize :: nat
  pendingOffset :: nat
  pendingBytes :: nat
  pendingSegmentSize :: nat
  activeSocket :: nat
  receiveMsg :: bool
  receiveCoalescingDisabled :: bool
  coalescingSupported :: bool
  coalescingEnabled :: bool
  win_initialized :: bool

type_synonym win_datagram = "bytes \<times> bytes"

definition win_isIgnoredUDPError :: "winsock_error \<Rightarrow> bool" where
  "win_isIgnoredUDPError e \<longleftrightarrow> e = WSAECONNRESET \<or> e = WSAENETRESET \<or> e = WSAECONNREFUSED"

text \<open>\<open>sendAggregate\<close> leaves every aggregate to libjuice.\<close>

definition win_sendAggregate :: "win_backend \<Rightarrow> bool \<times> win_backend" where
  "win_sendAggregate s = (False, s)"

text \<open>The loop of \<open>emitPending\<close>, with the number of datagrams there is still room for.\<close>

fun emit_loop :: "nat \<Rightarrow> win_backend \<Rightarrow> win_datagram list \<times> win_backend" where
  "emit_loop 0 s = ([], s)"
| "emit_loop (Suc room) s =
     (if pendingBytes s = 0 then ([], s)
      else
        let segmentSize = min (pendingSegmentSize s) (pendingBytes s);
            datagram = (take segmentSize (drop (pendingOffset s) (receiveBuffer s)),
                        take (pendingAddressSize s) (pendingAddress s));
            (ds, s') = emit_loop room (s\<lparr>pendingOffset := pendingOffset s + segmentSize,
                                          pendingBytes := pendingBytes s - segmentSize\<rparr>)
        in (datagram # ds, s'))"

definition emitPending :: "nat \<Rightarrow> win_backend \<Rightarrow> win_datagram list \<times> win_backend" where
  "emitPending capacity s =
     (if pendingBytes s = 0 \<or> pendingSegmentSize s = 0 then ([], s)
      else (case emit_loop capacity s of (ds, s) \<Rightarrow>
        (ds, if pendingBytes s = 0
             then s\<lparr>pendingOffset := 0, pendingSegmentSize := 0, pendingAddressSize := 0\<rparr> else s)))"

text \<open>A copy to the start of a buffer leaves what is behind it.\<close>

definition overwrite :: "bytes \<Rightarrow> bytes \<Rightarrow> bytes" where
  "overwrite buffer data = data @ drop (length data) buffer"

definition initializeSocket :: "'k winsock \<Rightarrow> nat \<Rightarrow> win_backend \<Rightarrow> 'k \<Rightarrow> win_backend \<times> 'k" where
  "initializeSocket W socket s k =
     (if win_initialized s \<and> activeSocket s = socket then (s, k)
      else
        let s = s\<lparr>activeSocket := socket, win_initialized := True, receiveMsg := False, pendingBytes := 0,
                  coalescingSupported := False, coalescingEnabled := False\<rparr>
        in (case ws_get_recvmsg W socket k of (found, k) \<Rightarrow>
          if \<not> found then (s, k)
          else let s = s\<lparr>receiveMsg := True\<rparr> in
            (case ws_get_coalesced_size W socket k of (known, k) \<Rightarrow>
              if \<not> known then (s, k)
              else let s = s\<lparr>coalescingSupported := True\<rparr>; k = ws_set_receive_buffer W socket k in
                if receiveCoalescingDisabled s then (s, k)
                else (case ws_set_coalesced_size W socket kMaxUROPayloadLength k of (done, k) \<Rightarrow>
                  (s\<lparr>coalescingEnabled := done\<rparr>, k)))))"

text \<open>Both receive paths repeat their call while it reports an ignored error, possibly forever.\<close>

partial_function (option) win_retry :: "('k \<Rightarrow> (winsock_error + 'a) \<times> 'k) \<Rightarrow> 'k \<Rightarrow> ((winsock_error + 'a) \<times> 'k) option" where
  "win_retry recv k =
     (case recv k of (r, k') \<Rightarrow>
        (case r of
           Inl e \<Rightarrow> if win_isIgnoredUDPError e then win_retry recv k' else Some (Inl e, k')
         | Inr x \<Rightarrow> Some (Inr x, k')))"

text \<open>The answers: an error or the datagrams. \<open>limit\<close> is libjuice's address storage.\<close>

type_synonym win_answer = "winsock_error + win_datagram list"

definition win_receiveSingle ::
  "nat \<Rightarrow> 'k winsock \<Rightarrow> nat \<Rightarrow> win_backend \<Rightarrow> 'k \<Rightarrow> (win_answer \<times> win_backend \<times> 'k) option" where
  "win_receiveSingle limit W socket s k =
     (case win_retry (ws_recvfrom W socket kReceiveBufferSize) k of
        None \<Rightarrow> None
      | Some (Inl e, k) \<Rightarrow> Some (Inl e, s, k)
      | Some (Inr (payload, source), k) \<Rightarrow>
          let s = s\<lparr>receiveBuffer := overwrite (receiveBuffer s) payload\<rparr> in
          if payload = [] then Some (Inr [], s, k)
          else if source = [] \<or> length source > limit then Some (Inl WSAEMSGSIZE, s, k)
          else Some (Inr [(take (length payload) (receiveBuffer s), source)], s, k))"

text \<open>The loop over the control messages: the last valid size counts.\<close>

definition segment_size :: "win_message \<Rightarrow> nat" where
  "segment_size m = foldl (\<lambda>size c. if cm_coalesced_info c \<and> cm_value c > 0 \<and> cm_value c \<le> length (wm_payload m)
     then cm_value c else size) (length (wm_payload m)) (wm_control m)"

definition receiveCoalesced ::
  "nat \<Rightarrow> 'k winsock \<Rightarrow> nat \<Rightarrow> nat \<Rightarrow> win_backend \<Rightarrow> 'k \<Rightarrow> (win_answer \<times> win_backend \<times> 'k) option" where
  "receiveCoalesced limit W socket capacity s k =
     (case win_retry (ws_recvmsg W socket kReceiveBufferSize) k of
        None \<Rightarrow> None
      | Some (Inl e, k) \<Rightarrow> Some (Inl e, s, k)
      | Some (Inr m, k) \<Rightarrow>
          let s = s\<lparr>receiveBuffer := overwrite (receiveBuffer s) (wm_payload m)\<rparr> in
          if wm_payload m = [] then Some (Inr [], s, k)
          else if wm_source m = [] \<or> length (wm_source m) > limit then Some (Inl WSAEMSGSIZE, s, k)
          else
            let s = s\<lparr>pendingAddress := overwrite (pendingAddress s) (wm_source m), pendingAddressSize := length (wm_source m), pendingOffset := 0,
                      pendingBytes := length (wm_payload m), pendingSegmentSize := segment_size m\<rparr>
            in (case emitPending capacity s of (ds, s) \<Rightarrow> Some (Inr ds, s, k)))"

definition win_receiveBatch ::
  "nat \<Rightarrow> 'k winsock \<Rightarrow> nat \<Rightarrow> nat \<Rightarrow> win_backend \<Rightarrow> 'k \<Rightarrow> (win_answer \<times> win_backend \<times> 'k) option" where
  "win_receiveBatch limit W socket capacity s k =
     (case initializeSocket W socket s k of (s, k) \<Rightarrow>
       (case emitPending capacity s of (pending, s) \<Rightarrow>
          if pending \<noteq> [] then Some (Inr pending, s, k)
          else if \<not> receiveMsg s \<or> \<not> coalescingEnabled s then win_receiveSingle limit W socket s k
          else receiveCoalesced limit W socket capacity s k))"

section \<open>The buffer as a queue of datagrams\<close>

text \<open>The reference is \<open>segments\<close>: cut into pieces of a given size, the last one may be shorter.\<close>

definition pending_bytes :: "win_backend \<Rightarrow> bytes" where
  "pending_bytes s = take (pendingBytes s) (drop (pendingOffset s) (receiveBuffer s))"

definition pending_datagrams :: "win_backend \<Rightarrow> win_datagram list" where
  "pending_datagrams s =
     map (\<lambda>d. (d, take (pendingAddressSize s) (pendingAddress s))) (segments (pendingSegmentSize s) (pending_bytes s))"

definition win_inv :: "win_backend \<Rightarrow> bool" where
  "win_inv s \<longleftrightarrow> pendingOffset s + pendingBytes s \<le> length (receiveBuffer s) \<and> (0 < pendingBytes s \<longrightarrow> 0 < pendingSegmentSize s)"

lemma pending_bytes_length: "win_inv s \<Longrightarrow> length (pending_bytes s) = pendingBytes s"
  by (auto simp: pending_bytes_def win_inv_def min_def)

lemma pending_datagrams_empty: "win_inv s \<Longrightarrow> pending_datagrams s = [] \<longleftrightarrow> pendingBytes s = 0"
  using pending_bytes_length [of s] by (cases "pendingBytes s = 0") (auto simp: pending_datagrams_def segments.simps win_inv_def)

lemma pending_datagrams_step:
  assumes inv: "win_inv s" and some: "0 < pendingBytes s"
  defines "n \<equiv> min (pendingSegmentSize s) (pendingBytes s)"
  defines "s' \<equiv> s\<lparr>pendingOffset := pendingOffset s + n, pendingBytes := pendingBytes s - n\<rparr>"
  shows "pending_datagrams s = (take n (drop (pendingOffset s) (receiveBuffer s)), take (pendingAddressSize s) (pendingAddress s))
      # pending_datagrams s' \<and> win_inv s'"
proof -
  let ?g = "pendingSegmentSize s"
  have g: "0 < ?g" using inv some by (simp add: win_inv_def)
  have ne: "pending_bytes s \<noteq> []" using pending_bytes_length [OF inv] some by auto
  have head: "take ?g (pending_bytes s) = take n (drop (pendingOffset s) (receiveBuffer s))"
    by (simp add: pending_bytes_def n_def)
  have rest: "drop ?g (pending_bytes s) = pending_bytes s'"
    by (cases "?g \<le> pendingBytes s")
      (simp_all add: pending_bytes_def s'_def n_def drop_take min_def add.commute)
  have "segments ?g (pending_bytes s) = take ?g (pending_bytes s) # segments ?g (drop ?g (pending_bytes s))"
    using ne g by (subst segments.simps) simp
  then have "pending_datagrams s = (take n (drop (pendingOffset s) (receiveBuffer s)), take (pendingAddressSize s) (pendingAddress s))
      # pending_datagrams s'"
    unfolding pending_datagrams_def head rest by (simp add: s'_def)
  moreover have "win_inv s'" using inv by (auto simp: win_inv_def s'_def n_def)
  ultimately show ?thesis by blast
qed

lemma emit_loop_spec:
  "win_inv s \<Longrightarrow> emit_loop room s = (ds, s') \<Longrightarrow>
     ds = take room (pending_datagrams s) \<and> pending_datagrams s' = drop room (pending_datagrams s) \<and> win_inv s' \<and>
     receiveMsg s' = receiveMsg s \<and> coalescingEnabled s' = coalescingEnabled s \<and> activeSocket s' = activeSocket s \<and>
     win_initialized s' = win_initialized s"
proof (induction room arbitrary: s ds s')
  case 0
  then show ?case by simp
next
  case (Suc room)
  show ?case
  proof (cases "pendingBytes s = 0")
    case True
    then show ?thesis using Suc.prems pending_datagrams_empty [of s] by simp
  next
    case False
    define n where "n = min (pendingSegmentSize s) (pendingBytes s)"
    let ?t = "s\<lparr>pendingOffset := pendingOffset s + n, pendingBytes := pendingBytes s - n\<rparr>"
    note step = pending_datagrams_step [OF Suc.prems(1), folded n_def]
    obtain es t where rec: "emit_loop room ?t = (es, t)" by fastforce
    have "ds = (take n (drop (pendingOffset s) (receiveBuffer s)), take (pendingAddressSize s) (pendingAddress s)) # es" and "s' = t"
      using Suc.prems(2) False rec by (simp_all add: Let_def n_def)
    then show ?thesis using Suc.IH [OF _ rec] step False by simp
  qed
qed

lemma emitPending_spec:
  assumes inv: "win_inv s" and run: "emitPending capacity s = (ds, s')"
  shows "ds = take capacity (pending_datagrams s) \<and> pending_datagrams s' = drop capacity (pending_datagrams s) \<and> win_inv s' \<and>
     receiveMsg s' = receiveMsg s \<and> coalescingEnabled s' = coalescingEnabled s \<and> activeSocket s' = activeSocket s \<and>
     win_initialized s' = win_initialized s"
proof (cases "pendingBytes s = 0 \<or> pendingSegmentSize s = 0")
  case True
  then have "pendingBytes s = 0" using inv by (auto simp: win_inv_def)
  then show ?thesis using True run inv pending_datagrams_empty [OF inv] by (simp add: emitPending_def)
next
  case False
  obtain es t where loop: "emit_loop capacity s = (es, t)" by fastforce
  note spec = emit_loop_spec [OF inv loop]
  have eq: "ds = es \<and> s' = (if pendingBytes t = 0 then t\<lparr>pendingOffset := 0, pendingSegmentSize := 0, pendingAddressSize := 0\<rparr> else t)"
    using run False loop by (auto simp: emitPending_def)
  show ?thesis
  proof (cases "pendingBytes t = 0")
    case True
    then have "pending_datagrams t = []" using pending_datagrams_empty spec by blast
    then show ?thesis using spec eq True by (auto simp: pending_datagrams_def win_inv_def pending_bytes_def)
  next
    case False
    then show ?thesis using spec eq by simp
  qed
qed


section \<open>Every datagram once, in order\<close>

text \<open>The fresh backend of \<open>createPlatformDatapathBackend\<close>.\<close>

definition win_backend_new :: "bool \<Rightarrow> win_backend" where
  "win_backend_new disableReceiveCoalescing =
     \<lparr>receiveBuffer = replicate kReceiveBufferSize 0, pendingAddress = [], pendingAddressSize = 0, pendingOffset = 0,
      pendingBytes = 0, pendingSegmentSize = 0, activeSocket = 2 ^ 64 - 1, receiveMsg = False,
      receiveCoalescingDisabled = disableReceiveCoalescing, coalescingSupported = False, coalescingEnabled = False,
      win_initialized = False\<rparr>"

text \<open>A sequence of calls with room for \<open>capacities\<close> datagrams; a call that fails delivers nothing.\<close>

fun win_receive_all ::
  "nat \<Rightarrow> 'k winsock \<Rightarrow> nat \<Rightarrow> nat list \<Rightarrow> win_backend \<Rightarrow> 'k \<Rightarrow> (win_datagram list \<times> win_backend \<times> 'k) option" where
  "win_receive_all limit W socket [] s k = Some ([], s, k)"
| "win_receive_all limit W socket (capacity # capacities) s k =
     (case win_receiveBatch limit W socket capacity s k of
        None \<Rightarrow> None
      | Some (answer, s, k) \<Rightarrow>
          (case win_receive_all limit W socket capacities s k of
             None \<Rightarrow> None
           | Some (ds, s, k) \<Rightarrow> Some ((case answer of Inl _ \<Rightarrow> [] | Inr new \<Rightarrow> new) @ ds, s, k)))"

text \<open>What the network sent: the datagrams a message stands for, when the sender's address fits.\<close>

definition address_fits :: "nat \<Rightarrow> bytes \<Rightarrow> bool" where
  "address_fits limit source \<longleftrightarrow> source \<noteq> [] \<and> length source \<le> limit"

definition message_datagrams :: "nat \<Rightarrow> win_message \<Rightarrow> win_datagram list" where
  "message_datagrams limit m =
     (if address_fits limit (wm_source m)
      then map (\<lambda>d. (d, wm_source m)) (segments (segment_size m) (wm_payload m)) else [])"

definition single_datagrams :: "nat \<Rightarrow> bytes \<times> bytes \<Rightarrow> win_datagram list" where
  "single_datagrams limit x = (if address_fits limit (snd x) \<and> fst x \<noteq> [] then [x] else [])"

text \<open>\<open>log\<close> reads from the kernel's state the datagrams handed over so far.\<close>

definition kernel_log :: "nat \<Rightarrow> 'k winsock \<Rightarrow> nat \<Rightarrow> ('k \<Rightarrow> win_datagram list) \<Rightarrow> bool" where
  "kernel_log limit W socket log \<longleftrightarrow>
     (\<forall>n k. log (snd (ws_recvmsg W socket n k)) =
        log k @ (case fst (ws_recvmsg W socket n k) of Inl _ \<Rightarrow> [] | Inr m \<Rightarrow> message_datagrams limit m)) \<and>
     (\<forall>n k. log (snd (ws_recvfrom W socket n k)) =
        log k @ (case fst (ws_recvfrom W socket n k) of Inl _ \<Rightarrow> [] | Inr x \<Rightarrow> single_datagrams limit x)) \<and>
     (\<forall>k. log (snd (ws_get_recvmsg W socket k)) = log k) \<and>
     (\<forall>k. log (snd (ws_get_coalesced_size W socket k)) = log k) \<and>
     (\<forall>k. log (ws_set_receive_buffer W socket k) = log k) \<and>
     (\<forall>n k. log (snd (ws_set_coalesced_size W socket n k)) = log k)"

lemma segment_size_bounds:
  "wm_payload m \<noteq> [] \<Longrightarrow> 0 < segment_size m \<and> segment_size m \<le> length (wm_payload m)"
proof -
  assume ne: "wm_payload m \<noteq> []"
  have "0 < n \<and> n \<le> L \<Longrightarrow>
    0 < foldl (\<lambda>size c. if cm_coalesced_info c \<and> cm_value c > 0 \<and> cm_value c \<le> L then cm_value c else size) n cs \<and>
    foldl (\<lambda>size c. if cm_coalesced_info c \<and> cm_value c > 0 \<and> cm_value c \<le> L then cm_value c else size) n cs \<le> L" for n L cs
    by (induction cs arbitrary: n) auto
  then show ?thesis using ne unfolding segment_size_def by blast
qed

text \<open>Splitting loses no byte and makes no piece longer than announced.\<close>

lemma message_datagrams_sound:
  assumes "address_fits limit (wm_source m)"
  shows "concat (map fst (message_datagrams limit m)) = wm_payload m" and
    "\<forall>d \<in> set (message_datagrams limit m). 0 < length (fst d) \<and> length (fst d) \<le> segment_size m \<and> snd d = wm_source m"
proof -
  show "concat (map fst (message_datagrams limit m)) = wm_payload m"
    using segment_size_bounds [of m] assms segments_concat [of "segment_size m" "wm_payload m"]
    by (cases "wm_payload m = []") (auto simp: message_datagrams_def comp_def)
  show "\<forall>d \<in> set (message_datagrams limit m). 0 < length (fst d) \<and> length (fst d) \<le> segment_size m \<and> snd d = wm_source m"
    using assms segments_length by (fastforce simp: message_datagrams_def)
qed

lemma win_retry_log:
  assumes log: "\<And>k. log (snd (recv k)) = log k @ (case fst (recv k) of Inl _ \<Rightarrow> [] | Inr m \<Rightarrow> new m)"
  shows "win_retry recv k = Some x \<Longrightarrow> log (snd x) = log k @ (case fst x of Inl _ \<Rightarrow> [] | Inr m \<Rightarrow> new m)"
proof -
  have "recv = recv' \<longrightarrow> log (snd x) = log k @ (case fst x of Inl _ \<Rightarrow> [] | Inr m \<Rightarrow> new m)"
    if "win_retry recv' k = Some x" for recv'
  proof (rule win_retry.raw_induct [OF _ that])
    fix loop recv' k x
    assume 1: "\<And>recv' k x. loop recv' k = Some x \<Longrightarrow>
        recv = recv' \<longrightarrow> log (snd x) = log k @ (case fst x of Inl _ \<Rightarrow> [] | Inr m \<Rightarrow> new m)"
      "(case recv' k of (r, k') \<Rightarrow> (case r of
          Inl e \<Rightarrow> if win_isIgnoredUDPError e then loop recv' k' else Some (Inl e, k')
        | Inr x \<Rightarrow> Some (Inr x, k'))) = Some x"
    obtain r k' where call: "recv' k = (r, k')" by fastforce
    show "recv = recv' \<longrightarrow> log (snd x) = log k @ (case fst x of Inl _ \<Rightarrow> [] | Inr m \<Rightarrow> new m)"
    proof (cases r)
      case (Inl e)
      then show ?thesis using 1(2) 1(1) [of recv' k' x] call log [of k] by (auto split: if_splits)
    next
      case (Inr m)
      then show ?thesis using 1(2) call log [of k] by auto
    qed
  qed
  then show "win_retry recv k = Some x \<Longrightarrow> ?thesis" by blast
qed

lemma length_overwrite: "length (overwrite buffer data) = max (length buffer) (length data)"
  by (simp add: overwrite_def max_def)

text \<open>The invariant between two calls on one socket.\<close>

definition win_ready :: "nat \<Rightarrow> win_backend \<Rightarrow> bool" where
  "win_ready socket s \<longleftrightarrow> win_inv s \<and> (win_initialized s \<and> activeSocket s = socket \<or> pendingBytes s = 0)"

lemma pending_datagrams_none: "pendingBytes s = 0 \<Longrightarrow> pending_datagrams s = []"
  by (simp add: pending_datagrams_def pending_bytes_def)

lemma initializeSocket_log: "kernel_log limit W socket log \<Longrightarrow> log (snd (initializeSocket W socket s k)) = log k"
  by (simp add: initializeSocket_def kernel_log_def split_beta Let_def)

lemma initializeSocket_fresh:
  "\<not> (win_initialized s \<and> activeSocket s = socket) \<Longrightarrow>
   (let s' = fst (initializeSocket W socket s k) in pendingBytes s' = 0 \<and> pendingOffset s' = pendingOffset s \<and>
     receiveBuffer s' = receiveBuffer s \<and> win_initialized s' \<and> activeSocket s' = socket)"
  by (auto simp: initializeSocket_def split_beta Let_def)

lemma initializeSocket_ready:
  assumes "win_ready socket s" and "kernel_log limit W socket log" and "initializeSocket W socket s k = (s', k')"
  shows "win_inv s' \<and> win_initialized s' \<and> activeSocket s' = socket \<and> log k' = log k \<and>
    pending_datagrams s' = pending_datagrams s"
proof -
  have k': "log k' = log k" using initializeSocket_log [OF assms(2), of s k] assms(3) by simp
  show ?thesis
  proof (cases "win_initialized s \<and> activeSocket s = socket")
    case True
    then show ?thesis using assms by (auto simp: initializeSocket_def win_ready_def)
  next
    case False
    then have "pendingBytes s = 0" and "pendingOffset s \<le> length (receiveBuffer s)"
      using assms(1) by (auto simp: win_ready_def win_inv_def)
    then show ?thesis using initializeSocket_fresh [OF False, of W k] assms(3) k'
      by (simp add: Let_def win_inv_def pending_datagrams_none)
  qed
qed

definition answered :: "win_answer \<Rightarrow> win_datagram list" where
  "answered answer = (case answer of Inl _ \<Rightarrow> [] | Inr new \<Rightarrow> new)"

lemma receiveSingle_step:
  assumes "win_inv s" and "pendingBytes s = 0" and "kernel_log limit W socket log"
    and "win_receiveSingle limit W socket s k = Some (answer, s', k')"
  shows "log k' = log k @ answered answer \<and> pendingBytes s' = 0 \<and> win_inv s' \<and>
    win_initialized s' = win_initialized s \<and> activeSocket s' = activeSocket s"
proof -
  obtain r k1 where loop: "win_retry (ws_recvfrom W socket kReceiveBufferSize) k = Some (r, k1)"
    using assms(4) by (auto simp: win_receiveSingle_def split: option.splits)
  have "log k1 = log k @ (case r of Inl _ \<Rightarrow> [] | Inr x \<Rightarrow> single_datagrams limit x)"
    using win_retry_log [OF _ loop, of log "single_datagrams limit"] assms(3) by (simp add: kernel_log_def)
  then show ?thesis using assms loop
    by (auto simp: win_receiveSingle_def Let_def answered_def single_datagrams_def address_fits_def win_inv_def overwrite_def
      split: sum.splits if_splits)
qed

lemma receiveCoalesced_step:
  assumes "win_inv s" and "pendingBytes s = 0" and "kernel_log limit W socket log"
    and "receiveCoalesced limit W socket capacity s k = Some (answer, s', k')"
  shows "log k' = log k @ answered answer @ pending_datagrams s' \<and> win_inv s' \<and>
    win_initialized s' = win_initialized s \<and> activeSocket s' = activeSocket s"
proof -
  obtain r k1 where loop: "win_retry (ws_recvmsg W socket kReceiveBufferSize) k = Some (r, k1)"
    using assms(4) by (auto simp: receiveCoalesced_def split: option.splits)
  have log: "log k1 = log k @ (case r of Inl _ \<Rightarrow> [] | Inr m \<Rightarrow> message_datagrams limit m)"
    using win_retry_log [OF _ loop, of log "message_datagrams limit"] assms(3) by (simp add: kernel_log_def)
  have k': "k' = k1"
    using assms(4) loop by (auto simp: receiveCoalesced_def Let_def split: sum.splits if_splits prod.splits)
  show ?thesis
  proof (cases "\<exists>m. r = Inr m \<and> wm_payload m \<noteq> [] \<and> address_fits limit (wm_source m)")
    case True
    then obtain m where m: "r = Inr m" "wm_payload m \<noteq> []" "address_fits limit (wm_source m)" by blast
    define t where "t = s\<lparr>receiveBuffer := overwrite (receiveBuffer s) (wm_payload m),
      pendingAddress := overwrite (pendingAddress s) (wm_source m), pendingAddressSize := length (wm_source m),
      pendingOffset := 0, pendingBytes := length (wm_payload m), pendingSegmentSize := segment_size m\<rparr>"
    obtain ds u where emit: "emitPending capacity t = (ds, u)" by fastforce
    have t: "win_inv t" "pending_datagrams t = message_datagrams limit m"
      using segment_size_bounds [of m] m
      by (auto simp: t_def win_inv_def overwrite_def pending_datagrams_def pending_bytes_def message_datagrams_def)
    have "answer = Inr ds" and "s' = u"
      using assms(4) loop m emit by (auto simp: receiveCoalesced_def Let_def t_def address_fits_def)
    then show ?thesis using emitPending_spec [OF t(1) emit] t(2) log k' m(1)
      by (simp add: answered_def t_def)
  next
    case False
    then have "answered answer = [] \<and> log k1 = log k \<and> (s' = s \<or> (\<exists>b. s' = s\<lparr>receiveBuffer := overwrite (receiveBuffer s) b\<rparr>))"
      using assms(4) loop log
      by (cases r; cases "\<exists>m. r = Inr m \<and> wm_payload m = []")
        (auto simp: receiveCoalesced_def answered_def message_datagrams_def address_fits_def not_le)
    then show ?thesis using assms(1,2) k' by (auto simp: win_inv_def pending_datagrams_none length_overwrite)
  qed
qed

lemma win_receiveBatch_step:
  assumes ready: "win_ready socket s" and log: "kernel_log limit W socket log" and cap: "0 < capacity"
    and run: "win_receiveBatch limit W socket capacity s k = Some (answer, s', k')"
  shows "win_ready socket s' \<and>
    (\<exists>new. log k' = log k @ new \<and> answered answer @ pending_datagrams s' = pending_datagrams s @ new)"
proof -
  obtain s1 k1 where init: "initializeSocket W socket s k = (s1, k1)" by fastforce
  note one = initializeSocket_ready [OF ready log init]
  obtain ds s2 where emit: "emitPending capacity s1 = (ds, s2)" by fastforce
  note two = emitPending_spec [OF _ emit]
  have s2: "win_inv s2" "win_initialized s2 \<and> activeSocket s2 = socket" "ds @ pending_datagrams s2 = pending_datagrams s"
    using one two by simp_all
  show ?thesis
  proof (cases "ds = []")
    case False
    then have "answer = Inr ds \<and> s' = s2 \<and> k' = k1" using run init emit by (simp add: win_receiveBatch_def)
    then show ?thesis using s2 one by (simp add: answered_def win_ready_def)
  next
    case True
    then have none: "pending_datagrams s = []" using one two cap by (simp add: take_eq_Nil)
    then have empty: "pendingBytes s2 = 0" using s2 True pending_datagrams_empty [OF s2(1)] by simp
    note tail = run [unfolded win_receiveBatch_def init emit prod.case] True
    show ?thesis
    proof (cases "receiveMsg s2 \<and> coalescingEnabled s2")
      case True
      then have "receiveCoalesced limit W socket capacity s2 k1 = Some (answer, s', k')" using tail by simp
      from receiveCoalesced_step [OF s2(1) empty log this] show ?thesis using s2(2) one none by (simp add: win_ready_def)
    next
      case False
      then have "win_receiveSingle limit W socket s2 k1 = Some (answer, s', k')" using tail by simp
      from receiveSingle_step [OF s2(1) empty log this] show ?thesis
        using s2(2) one none by (simp add: win_ready_def pending_datagrams_none)
    qed
  qed
qed

lemma emit_loop_length: "emit_loop room s = (ds, s') \<Longrightarrow> length ds \<le> room"
  by (induction room arbitrary: s ds s') (auto simp: Let_def split: if_splits prod.splits)

lemma emitPending_length: "emitPending capacity s = (ds, s') \<Longrightarrow> length ds \<le> capacity"
  by (auto simp: emitPending_def emit_loop_length split: if_splits prod.splits)

text \<open>A call never returns more datagrams than there is room for.\<close>

lemma win_receiveBatch_capacity:
  assumes "0 < capacity" and "win_receiveBatch limit W socket capacity s k = Some (Inr ds, s', k')"
  shows "length ds \<le> capacity"
proof -
  obtain s1 k1 where init: "initializeSocket W socket s k = (s1, k1)" by fastforce
  obtain es s2 where emit: "emitPending capacity s1 = (es, s2)" by fastforce
  have "ds = es \<or> length ds \<le> 1 \<or> (\<exists>t u. emitPending capacity t = (ds, u))"
    using assms(2) init emit
    by (auto simp: win_receiveBatch_def win_receiveSingle_def receiveCoalesced_def Let_def
      split: if_splits option.splits sum.splits prod.splits)
  then show ?thesis using assms(1) emit emitPending_length by (metis One_nat_def Suc_leI order_trans)
qed

lemma win_receive_all_step:
  assumes "kernel_log limit W socket log"
  shows "win_ready socket s \<Longrightarrow> 0 \<notin> set capacities \<Longrightarrow>
    win_receive_all limit W socket capacities s k = Some (ds, s', k') \<Longrightarrow>
    \<exists>new. log k' = log k @ new \<and> ds @ pending_datagrams s' = pending_datagrams s @ new"
proof (induction capacities arbitrary: s k ds)
  case Nil
  then show ?case by simp
next
  case (Cons c cs)
  obtain answer s1 k1 es where one: "win_receiveBatch limit W socket c s k = Some (answer, s1, k1)"
    and rest: "win_receive_all limit W socket cs s1 k1 = Some (es, s', k')" and ds: "ds = answered answer @ es"
    using Cons.prems(3) by (auto simp: answered_def split: option.splits)
  have "0 < c" using Cons.prems(2) by (cases c) auto
  from win_receiveBatch_step [OF Cons.prems(1) assms this one] obtain new where
    new: "win_ready socket s1" "log k1 = log k @ new" "answered answer @ pending_datagrams s1 = pending_datagrams s @ new" by blast
  obtain more where "log k' = log k1 @ more" "es @ pending_datagrams s' = pending_datagrams s1 @ more"
    using Cons.IH [OF new(1) _ rest] Cons.prems(2) by auto
  then show ?case using new ds by (metis append.assoc)
qed


text \<open>A kernel with one coalesced message of five bytes in pieces of two; the state is the datagrams
  handed over so far.\<close>

definition demo_message :: win_message where
  "demo_message = \<lparr>wm_payload = [1, 2, 3, 4, 5], wm_source = [9], wm_control = [\<lparr>cm_coalesced_info = True, cm_value = 2\<rparr>]\<rparr>"

definition demo_winsock :: "win_datagram list winsock" where
  "demo_winsock = \<lparr>ws_get_recvmsg = (\<lambda>_ k. (True, k)), ws_get_coalesced_size = (\<lambda>_ k. (True, k)),
     ws_set_receive_buffer = (\<lambda>_ k. k), ws_set_coalesced_size = (\<lambda>_ _ k. (True, k)),
     ws_recvfrom = (\<lambda>_ _ k. (Inl (WSAError 10035), k)),
     ws_recvmsg = (\<lambda>_ _ k. if k = [] then (Inr demo_message, message_datagrams 128 demo_message) else (Inl (WSAError 10035), k))\<rparr>"

lemma demo_datagrams: "message_datagrams 128 demo_message = [([1, 2], [9]), ([3, 4], [9]), ([5], [9])]"
  by (simp add: message_datagrams_def demo_message_def address_fits_def segment_size_def segments.simps)

lemma demo_winsock_log: "kernel_log 128 demo_winsock 4 id"
  by (simp add: kernel_log_def demo_winsock_def)

lemma demo_retry:
  "win_retry (ws_recvmsg demo_winsock socket n) [] = Some (Inr demo_message, message_datagrams 128 demo_message)"
  "k \<noteq> [] \<Longrightarrow> win_retry (ws_recvmsg demo_winsock socket n) k = Some (Inl (WSAError 10035), k)"
  by (subst win_retry.simps, simp add: demo_winsock_def win_isIgnoredUDPError_def)+

lemma demo_setup:
  "ws_get_recvmsg demo_winsock n k = (True, k)" "ws_get_coalesced_size demo_winsock n k = (True, k)"
  "ws_set_receive_buffer demo_winsock n k = k" "ws_set_coalesced_size demo_winsock n m k = (True, k)"
  by (simp_all add: demo_winsock_def)

lemma demo_fields:
  "wm_payload demo_message = [1, 2, 3, 4, 5]" "wm_source demo_message = [9]" "segment_size demo_message = 2"
  by (simp_all add: demo_message_def segment_size_def)

lemma demo_first:
  "win_receiveBatch 128 demo_winsock 4 (Suc (Suc 0)) (win_backend_new False) [] =
     Some (Inr [([1, 2], [9]), ([3, 4], [9])],
       \<lparr>receiveBuffer = [1, 2, 3, 4, 5] @ drop 5 (replicate kReceiveBufferSize 0), pendingAddress = [9], pendingAddressSize = 1,
        pendingOffset = 4, pendingBytes = 1, pendingSegmentSize = 2, activeSocket = 4, receiveMsg = True,
        receiveCoalescingDisabled = False, coalescingSupported = True, coalescingEnabled = True, win_initialized = True\<rparr>,
       message_datagrams 128 demo_message)"
  by (simp add: win_receiveBatch_def initializeSocket_def win_backend_new_def emitPending_def receiveCoalesced_def
      demo_retry demo_setup demo_fields overwrite_def Let_def)


end
