(* ===== verification/Connection_Datagrams.thy ===== *)
theory Connection_Datagrams
  imports Demo_Run
begin

text \<open>
  The way of a datagram through the connection: \<open>queueReceive\<close> appends it to the receive batch, a
  receive flush takes the batch and gives its datagrams to ngtcp2. Whatever else the worker and the
  application do, and whatever arrives meanwhile, ngtcp2 reads the datagrams in the order they came,
  each once, and none is left out while the connection runs.
\<close>

section \<open>What is assumed of the external code\<close>

text \<open>The observation is what ngtcp2 has been given to read and what other threads have delivered during
  receive flushes. \<open>ngtcp2_conn_read_pkt\<close> adds its packet, \<open>q_arrivals\<close> its choice, nothing else adds.\<close>

type_synonym traffic = "bytes list \<times> span list"

definition dg_okw :: "bytes option \<Rightarrow> ng_written \<times> int \<Rightarrow> traffic \<Rightarrow> traffic \<Rightarrow> bool" where
  "dg_okw d r b b' \<longleftrightarrow> b' = b"

definition dg_read :: "bytes \<Rightarrow> ng_code \<Rightarrow> traffic \<Rightarrow> traffic \<Rightarrow> bool" where
  "dg_read pk r b b' \<longleftrightarrow> b' = (fst b @ [pk], snd b)"

definition dg_env :: "'w quic_env \<Rightarrow> ('w \<Rightarrow> traffic) \<Rightarrow> bool" where
  "dg_env E obs \<longleftrightarrow> env_calls E obs (\<lambda>_ _. True) dg_okw \<and>
     (\<forall>sid n. keeps obs (q_extend_max_stream_offset E sid n)) \<and> (\<forall>n. keeps obs (\<lambda>w. ((), q_extend_max_offset E n w))) \<and>
     (\<forall>path pk t w. ng_tree obs (\<lambda>_ _. True) (dg_read pk) (q_read_pkt E path pk t w) (obs w)) \<and>
     (\<forall>w. obs (snd (q_arrivals E w)) = (fst (obs w), snd (obs w) @ fst (q_arrivals E w)))"

text \<open>What \<open>queueReceive\<close> takes over of a delivery.\<close>

definition accepts :: "span \<Rightarrow> bytes list" where
  "accepts d = (if span_is_null d \<or> span_size d = 0 \<or> span_size d > kUINT16_MAX then [] else [span_bytes d])"

section \<open>The other handlers\<close>

definition dg :: "('w \<Rightarrow> traffic) \<Rightarrow> (traffic \<Rightarrow> bytes list \<Rightarrow> bool \<Rightarrow> bool) \<Rightarrow> 'w conn \<Rightarrow> bool" where
  "dg obs P s \<longleftrightarrow> P (obs (world s)) (receiveBatch s) (stopped s)"

lemma dg_cong:
  "dg obs P s \<Longrightarrow> obs (world s') = obs (world s) \<Longrightarrow> receiveBatch s' = receiveBatch s \<Longrightarrow> stopped s' = stopped s \<Longrightarrow> dg obs P s'"
  by (simp add: dg_def)

lemma dg_push: "preserves (dg obs P) (queueOperation oper)"
  by (auto simp: preserves_def queueOperation_def completeOperation_def scheduleIfIdle_def act_simps
      dg_def split: option.split)

lemma dg_internal: "preserves (dg obs P) (queueInternalOperation ty)"
  unfolding queueInternalOperation_def by (rule dg_push)

lemma dg_flush: "preserves (dg obs P) queueSendFlush" "preserves (dg obs P) queueStreamReceiveFlush"
  unfolding queueSendFlush_def queueStreamReceiveFlush_def assertWorkerOwner_def
  by (auto intro!: preserves_intros preserves_modify dg_internal simp: dg_def)

lemma dg_callbacks:
  "preserves (dg obs P) (receiveStreamDataCallback fin sid off data)"
  "preserves (dg obs P) (acknowledgedStreamDataCallback sid off len)"
  unfolding receiveStreamDataCallback_def appendReceivedStreamData_def markPeerFinished_def
    acknowledgedStreamDataCallback_def markAcknowledged_def assertWorkerOwner_def modProto_def cb_fail_def cb_ok_def
  by (auto intro!: preserves_intros preserves_modify dg_flush simp: dg_def)

lemma dg_plain:
  assumes "dg_env E obs"
  shows "conn_plain E obs (\<lambda>_ _. True) dg_okw (dg obs P)"
proof unfold_locales
  show "env_calls E obs (\<lambda>_ _. True) dg_okw" using assms by (simp add: dg_env_def)
qed (auto simp: dg_def dg_okw_def intro: preservesD [OF dg_callbacks(1), unfolded dg_def] preservesD [OF dg_callbacks(2), unfolded dg_def])

lemma dg_worker:
  assumes "dg_env E obs"
  shows "conn_worker E obs (\<lambda>_ _. True) dg_okw (dg obs P)"
proof (intro conn_worker.intro conn_worker_axioms.intro conn_sender.intro conn_sender_axioms.intro
    conn_writer.intro conn_writer_axioms.intro dg_flush)
  show "conn_callbacks E obs (\<lambda>_ _. True) dg_okw (dg obs P)" by (rule conn_plain.axioms(1) [OF dg_plain [OF assms]])
  show "preserves (dg obs P) (writeOnePacket E n ts pad)" for n ts pad
    by (rule conn_plain.plain_write [OF dg_plain [OF assms]])
qed (erule dg_cong; simp)+

text \<open>Predicates that the stop does not falsify.\<close>

lemma dg_others:
  assumes env: "dg_env E obs" and mono: "\<And>b B st. P b B st \<Longrightarrow> P b B True"
  shows "conn_others E obs (\<lambda>_ _. True) dg_okw (dg obs P)"
proof (intro conn_others.intro conn_others_axioms.intro dg_worker env dg_internal)
  note ext = conn_callbacks.extern_inv [OF conn_plain.axioms(1) [OF dg_plain [OF env, of P]]]
  have more: "keeps obs (q_extend_max_stream_offset E sid n)" "keeps obs (\<lambda>w. ((), q_extend_max_offset E n w))" for sid n
    using env by (simp_all add: dg_env_def)
  show "preserves (dg obs P) (processReleaseStreamReceiveCredit E)"
    unfolding processReleaseStreamReceiveCredit_def assertWorkerOwner_def
    by (intro preserves_intros preserves_modify dg_flush ext more; erule dg_cong; simp)
  show "preserves (dg obs P) processStreamReceive"
    unfolding processStreamReceive_def assertWorkerOwner_def modApp_def
    by (intro preserves_intros preserves_modify; erule dg_cong; simp)
qed (auto simp: dg_def intro: mono)

lemma dg_processSend:
  assumes "dg_env E obs"
  shows "preserves (dg obs P) (processSend E oper)"
proof -
  have mod: "preserves (dg obs P) (modProto f)" for f
    unfolding modProto_def by (intro preserves_modify; erule dg_cong; simp)
  show ?thesis unfolding processSend_def
    by (intro preserves_intros dg_flush mod conn_worker.chooseStream_inv [OF dg_worker [OF assms]]
        conn_callbacks.publish_inv [OF conn_plain.axioms(1) [OF dg_plain [OF assms]]])
qed

lemma dg_processOther:
  assumes "dg_env E obs" and "\<And>b B st. P b B st \<Longrightarrow> P b B True" and "op_type oper \<noteq> FlushRecv"
  shows "preserves (dg obs P) (processOperation E oper)"
proof (cases "op_type oper = APISend")
  case True
  then show ?thesis using dg_processSend [OF assms(1)] by (simp add: processOperation_def)
next
  case False
  have "conn_others E obs (\<lambda>_ _. True) dg_okw (dg obs P)" by (rule dg_others [OF assms(1)]) (rule assms(2))
  from conn_others.processOther_inv [OF this False assms(3)] show ?thesis .
qed

section \<open>The receive flush\<close>

text \<open>\<open>dg_at\<close>: the traffic, the batch and the stop flag are exactly these.\<close>

abbreviation dg_at :: "('w \<Rightarrow> traffic) \<Rightarrow> traffic \<Rightarrow> bytes list \<Rightarrow> bool \<Rightarrow> 'w conn \<Rightarrow> bool" where
  "dg_at obs b B st \<equiv> dg obs (\<lambda>b' B' st'. b' = b \<and> B' = B \<and> st' = st)"

lemma dg_feedPacket:
  assumes env: "dg_env E obs" and at: "dg_at obs (L, a) B st s" and run: "feedPacket E pk s = (r, s')"
  shows "dg_at obs (L @ [pk], a) B st s' \<or> ((\<exists>e. r = Inl e) \<and> dg_at obs (L, a) B st s')"
proof -
  let ?I = "dg_at obs (L, a) B st"
  let ?init = "bindA (gets (\<lambda>s. hasConn (proto s))) (\<lambda>has. bindA (gets role_of) (\<lambda>r.
        whenA (\<not> has) (if r \<noteq> Server then throw (RuntimeError ''client QUIC connection is not initialized'')
           else initializeServer E pk)))"
  have init: "preserves ?I ?init"
    by (intro preserves_intros conn_worker.initialize_inv [OF dg_worker [OF env]])
  obtain r1 s1 where one: "?init s = (r1, s1)" by fastforce
  have I1: "?I s1" by (rule preservesD2 [OF init at one])
  show ?thesis
  proof (cases r1)
    case (Inl e)
    then show ?thesis using run one I1 by (auto simp: feedPacket_def bindA_def [of ?init])
  next
    case (Inr u)
    obtain r2 s2 where two: "getCurrentTimestampNS E s1 = (r2, s2)" by fastforce
    have I2: "?I s2"
      by (rule preservesD2 [OF conn_callbacks.now_inv [OF conn_plain.axioms(1) [OF dg_plain [OF env]]] I1 two])
    obtain ts where ts: "r2 = Inr ts" using two by (auto simp: getCurrentTimestampNS_def act_simps split: prod.splits)
    let ?t = "q_read_pkt E (localPort (proto s2), peerPort (proto s2)) pk ts (world s2)"
    note cb = conn_plain.axioms(1) [OF dg_plain [OF env, of "\<lambda>b' B' st'. b' = (L, a) \<and> B' = B \<and> st' = st"]]
    have tree: "ng_tree obs (\<lambda>_ _. True) (dg_read pk) ?t (obs (world s2))"
      using env by (simp add: dg_env_def del: split_paired_All)
    have leaf: "dg_at obs (L @ [pk], a) B st (s\<lparr>io := (io s)\<lparr>io_world := w\<rparr>\<rparr>)"
      if "?I s" and "dg_read pk r (obs (world s)) (obs w)" for s r w
      using that by (simp add: dg_def dg_read_def)
    have read: "case run_ng (callbacks E) ?t s2 of (Inl e, s') \<Rightarrow> ?I s' | (Inr r, s') \<Rightarrow> dg_at obs (L @ [pk], a) B st s'"
      by (rule run_ng_inv [where I = ?I and Q = "\<lambda>_. dg_at obs (L @ [pk], a) B st", OF tree I2
          conn_callbacks.move [OF cb] conn_callbacks.callback_inv [OF cb] conn_callbacks.callbacks_keep [OF cb] leaf])
    obtain r3 s3 where three: "run_ng (callbacks E) ?t s2 = (r3, s3)" by fastforce
    have "s' = s3 \<and> (r3 = Inl x \<longrightarrow> r = Inl x)" for x
      using run one two three Inr ts
      by (auto simp: feedPacket_def bindA_def [of ?init] bindA_def gets_def ret_def throw_def split: sum.splits)
    then show ?thesis using read three by (cases r3) auto
  qed
qed

lemma dg_feedPackets:
  assumes env: "dg_env E obs"
  shows "dg_at obs (L, a) B st s \<Longrightarrow> blockA (map (feedPacket E) pks) s = (r, s') \<Longrightarrow>
    dg_at obs (L @ pks, a) B st s' \<or> ((\<exists>e. r = Inl e) \<and> (\<exists>done more. pks = done @ more \<and> dg_at obs (L @ done, a) B st s'))"
proof (induction pks arbitrary: L s)
  case Nil
  then show ?case by (simp add: act_simps)
next
  case (Cons pk pks)
  obtain r1 s1 where one: "feedPacket E pk s = (r1, s1)" by fastforce
  note res = dg_feedPacket [OF env Cons.prems(1) one]
  have split: "blockA (map (feedPacket E) (pk # pks)) s =
      (case r1 of Inl e \<Rightarrow> (Inl e, s1) | Inr _ \<Rightarrow> blockA (map (feedPacket E) pks) s1)"
    using one by (cases pks) (auto simp: bindA_def ret_def split: sum.split)
  show ?case
  proof (cases r1)
    case (Inl e)
    then have "r = Inl e" "s' = s1" using Cons.prems(2) split by simp_all
    moreover have "dg_at obs (L @ [pk], a) B st s1 \<or> dg_at obs (L @ [], a) B st s1" using res by auto
    ultimately show ?thesis by (metis append_Cons append_Nil)
  next
    case (Inr u)
    then have "dg_at obs (L @ [pk], a) B st s1" using res by simp
    moreover have "blockA (map (feedPacket E) pks) s1 = (r, s')" using Cons.prems(2) split Inr by simp
    ultimately have "dg_at obs ((L @ [pk]) @ pks, a) B st s' \<or>
        ((\<exists>e. r = Inl e) \<and> (\<exists>done more. pks = done @ more \<and> dg_at obs ((L @ [pk]) @ done, a) B st s'))"
      by (rule Cons.IH)
    then show ?thesis by (metis append.assoc append_Cons append_Nil)
  qed
qed

lemma bind_Inl: "m s = (Inl e, s1) \<Longrightarrow> bindA m k s = (Inl e, s1)"
  by (simp add: bindA_def)

lemma bind_Inr: "m s = (Inr x, s1) \<Longrightarrow> bindA m k s = k x s1"
  by (simp add: bindA_def)

lemma bind_modify: "bindA (modify f) k s = k () (f s)"
  by (simp add: act_simps)

lemma queueReceive_ignored:
  "span_is_null d \<or> span_size d = 0 \<or> stopped s \<Longrightarrow> queueReceive d s = (Inr (), s)"
  by (simp add: queueReceive_def act_simps)

lemma queueReceive_long:
  "\<not> span_is_null d \<Longrightarrow> span_size d > kUINT16_MAX \<Longrightarrow> \<not> stopped s \<Longrightarrow> snd (queueReceive d s) = s"
  by (cases "span_size d = 0") (simp_all add: queueReceive_def packets_append_def act_simps)

lemma dg_queueReceive:
  assumes "dg_at obs b B st s" and "queueReceive d s = (r, s')"
  shows "dg_at obs b (B @ (if st then [] else accepts d)) st s'"
proof (cases "span_is_null d \<or> span_size d = 0 \<or> stopped s \<or> span_size d > kUINT16_MAX")
  case True
  then have "s' = s"
    using assms(2) queueReceive_ignored [of d s] queueReceive_long [of d s] by (metis snd_conv)
  then show ?thesis using assms(1) True by (auto simp: dg_def accepts_def)
next
  case False
  let ?s = "s\<lparr>receiveBatch := receiveBatch s @ [span_bytes d]\<rparr>"
  let ?rest = "bindA (gets receiveOperationPending) (\<lambda>pending. whenA (\<not> pending) (blockA
         [modify (\<lambda>s. s\<lparr>receiveOperationPending := True\<rparr>), queueInternalOperation FlushRecv]))"
  have "?rest ?s = (r, s')"
    using assms(2) False by (simp add: queueReceive_def packets_append_def act_simps)
  moreover have keep: "preserves (dg_at obs b (B @ [span_bytes d]) False) ?rest"
    by (intro preserves_intros preserves_modify dg_internal; erule dg_cong; simp)
  moreover have at: "dg_at obs b (B @ [span_bytes d]) False ?s" using assms(1) False by (simp add: dg_def)
  ultimately have "dg_at obs b (B @ [span_bytes d]) False s'" by (intro preservesD2 [OF keep at])
  then show ?thesis using assms(1) False by (simp add: dg_def accepts_def)
qed

lemma dg_arrive:
  "dg_at obs b B st s \<Longrightarrow> \<exists>s'. arrive ds s = (Inr (), s') \<and> dg_at obs b (B @ (if st then [] else concat (map accepts ds))) st s'"
proof (induction ds arbitrary: B s)
  case Nil
  then show ?case by (cases st) (simp_all add: arrive_def act_simps dg_def)
next
  case (Cons d ds)
  obtain r s1 where one: "queueReceive d s = (r, s1)" by fastforce
  have "dg_at obs b (B @ (if st then [] else accepts d)) st s1" by (rule dg_queueReceive [OF Cons.prems one])
  from Cons.IH [OF this] obtain s' where rest: "arrive ds s1 = (Inr (), s')"
    and at: "dg_at obs b ((B @ (if st then [] else accepts d)) @ (if st then [] else concat (map accepts ds))) st s'" by blast
  have "arrive (d # ds) s = arrive ds s1"
    using one by (cases ds; cases r) (simp_all add: arrive_def act_simps)
  then show ?case using rest at by (auto split: if_splits)
qed

text \<open>A flush moves the batch to ngtcp2 and ends with what has arrived meanwhile; if it fails while it
  reads, the rest of the batch is gone.\<close>

lemma dg_processReceive:
  assumes env: "dg_env E obs" and at: "dg_at obs (L, a) B st s" and run: "processReceive E s = (r, s')"
  shows "(\<exists>new. dg_at obs (L @ B, a @ new) (if st then [] else concat (map accepts new)) st s') \<or>
    ((\<exists>e. r = Inl e) \<and> (\<exists>done more. B = done @ more \<and> dg_at obs (L @ done, a) [] st s'))"
proof -
  let ?s0 = "s\<lparr>receiveBatch := [], receiveOperationPending := False\<rparr>"
  let ?feed = "whenA (B \<noteq> []) (blockA [blockA (map (feedPacket E) B), queueSendFlush])"
  let ?again = "bindA (gets (\<lambda>s. receiveBatch s \<noteq> [] \<and> \<not> receiveOperationPending s)) (\<lambda>again.
        whenA again (blockA [modify (\<lambda>s. s\<lparr>receiveOperationPending := True\<rparr>), queueInternalOperation FlushRecv]))"
  have run': "bindA ?feed (\<lambda>_. bindA (bindA (extern (q_arrivals E)) arrive) (\<lambda>_. ?again)) ?s0 = (r, s')"
    using run at unfolding processReceive_def bind_gets blockA.simps bind_modify dg_def by simp
  have at0: "dg_at obs (L, a) [] st ?s0" using at by (simp add: dg_def)
  obtain r1 s1 where one: "?feed ?s0 = (r1, s1)" by fastforce
  have fed: "dg_at obs (L @ B, a) [] st s1 \<or>
      ((\<exists>e. r1 = Inl e) \<and> (\<exists>done more. B = done @ more \<and> dg_at obs (L @ done, a) [] st s1))"
  proof (cases "B = []")
    case True
    then show ?thesis using one at0 by (simp add: act_simps)
  next
    case False
    obtain q t where all: "blockA (map (feedPacket E) B) ?s0 = (q, t)" by fastforce
    note res = dg_feedPackets [OF env at0 all]
    have "(r1, s1) = (case q of Inl e \<Rightarrow> (Inl e, t) | Inr _ \<Rightarrow> queueSendFlush t)"
      using one False all by (auto simp: bindA_def whenA_def split: sum.splits)
    then show ?thesis
      using res preservesD2 [OF dg_flush(1) [of obs "\<lambda>b' B' st'. b' = (L @ B, a) \<and> B' = [] \<and> st' = st"], of t r1 s1]
      by (cases q) auto
  qed
  show ?thesis
  proof (cases r1)
    case (Inl e)
    from trans [OF run' [symmetric] bind_Inl [where m = ?feed and s = ?s0, OF one [unfolded Inl]]] have "r = Inl e \<and> s' = s1" by simp
    moreover have "dg_at obs (L @ B, a) [] st s1 \<Longrightarrow> dg_at obs (L @ B, a @ []) (if st then [] else concat (map accepts [])) st s1"
      by (cases st) simp_all
    ultimately show ?thesis using fed Inl by blast
  next
    case (Inr u)
    then have at1: "dg_at obs (L @ B, a) [] st s1" using fed by simp
    let ?new = "fst (q_arrivals E (world s1))"
    let ?s2 = "snd (extern (q_arrivals E) s1)"
    have "dg_at obs (L @ B, a @ ?new) [] st ?s2"
      using at1 env by (auto simp: act_simps dg_def dg_env_def split: prod.split)
    from dg_arrive [OF this, of ?new] obtain s3 where three: "arrive ?new ?s2 = (Inr (), s3)"
      and at3: "dg_at obs (L @ B, a @ ?new) (if st then [] else concat (map accepts ?new)) st s3" by auto
    have ext: "extern (q_arrivals E) s1 = (Inr ?new, ?s2)" by (simp add: act_simps split: prod.split)
    have "bindA (extern (q_arrivals E)) arrive s1 = (Inr (), s3)" using bind_Inr [where m = "extern (q_arrivals E)" and s = s1 and k = arrive, OF ext] three by simp
    from trans [OF run' [symmetric] trans [OF bind_Inr [where m = ?feed and s = ?s0 and k = "\<lambda>_. bindA (bindA (extern (q_arrivals E)) arrive) (\<lambda>_. ?again)", OF one [unfolded Inr]]
        bind_Inr [where m = "bindA (extern (q_arrivals E)) arrive" and s = s1 and k = "\<lambda>_. ?again", OF this]]]
    have "?again s3 = (r, s')" by (rule sym)
    have "preserves (dg_at obs (L @ B, a @ ?new) (if st then [] else concat (map accepts ?new)) st) ?again"
      by (intro preserves_intros preserves_modify dg_internal; erule dg_cong; simp)
    from preservesD2 [OF this at3 \<open>?again s3 = (r, s')\<close>] show ?thesis by blast
  qed
qed

section \<open>One operation\<close>

text \<open>\<open>D\<close> is what has been accepted before the step, \<open>a\<close> what other threads had delivered then and \<open>st\<close> whether
  the connection had stopped. Something may be missing only after a failed flush, which also empties the batch.\<close>

definition dg_booked :: "bytes list \<Rightarrow> span list \<Rightarrow> bool \<Rightarrow> traffic \<Rightarrow> bytes list \<Rightarrow> bytes list \<Rightarrow> bool" where
  "dg_booked D a st b B lost \<longleftrightarrow>
     (\<exists>new. snd b = a @ new \<and> D @ (if st then [] else concat (map accepts new)) = fst b @ B @ lost)"

definition dg_lossy :: "bytes list \<Rightarrow> span list \<Rightarrow> bool \<Rightarrow> traffic \<Rightarrow> bytes list \<Rightarrow> bool \<Rightarrow> bool" where
  "dg_lossy D a st b B st' \<longleftrightarrow> (\<exists>lost. dg_booked D a st b B lost \<and> (lost \<noteq> [] \<longrightarrow> B = []))"

definition dg_kept :: "bytes list \<Rightarrow> span list \<Rightarrow> bool \<Rightarrow> traffic \<Rightarrow> bytes list \<Rightarrow> bool \<Rightarrow> bool" where
  "dg_kept D a st b B st' \<longleftrightarrow> (\<exists>lost. dg_booked D a st b B lost \<and> (lost \<noteq> [] \<longrightarrow> B = [] \<and> st'))"

lemma dg_kept_mono: "dg_kept D a st b B st' \<Longrightarrow> dg_kept D a st b B True"
  "dg_lossy D a st b B st' \<Longrightarrow> dg_lossy D a st b B True"
  "dg_kept D a st b B st' \<Longrightarrow> dg_lossy D a st b B st''"
  "dg_lossy D a st b B st' \<Longrightarrow> dg_kept D a st b B True"
  by (auto simp: dg_kept_def dg_lossy_def)

lemma dg_processOperation:
  assumes env: "dg_env E obs" and start: "dg obs (dg_kept D a st) s" "snd (obs (world s)) = a" "stopped s = st"
    and run: "processOperation E oper s = (r, s')"
  shows "dg obs (dg_lossy D a st) s' \<and> ((\<exists>x. r = Inr x) \<longrightarrow> dg obs (dg_kept D a st) s')"
proof (cases "op_type oper = FlushRecv")
  case False
  have "preserves (dg obs (dg_kept D a st)) (processOperation E oper)"
    by (rule dg_processOther [OF env _ False]) (rule dg_kept_mono(1))
  from preservesD2 [OF this start(1) run] show ?thesis by (auto simp: dg_def intro: dg_kept_mono)
next
  case True
  let ?L = "fst (obs (world s))" and ?B = "receiveBatch s"
  have at: "dg_at obs (?L, a) ?B st s" using start(2,3) by (auto simp: dg_def)
  obtain lost where D: "D = ?L @ ?B @ lost" and lost: "lost \<noteq> [] \<longrightarrow> ?B = [] \<and> st"
    using start by (auto simp: dg_def dg_kept_def dg_booked_def)
  have "processReceive E s = (r, s')" using run True by (simp add: processOperation_def)
  from dg_processReceive [OF env at this] show ?thesis
  proof (elim disjE exE conjE)
    fix new
    assume res: "dg_at obs (?L @ ?B, a @ new) (if st then [] else concat (map accepts new)) st s'"
    have "dg_kept D a st (obs (world s')) (receiveBatch s') (stopped s')"
      using res lost unfolding dg_def dg_kept_def dg_booked_def D
      by (intro exI [of _ lost] exI [of _ new] conjI) (auto split: if_splits)
    then show ?thesis by (auto simp: dg_def intro: dg_kept_mono)
  next
    fix e "done" more
    assume res: "r = Inl e" "?B = done @ more" "dg_at obs (?L @ done, a) [] st s'"
    have "dg_booked D a st (obs (world s')) (receiveBatch s') (more @ lost)"
      using res unfolding dg_def dg_booked_def D by (auto intro!: exI [of _ "[]"])
    then show ?thesis using res by (auto simp: dg_def dg_lossy_def)
  qed
qed

lemma dg_complete: "preserves (dg obs P) (completeOperation oper m)" "preserves (dg obs P) (drainFailedOperations m)"
  unfolding completeOperation_def drainFailedOperations_def
  by (intro preserves_modify; erule dg_cong; simp split: option.split)+

lemma dg_fail:
  assumes env: "dg_env E obs" and mono: "\<And>b B st. P b B st \<Longrightarrow> P b B True"
  shows "preserves (dg obs P) (failOperation E oper e)" and "preserves (dg obs P) (failFromRuntime E m)"
proof -
  have others: "conn_others E obs (\<lambda>_ _. True) dg_okw (dg obs P)" by (rule dg_others [OF env]) (rule mono)
  have stop: "preserves (dg obs P) (modify (\<lambda>s. s\<lparr>stopped := True\<rparr>))"
    by (rule preserves_modify) (auto simp: dg_def intro: mono)
  show "preserves (dg obs P) (failOperation E oper e)" "preserves (dg obs P) (failFromRuntime E m)"
    unfolding failOperation_def failFromRuntime_def assertWorkerOwner_def
    by (intro preserves_intros dg_complete stop conn_others.releaseTransport_inv [OF others]
        conn_callbacks.mark_inv [OF conn_plain.axioms(1) [OF dg_plain [OF env]]])+
qed

lemma dg_next:
  assumes env: "dg_env E obs" and start: "dg obs (dg_kept D a st) s" "snd (obs (world s)) = a" "stopped s = st"
    and run: "processNext E s = (r, s')" and r: "r \<noteq> Inl Undefined"
  shows "dg obs (dg_kept D a st) s'"
proof (cases "queue_pop (operationQueue s)")
  case None
  then show ?thesis using run start(1) by (simp add: processNext_def act_simps)
next
  case (Some p)
  obtain oper q where p: "queue_pop (operationQueue s) = Some (oper, q)" using Some by (cases p) simp
  let ?s = "s\<lparr>operationQueue := q\<rparr>"
  have start': "dg obs (dg_kept D a st) ?s" "snd (obs (world ?s)) = a" "stopped ?s = st"
    using start by (simp_all add: dg_def)
  obtain r1 s1 where one: "processOperation E oper ?s = (r1, s1)" by fastforce
  note res = dg_processOperation [OF env start' one]
  obtain t s2 where tried: "tryOperation E oper ?s = (t, s2)" by fastforce
  have s': "s' = s2 \<or> s' = snd (drainFailedOperations ''QUIC runtime is stopped'' s2)"
    and rt: "r = Inl Undefined \<or> t \<noteq> Inl Undefined"
    using run p tried by (auto simp: processNext_def bindA_def gets_def modify_def ret_def split: sum.splits if_splits prod.splits)
  have "dg obs (dg_kept D a st) s2"
  proof (cases r1)
    case (Inr x)
    then have "s2 = snd (completeOperation oper '''' s1)"
      using tried one by (auto simp: tryOperation_def completeOperation_def act_simps split: option.splits)
    then show ?thesis using res Inr preservesD [OF dg_complete(1)] by blast
  next
    case (Inl e)
    then have fail: "failOperation E oper e s1 = (t, s2)" using tried one by (simp add: tryOperation_def act_simps)
    then have "e \<noteq> Undefined" using rt r by (auto simp: failOperation_def act_simps)
    have lossy: "dg obs (dg_lossy D a st) s2"
      by (rule preservesD2 [OF dg_fail(1) [OF env] conjunct1 [OF res] fail]) (rule dg_kept_mono(2))
    obtain ok where "t = Inr ok"
      using failOperation_nothrow [OF \<open>e \<noteq> Undefined\<close>] fail by (metis nothrowE prod.inject)
    then have "stopped s2" using fail_result [OF \<open>e \<noteq> Undefined\<close>] fail by blast
    then show ?thesis using lossy by (auto simp: dg_def intro: dg_kept_mono)
  qed
  then show ?thesis using s' preservesD [OF dg_complete(2)] by blast
qed

section \<open>Runs\<close>

text \<open>What a call of \<open>onReceive\<close> adds, and what other threads have added during a step.\<close>

definition call_receives :: "conn_call \<Rightarrow> 'w conn \<Rightarrow> bytes list" where
  "call_receives c s = (case c of
      CallReceive d \<Rightarrow> if bconnection (io_binding (io s)) = None \<or> stopped s then [] else accepts d
    | _ \<Rightarrow> [])"

definition arrived :: "('w \<Rightarrow> traffic) \<Rightarrow> 'w conn \<Rightarrow> 'w conn \<Rightarrow> bytes list" where
  "arrived obs s s' = (if stopped s then []
     else concat (map accepts (drop (length (snd (obs (world s)))) (snd (obs (world s'))))))"

text \<open>\<open>D\<close> is every datagram the connection has taken over so far.\<close>

inductive dg_trace :: "'w quic_env \<Rightarrow> ('w \<Rightarrow> traffic) \<Rightarrow> 'w conn \<Rightarrow> bytes list \<Rightarrow> 'w conn \<Rightarrow> bool" for E obs s0 where
  dg_init: "dg_trace E obs s0 [] s0"
| dg_step: "dg_trace E obs s0 D s \<Longrightarrow> run_call E c (s\<lparr>onWorker := by_worker c\<rparr>) = (r, s') \<Longrightarrow> r \<noteq> Inl Undefined \<Longrightarrow>
    dg_trace E obs s0 (D @ call_receives c s @ arrived obs s s') s'"

lemma dg_calls:
  "preserves (dg obs P) (start_request a g n)" "preserves (dg obs P) (start_finish c)"
  "preserves (dg obs P) close_request" "preserves (dg obs P) (close_finish c)"
  "preserves (dg obs P) (queueDataAsync d fin)" "preserves (dg obs P) takeReceivedStreamData"
  "preserves (dg obs P) beginWorkerProcessing" "preserves (dg obs P) publishApplicationState"
  "preserves (dg obs P) finishWorkerProcessing" "preserves (dg obs P) queueTimerExpired"
  by (rule calls_frame; erule dg_cong; simp)+

lemma dg_call:
  assumes env: "dg_env E obs" and inv: "dg obs (dg_kept D (snd (obs (world s))) (stopped s)) s"
    and run: "run_call E c (s\<lparr>onWorker := by_worker c\<rparr>) = (r, s')" and r: "r \<noteq> Inl Undefined"
  shows "dg obs (dg_kept (D @ call_receives c s) (snd (obs (world s))) (stopped s)) s'"
proof -
  let ?s = "s\<lparr>onWorker := by_worker c\<rparr>" and ?P = "dg_kept D (snd (obs (world s))) (stopped s)"
  have inv': "dg obs ?P ?s" by (rule dg_cong [OF inv]) simp_all
  have mono: "?P b B st \<Longrightarrow> ?P b B True" for b B st by (rule dg_kept_mono(1))
  consider (receive) d where "c = CallReceive d" | (process) "c = WorkerNext"
    | (other) "c \<noteq> WorkerNext" "\<And>d. c \<noteq> CallReceive d" by blast
  then show ?thesis
  proof cases
    case receive
    obtain lost where D: "D = fst (obs (world s)) @ receiveBatch s @ lost" "lost \<noteq> [] \<longrightarrow> receiveBatch s = [] \<and> stopped s"
      using inv by (cases "stopped s") (fastforce simp: dg_def dg_kept_def dg_booked_def)+
    have "dg_at obs (obs (world s)) (receiveBatch s @ call_receives c s) (stopped s) s'"
    proof (cases "bconnection (io_binding (io s))")
      case None
      then show ?thesis using run receive by (auto simp: binding_onReceive_def call_receives_def act_simps dg_def)
    next
      case (Some x)
      then have "queueReceive d ?s = (r, s')" using run receive by (simp add: binding_onReceive_def act_simps)
      moreover have "dg_at obs (obs (world s)) (receiveBatch s) (stopped s) ?s" by (simp add: dg_def)
      ultimately show ?thesis using Some receive dg_queueReceive by (fastforce simp: call_receives_def)
    qed
    then show ?thesis using D receive by (auto simp: dg_def dg_kept_def dg_booked_def call_receives_def)
  next
    case process
    obtain q s1 where one: "processNext E ?s = (q, s1)" by fastforce
    have "s1 = s'" "q \<noteq> Inl Undefined" using run r one process by (auto simp: bindA_def ret_def split: sum.splits)
    then show ?thesis using dg_next [OF env inv' _ _ one] process by (simp add: call_receives_def)
  next
    case other
    have "preserves (dg obs ?P) (run_call E c)"
      using other by (cases c) (auto intro!: preserves_intros dg_calls [where P = ?P] dg_fail(2) [OF env, where P = ?P] mono)
    from preservesD2 [OF this inv' run] show ?thesis using other by (cases c) (auto simp: call_receives_def)
  qed
qed

lemma dg_run:
  assumes "dg_trace E obs (connection_new ro cert key addr baddr ready agents w) D s" and env: "dg_env E obs"
    and "fst (obs w) = []"
  shows "dg obs (dg_kept D (snd (obs (world s))) (stopped s)) s"
  using assms(1)
proof (induction rule: dg_trace.induct)
  case dg_init
  then show ?case using assms(3) by (simp add: dg_def dg_kept_def dg_booked_def connection_new_def world_def)
next
  case (dg_step D s c r s')
  from dg_call [OF env dg_step.IH dg_step.hyps(2,3)] obtain new lost where
    "snd (obs (world s')) = snd (obs (world s)) @ new"
    "(D @ call_receives c s) @ (if stopped s then [] else concat (map accepts new)) = fst (obs (world s')) @ receiveBatch s' @ lost"
    "lost \<noteq> [] \<longrightarrow> receiveBatch s' = [] \<and> stopped s'"
    by (auto simp: dg_def dg_kept_def dg_booked_def)
  then show ?case
    by (auto simp: dg_def dg_kept_def dg_booked_def arrived_def intro!: exI [of _ lost])
qed

text \<open>C4. No datagram is lost, doubled or overtaken between the transport and ngtcp2: whatever calls are
  made and whatever arrives during them, the datagrams that the connection has taken over are, in the
  order they came, those that ngtcp2 has been given to read, followed by those that wait in the receive
  batch. Anything further was dropped by a failure that has stopped the connection.\<close>

theorem datagrams_read_in_order:
  assumes "dg_trace E obs (connection_new ro cert key addr baddr ready agents w) D s" and "dg_env E obs"
    and "fst (obs w) = []"
  shows "\<exists>lost. D = fst (obs (world s)) @ receiveBatch s @ lost \<and> (lost \<noteq> [] \<longrightarrow> receiveBatch s = [] \<and> stopped s)"
  using dg_run [OF assms] by (cases "stopped s") (fastforce simp: dg_def dg_kept_def dg_booked_def)+

text \<open>ngtcp2 reads every packet and answers nothing; the external state is the traffic.\<close>

definition log_arrivals :: "traffic \<Rightarrow> span list \<times> traffic" where
  "log_arrivals = (\<lambda>(L, a). if a = [] then ([Span [9]], (L, [Span [9]])) else ([], (L, a)))"

definition log_reader :: "nat option \<times> nat option \<Rightarrow> bytes \<Rightarrow> timestamp \<Rightarrow> traffic \<Rightarrow> (traffic, ng_code) ng" where
  "log_reader path pk t w = NgReturn (Inr 0) (fst w @ [pk], snd w)"

definition log_writer :: "nat \<Rightarrow> stream_flags \<Rightarrow> int \<Rightarrow> bytes option \<Rightarrow> timestamp \<Rightarrow> traffic \<Rightarrow> (traffic, ng_written \<times> int) ng" where
  "log_writer n f sid d t w = NgReturn (Inr [], -1) w"

definition log_env :: "traffic quic_env" where
  "log_env = demo_with log_reader log_writer log_arrivals demo_aggregate demo_juice"

definition log_conn :: "traffic conn" where
  "log_conn = connection_new Client ''PEM'' '''' 1 2 True demo_agents ([], [])"

lemma log_dg_env: "dg_env log_env id"
  unfolding dg_env_def env_calls_def
  by (auto simp: log_env_def demo_with_def keeps_def dg_okw_def dg_read_def demo_juice_def ret_keeps_def log_arrivals_def log_reader_def log_writer_def
      demo_aggregate_def)

fun run_dg :: "'w quic_env \<Rightarrow> ('w \<Rightarrow> traffic) \<Rightarrow> conn_call list \<Rightarrow> bytes list \<times> 'w conn \<Rightarrow> (bytes list \<times> 'w conn) option" where
  "run_dg E obs [] (D, s) = Some (D, s)"
| "run_dg E obs (c # cs) (D, s) =
     (case run_call E c (s\<lparr>onWorker := by_worker c\<rparr>) of (r, s') \<Rightarrow>
        if r = Inl Undefined then None
        else run_dg E obs cs (D @ call_receives c s @ arrived obs s s', s'))"

lemma run_dg_trace:
  "dg_trace E obs s0 D s \<Longrightarrow> run_dg E obs cs (D, s) = Some (D', s') \<Longrightarrow> dg_trace E obs s0 D' s'"
  by (induction E obs cs "(D, s)" arbitrary: D s rule: run_dg.induct)
    (auto intro: dg_step split: prod.splits if_splits)

text \<open>Two packets arrive, a third while they are being read.\<close>

definition log_calls :: "conn_call list" where
  "log_calls = [CallStart (Some 0) False 1200, WorkerBegin, WorkerNext, WorkerNext,
     CallReceive (Span [1]), CallReceive (Span [2]), WorkerNext]"

lemmas log_sel = demo_with_sel(12) [of log_reader log_writer log_arrivals demo_aggregate demo_juice, folded log_env_def] log_arrivals_def
  with_start [of _ log_reader log_writer log_arrivals demo_aggregate demo_juice, folded log_env_def]
  with_idle [of _ log_reader log_writer log_arrivals demo_aggregate demo_juice, folded log_env_def]

lemma log_feed:
  assumes "hasConn (proto s)"
  shows "feedPacket log_env pk s = (Inr (), s\<lparr>io := (io s)\<lparr>io_world := (fst (world s) @ [pk], snd (world s))\<rparr>\<rparr>)"
  using assms by (simp add: feedPacket_def log_env_def demo_with_sel log_reader_def getCurrentTimestampNS_def act_simps world_def
      split: prod.split)

lemma log_run:
  "\<exists>s. run_dg log_env id log_calls ([], log_conn) = Some ([[1], [2], [9]], s) \<and>
     world s = ([[1], [2]], [Span [9]]) \<and> receiveBatch s = [[9]]"
  by (simp add: log_calls_def log_conn_def beginWorkerProcessing_def demo_simps call_receives_def arrived_def
      log_sel
      proto_hasPendingWrite_def proto_new_def accepts_def
      binding_onReceive_def queueReceive_def packets_append_def kUINT16_MAX_def kReceiveBufferPayloadSize_def
      processReceive_def log_feed arrive_def world_def Let_def whenA_simps app_new_def)

theorem datagrams_read_in_order_witness:
  "\<exists>s. dg_trace log_env id log_conn [[1], [2], [9]] s \<and> world s = ([[1], [2]], [Span [9]]) \<and>
     (\<exists>lost. [[1], [2], [9]] = fst (world s) @ receiveBatch s @ lost)"
proof -
  obtain s where run: "run_dg log_env id log_calls ([], log_conn) = Some ([[1], [2], [9]], s)"
    and s: "world s = ([[1], [2]], [Span [9]])" using log_run by blast
  have trace: "dg_trace log_env id log_conn [[1], [2], [9]] s" by (rule run_dg_trace [OF dg_init run])
  show ?thesis
    using datagrams_read_in_order [OF trace [unfolded log_conn_def] log_dg_env] trace s by auto
qed

end
