(* ===== verification/Transport_Sys.thy ===== *)
theory Transport_Sys
  imports Agent_Sys
begin

text \<open>
  The path of a datagram between libjuice, the agent and the connections attached to it, with the
  threads interleaved: libjuice calls \<open>onReceive\<close>, an application thread attaches and detaches a
  connection (\<open>JuiceBinding\<close>), the worker of a connection sends through the agent, and an application
  thread closes the agent. Every section under the agent's lock is one step, every unlocked access
  between two sections another.
\<close>

section \<open>State\<close>

text \<open>\<open>attach\<close> sets the sink and then the fields of the binding; \<open>detach\<close> clears the sink and then the
  fields. The worker is \<open>AboutToCall\<close> between its check in \<open>sendFFLP2PAgentNative\<close> and the call of libjuice.\<close>

datatype attach_phase = Detached | SinkSet | Attached | SinkCleared | Destroyed
datatype send_phase = NotSending | AboutToCall
datatype close_phase = AgentOpen | AgentClosed | JuiceFreed | CloseDone
datatype destination = ToConnection nat | ToAgent | Lost

record route_conn =
  rt_binding :: binding
  rt_phase :: attach_phase
  rt_sender :: send_phase
  rt_stopped :: bool
  rt_received :: "bytes list"

text \<open>\<open>rt_alive\<close> says that the libjuice agent and its wrapper exist, \<open>rt_hand\<close> is the datagram a callback has
  copied and not yet queued. The faults are accesses to freed memory; \<open>rt_log\<close> is a ghost.\<close>

record route_sys =
  rt_agent :: agent_obj
  rt_alive :: bool
  rt_close :: close_phase
  rt_conns :: "nat \<Rightarrow> route_conn"
  rt_hand :: "bytes option"
  rt_sink_fault :: bool
  rt_send_fault :: bool
  rt_log :: "(bytes \<times> destination) list"

definition route_conn_new :: route_conn where
  "route_conn_new = \<lparr>rt_binding = binding_new, rt_phase = Detached, rt_sender = NotSending, rt_stopped = False, rt_received = []\<rparr>"

definition route_new :: "juice_handle \<Rightarrow> route_sys" where
  "route_new jh = \<lparr>rt_agent = agent_ready jh, rt_alive = True, rt_close = AgentOpen, rt_conns = (\<lambda>_. route_conn_new),
     rt_hand = None, rt_sink_fault = False, rt_send_fault = False, rt_log = []\<rparr>"

definition upd_conn :: "nat \<Rightarrow> (route_conn \<Rightarrow> route_conn) \<Rightarrow> route_sys \<Rightarrow> route_sys" where
  "upd_conn b f s = s\<lparr>rt_conns := (rt_conns s)(b := f (rt_conns s b))\<rparr>"

section \<open>Steps\<close>

text \<open>The two functions of the agent under its lock; the handle 0 stands for the agent.\<close>

definition sink_of :: "(nat \<Rightarrow> agent) \<Rightarrow> agent_obj \<Rightarrow> agent_obj" where
  "sink_of agents self = self\<lparr>dataSink := dataSink (agents 0), dataSinkUserPtr := dataSinkUserPtr (agents 0)\<rparr>"

definition agent_set_sink :: "nat \<Rightarrow> agent_obj \<Rightarrow> int \<times> agent_obj" where
  "agent_set_sink b self =
     (case setFFLP2PAgentNativeDataSink (Some 0) (Some onReceive_fn) (Some b) (\<lambda>_. agent.truncate self) of
        (r, agents) \<Rightarrow> (r, sink_of agents self))"

definition agent_clear_sink :: "nat \<Rightarrow> agent_obj \<Rightarrow> agent_obj" where
  "agent_clear_sink b self =
     sink_of (clearFFLP2PAgentNativeDataSink (Some 0) (Some onReceive_fn) (Some b) (\<lambda>_. agent.truncate self)) self"

text \<open>\<open>closeAgent\<close>: the section under the lock, and the assignment after \<open>destroyFFLP2PJuice\<close>.\<close>

definition close_locked :: "agent_obj \<Rightarrow> agent_obj" where
  "close_locked self = (if \<not> agent_closed self \<and> agent_lock self
     then self\<lparr>agent_closed := True, dataSink := None, dataSinkUserPtr := None\<rparr> else self)"

definition close_clear :: "agent_obj \<Rightarrow> agent_obj" where
  "close_clear self = self\<lparr>agent_juice := None\<rparr>"

lemma close_split: "closeAgent_obj self = close_clear (close_locked self)"
  by (simp add: closeAgent_obj_def close_clear_def close_locked_def Let_def)

text \<open>\<open>JuiceBinding::onReceive\<close>, called under the agent's lock.\<close>

definition sink_call :: "nat \<Rightarrow> bytes \<Rightarrow> route_sys \<Rightarrow> route_sys" where
  "sink_call b d s =
     (let c = rt_conns s b in
      if rt_phase c = Destroyed then s\<lparr>rt_sink_fault := True\<rparr>
      else if bconnection (rt_binding c) = None \<or> rt_stopped c then s\<lparr>rt_log := rt_log s @ [(d, Lost)]\<rparr>
      else (upd_conn b (\<lambda>c. c\<lparr>rt_received := rt_received c @ [d]\<rparr>) s)\<lparr>rt_log := rt_log s @ [(d, ToConnection b)]\<rparr>)"

definition callback_call :: "receive_route \<Rightarrow> route_sys \<Rightarrow> route_sys" where
  "callback_call route s =
     (case route of
        ToSink f (Some b) d \<Rightarrow> sink_call b d s
      | ToSink f None d \<Rightarrow> s
      | ToQueue d \<Rightarrow> s\<lparr>rt_hand := Some d\<rparr>
      | Dropped \<Rightarrow> s)"

definition in_use :: "route_conn \<Rightarrow> bool" where
  "in_use c \<longleftrightarrow> rt_phase c \<in> {SinkSet, Attached, SinkCleared} \<and> \<not> rt_stopped c"

text \<open>With \<open>orderly\<close>, the application detaches a connection and closes the agent only when the connections
  concerned have stopped; without, at any time.\<close>

inductive route_step :: "bool \<Rightarrow> route_sys \<Rightarrow> route_sys \<Rightarrow> bool" for orderly where
  rs_callback: "rt_alive s \<Longrightarrow> rt_hand s = None \<Longrightarrow>
    route_step orderly s (callback_call (onReceive ok dup d (rt_agent s)) s)"
| rs_queue: "rt_hand s = Some d \<Longrightarrow> queueReceive_agent (Some d) (rt_agent s) = (rsig, esig, self) \<Longrightarrow>
    route_step orderly s (s\<lparr>rt_hand := None, rt_agent := self,
      rt_log := rt_log s @ [(d, if agent_closed (rt_agent s) then Lost else ToAgent)]\<rparr>)"
| rs_set_sink: "rt_phase (rt_conns s b) = Detached \<Longrightarrow> agent_set_sink b (rt_agent s) = (r, self) \<Longrightarrow>
    route_step orderly s (if r \<noteq> 0 then s else upd_conn b (\<lambda>c. c\<lparr>rt_phase := SinkSet\<rparr>) (s\<lparr>rt_agent := self\<rparr>))"
| rs_attach: "rt_phase (rt_conns s b) = SinkSet \<Longrightarrow>
    route_step orderly s (upd_conn b (\<lambda>c. c\<lparr>rt_phase := Attached,
      rt_binding := (rt_binding c)\<lparr>agentHandle := Some 0, bconnection := Some b\<rparr>\<rparr>) s)"
| rs_clear_sink: "rt_phase (rt_conns s b) = Attached \<Longrightarrow> (orderly \<longrightarrow> rt_stopped (rt_conns s b)) \<Longrightarrow>
    route_step orderly s (upd_conn b (\<lambda>c. c\<lparr>rt_phase := SinkCleared\<rparr>) (s\<lparr>rt_agent := agent_clear_sink b (rt_agent s)\<rparr>))"
| rs_detach: "rt_phase (rt_conns s b) = SinkCleared \<Longrightarrow>
    route_step orderly s (upd_conn b (\<lambda>c. c\<lparr>rt_phase := Detached,
      rt_binding := (rt_binding c)\<lparr>agentHandle := None, bconnection := None\<rparr>\<rparr>) s)"
| rs_destroy: "rt_phase (rt_conns s b) = Detached \<Longrightarrow> rt_sender (rt_conns s b) = NotSending \<Longrightarrow>
    route_step orderly s (upd_conn b (\<lambda>c. c\<lparr>rt_phase := Destroyed\<rparr>) s)"
| rs_stop: "rt_sender (rt_conns s b) = NotSending \<Longrightarrow>
    route_step orderly s (upd_conn b (\<lambda>c. c\<lparr>rt_stopped := True\<rparr>) s)"
| rs_check: "rt_sender (rt_conns s b) = NotSending \<Longrightarrow> \<not> rt_stopped (rt_conns s b) \<Longrightarrow>
    agentHandle (rt_binding (rt_conns s b)) = Some h \<Longrightarrow> \<not> agent_closed (rt_agent s) \<Longrightarrow> agent_juice (rt_agent s) \<noteq> None \<Longrightarrow>
    route_step orderly s (upd_conn b (\<lambda>c. c\<lparr>rt_sender := AboutToCall\<rparr>) s)"
| rs_send: "rt_sender (rt_conns s b) = AboutToCall \<Longrightarrow>
    route_step orderly s (upd_conn b (\<lambda>c. c\<lparr>rt_sender := NotSending\<rparr>) (s\<lparr>rt_send_fault := rt_send_fault s \<or> \<not> rt_alive s\<rparr>))"
| rs_close: "rt_close s = AgentOpen \<Longrightarrow> (orderly \<longrightarrow> (\<forall>b. \<not> in_use (rt_conns s b))) \<Longrightarrow>
    route_step orderly s (s\<lparr>rt_close := AgentClosed, rt_agent := close_locked (rt_agent s)\<rparr>)"
| rs_free: "rt_close s = AgentClosed \<Longrightarrow> rt_hand s = None \<Longrightarrow>
    route_step orderly s (s\<lparr>rt_close := JuiceFreed, rt_alive := False\<rparr>)"
| rs_closed: "rt_close s = JuiceFreed \<Longrightarrow>
    route_step orderly s (s\<lparr>rt_close := CloseDone, rt_agent := close_clear (rt_agent s)\<rparr>)"

inductive route_reachable :: "bool \<Rightarrow> juice_handle \<Rightarrow> route_sys \<Rightarrow> bool" for orderly jh where
  rr_init: "route_reachable orderly jh (route_new jh)"
| rr_step: "route_reachable orderly jh s \<Longrightarrow> route_step orderly s s' \<Longrightarrow> route_reachable orderly jh s'"

inductive_cases route_stepE: "route_step orderly s s'"

section \<open>The invariant\<close>

definition binding_inv :: "nat \<Rightarrow> route_conn \<Rightarrow> bool" where
  "binding_inv b c \<longleftrightarrow>
     (agentHandle (rt_binding c), bconnection (rt_binding c)) =
     (if rt_phase c \<in> {Attached, SinkCleared} then (Some 0, Some b) else (None, None))"

text \<open>The connection whose sink the agent has.\<close>

definition sink_holder :: "agent_obj \<Rightarrow> nat option" where
  "sink_holder self = (if dataSink self = None then None else dataSinkUserPtr self)"

definition holds_sink :: "route_conn \<Rightarrow> bool" where
  "holds_sink c \<longleftrightarrow> rt_phase c \<in> {SinkSet, Attached}"

definition sink_inv :: "route_sys \<Rightarrow> bool" where
  "sink_inv s \<longleftrightarrow> dataSink (rt_agent s) = (if sink_holder (rt_agent s) = None then None else Some onReceive_fn) \<and>
     (agent_closed (rt_agent s) \<longrightarrow> sink_holder (rt_agent s) = None) \<and>
     (\<not> agent_closed (rt_agent s) \<longrightarrow> (\<forall>b. holds_sink (rt_conns s b) = (sink_holder (rt_agent s) = Some b)))"

definition log_inv :: "route_sys \<Rightarrow> bool" where
  "log_inv s \<longleftrightarrow> (\<forall>b. rt_received (rt_conns s b) = map fst (filter (\<lambda>x. snd x = ToConnection b) (rt_log s)))"

definition agent_stage_inv :: "route_sys \<Rightarrow> bool" where
  "agent_stage_inv s \<longleftrightarrow> agent_lock (rt_agent s) \<and> agent_closed (rt_agent s) = (rt_close s \<noteq> AgentOpen) \<and>
     rt_alive s = (rt_close s \<in> {AgentOpen, AgentClosed})"

definition route_inv :: "route_sys \<Rightarrow> bool" where
  "route_inv s \<longleftrightarrow> agent_stage_inv s \<and> (\<forall>b. binding_inv b (rt_conns s b)) \<and> sink_inv s \<and> \<not> rt_sink_fault s \<and> log_inv s"

lemmas route_defs = route_inv_def agent_stage_inv_def sink_inv_def log_inv_def upd_conn_def

lemma queueReceive_fields:
  "queueReceive_agent d self = (r, e, self') \<Longrightarrow> agent_lock self' = agent_lock self \<and> agent_closed self' = agent_closed self \<and>
     agent_juice self' = agent_juice self \<and> dataSink self' = dataSink self \<and> dataSinkUserPtr self' = dataSinkUserPtr self"
  by (auto simp: queueReceive_agent_def split: option.splits if_splits)

lemma set_sink_cases:
  "agent_set_sink b self = (r, self') \<Longrightarrow> r = 0 \<Longrightarrow> \<not> agent_closed self \<and> dataSink self = None \<and>
     self' = self\<lparr>dataSink := Some onReceive_fn, dataSinkUserPtr := Some b\<rparr>"
  by (auto simp: agent_set_sink_def setFFLP2PAgentNativeDataSink_def sink_of_def Let_def agent.defs split: if_splits)

lemma clear_sink_cases:
  "agent_lock self \<Longrightarrow> agent_clear_sink b self =
     (if dataSink self = Some onReceive_fn \<and> dataSinkUserPtr self = Some b
      then self\<lparr>dataSink := None, dataSinkUserPtr := None\<rparr> else self)"
  by (auto simp: agent_clear_sink_def clearFFLP2PAgentNativeDataSink_def sink_of_def agent.defs)

lemma onReceive_sink:
  "onReceive ok dup d self = ToSink f p x \<Longrightarrow> \<not> agent_closed self \<and> dataSink self = Some f \<and> dataSinkUserPtr self = p \<and> x = d"
  by (auto simp: onReceive_def split: if_splits option.splits bool.splits)

lemma upd_conn_sel [simp]:
  "rt_conns (upd_conn b f s) = (rt_conns s)(b := f (rt_conns s b))" "rt_agent (upd_conn b f s) = rt_agent s"
  "rt_alive (upd_conn b f s) = rt_alive s" "rt_close (upd_conn b f s) = rt_close s" "rt_log (upd_conn b f s) = rt_log s"
  "rt_sink_fault (upd_conn b f s) = rt_sink_fault s" "rt_send_fault (upd_conn b f s) = rt_send_fault s"
  "rt_hand (upd_conn b f s) = rt_hand s"
  by (simp_all add: upd_conn_def)

lemma route_inv_new: "route_inv (route_new jh)"
  by (simp add: route_defs route_new_def route_conn_new_def binding_new_def agent_ready_def createP2PObject_def
      binding_inv_def holds_sink_def sink_holder_def)

lemma binding_phase:
  "binding_inv b c \<Longrightarrow> (rt_phase c \<in> {Attached, SinkCleared}) = (p \<in> {Attached, SinkCleared}) \<Longrightarrow>
   binding_inv b (c\<lparr>rt_phase := p\<rparr>)"
  by (simp add: binding_inv_def)

text \<open>A change of one connection that keeps whether it holds the sink.\<close>

lemma route_inv_upd:
  assumes "route_inv s" and "binding_inv b (f (rt_conns s b))" and "holds_sink (f (rt_conns s b)) = holds_sink (rt_conns s b)"
    and "rt_received (f (rt_conns s b)) = rt_received (rt_conns s b)"
  shows "route_inv (upd_conn b f s)"
proof -
  have "holds_sink (rt_conns (upd_conn b f s) k) = holds_sink (rt_conns s k)"
    and "rt_received (rt_conns (upd_conn b f s) k) = rt_received (rt_conns s k)" for k
    using assms(3,4) by simp_all
  then have "sink_inv (upd_conn b f s)" and "log_inv (upd_conn b f s)"
    using assms(1) by (simp_all add: route_inv_def sink_inv_def log_inv_def del: upd_conn_sel(1))
  then show ?thesis using assms(1,2) by (simp add: route_inv_def agent_stage_inv_def)
qed

lemma log_inv_deliver:
  "log_inv s \<Longrightarrow> log_inv ((upd_conn b (\<lambda>c. c\<lparr>rt_received := rt_received c @ [d]\<rparr>) s)\<lparr>rt_log := rt_log s @ [(d, ToConnection b)]\<rparr>)"
  by (simp add: log_inv_def)

text \<open>Changes that only reach the log, the datagram in hand, or what a connection has received.\<close>

lemma route_inv_frame:
  assumes "route_inv s" and "rt_agent s' = rt_agent s" and "rt_close s' = rt_close s" and "rt_alive s' = rt_alive s"
    and "rt_sink_fault s' = rt_sink_fault s" and "log_inv s'"
    and "\<And>b. rt_phase (rt_conns s' b) = rt_phase (rt_conns s b)" and "\<And>b. rt_binding (rt_conns s' b) = rt_binding (rt_conns s b)"
  shows "route_inv s'"
proof -
  have "holds_sink (rt_conns s' b) = holds_sink (rt_conns s b)" "binding_inv b (rt_conns s' b) = binding_inv b (rt_conns s b)" for b
    by (simp_all add: holds_sink_def binding_inv_def assms(7,8))
  then show ?thesis using assms(1-6) by (simp add: route_inv_def agent_stage_inv_def sink_inv_def)
qed

lemma route_inv_callback:
  assumes "route_inv s"
  shows "route_inv (callback_call (onReceive ok dup d (rt_agent s)) s)"
proof (cases "onReceive ok dup d (rt_agent s)")
  case (ToSink f p x)
  note sink = onReceive_sink [OF ToSink]
  then obtain b where b: "p = Some b" and phase: "holds_sink (rt_conns s b)"
    using assms by (auto simp: route_inv_def sink_inv_def sink_holder_def split: if_splits)
  let ?c = "rt_conns s b"
  have log: "log_inv s" using assms by (simp add: route_inv_def)
  show ?thesis
  proof (cases "bconnection (rt_binding ?c) = None \<or> rt_stopped ?c")
    case True
    then have "callback_call (onReceive ok dup d (rt_agent s)) s = s\<lparr>rt_log := rt_log s @ [(x, Lost)]\<rparr>"
      using phase ToSink b by (auto simp: callback_call_def sink_call_def holds_sink_def)
    moreover have "log_inv (s\<lparr>rt_log := rt_log s @ [(x, Lost)]\<rparr>)" using log by (simp add: log_inv_def)
    ultimately show ?thesis by (simp add: route_inv_frame [OF assms])
  next
    case False
    then have "callback_call (onReceive ok dup d (rt_agent s)) s =
        (upd_conn b (\<lambda>c. c\<lparr>rt_received := rt_received c @ [x]\<rparr>) s)\<lparr>rt_log := rt_log s @ [(x, ToConnection b)]\<rparr>"
      using phase ToSink b by (auto simp: callback_call_def sink_call_def holds_sink_def)
    then show ?thesis using log_inv_deliver [OF log, of x b] by (simp add: route_inv_frame [OF assms])
  qed
next
  case (ToQueue x)
  have "log_inv (s\<lparr>rt_hand := Some x\<rparr>)" using assms by (simp add: route_inv_def log_inv_def)
  then show ?thesis using ToQueue by (simp add: callback_call_def route_inv_frame [OF assms])
qed (use assms in \<open>simp add: callback_call_def\<close>)

text \<open>A change of the agent alone that keeps its sink.\<close>

lemma route_inv_agent:
  assumes "route_inv s" and "agent_lock self" and "agent_closed self = (k \<noteq> AgentOpen)" and "a = (k \<in> {AgentOpen, AgentClosed})"
    and "if agent_closed self then dataSink self = None
      else \<not> agent_closed (rt_agent s) \<and> dataSink self = dataSink (rt_agent s) \<and> dataSinkUserPtr self = dataSinkUserPtr (rt_agent s)"
    and "rt_conns s' = rt_conns s" and "rt_agent s' = self" and "rt_close s' = k" and "rt_alive s' = a"
    and "rt_sink_fault s' = rt_sink_fault s" and "log_inv s'"
  shows "route_inv s'"
proof -
  have "sink_inv s'"
    using assms(1,5-7) by (cases "agent_closed self") (auto simp: route_inv_def sink_inv_def sink_holder_def)
  then show ?thesis using assms by (simp add: route_inv_def agent_stage_inv_def)
qed

lemma log_inv_other:
  "log_inv s \<Longrightarrow> rt_conns s' = rt_conns s \<Longrightarrow> (rt_log s' = rt_log s \<or> (\<exists>d k. rt_log s' = rt_log s @ [(d, k)] \<and> k \<in> {Lost, ToAgent})) \<Longrightarrow>
   log_inv s'"
  by (auto simp: log_inv_def)

lemma route_inv_set_sink:
  assumes inv: "route_inv s" and phase: "rt_phase (rt_conns s b) = Detached" and set: "agent_set_sink b (rt_agent s) = (r, self)"
    and r: "r = 0"
  shows "route_inv (upd_conn b (\<lambda>c. c\<lparr>rt_phase := SinkSet\<rparr>) (s\<lparr>rt_agent := self\<rparr>))"
proof -
  note self = set_sink_cases [OF set r]
  have none: "\<not> holds_sink (rt_conns s k)" for k using inv self by (simp add: route_inv_def sink_inv_def sink_holder_def)
  have "binding_inv b ((rt_conns s b)\<lparr>rt_phase := SinkSet\<rparr>)"
    using inv phase by (intro binding_phase) (simp_all add: route_inv_def)
  moreover have "sink_inv (upd_conn b (\<lambda>c. c\<lparr>rt_phase := SinkSet\<rparr>) (s\<lparr>rt_agent := self\<rparr>))"
    using self none by (simp add: sink_inv_def sink_holder_def holds_sink_def)
  ultimately show ?thesis using inv self by (simp add: route_inv_def agent_stage_inv_def log_inv_def)
qed

lemma route_inv_clear_sink:
  assumes inv: "route_inv s" and phase: "rt_phase (rt_conns s b) = Attached"
  shows "route_inv (upd_conn b (\<lambda>c. c\<lparr>rt_phase := SinkCleared\<rparr>) (s\<lparr>rt_agent := agent_clear_sink b (rt_agent s)\<rparr>))"
proof -
  let ?a = "rt_agent s"
  have lock: "agent_lock ?a" using inv by (simp add: route_inv_def agent_stage_inv_def)
  have bind: "binding_inv b ((rt_conns s b)\<lparr>rt_phase := SinkCleared\<rparr>)"
    using inv phase by (intro binding_phase) (simp_all add: route_inv_def)
  have holds: "holds_sink (rt_conns s b)" using phase by (simp add: holds_sink_def)
  have "sink_inv (upd_conn b (\<lambda>c. c\<lparr>rt_phase := SinkCleared\<rparr>) (s\<lparr>rt_agent := agent_clear_sink b ?a\<rparr>))"
  proof (cases "agent_closed ?a")
    case True
    then show ?thesis using inv clear_sink_cases [OF lock, of b] by (simp add: route_inv_def sink_inv_def sink_holder_def split: if_splits)
  next
    case False
    then have k: "holds_sink (rt_conns s k) = (k = b)" for k
      using inv holds by (simp add: route_inv_def sink_inv_def) blast
    have "agent_clear_sink b ?a = ?a\<lparr>dataSink := None, dataSinkUserPtr := None\<rparr>"
      using inv holds False clear_sink_cases [OF lock, of b] by (auto simp: route_inv_def sink_inv_def sink_holder_def split: if_splits)
    then show ?thesis using False k by (simp add: sink_inv_def sink_holder_def) (simp add: holds_sink_def)
  qed
  moreover have "agent_lock (agent_clear_sink b ?a) \<and> agent_closed (agent_clear_sink b ?a) = agent_closed ?a"
    using clear_sink_cases [OF lock, of b] lock by simp
  ultimately show ?thesis using inv bind by (simp add: route_inv_def agent_stage_inv_def log_inv_def)
qed

lemma route_inv_step:
  assumes inv: "route_inv s" and step: "route_step orderly s s'"
  shows "route_inv s'"
proof -
  have bi: "binding_inv b (rt_conns s b)" for b using inv by (simp add: route_inv_def)
  have log: "log_inv s" and stage: "agent_stage_inv s" using inv by (simp_all add: route_inv_def)
  have gone: "dataSink (rt_agent s) = None" if "agent_closed (rt_agent s)"
    using inv that by (simp add: route_inv_def sink_inv_def)
  from step show ?thesis
  proof (cases rule: route_step.cases)
    case (rs_callback ok dup d)
    then show ?thesis using route_inv_callback [OF inv] by simp
  next
    case (rs_queue d rsig esig self)
    have "log_inv s'" by (rule log_inv_other [OF log]) (use rs_queue(1) in auto)
    then show ?thesis using rs_queue(1) stage queueReceive_fields [OF rs_queue(3)]
      by (intro route_inv_agent [OF inv, where self = self]) (auto simp: agent_stage_inv_def gone)
  next
    case (rs_set_sink b r self)
    then show ?thesis using route_inv_set_sink [OF inv] inv by simp
  next
    case (rs_attach b)
    show ?thesis unfolding rs_attach(1)
      by (rule route_inv_upd [OF inv]) (use rs_attach(2) bi [of b] in \<open>simp_all add: holds_sink_def binding_inv_def\<close>)
  next
    case (rs_clear_sink b)
    then show ?thesis using route_inv_clear_sink [OF inv] by simp
  next
    case (rs_detach b)
    show ?thesis unfolding rs_detach(1)
      by (rule route_inv_upd [OF inv]) (use rs_detach(2) bi [of b] in \<open>simp_all add: holds_sink_def binding_inv_def\<close>)
  next
    case (rs_destroy b)
    show ?thesis unfolding rs_destroy(1)
      by (rule route_inv_upd [OF inv]) (use rs_destroy(2) bi [of b] in \<open>simp_all add: holds_sink_def binding_inv_def\<close>)
  next
    case (rs_stop b)
    show ?thesis unfolding rs_stop(1)
      by (rule route_inv_upd [OF inv]) (use bi [of b] in \<open>simp_all add: holds_sink_def binding_inv_def\<close>)
  next
    case (rs_check b h)
    show ?thesis unfolding rs_check(1)
      by (rule route_inv_upd [OF inv]) (use bi [of b] in \<open>simp_all add: holds_sink_def binding_inv_def\<close>)
  next
    case (rs_send b)
    have "route_inv (s\<lparr>rt_send_fault := rt_send_fault s \<or> \<not> rt_alive s\<rparr>)"
      using inv by (simp add: route_inv_def agent_stage_inv_def sink_inv_def log_inv_def)
    from route_inv_upd [OF this, of b "\<lambda>c. c\<lparr>rt_sender := NotSending\<rparr>"] show ?thesis
      using rs_send bi [of b] by (simp add: holds_sink_def binding_inv_def)
  next
    case rs_close
    have "log_inv s'" by (rule log_inv_other [OF log]) (use rs_close(1) in auto)
    then show ?thesis using rs_close stage
      by (intro route_inv_agent [OF inv, where self = "close_locked (rt_agent s)"]) (auto simp: agent_stage_inv_def close_locked_def)
  next
    case rs_free
    have "log_inv s'" by (rule log_inv_other [OF log]) (use rs_free(1) in auto)
    then show ?thesis using rs_free stage
      by (intro route_inv_agent [OF inv, where self = "rt_agent s"]) (auto simp: agent_stage_inv_def gone)
  next
    case rs_closed
    have "log_inv s'" by (rule log_inv_other [OF log]) (use rs_closed(1) in auto)
    then show ?thesis using rs_closed stage
      by (intro route_inv_agent [OF inv, where self = "close_clear (rt_agent s)"])
        (auto simp: agent_stage_inv_def close_clear_def gone)
  qed
qed

lemma route_inv_reachable: "route_reachable orderly jh s \<Longrightarrow> route_inv s"
  by (induction rule: route_reachable.induct) (auto intro: route_inv_new route_inv_step)

section \<open>What the lock promises\<close>

lemma callback_holder:
  assumes "route_inv s" and "agent_closed (rt_agent s) \<or> sink_holder (rt_agent s) = None"
  shows "rt_conns (callback_call (onReceive ok dup d (rt_agent s)) s) = rt_conns s"
proof -
  have "sink_holder (rt_agent s) = None" using assms by (auto simp: route_inv_def sink_inv_def)
  then have "dataSink (rt_agent s) = None" using assms(1) by (simp add: route_inv_def sink_inv_def)
  then show ?thesis
    using onReceive_sink [of ok dup d "rt_agent s"] by (auto simp: callback_call_def split: receive_route.split)
qed

lemma callback_sink:
  assumes inv: "route_inv s" and holder: "sink_holder (rt_agent s) = Some b"
  shows "callback_call (onReceive ok dup d (rt_agent s)) s = sink_call b d s"
proof -
  have "agent_lock (rt_agent s)" "\<not> agent_closed (rt_agent s)" "dataSinkUserPtr (rt_agent s) = Some b"
      "dataSink (rt_agent s) = Some onReceive_fn"
    using inv holder by (auto simp: route_inv_def agent_stage_inv_def sink_inv_def sink_holder_def split: if_splits)
  then show ?thesis by (simp add: onReceive_def callback_call_def)
qed

text \<open>C15. Detaching is a synchronisation point. However callbacks, attaching, detaching, destruction and closing
  interleave, no callback reaches a connection that has been destroyed, and a datagram that libjuice delivers is
  given to a connection exactly when its attaching is complete, its detaching has not begun, it has not stopped
  and the agent has not been closed.\<close>

theorem sink_synchronises:
  assumes "route_reachable orderly jh s"
  shows "\<not> rt_sink_fault s \<and>
    (let s' = callback_call (onReceive ok dup d (rt_agent s)) s in
      \<not> rt_sink_fault s' \<and>
      (\<forall>b. rt_received (rt_conns s' b) = rt_received (rt_conns s b) @
         (if rt_phase (rt_conns s b) = Attached \<and> \<not> rt_stopped (rt_conns s b) \<and> \<not> agent_closed (rt_agent s)
          then [d] else [])))"
proof -
  have inv: "route_inv s" by (rule route_inv_reachable [OF assms])
  then have after: "\<not> rt_sink_fault (callback_call (onReceive ok dup d (rt_agent s)) s)"
    using route_inv_callback [OF inv] by (simp add: route_inv_def)
  show ?thesis
  proof (cases "agent_closed (rt_agent s) \<or> sink_holder (rt_agent s) = None")
    case True
    then have "agent_closed (rt_agent s) \<or> (\<forall>b. rt_phase (rt_conns s b) \<noteq> Attached)"
      using inv by (auto simp: route_inv_def sink_inv_def holds_sink_def)
    then show ?thesis using callback_holder [OF inv True, of ok dup d] after inv by (auto simp: Let_def route_inv_def)
  next
    case False
    then obtain k where k: "sink_holder (rt_agent s) = Some k" and opened: "\<not> agent_closed (rt_agent s)" by blast
    then have holds: "holds_sink (rt_conns s b) = (b = k)" for b
      using inv by (auto simp: route_inv_def sink_inv_def)
    have other: "rt_phase (rt_conns s b) \<noteq> Attached" if "b \<noteq> k" for b using that holds [of b] by (simp add: holds_sink_def)
    let ?s = "callback_call (onReceive ok dup d (rt_agent s)) s"
    have "rt_phase (rt_conns s k) = SinkSet \<and> bconnection (rt_binding (rt_conns s k)) = None \<or>
        rt_phase (rt_conns s k) = Attached \<and> bconnection (rt_binding (rt_conns s k)) = Some k"
    proof -
      have "binding_inv k (rt_conns s k)" using inv by (simp add: route_inv_def)
      then show ?thesis using holds [of k] by (auto simp: holds_sink_def binding_inv_def)
    qed
    then have "rt_received (rt_conns ?s b) = rt_received (rt_conns s b) @
        (if rt_phase (rt_conns s b) = Attached \<and> \<not> rt_stopped (rt_conns s b) then [d] else [])" for b
      using callback_sink [OF inv k, of ok dup d] other [of b] by (cases "b = k") (auto simp: sink_call_def Let_def)
    then show ?thesis using after inv opened by (simp add: Let_def route_inv_def)
  qed
qed

section \<open>Sending and closing\<close>

text \<open>While the application keeps the order, a worker between its check and its call protects the agent.\<close>

definition orderly_inv :: "route_sys \<Rightarrow> bool" where
  "orderly_inv s \<longleftrightarrow> \<not> rt_send_fault s \<and>
     (\<forall>b. (rt_sender (rt_conns s b) = AboutToCall \<longrightarrow>
         rt_phase (rt_conns s b) = Attached \<and> \<not> rt_stopped (rt_conns s b) \<and> \<not> agent_closed (rt_agent s)) \<and>
       (rt_phase (rt_conns s b) = SinkCleared \<longrightarrow> rt_stopped (rt_conns s b)))"

lemma orderly_step:
  assumes inv: "route_inv s" and I: "orderly_inv s" and step: "route_step True s s'"
  shows "orderly_inv s'"
  using step
proof (cases rule: route_step.cases)
  case (rs_callback ok dup d)
  show ?thesis
  proof (cases "agent_closed (rt_agent s) \<or> sink_holder (rt_agent s) = None")
    case True
    then show ?thesis using callback_holder [OF inv True, of ok dup d] rs_callback I
      by (auto simp: orderly_inv_def callback_call_def sink_call_def Let_def split: receive_route.split option.split)
  next
    case False
    then obtain k where "sink_holder (rt_agent s) = Some k" by blast
    then show ?thesis using callback_sink [OF inv, of k ok dup d] rs_callback I
      by (auto simp: orderly_inv_def sink_call_def Let_def)
  qed
next
  case (rs_queue d rsig esig self)
  then show ?thesis using I queueReceive_fields [OF rs_queue(3)] by (simp add: orderly_inv_def)
next
  case (rs_set_sink b r self)
  then show ?thesis using I set_sink_cases [OF rs_set_sink(3)] by (auto simp: orderly_inv_def)
next
  case (rs_clear_sink b)
  have "agent_lock (rt_agent s)" using inv by (simp add: route_inv_def agent_stage_inv_def)
  then show ?thesis using rs_clear_sink I clear_sink_cases [of "rt_agent s" b] by (auto simp: orderly_inv_def)
next
  case (rs_check b h)
  have "rt_phase (rt_conns s b) \<in> {Attached, SinkCleared}"
  proof -
    have "binding_inv b (rt_conns s b)" using inv by (simp add: route_inv_def)
    then show ?thesis using rs_check(4) by (simp add: binding_inv_def split: if_splits)
  qed
  then show ?thesis using rs_check I by (auto simp: orderly_inv_def)
next
  case (rs_send b)
  then have "rt_alive s" using inv I by (auto simp: route_inv_def agent_stage_inv_def orderly_inv_def)
  then show ?thesis using rs_send I by (auto simp: orderly_inv_def)
next
  case rs_close
  then have "rt_sender (rt_conns s b) = NotSending" for b
    using I by (cases "rt_sender (rt_conns s b)") (auto simp: orderly_inv_def in_use_def)
  then show ?thesis using rs_close I by (auto simp: orderly_inv_def)
qed (use I in \<open>auto simp: orderly_inv_def close_clear_def\<close>)

lemma orderly_reachable: "route_reachable True jh s \<Longrightarrow> orderly_inv s"
proof (induction rule: route_reachable.induct)
  case rr_init
  then show ?case by (simp add: orderly_inv_def route_new_def route_conn_new_def)
next
  case (rr_step s s')
  then show ?case using orderly_step [OF route_inv_reachable] by blast
qed

text \<open>A concrete run: connection 3 is attached, and its worker passes the check of a send.\<close>

definition demo_route :: "juice_handle \<Rightarrow> route_sys" where
  "demo_route jh = upd_conn 3 (\<lambda>c. c\<lparr>rt_phase := Attached,
      rt_binding := (rt_binding c)\<lparr>agentHandle := Some 0, bconnection := Some 3\<rparr>\<rparr>)
    (upd_conn 3 (\<lambda>c. c\<lparr>rt_phase := SinkSet\<rparr>)
      ((route_new jh)\<lparr>rt_agent := (agent_ready jh)\<lparr>dataSink := Some onReceive_fn, dataSinkUserPtr := Some 3\<rparr>\<rparr>))"

lemma demo_route_reachable: "route_reachable orderly jh (demo_route jh)"
proof -
  have "agent_set_sink 3 (rt_agent (route_new jh)) = (0, (agent_ready jh)\<lparr>dataSink := Some onReceive_fn, dataSinkUserPtr := Some 3\<rparr>)"
    by (simp add: route_new_def agent_set_sink_def setFFLP2PAgentNativeDataSink_def sink_of_def agent_ready_def createP2PObject_def agent.defs)
  from rs_set_sink [OF _ this, of orderly]
  have "route_step orderly (route_new jh) (upd_conn 3 (\<lambda>c. c\<lparr>rt_phase := SinkSet\<rparr>)
      ((route_new jh)\<lparr>rt_agent := (agent_ready jh)\<lparr>dataSink := Some onReceive_fn, dataSinkUserPtr := Some 3\<rparr>\<rparr>))"
    by (simp add: route_new_def route_conn_new_def)
  from rr_step [OF rr_init this] show ?thesis
    unfolding demo_route_def by (rule rr_step) (rule rs_attach, simp)
qed

theorem sink_synchronises_witness:
  "\<exists>s. route_reachable True \<lparr>jh_agent = Some 7\<rparr> s \<and>
     rt_received (rt_conns (callback_call (onReceive True True [1, 2] (rt_agent s)) s) 3) = [[1, 2]]"
proof -
  have "rt_phase (rt_conns (demo_route jh) 3) = Attached \<and> \<not> rt_stopped (rt_conns (demo_route jh) 3) \<and>
      \<not> agent_closed (rt_agent (demo_route jh)) \<and> rt_received (rt_conns (demo_route jh) 3) = []" for jh
    by (simp add: demo_route_def route_new_def route_conn_new_def agent_ready_def createP2PObject_def)
  then show ?thesis
    using sink_synchronises [OF demo_route_reachable [of True "\<lparr>jh_agent = Some 7\<rparr>"], of True True "[1, 2]"]
      demo_route_reachable [of True "\<lparr>jh_agent = Some 7\<rparr>"] by (auto simp: Let_def)
qed

text \<open>C19. Closing an agent does not wait for its senders: \<open>sendFFLP2PAgentNative\<close> reads the agent without the
  lock, so libjuice can be called after \<open>closeAgent\<close> has freed it. This happens in some run if the application
  may close the agent, or give up waiting for a connection, at any time; if connections stop first, in none.\<close>

theorem send_after_free:
  "(\<exists>s. route_reachable orderly jh s \<and> rt_send_fault s) \<longleftrightarrow> \<not> orderly"
proof (cases orderly)
  case True
  then show ?thesis using orderly_reachable by (auto simp: orderly_inv_def)
next
  case False
  let ?s0 = "demo_route jh"
  let ?s1 = "upd_conn 3 (\<lambda>c. c\<lparr>rt_sender := AboutToCall\<rparr>) ?s0"
  let ?s2 = "?s1\<lparr>rt_close := AgentClosed, rt_agent := close_locked (rt_agent ?s1)\<rparr>"
  let ?s3 = "?s2\<lparr>rt_close := JuiceFreed, rt_alive := False\<rparr>"
  let ?s4 = "upd_conn 3 (\<lambda>c. c\<lparr>rt_sender := NotSending\<rparr>) (?s3\<lparr>rt_send_fault := rt_send_fault ?s3 \<or> \<not> rt_alive ?s3\<rparr>)"
  have fields: "rt_sender (rt_conns ?s0 3) = NotSending" "\<not> rt_stopped (rt_conns ?s0 3)"
      "agentHandle (rt_binding (rt_conns ?s0 3)) = Some 0" "\<not> agent_closed (rt_agent ?s0)" "agent_juice (rt_agent ?s0) \<noteq> None"
      "rt_close ?s0 = AgentOpen" "rt_hand ?s0 = None"
    by (simp_all add: demo_route_def route_new_def route_conn_new_def agent_ready_def createP2PObject_def)
  have "route_step orderly ?s0 ?s1" by (rule rs_check [OF fields(1-5)])
  moreover have "route_step orderly ?s1 ?s2" by (rule rs_close) (simp_all add: fields False)
  moreover have "route_step orderly ?s2 ?s3" by (rule rs_free) (simp_all add: fields)
  moreover have "route_step orderly ?s3 ?s4" by (rule rs_send) simp
  ultimately have "route_reachable orderly jh ?s4" using demo_route_reachable by (meson rr_step)
  moreover have "rt_send_fault ?s4" by simp
  ultimately show ?thesis using False by blast
qed

end
