(* ===== verification/Atomics.thy ===== *)
theory Atomics
  imports Prelude
begin

text \<open>
  Counters that several threads update through \<open>std::atomic\<close>, as the diagnostics classes use them: a
  thread is a program whose instructions are single atomic accesses, and the accesses of all threads
  interleave. The loop of \<open>updateMaximum\<close> is a load and any number of compare-and-exchange attempts,
  which may also fail without a reason. Its executions are those of one atomic maximum, and no schedule
  keeps the threads busy for longer than their work and its own spurious failures account for.
\<close>

section \<open>Programs of atomic accesses\<close>

type_synonym 'k cells = "'k \<Rightarrow> u64"

text \<open>\<open>Maximum\<close> is \<open>updateMaximum\<close> before its load, \<open>CasLoop\<close> its loop with the local variables
  \<open>candidate\<close> and \<open>current\<close>.\<close>

datatype ('k, 'a) prog =
    Finished 'a
  | FetchAdd 'k u64 "('k, 'a) prog"
  | StoreAtomic 'k u64 "('k, 'a) prog"
  | LoadAtomic 'k "u64 \<Rightarrow> ('k, 'a) prog"
  | Exchange 'k u64 "u64 \<Rightarrow> ('k, 'a) prog"
  | Maximum 'k u64 "('k, 'a) prog"
  | CasLoop 'k u64 u64 "('k, 'a) prog"

primrec bindP :: "('k, 'a) prog \<Rightarrow> ('a \<Rightarrow> ('k, 'b) prog) \<Rightarrow> ('k, 'b) prog" where
  "bindP (Finished x) g = g x"
| "bindP (FetchAdd k v p) g = FetchAdd k v (bindP p g)"
| "bindP (StoreAtomic k v p) g = StoreAtomic k v (bindP p g)"
| "bindP (LoadAtomic k f) g = LoadAtomic k (\<lambda>v. bindP (f v) g)"
| "bindP (Exchange k v f) g = Exchange k v (\<lambda>old. bindP (f old) g)"
| "bindP (Maximum k c p) g = Maximum k c (bindP p g)"
| "bindP (CasLoop k c cur p) g = CasLoop k c cur (bindP p g)"

definition fetch_add :: "'k \<Rightarrow> u64 \<Rightarrow> ('k, unit) prog" where
  "fetch_add k v = FetchAdd k v (Finished ())"

definition store_atomic :: "'k \<Rightarrow> u64 \<Rightarrow> ('k, unit) prog" where
  "store_atomic k v = StoreAtomic k v (Finished ())"

definition exchange_atomic :: "'k \<Rightarrow> u64 \<Rightarrow> ('k, u64) prog" where
  "exchange_atomic k v = Exchange k v Finished"

definition load_atomic :: "'k \<Rightarrow> ('k, u64) prog" where
  "load_atomic k = LoadAtomic k Finished"

definition updateMaximum :: "'k \<Rightarrow> u64 \<Rightarrow> ('k, unit) prog" where
  "updateMaximum k candidate = Maximum k candidate (Finished ())"

definition whenP :: "bool \<Rightarrow> ('k, unit) prog \<Rightarrow> ('k, unit) prog" where
  "whenP b p = (if b then p else Finished ())"

fun blockP :: "('k, unit) prog list \<Rightarrow> ('k, unit) prog" where
  "blockP [] = Finished ()"
| "blockP (p # ps) = bindP p (\<lambda>_. blockP ps)"

lemmas prog_defs = fetch_add_def store_atomic_def exchange_atomic_def load_atomic_def updateMaximum_def whenP_def

fun finished :: "('k, 'a) prog \<Rightarrow> bool" where
  "finished (Finished _) = True"
| "finished _ = False"

lemma finished_iff: "finished p \<longleftrightarrow> (\<exists>x. p = Finished x)"
  by (cases p) simp_all

section \<open>Steps\<close>

text \<open>One access. With \<open>spurious\<close>, a compare-and-exchange fails although it sees the value it expects; a failed one
  leaves the value it has seen in \<open>current\<close>.\<close>

fun prog_step :: "bool \<Rightarrow> ('k, 'a) prog \<Rightarrow> 'k cells \<Rightarrow> ('k, 'a) prog \<times> 'k cells" where
  "prog_step spurious (Finished x) s = (Finished x, s)"
| "prog_step spurious (FetchAdd k v p) s = (p, s(k := s k + v))"
| "prog_step spurious (StoreAtomic k v p) s = (p, s(k := v))"
| "prog_step spurious (LoadAtomic k f) s = (f (s k), s)"
| "prog_step spurious (Exchange k v f) s = (f (s k), s(k := v))"
| "prog_step spurious (Maximum k candidate p) s = (CasLoop k candidate (s k) p, s)"
| "prog_step spurious (CasLoop k candidate current p) s =
     (if candidate > current
      then if s k = current \<and> \<not> spurious then (p, s(k := candidate)) else (CasLoop k candidate (s k) p, s)
      else (p, s))"

text \<open>The reference: the maximum as one access.\<close>

fun atomic_step :: "('k, 'a) prog \<Rightarrow> 'k cells \<Rightarrow> ('k, 'a) prog \<times> 'k cells" where
  "atomic_step (Maximum k candidate p) s = (p, s(k := max (s k) candidate))"
| "atomic_step p s = prog_step False p s"

type_synonym ('k, 'a) threads = "('k, 'a) prog list \<times> 'k cells"

text \<open>Runs of \<open>n\<close> steps of which \<open>f\<close> are spurious failures.\<close>

inductive threads_run :: "('k, 'a) threads \<Rightarrow> nat \<Rightarrow> nat \<Rightarrow> ('k, 'a) threads \<Rightarrow> bool" for c0 where
  run_start: "threads_run c0 0 0 c0"
| run_step: "threads_run c0 n f (ps, s) \<Longrightarrow> i < length ps \<Longrightarrow> \<not> finished (ps ! i) \<Longrightarrow>
    prog_step spurious (ps ! i) s = (p', s') \<Longrightarrow> threads_run c0 (Suc n) (if spurious then Suc f else f) (ps[i := p'], s')"

inductive atomic_run :: "('k, 'a) threads \<Rightarrow> ('k, 'a) threads \<Rightarrow> bool" for c0 where
  atomic_start: "atomic_run c0 c0"
| atomic_next: "atomic_run c0 (ps, s) \<Longrightarrow> i < length ps \<Longrightarrow> \<not> finished (ps ! i) \<Longrightarrow>
    atomic_step (ps ! i) s = (p', s') \<Longrightarrow> atomic_run c0 (ps[i := p'], s')"

lemma threads_length: "threads_run c0 n f c \<Longrightarrow> length (fst c) = length (fst c0)"
  by (induction rule: threads_run.induct) auto

section \<open>Simulation\<close>

text \<open>A loop that will be left has had its effect when it loaded a value that is not below the candidate.\<close>

primrec abs_prog :: "('k, 'a) prog \<Rightarrow> ('k, 'a) prog" where
  "abs_prog (Finished x) = Finished x"
| "abs_prog (FetchAdd k v p) = FetchAdd k v (abs_prog p)"
| "abs_prog (StoreAtomic k v p) = StoreAtomic k v (abs_prog p)"
| "abs_prog (LoadAtomic k f) = LoadAtomic k (\<lambda>v. abs_prog (f v))"
| "abs_prog (Exchange k v f) = Exchange k v (\<lambda>v. abs_prog (f v))"
| "abs_prog (Maximum k c p) = Maximum k c (abs_prog p)"
| "abs_prog (CasLoop k c cur p) = (if c > cur then Maximum k c (abs_prog p) else abs_prog p)"

lemma abs_step:
  assumes "prog_step spurious p s = (p', s')" and "\<not> finished p"
  shows "abs_prog p' = abs_prog p \<and> s' = s \<or>
    \<not> finished (abs_prog p) \<and> atomic_step (abs_prog p) s = (abs_prog p', s')"
  using assms by (cases p) (auto simp: max_def split: if_splits)

lemma threads_simulated:
  assumes "threads_run (ps0, s0) n f c"
  shows "atomic_run (map abs_prog ps0, s0) (map abs_prog (fst c), snd c)"
  using assms
proof (induction rule: threads_run.induct)
  case run_start
  then show ?case by (simp add: atomic_start)
next
  case (run_step n f ps s i spurious p' s')
  let ?q = "abs_prog (ps ! i)"
  have here: "map abs_prog ps ! i = ?q" using run_step.hyps(2) by simp
  from abs_step [OF run_step.hyps(4,3)] show ?case
  proof
    assume "abs_prog p' = ?q \<and> s' = s"
    moreover have "(map abs_prog ps)[i := ?q] = map abs_prog ps" using list_update_id [of "map abs_prog ps" i] here by simp
    ultimately show ?thesis using run_step.IH by (simp add: map_update)
  next
    assume step: "\<not> finished ?q \<and> atomic_step ?q s = (abs_prog p', s')"
    have "atomic_run (map abs_prog ps0, s0) (map abs_prog ps, s)" using run_step.IH by simp
    from atomic_next [OF this, of i "abs_prog p'" s'] step show ?thesis
      using run_step.hyps(2) by (simp add: map_update)
  qed
qed

text \<open>What a thread starts with contains no loop that is under way.\<close>

lemma abs_bind: "abs_prog (bindP p g) = bindP (abs_prog p) (\<lambda>x. abs_prog (g x))"
  by (induction p) simp_all

lemma abs_prim [simp]:
  "abs_prog (fetch_add k v) = fetch_add k v" "abs_prog (store_atomic k v) = store_atomic k v"
  "abs_prog (exchange_atomic k v) = exchange_atomic k v" "abs_prog (load_atomic k) = load_atomic k"
  "abs_prog (updateMaximum k v) = updateMaximum k v"
  by (simp_all add: prog_defs)

lemma abs_when [simp]: "abs_prog (whenP b p) = whenP b (abs_prog p)"
  by (simp add: whenP_def)

lemma abs_block [simp]: "abs_prog (blockP ps) = blockP (map abs_prog ps)"
  by (induction ps) (simp_all add: abs_bind)

lemma threads_atomic:
  assumes "threads_run (ps0, s0) n f (ps, s)" and "map abs_prog ps0 = ps0"
  shows "atomic_run (ps0, s0) (map abs_prog ps, s)"
  using threads_simulated [OF assms(1)] assms(2) by simp

lemma finished_abs: "finished p \<Longrightarrow> abs_prog p = p"
  by (cases p) simp_all

section \<open>Invariants of atomic runs\<close>

text \<open>A state predicate and a measure for each program, kept by a step together.\<close>

lemma atomic_run_inv:
  assumes "atomic_run (ps0, s0) (ps, s)" and "I ps0 s0"
    and "\<And>ps s i p' s'. I ps s \<Longrightarrow> i < length ps \<Longrightarrow> \<not> finished (ps ! i) \<Longrightarrow> atomic_step (ps ! i) s = (p', s') \<Longrightarrow>
      I (ps[i := p']) s'"
  shows "I ps s"
proof -
  have "I (fst c) (snd c)" if "atomic_run (ps0, s0) c" for c
    using that by (induction rule: atomic_run.induct) (auto simp: assms(2) intro: assms(3))
  from this [OF assms(1)] show ?thesis by simp
qed

subsection \<open>Sums and maxima\<close>

text \<open>What a program adds to a counter, or the greatest value it gives to a maximum, when this does not depend on the
  values it reads.\<close>

datatype tally = Sum | Peak

fun combine :: "tally \<Rightarrow> u64 \<Rightarrow> u64 \<Rightarrow> u64" where
  "combine Sum x y = x + y"
| "combine Peak x y = max x y"

lemma combine_laws:
  "combine md (combine md x y) z = combine md x (combine md y z)" "combine md x y = combine md y x"
  "combine md x (combine md y z) = combine md y (combine md x z)" "combine md 0 x = x" "combine md x 0 = x"
  by (cases md; simp add: max.assoc max.commute max.left_commute add_ac)+

definition total :: "tally \<Rightarrow> u64 list \<Rightarrow> u64" where
  "total md xs = foldr (combine md) xs 0"

lemma total_simps [simp]: "total md [] = 0" "total md (x # xs) = combine md x (total md xs)"
  by (simp_all add: total_def)

lemma total_append [simp]: "total md (xs @ ys) = combine md (total md xs) (total md ys)"
  by (induction xs) (simp_all add: combine_laws)

lemma total_concat: "total md (concat xss) = total md (map (total md) xss)"
  by (induction xss) simp_all

lemma total_update: "i < length xs \<Longrightarrow> combine md (xs ! i) x = combine md y z \<Longrightarrow>
    combine md (total md xs) x = combine md (total md (xs[i := y])) z"
proof (induction xs arbitrary: i)
  case (Cons a xs)
  show ?case
  proof (cases i)
    case 0
    then have "combine md (combine md a x) (total md xs) = combine md (combine md y z) (total md xs)"
      using Cons.prems by simp
    then show ?thesis using 0 by (simp add: combine_laws(1,2,3))
  next
    case (Suc j)
    then have "combine md (total md xs) x = combine md (total md (xs[j := y])) z" using Cons by simp
    then show ?thesis using Suc by (simp add: combine_laws(1))
  qed
qed simp

inductive yields :: "tally \<Rightarrow> 'k \<Rightarrow> ('k, 'a) prog \<Rightarrow> u64 \<Rightarrow> bool" for md k where
  yields_finished: "yields md k (Finished x) 0"
| yields_add: "yields md k p x \<Longrightarrow> (j = k \<longrightarrow> md = Sum) \<Longrightarrow> y = (if j = k then combine md v x else x) \<Longrightarrow>
    yields md k (FetchAdd j v p) y"
| yields_max: "yields md k p x \<Longrightarrow> (j = k \<longrightarrow> md = Peak) \<Longrightarrow> y = (if j = k then combine md v x else x) \<Longrightarrow>
    yields md k (Maximum j v p) y"
| yields_store: "yields md k p x \<Longrightarrow> j \<noteq> k \<Longrightarrow> yields md k (StoreAtomic j v p) x"
| yields_load: "(\<And>v. yields md k (f v) x) \<Longrightarrow> yields md k (LoadAtomic j f) x"
| yields_exchange: "(\<And>v. yields md k (f v) x) \<Longrightarrow> j \<noteq> k \<Longrightarrow> yields md k (Exchange j v f) x"

lemma yields_step:
  assumes "yields md k p x" and "\<not> finished p" and "atomic_step p s = (p', s')"
  shows "\<exists>x'. yields md k p' x' \<and> combine md x (s k) = combine md x' (s' k)"
  using assms(1)
proof (cases rule: yields.cases)
  case (yields_add q z j v)
  then show ?thesis using assms(3) by (auto simp: add_ac)
next
  case (yields_max q z j v)
  then show ?thesis using assms(3) by (auto simp: max.assoc max.commute max.left_commute intro!: exI [of _ z])
qed (use assms(2,3) in \<open>auto intro!: exI [of _ x]\<close>)

lemma yields_bind:
  "yields md k p x \<Longrightarrow> (\<And>a. yields md k (g a) z) \<Longrightarrow> y = combine md x z \<Longrightarrow> yields md k (bindP p g) y"
  by (induction arbitrary: y rule: yields.induct) (auto intro!: yields.intros simp: combine_laws add_ac max.assoc max.commute max.left_commute)


lemma yields_zeros: "list_all2 (yields md k) ps xs \<Longrightarrow> \<forall>p\<in>set ps. finished p \<Longrightarrow> total md xs = 0"
  by (induction rule: list_all2_induct) (auto simp: finished_iff combine_laws elim: yields.cases)

lemma total_at_rest:
  assumes "threads_run (ps0, s0) n f (ps, s)" and "map abs_prog ps0 = ps0" and "list_all2 (yields md k) ps0 xs"
    and "\<forall>p\<in>set ps. finished p"
  shows "s k = combine md (total md xs) (s0 k)"
proof -
  let ?I = "\<lambda>ps s. \<exists>ys. list_all2 (yields md k) ps ys \<and> combine md (total md ys) (s k) = combine md (total md xs) (s0 k)"
  have "map abs_prog ps = ps" using assms(4) by (induction ps) (auto simp: finished_abs)
  then have "atomic_run (ps0, s0) (ps, s)" using threads_atomic [OF assms(1,2)] by simp
  then have "?I ps s"
  proof (rule atomic_run_inv)
    show "?I ps0 s0" using assms(3) by blast
    fix ps s i p' s'
    assume "?I ps s" and i: "i < length ps" and step: "\<not> finished (ps ! i)" "atomic_step (ps ! i) s = (p', s')"
    then obtain ys where ys: "list_all2 (yields md k) ps ys" "combine md (total md ys) (s k) = combine md (total md xs) (s0 k)"
      by blast
    from yields_step [OF list_all2_nthD [OF ys(1) i] step] obtain y where
      y: "yields md k p' y" "combine md (ys ! i) (s k) = combine md y (s' k)" by blast
    have "combine md (total md ys) (s k) = combine md (total md (ys[i := y])) (s' k)"
      using i ys(1) y(2) by (intro total_update) (simp_all add: list_all2_lengthD [symmetric])
    then show "?I (ps[i := p']) s'" using ys y(1) by (auto intro!: exI [of _ "ys[i := y]"] list_all2_update_cong)
  qed
  then obtain ys where "list_all2 (yields md k) ps ys" "combine md (total md ys) (s k) = combine md (total md xs) (s0 k)"
    by blast
  then show ?thesis using yields_zeros [of md k ps ys] assms(4) by (simp add: combine_laws)
qed

subsection \<open>Types\<close>

text \<open>The cells have the width of their declaration; \<open>fetch_add\<close> is used on 64 bits only.\<close>

datatype width = Wide | Narrow | Flag

fun fits :: "width \<Rightarrow> u64 \<Rightarrow> bool" where
  "fits Wide v = True"
| "fits Narrow v = (v < 2 ^ 32)"
| "fits Flag v = (v \<le> 1)"

inductive typed :: "('k \<Rightarrow> width) \<Rightarrow> ('a \<Rightarrow> bool) \<Rightarrow> ('k, 'a) prog \<Rightarrow> bool" for w R where
  typed_finished: "R x \<Longrightarrow> typed w R (Finished x)"
| typed_add: "typed w R p \<Longrightarrow> w j = Wide \<Longrightarrow> typed w R (FetchAdd j v p)"
| typed_max: "typed w R p \<Longrightarrow> fits (w j) v \<Longrightarrow> typed w R (Maximum j v p)"
| typed_store: "typed w R p \<Longrightarrow> fits (w j) v \<Longrightarrow> typed w R (StoreAtomic j v p)"
| typed_load: "(\<And>v. fits (w j) v \<Longrightarrow> typed w R (f v)) \<Longrightarrow> typed w R (LoadAtomic j f)"
| typed_exchange: "(\<And>old. fits (w j) old \<Longrightarrow> typed w R (f old)) \<Longrightarrow> fits (w j) v \<Longrightarrow> typed w R (Exchange j v f)"

lemma typed_step:
  assumes "typed w R p" and "\<forall>k. fits (w k) (s k)" and "atomic_step p s = (p', s')" and "\<not> finished p"
  shows "typed w R p' \<and> (\<forall>k. fits (w k) (s' k))"
  using assms by (cases rule: typed.cases) (auto simp: max_def)

lemma typed_bind: "typed w S p \<Longrightarrow> (\<And>a. S a \<Longrightarrow> typed w R (g a)) \<Longrightarrow> typed w R (bindP p g)"
  by (induction rule: typed.induct) (auto intro: typed.intros)

lemma typed_run:
  assumes "threads_run (ps0, s0) n f (ps, s)" and "map abs_prog ps0 = ps0" and "\<forall>p\<in>set ps0. typed w R p"
    and "\<forall>k. fits (w k) (s0 k)"
  shows "(\<forall>k. fits (w k) (s k)) \<and> (\<forall>x. Finished x \<in> set ps \<longrightarrow> R x)"
proof -
  let ?I = "\<lambda>ps s. (\<forall>p\<in>set ps. typed w R p) \<and> (\<forall>k. fits (w k) (s k))"
  from threads_atomic [OF assms(1,2)] have "?I (map abs_prog ps) s"
  proof (rule atomic_run_inv)
    show "?I ps0 s0" using assms(3,4) by simp
    show "?I (ps[i := p']) s'" if "?I ps s" "i < length ps" "\<not> finished (ps ! i)" "atomic_step (ps ! i) s = (p', s')" for ps s i p' s'
      using that typed_step [of w R "ps ! i" s p' s'] by (fastforce dest!: set_update_subset_insert [THEN subsetD])
  qed
  moreover have "typed w R (Finished x) \<Longrightarrow> R x" for x by (auto elim: typed.cases)
  ultimately show ?thesis by (force simp: image_iff)
qed

section \<open>Progress\<close>

text \<open>An upper bound of the accesses a program makes, the attempts that fail not counted.\<close>

inductive lasts :: "('k, 'a) prog \<Rightarrow> nat \<Rightarrow> bool" where
  lasts_finished: "lasts (Finished x) n"
| lasts_add: "lasts p n \<Longrightarrow> n < m \<Longrightarrow> lasts (FetchAdd j v p) m"
| lasts_store: "lasts p n \<Longrightarrow> n < m \<Longrightarrow> lasts (StoreAtomic j v p) m"
| lasts_load: "(\<And>v. lasts (f v) n) \<Longrightarrow> n < m \<Longrightarrow> lasts (LoadAtomic j f) m"
| lasts_exchange: "(\<And>v. lasts (f v) n) \<Longrightarrow> n < m \<Longrightarrow> lasts (Exchange j v f) m"
| lasts_max: "lasts p n \<Longrightarrow> Suc n < m \<Longrightarrow> lasts (Maximum j v p) m"
| lasts_loop: "lasts p n \<Longrightarrow> n < m \<Longrightarrow> lasts (CasLoop j v c p) m"

lemma lasts_more: "lasts p n \<Longrightarrow> n \<le> m \<Longrightarrow> lasts p m"
  by (induction arbitrary: m rule: lasts.induct) (auto intro: lasts.intros dest: order_less_le_trans)

lemma lasts_bind: "lasts p n \<Longrightarrow> (\<And>a. lasts (g a) m) \<Longrightarrow> lasts (bindP p g) (n + m)"
proof (induction rule: lasts.induct)
  case (lasts_finished x n)
  then show ?case by (simp add: lasts_more [of _ m])
next
  case (lasts_load f n d j)
  then show ?case by (auto intro: lasts.lasts_load [where n = "n + m"])
next
  case (lasts_exchange f n d j v)
  then show ?case by (auto intro: lasts.lasts_exchange [where n = "n + m"])
qed (auto intro: lasts.intros)

inductive_simps lasts_simps:
  "lasts (Finished x) m" "lasts (FetchAdd j v p) m" "lasts (StoreAtomic j v p) m" "lasts (Maximum j v p) m"
  "lasts (Exchange j v f) m"

lemma lasts_below: "(\<exists>n. lasts p n \<and> n < m) = (0 < m \<and> lasts p (m - 1))"
  by (cases m) (auto intro: lasts_more)

lemma lasts_all_below: "(\<exists>n. (\<forall>v. lasts (f v) n) \<and> n < m) = (0 < m \<and> (\<forall>v. lasts (f v) (m - 1)))"
  by (cases m) (auto intro: lasts_more)

lemma lasts_code:
  "lasts (Finished x) m" "lasts (FetchAdd j v p) m = (0 < m \<and> lasts p (m - 1))"
  "lasts (StoreAtomic j v p) m = (0 < m \<and> lasts p (m - 1))" "lasts (Maximum j v p) m = (1 < m \<and> lasts p (m - 2))"
  "lasts (Exchange j v f) m = (0 < m \<and> (\<forall>u. lasts (f u) (m - 1)))"
  using lasts_below [of p m] lasts_below [of p "m - 1"] lasts_all_below [of f m]
  by (simp_all add: lasts_simps Suc_less_eq2 less_diff_conv numeral_2_eq_2)

text \<open>A loop is stale if the cell has changed since it looked.\<close>

fun stale :: "'k cells \<Rightarrow> ('k, 'a) prog \<Rightarrow> bool" where
  "stale s (CasLoop k c cur p) = (c > cur \<and> s k \<noteq> cur)"
| "stale s p = False"

lemma lasts_step:
  assumes "lasts p d" and "\<not> finished p" and "prog_step spurious p s = (p', s')"
  shows "(\<exists>e. lasts p' e \<and> e < d) \<or> lasts p' d \<and> s' = s \<and> \<not> stale s p' \<and> (spurious \<or> stale s p)"
  using assms by (cases rule: lasts.cases) (auto split: if_splits intro: lasts.intros)

definition stales :: "'k cells \<Rightarrow> ('k, 'a) prog list \<Rightarrow> nat" where
  "stales s ps = sum_list (map (\<lambda>p. if stale s p then 1 else 0) ps)"

lemma not_stale:
  assumes "abs_prog p = p"
  shows "\<not> stale s p"
proof -
  have "abs_prog p \<noteq> CasLoop k c cur q" for k c cur q by (induction p) auto
  then show ?thesis using assms by (cases p) auto
qed

lemma stales_le: "stales s ps \<le> length ps"
  unfolding stales_def by (induction ps) simp_all

lemma stales_update:
  "i < length ps \<Longrightarrow> \<not> stale s p' \<Longrightarrow> stales s (ps[i := p']) + (if stale s (ps ! i) then 1 else 0) = stales s ps"
  unfolding stales_def using elem_le_sum_list [of i "map (\<lambda>p. if stale s p then 1 else 0 :: nat) ps"]
  by (cases "stale s (ps ! i)") (simp_all add: map_update sum_list_update)

lemma run_bounded:
  assumes "threads_run (ps0, s0) n f c" and "list_all2 lasts ps0 ds"
  shows "\<exists>es. list_all2 lasts (fst c) es \<and>
    n + Suc (length ps0) * sum_list es + stales (snd c) (fst c) \<le> f + Suc (length ps0) * sum_list ds + stales s0 ps0"
  using assms(1)
proof (induction rule: threads_run.induct)
  case run_start
  then show ?case using assms(2) by auto
next
  case (run_step n f ps s i spurious p' s')
  let ?T = "length ps0"
  from run_step.IH obtain es where es: "list_all2 lasts ps es"
    and le: "n + Suc ?T * sum_list es + stales s ps \<le> f + Suc ?T * sum_list ds + stales s0 ps0" by auto
  have i: "i < length es" using run_step.hyps(2) list_all2_lengthD [OF es] by simp
  from lasts_step [OF list_all2_nthD [OF es run_step.hyps(2)] run_step.hyps(3,4)]
  consider (less) e where "lasts p' e" "e < es ! i"
    | (retry) "lasts p' (es ! i)" "s' = s" "\<not> stale s p'" "spurious \<or> stale s (ps ! i)" by blast
  then show ?case
  proof cases
    case e: less
    have "Suc (sum_list (es[i := e])) \<le> sum_list es"
      using e(2) i elem_le_sum_list [of i es] by (simp add: sum_list_update)
    then have "Suc ?T * Suc (sum_list (es[i := e])) \<le> Suc ?T * sum_list es" by (rule mult_le_mono2)
    moreover have "stales s' (ps[i := p']) \<le> ?T"
      using stales_le [of s' "ps[i := p']"] threads_length [OF run_step.hyps(1)] by simp
    ultimately have "Suc n + Suc ?T * sum_list (es[i := e]) + stales s' (ps[i := p']) \<le> f + Suc ?T * sum_list ds + stales s0 ps0"
      using le by simp
    then show ?thesis using es e(1) by (auto intro!: exI [of _ "es[i := e]"] list_all2_update_cong)
  next
    case st: retry
    have "list_all2 lasts (ps[i := p']) (es[i := es ! i])" by (rule list_all2_update_cong [OF es st(1)])
    then have "list_all2 lasts (ps[i := p']) es" by simp
    then show ?thesis using le st stales_update [OF run_step.hyps(2) st(3)] by (auto intro!: exI [of _ es])
  qed
qed


section \<open>Straight-line code\<close>

inductive_simps yields_code:
  "yields md k (Finished a) x" "yields md k (FetchAdd j v p) x" "yields md k (Maximum j v p) x"
  "yields md k (StoreAtomic j v p) x" "yields md k (Exchange j v f) x"

inductive_simps typed_code:
  "typed w R (Finished a)" "typed w R (FetchAdd j v p)" "typed w R (Maximum j v p)" "typed w R (StoreAtomic j v p)"
  "typed w R (LoadAtomic j f)" "typed w R (Exchange j v f)"

lemma yields_block: "list_all2 (yields md k) ps xs \<Longrightarrow> yields md k (blockP ps) (total md xs)"
  by (induction rule: list_all2_induct) (auto intro: yields.intros yields_bind)

lemma typed_block: "\<forall>p\<in>set ps. typed w (\<lambda>_. True) p \<Longrightarrow> typed w (\<lambda>_. True) (blockP ps)"
  by (induction ps) (auto intro: typed.intros typed_bind)

lemma lasts_block: "\<forall>p\<in>set ps. lasts p n \<Longrightarrow> lasts (blockP ps) (n * length ps)"
  by (induction ps) (auto intro: lasts.intros lasts_bind)

text \<open>Threads that make calls, each call the same for whoever makes it.\<close>

definition calling :: "('c \<Rightarrow> ('k, unit) prog) \<Rightarrow> 'c list \<Rightarrow> ('k, unit) prog" where
  "calling code cs = blockP (map code cs)"

lemma calling_total:
  assumes "threads_run (map (calling code) css, \<lambda>_. 0) n f (ps, s)" and "\<forall>p\<in>set ps. finished p"
    and "\<And>c. abs_prog (code c) = code c" and "\<And>c. yields md k (code c) (share c)"
  shows "s k = total md (map share (concat css))"
proof -
  have "list_all2 (yields md k) (map (calling code) css) (map (total md \<circ> map share) css)"
    by (auto simp: list_all2_conv_all_nth calling_def intro!: yields_block assms(4))
  from total_at_rest [OF assms(1) _ this assms(2)]
  have "s k = total md (map (total md \<circ> map share) css)" using assms(3) by (simp add: calling_def comp_def combine_laws)
  then show ?thesis by (simp add: map_concat total_concat)
qed

lemma calling_bounded:
  assumes "threads_run (map (calling code) css, s0) n f c" and "\<And>c. abs_prog (code c) = code c" and "\<And>c. lasts (code c) d"
  shows "n \<le> Suc (length css) * (d * length (concat css)) + f"
proof -
  have "list_all2 lasts (map (calling code) css) (map (\<lambda>cs. d * length cs) css)"
    by (auto simp: list_all2_conv_all_nth calling_def intro: lasts_block [of "map code _", simplified] assms(3))
  from run_bounded [OF assms(1) this] have "n \<le> f + Suc (length css) * sum_list (map (\<lambda>cs. d * length cs) css) +
      stales s0 (map (calling code) css)" by auto
  moreover have "\<not> stale s0 (calling code cs)" for cs
    by (rule not_stale) (simp add: calling_def assms(2) comp_def)
  then have "stales s0 (map (calling code) css) = 0" by (simp add: stales_def comp_def)
  moreover have "sum_list (map (\<lambda>cs. d * length cs) css) = d * length (concat css)"
    by (induction css) (simp_all add: algebra_simps)
  ultimately show ?thesis by simp
qed

lemma run_goes_on:
  assumes "threads_run c0 n f (ps, s)" and "\<exists>p\<in>set ps. \<not> finished p"
  shows "\<exists>c. threads_run c0 (Suc n) f c"
proof -
  obtain i where "i < length ps" "\<not> finished (ps ! i)" using assms(2) by (auto simp: in_set_conv_nth)
  then show ?thesis using run_step [OF assms(1), of i False "fst (prog_step False (ps ! i) s)" "snd (prog_step False (ps ! i) s)"]
    by auto
qed


text \<open>A program run without interference.\<close>

primrec run_alone :: "('k, 'a) prog \<Rightarrow> 'k cells \<Rightarrow> 'a \<times> 'k cells" where
  "run_alone (Finished x) s = (x, s)"
| "run_alone (FetchAdd k v p) s = run_alone p (s(k := s k + v))"
| "run_alone (StoreAtomic k v p) s = run_alone p (s(k := v))"
| "run_alone (LoadAtomic k f) s = run_alone (f (s k)) s"
| "run_alone (Exchange k v f) s = run_alone (f (s k)) (s(k := v))"
| "run_alone (Maximum k c p) s = run_alone p (s(k := max (s k) c))"
| "run_alone (CasLoop k c cur p) s = run_alone p (s(k := max (s k) c))"


text \<open>A run given by its schedule, for the concrete instances.\<close>

fun schedule :: "(nat \<times> bool) list \<Rightarrow> ('k, 'a) threads \<Rightarrow> ('k, 'a) threads option" where
  "schedule [] c = Some c"
| "schedule ((i, spurious) # is) (ps, s) =
     (if i < length ps \<and> \<not> finished (ps ! i)
      then (case prog_step spurious (ps ! i) s of (p', s') \<Rightarrow> schedule is (ps[i := p'], s'))
      else None)"

lemma schedule_run:
  "threads_run c0 n f c \<Longrightarrow> schedule is c = Some c' \<Longrightarrow> threads_run c0 (n + length is) (f + length (filter snd is)) c'"
proof (induction "is" c arbitrary: n f rule: schedule.induct)
  case (2 i spurious "is" ps s)
  obtain p' s' where step: "prog_step spurious (ps ! i) s = (p', s')" by fastforce
  with 2(3) have rest: "i < length ps" "\<not> finished (ps ! i)" "schedule is (ps[i := p'], s') = Some c'"
    by (auto split: if_splits)
  from 2(1) [OF conjI [OF rest(1,2)] step [symmetric] run_step [OF 2(2) rest(1,2) step] rest(3)]
  show ?case by (cases spurious) simp_all
qed simp

end
