(* ===== verification/Worker_Diagnostics.thy ===== *)
theory Worker_Diagnostics
  imports Atomics Timer_Wheel
begin

text \<open>
  \<open>core/WorkerDiagnostics\<close>: the counters of a worker, as programs of atomic accesses. However the calls
  of several threads interleave, a snapshot taken when they have returned is the account of all calls.
\<close>

datatype worker_counter =
    EventWakeups | TimerWakeups | TimerWakeLatenessNS | MaxTimerWakeLatenessNS | ConnectionRuns
  | OperationsProcessed | ProcessingDurationNS | MaxProcessingDurationNS | MaxOperationsPerRun

record WorkerDiagnosticsSnapshot =
  eventWakeups :: u64
  timerWakeups :: u64
  timerWakeLatenessNS :: u64
  maxTimerWakeLatenessNS :: u64
  connectionRuns :: u64
  operationsProcessed :: u64
  processingDurationNS :: u64
  maxProcessingDurationNS :: u64
  maxOperationsPerRun :: u64

text \<open>\<open>elapsedSince\<close> with the clock's answer as an argument.\<close>

definition worker_elapsedSince :: "timestamp \<Rightarrow> timestamp \<Rightarrow> u64" where
  "worker_elapsedSince now startedAt = now - startedAt"

definition recordWake :: "bool \<Rightarrow> timestamp \<Rightarrow> timestamp \<Rightarrow> (worker_counter, unit) prog" where
  "recordWake eventSignaled deadline actualWake = blockP
     [whenP eventSignaled (fetch_add EventWakeups 1),
      if deadline = InfiniteTimestamp \<or> actualWake < deadline then blockP []
      else blockP
        [fetch_add TimerWakeups 1,
         let lateness = actualWake - deadline in
         blockP
           [fetch_add TimerWakeLatenessNS lateness,
            updateMaximum MaxTimerWakeLatenessNS lateness]]]"

definition recordConnectionRun :: "u64 \<Rightarrow> u64 \<Rightarrow> (worker_counter, unit) prog" where
  "recordConnectionRun operations durationNS = blockP
     [fetch_add ConnectionRuns 1,
      fetch_add OperationsProcessed operations,
      fetch_add ProcessingDurationNS durationNS,
      updateMaximum MaxProcessingDurationNS durationNS,
      updateMaximum MaxOperationsPerRun operations]"

definition worker_getSnapshot :: "(worker_counter, WorkerDiagnosticsSnapshot) prog" where
  "worker_getSnapshot =
     bindP (load_atomic EventWakeups) (\<lambda>a.
     bindP (load_atomic TimerWakeups) (\<lambda>b.
     bindP (load_atomic TimerWakeLatenessNS) (\<lambda>c.
     bindP (load_atomic MaxTimerWakeLatenessNS) (\<lambda>d.
     bindP (load_atomic ConnectionRuns) (\<lambda>e.
     bindP (load_atomic OperationsProcessed) (\<lambda>f.
     bindP (load_atomic ProcessingDurationNS) (\<lambda>g.
     bindP (load_atomic MaxProcessingDurationNS) (\<lambda>h.
     bindP (load_atomic MaxOperationsPerRun) (\<lambda>i.
     Finished \<lparr>eventWakeups = a, timerWakeups = b, timerWakeLatenessNS = c, maxTimerWakeLatenessNS = d,
       connectionRuns = e, operationsProcessed = f, processingDurationNS = g, maxProcessingDurationNS = h,
       maxOperationsPerRun = i\<rparr>)))))))))"

section \<open>What a history of calls amounts to\<close>

datatype worker_call = Wake bool timestamp timestamp | Run u64 u64

fun worker_record :: "worker_call \<Rightarrow> (worker_counter, unit) prog" where
  "worker_record (Wake signaled deadline actual) = recordWake signaled deadline actual"
| "worker_record (Run n d) = recordConnectionRun n d"

text \<open>The same calls as lists: the lateness of the wake-ups by the timer, and the runs.\<close>

fun latenesses :: "worker_call list \<Rightarrow> u64 list" where
  "latenesses [] = []"
| "latenesses (Wake signaled deadline actual # cs) =
     (if deadline = InfiniteTimestamp \<or> actual < deadline then [] else [actual - deadline]) @ latenesses cs"
| "latenesses (Run n d # cs) = latenesses cs"

fun runs :: "worker_call list \<Rightarrow> (u64 \<times> u64) list" where
  "runs [] = []"
| "runs (Wake signaled deadline actual # cs) = runs cs"
| "runs (Run n d # cs) = (n, d) # runs cs"

fun signals :: "worker_call list \<Rightarrow> nat" where
  "signals [] = 0"
| "signals (Wake signaled deadline actual # cs) = (if signaled then 1 else 0) + signals cs"
| "signals (Run n d # cs) = signals cs"

definition worker_account :: "worker_call list \<Rightarrow> WorkerDiagnosticsSnapshot" where
  "worker_account cs = \<lparr>
     eventWakeups = of_nat (signals cs),
     timerWakeups = of_nat (length (latenesses cs)),
     timerWakeLatenessNS = sum_list (latenesses cs),
     maxTimerWakeLatenessNS = foldr max (latenesses cs) 0,
     connectionRuns = of_nat (length (runs cs)),
     operationsProcessed = sum_list (map fst (runs cs)),
     processingDurationNS = sum_list (map snd (runs cs)),
     maxProcessingDurationNS = foldr max (map snd (runs cs)) 0,
     maxOperationsPerRun = foldr max (map fst (runs cs)) 0\<rparr>"

section \<open>Counters at rest\<close>

fun worker_tally :: "worker_counter \<Rightarrow> tally" where
  "worker_tally MaxTimerWakeLatenessNS = Peak"
| "worker_tally MaxProcessingDurationNS = Peak"
| "worker_tally MaxOperationsPerRun = Peak"
| "worker_tally _ = Sum"

fun worker_cell :: "WorkerDiagnosticsSnapshot \<Rightarrow> worker_counter \<Rightarrow> u64" where
  "worker_cell s EventWakeups = eventWakeups s"
| "worker_cell s TimerWakeups = timerWakeups s"
| "worker_cell s TimerWakeLatenessNS = timerWakeLatenessNS s"
| "worker_cell s MaxTimerWakeLatenessNS = maxTimerWakeLatenessNS s"
| "worker_cell s ConnectionRuns = connectionRuns s"
| "worker_cell s OperationsProcessed = operationsProcessed s"
| "worker_cell s ProcessingDurationNS = processingDurationNS s"
| "worker_cell s MaxProcessingDurationNS = maxProcessingDurationNS s"
| "worker_cell s MaxOperationsPerRun = maxOperationsPerRun s"

lemmas worker_record_defs = recordWake_def recordConnectionRun_def prog_defs

lemma worker_yields: "yields (worker_tally k) k (worker_record c) (worker_cell (worker_account [c]) k)"
  by (cases c; cases k) (simp_all add: worker_record_defs yields_code worker_account_def Let_def)

lemma worker_account_cons:
  "worker_cell (worker_account (c # cs)) k =
     combine (worker_tally k) (worker_cell (worker_account [c]) k) (worker_cell (worker_account cs) k)"
  by (cases c; cases k) (simp_all add: worker_account_def)

lemma worker_account_total: "worker_cell (worker_account cs) k =
    total (worker_tally k) (map (\<lambda>c. worker_cell (worker_account [c]) k) cs)"
proof (induction cs)
  case Nil
  then show ?case by (cases k) (simp_all add: worker_account_def)
qed (subst worker_account_cons, simp)

lemma worker_abs: "abs_prog (worker_record c) = worker_record c"
  by (cases c) (simp_all add: worker_record_defs Let_def)

lemma worker_cells: "(\<And>k. s k = worker_cell r k) \<Longrightarrow> run_alone worker_getSnapshot s = (r, s)"
  by (simp add: worker_getSnapshot_def prog_defs)

text \<open>C17. No update of the worker's counters is lost: whatever threads record whatever calls, and however their
  atomic accesses interleave and their compare-and-exchange loops fail, a snapshot taken after they have
  returned is the account of all calls, sums and maxima over the whole history.\<close>

theorem worker_counters_exact:
  assumes "threads_run (map (calling worker_record) css, \<lambda>_. 0) n f (ps, s)" and "\<forall>p\<in>set ps. finished p"
  shows "run_alone worker_getSnapshot s = (worker_account (concat css), s)"
proof (rule worker_cells)
  show "s k = worker_cell (worker_account (concat css)) k" for k
    using calling_total [OF assms worker_abs worker_yields [of k]] by (simp add: worker_account_total [symmetric])
qed


text \<open>Two threads record a run; each overtakes the other once in a loop, and one attempt fails without a reason.\<close>

definition contended :: "(nat \<times> bool) list" where
  "contended = map (\<lambda>i. (i, False)) [0, 0, 0, 1, 1, 1, 0, 1, 0, 1, 1, 0, 1] @ [(1, True)] @
     map (\<lambda>i. (i, False)) [1, 0, 0]"

theorem worker_counters_exact_witness:
  "\<exists>ps s. threads_run (map (calling worker_record) [[Run 3 10], [Run 5 4]], \<lambda>_. 0) 17 1 (ps, s) \<and>
     fst (run_alone worker_getSnapshot s) = \<lparr>eventWakeups = 0, timerWakeups = 0, timerWakeLatenessNS = 0,
       maxTimerWakeLatenessNS = 0, connectionRuns = 2, operationsProcessed = 8, processingDurationNS = 14,
       maxProcessingDurationNS = 10, maxOperationsPerRun = 5\<rparr>"
proof -
  let ?c0 = "(map (calling worker_record) [[Run 3 10], [Run 5 4]], \<lambda>_. 0 :: u64)"
  obtain ps s where end_state: "schedule contended ?c0 = Some (ps, s)" "\<forall>p\<in>set ps. finished p"
    by (auto simp: contended_def calling_def worker_record_defs)
  have run: "threads_run ?c0 17 1 (ps, s)"
    using schedule_run [OF run_start end_state(1)] by (simp add: contended_def eval_nat_numeral)
  from worker_counters_exact [OF this end_state(2)]
  have "fst (run_alone worker_getSnapshot s) = worker_account [Run 3 10, Run 5 4]" by simp
  also have "\<dots> = \<lparr>eventWakeups = 0, timerWakeups = 0, timerWakeLatenessNS = 0,
       maxTimerWakeLatenessNS = 0, connectionRuns = 2, operationsProcessed = 8, processingDurationNS = 14,
       maxProcessingDurationNS = 10, maxOperationsPerRun = 5\<rparr>" by (simp add: worker_account_def)
  finally show ?thesis using run by blast
qed

end
