(* ===== verification/Datapath_Diagnostics.thy ===== *)
theory Datapath_Diagnostics
  imports Atomics
begin

text \<open>
  \<open>datapath/DatapathDiagnostics\<close>: the counters of a datapath. Two of them have 32 bits and six are flags;
  whatever is recorded, set and read at the same time, each cell holds a value of its declared type and each
  snapshot fits the C structure it is written to.
\<close>

datatype datapath_counter =
    SendBatchCalls | SendCalls | SendDatagrams | SendBytes | SegmentedCalls | SegmentedDatagrams | SendFallbacks
  | SendDurationNS | MaxSendDurationNS | MaxSendBatch
  | ReceiveBatchCalls | ReceiveCalls | ReceiveDatagrams | ReceiveBytes | BatchedReceiveCalls
  | BatchedReceiveDatagrams | CoalescedCalls | CoalescedDatagrams | MaxReceiveBatch
  | SendSegmentationSupported | SendSegmentationEnabled | ReceiveBatchingSupported | ReceiveBatchingEnabled
  | ReceiveCoalescingSupported | ReceiveCoalescingEnabled

record FFLP2PDatapathStats =
  sendBatchCalls :: u64
  sendCalls :: u64
  sendDatagrams :: u64
  sendBytes :: u64
  segmentedCalls :: u64
  segmentedDatagrams :: u64
  sendFallbacks :: u64
  sendDurationNS :: u64
  maxSendDurationNS :: u64
  maxSendBatch :: u32
  receiveBatchCalls :: u64
  receiveCalls :: u64
  receiveDatagrams :: u64
  receiveBytes :: u64
  batchedReceiveCalls :: u64
  batchedReceiveDatagrams :: u64
  coalescedCalls :: u64
  coalescedDatagrams :: u64
  maxReceiveBatch :: u32
  sendHookEnabled :: int
  sendSegmentationSupported :: int
  sendSegmentationEnabled :: int
  batchHookEnabled :: int
  receiveBatchingSupported :: int
  receiveBatchingEnabled :: int
  coalescingSupported :: int
  coalescingEnabled :: int

text \<open>\<open>static_cast<uint32_t>\<close> into a cell of 32 bits, and a \<open>bool\<close> in its cell.\<close>

definition to_u32 :: "u64 \<Rightarrow> u64" where
  "to_u32 v = ucast (ucast v :: u32)"

definition from_bool :: "bool \<Rightarrow> u64" where
  "from_bool b = (if b then 1 else 0)"

type_synonym dp_prog = "(datapath_counter, unit) prog"

text \<open>The overload of \<open>updateMaximum\<close> for the cells of 32 bits.\<close>

definition updateMaximum32 :: "datapath_counter \<Rightarrow> u64 \<Rightarrow> dp_prog" where
  "updateMaximum32 k candidate = updateMaximum k (to_u32 candidate)"

definition recordSendBatchCall :: dp_prog where
  "recordSendBatchCall = fetch_add SendBatchCalls 1"

definition recordSendCall :: "u64 \<Rightarrow> u64 \<Rightarrow> u64 \<Rightarrow> bool \<Rightarrow> dp_prog" where
  "recordSendCall datagramCount byteCount durationNS segmented = blockP
     [fetch_add SendCalls 1,
      fetch_add SendDatagrams datagramCount,
      fetch_add SendBytes byteCount,
      fetch_add SendDurationNS durationNS,
      updateMaximum MaxSendDurationNS durationNS,
      updateMaximum32 MaxSendBatch datagramCount,
      whenP segmented (blockP
        [fetch_add SegmentedCalls 1,
         fetch_add SegmentedDatagrams datagramCount])]"

definition recordSendFallback :: dp_prog where
  "recordSendFallback = fetch_add SendFallbacks 1"

definition recordReceiveBatchCall :: dp_prog where
  "recordReceiveBatchCall = fetch_add ReceiveBatchCalls 1"

definition recordReceiveCall :: dp_prog where
  "recordReceiveCall = fetch_add ReceiveCalls 1"

definition recordReceiveBatch :: "u64 \<Rightarrow> u64 \<Rightarrow> bool \<Rightarrow> dp_prog" where
  "recordReceiveBatch datagramCount byteCount coalesced = blockP
     [fetch_add ReceiveDatagrams datagramCount,
      fetch_add ReceiveBytes byteCount,
      updateMaximum32 MaxReceiveBatch datagramCount,
      whenP (datagramCount > 1) (blockP
        [fetch_add BatchedReceiveCalls 1,
         fetch_add BatchedReceiveDatagrams datagramCount]),
      whenP (coalesced \<and> datagramCount > 1) (blockP
        [fetch_add CoalescedCalls 1,
         fetch_add CoalescedDatagrams datagramCount])]"

definition setSendSegmentationSupported :: "bool \<Rightarrow> dp_prog" where
  "setSendSegmentationSupported supported = store_atomic SendSegmentationSupported (from_bool supported)"

definition setSendSegmentationEnabled :: "bool \<Rightarrow> dp_prog" where
  "setSendSegmentationEnabled b = store_atomic SendSegmentationEnabled (from_bool b)"

definition setReceiveBatchingSupported :: "bool \<Rightarrow> dp_prog" where
  "setReceiveBatchingSupported supported = store_atomic ReceiveBatchingSupported (from_bool supported)"

definition setReceiveBatchingEnabled :: "bool \<Rightarrow> dp_prog" where
  "setReceiveBatchingEnabled b = store_atomic ReceiveBatchingEnabled (from_bool b)"

definition setReceiveCoalescingSupported :: "bool \<Rightarrow> dp_prog" where
  "setReceiveCoalescingSupported supported = store_atomic ReceiveCoalescingSupported (from_bool supported)"

definition setReceiveCoalescingEnabled :: "bool \<Rightarrow> dp_prog" where
  "setReceiveCoalescingEnabled b = store_atomic ReceiveCoalescingEnabled (from_bool b)"

text \<open>\<open>getSnapshot\<close>: the counters in the order of their declaration, then the flags.\<close>

definition load_flag :: "datapath_counter \<Rightarrow> (datapath_counter, int) prog" where
  "load_flag k = bindP (load_atomic k) (\<lambda>v. Finished (if v \<noteq> 0 then 1 else 0))"

definition load_u32 :: "datapath_counter \<Rightarrow> (datapath_counter, u32) prog" where
  "load_u32 k = bindP (load_atomic k) (\<lambda>v. Finished (ucast v))"

definition datapath_getSnapshot :: "(datapath_counter, FFLP2PDatapathStats) prog" where
  "datapath_getSnapshot =
     bindP (load_atomic SendBatchCalls) (\<lambda>a1.
     bindP (load_atomic SendCalls) (\<lambda>a2.
     bindP (load_atomic SendDatagrams) (\<lambda>a3.
     bindP (load_atomic SendBytes) (\<lambda>a4.
     bindP (load_atomic SegmentedCalls) (\<lambda>a5.
     bindP (load_atomic SegmentedDatagrams) (\<lambda>a6.
     bindP (load_atomic SendFallbacks) (\<lambda>a7.
     bindP (load_atomic SendDurationNS) (\<lambda>a8.
     bindP (load_atomic MaxSendDurationNS) (\<lambda>a9.
     bindP (load_u32 MaxSendBatch) (\<lambda>a10.
     bindP (load_atomic ReceiveBatchCalls) (\<lambda>b1.
     bindP (load_atomic ReceiveCalls) (\<lambda>b2.
     bindP (load_atomic ReceiveDatagrams) (\<lambda>b3.
     bindP (load_atomic ReceiveBytes) (\<lambda>b4.
     bindP (load_atomic BatchedReceiveCalls) (\<lambda>b5.
     bindP (load_atomic BatchedReceiveDatagrams) (\<lambda>b6.
     bindP (load_atomic CoalescedCalls) (\<lambda>b7.
     bindP (load_atomic CoalescedDatagrams) (\<lambda>b8.
     bindP (load_u32 MaxReceiveBatch) (\<lambda>b9.
     bindP (load_flag SendSegmentationSupported) (\<lambda>f1.
     bindP (load_flag SendSegmentationEnabled) (\<lambda>f2.
     bindP (load_flag ReceiveBatchingSupported) (\<lambda>f3.
     bindP (load_flag ReceiveBatchingEnabled) (\<lambda>f4.
     bindP (load_flag ReceiveCoalescingSupported) (\<lambda>f5.
     bindP (load_flag ReceiveCoalescingEnabled) (\<lambda>f6.
     Finished \<lparr>sendBatchCalls = a1, sendCalls = a2, sendDatagrams = a3, sendBytes = a4, segmentedCalls = a5,
       segmentedDatagrams = a6, sendFallbacks = a7, sendDurationNS = a8, maxSendDurationNS = a9, maxSendBatch = a10,
       receiveBatchCalls = b1, receiveCalls = b2, receiveDatagrams = b3, receiveBytes = b4, batchedReceiveCalls = b5,
       batchedReceiveDatagrams = b6, coalescedCalls = b7, coalescedDatagrams = b8, maxReceiveBatch = b9,
       sendHookEnabled = 1, sendSegmentationSupported = f1, sendSegmentationEnabled = f2, batchHookEnabled = 1,
       receiveBatchingSupported = f3, receiveBatchingEnabled = f4, coalescingSupported = f5,
       coalescingEnabled = f6\<rparr>)))))))))))))))))))))))))"

section \<open>Types\<close>

datatype datapath_call =
    SendBatchCall | SendCall u64 u64 u64 bool | SendFallback | ReceiveBatchCall | ReceiveCall | ReceiveBatch u64 u64 bool
  | SetSendSegmentationSupported bool | SetSendSegmentationEnabled bool
  | SetReceiveBatchingSupported bool | SetReceiveBatchingEnabled bool
  | SetReceiveCoalescingSupported bool | SetReceiveCoalescingEnabled bool

fun datapath_record :: "datapath_call \<Rightarrow> dp_prog" where
  "datapath_record SendBatchCall = recordSendBatchCall"
| "datapath_record (SendCall n b d segmented) = recordSendCall n b d segmented"
| "datapath_record SendFallback = recordSendFallback"
| "datapath_record ReceiveBatchCall = recordReceiveBatchCall"
| "datapath_record ReceiveCall = recordReceiveCall"
| "datapath_record (ReceiveBatch n b coalesced) = recordReceiveBatch n b coalesced"
| "datapath_record (SetSendSegmentationSupported b) = setSendSegmentationSupported b"
| "datapath_record (SetSendSegmentationEnabled b) = setSendSegmentationEnabled b"
| "datapath_record (SetReceiveBatchingSupported b) = setReceiveBatchingSupported b"
| "datapath_record (SetReceiveBatchingEnabled b) = setReceiveBatchingEnabled b"
| "datapath_record (SetReceiveCoalescingSupported b) = setReceiveCoalescingSupported b"
| "datapath_record (SetReceiveCoalescingEnabled b) = setReceiveCoalescingEnabled b"

lemmas datapath_record_defs = recordSendBatchCall_def recordSendCall_def recordSendFallback_def
  recordReceiveBatchCall_def recordReceiveCall_def recordReceiveBatch_def
  updateMaximum32_def setSendSegmentationSupported_def setSendSegmentationEnabled_def setReceiveBatchingSupported_def
  setReceiveBatchingEnabled_def setReceiveCoalescingSupported_def setReceiveCoalescingEnabled_def

text \<open>A thread records what it does, or takes a snapshot.\<close>

datatype datapath_job = Record "datapath_call list" | TakeSnapshot

fun datapath_thread :: "datapath_job \<Rightarrow> (datapath_counter, FFLP2PDatapathStats option) prog" where
  "datapath_thread (Record cs) = bindP (calling datapath_record cs) (\<lambda>_. Finished None)"
| "datapath_thread TakeSnapshot = bindP datapath_getSnapshot (\<lambda>st. Finished (Some st))"

text \<open>The types that the atomics are declared with.\<close>

fun declared :: "datapath_counter \<Rightarrow> width" where
  "declared MaxSendBatch = Narrow"
| "declared MaxReceiveBatch = Narrow"
| "declared SendSegmentationSupported = Flag"
| "declared SendSegmentationEnabled = Flag"
| "declared ReceiveBatchingSupported = Flag"
| "declared ReceiveBatchingEnabled = Flag"
| "declared ReceiveCoalescingSupported = Flag"
| "declared ReceiveCoalescingEnabled = Flag"
| "declared _ = Wide"

definition flag_values :: "int set" where
  "flag_values = {0, 1}"

definition stats_flags :: "FFLP2PDatapathStats \<Rightarrow> int list" where
  "stats_flags st = [sendHookEnabled st, sendSegmentationSupported st, sendSegmentationEnabled st, batchHookEnabled st,
     receiveBatchingSupported st, receiveBatchingEnabled st, coalescingSupported st, coalescingEnabled st]"

lemma fits_u32: "fits Narrow (to_u32 v)"
proof -
  have "unat (ucast w :: u64) < 2 ^ 32" for w :: u32
    using unsigned_less [of w, where 'a = nat] by (simp add: unsigned_ucast_eq take_bit_nat_eq_self)
  then show ?thesis by (simp add: to_u32_def word_less_nat_alt)
qed

lemma fits_bool: "fits Flag (from_bool b)"
  by (simp add: from_bool_def)

lemma datapath_abs: "abs_prog (datapath_record c) = datapath_record c"
  by (cases c) (simp_all add: datapath_record_defs abs_bind)

lemma datapath_typed: "typed declared (\<lambda>_. True) (datapath_record c)"
  using fits_u32 fits_bool
  by (cases c) (simp_all add: datapath_record_defs prog_defs typed_code del: fits.simps(2,3))

lemma typed_load_atomic: "typed w R (bindP (load_atomic k) g) = (\<forall>v. fits (w k) v \<longrightarrow> typed w R (g v))"
  by (simp add: load_atomic_def typed_code)

lemma typed_load_flag: "(\<And>b. b \<in> flag_values \<Longrightarrow> typed w R (g b)) \<Longrightarrow> typed w R (bindP (load_flag k) g)"
  by (auto simp: load_flag_def load_atomic_def typed_code flag_values_def)

lemma typed_load_u32: "(\<And>v. typed w R (g v)) \<Longrightarrow> typed w R (bindP (load_u32 k) g)"
  by (auto simp: load_u32_def load_atomic_def typed_code)

lemma snapshot_typed: "typed declared (\<lambda>st. set (stats_flags st) \<subseteq> flag_values) datapath_getSnapshot"
  unfolding datapath_getSnapshot_def typed_load_atomic
  by (intro allI impI typed_load_flag typed_load_u32, (unfold typed_load_atomic)?)+
    (simp_all add: typed_code stats_flags_def flag_values_def)



text \<open>A thread records a segmented call of three datagrams while another takes a snapshot.\<close>

definition demo_jobs :: "datapath_job list" where
  "demo_jobs = [Record [SetSendSegmentationEnabled True, SendCall 3 100 7 True], TakeSnapshot]"

definition demo_order :: "(nat \<times> bool) list" where
  "demo_order = map (\<lambda>i. (i, False)) [0, 0, 0, 0, 0, 0, 0, 0, 0, 0, 0, 1, 1, 1, 1, 1, 1, 1, 1, 1, 1, 1, 1, 1, 1, 1, 1, 1, 1, 1, 1, 1, 1, 1, 1, 1]"


end
