(* ===== verification/Runtime_Diagnostics.thy ===== *)
theory Runtime_Diagnostics
  imports Atomics Timer_Wheel
begin

text \<open>
  \<open>quic/RuntimeDiagnostics\<close>: the counters of a connection. Intervals are measured with two cells that hold
  the time of the event before; \<open>exchange\<close> hands each time to one thread.
\<close>

datatype runtime_counter =
    ScheduledAt | ScheduleCount | ScheduleLatencySamples | ScheduleLatencyNS | MaxScheduleLatencyNS
  | SendFlushCalls | PreviousSendFlushAt | SendFlushIntervalSamples | SendFlushIntervalNS
  | MaxSendFlushIntervalNS | SendFlushDurationNS | MaxSendFlushDurationNS | SendFlushPackets
  | SendFlushBytes | SendFlushTransportCalls | MaxSendFlushPackets | MaxSendFlushBytes
  | MaxTransportCallsPerFlush | ZeroSendFlushesWithPendingData | PacketWriteCalls | ZeroPacketWriteCalls
  | PacketWriteDurationNS | MaxPacketWriteDurationNS | PacketWritePackets | PacketWriteBytes
  | TransportSendCalls | TransportSendDurationNS | MaxTransportSendDurationNS | TransportSentBytes
  | ReceiveFlushCalls | ReceiveFlushDurationNS | MaxReceiveFlushDurationNS | TimerCalls | TimerDurationNS
  | MaxTimerDurationNS

record RuntimeDiagnosticsSnapshot =
  scheduleCount :: u64
  scheduleLatencySamples :: u64
  scheduleLatencyNS :: u64
  maxScheduleLatencyNS :: u64
  sendFlushCalls :: u64
  sendFlushIntervalSamples :: u64
  sendFlushIntervalNS :: u64
  maxSendFlushIntervalNS :: u64
  sendFlushDurationNS :: u64
  maxSendFlushDurationNS :: u64
  sendFlushPackets :: u64
  sendFlushBytes :: u64
  sendFlushTransportCalls :: u64
  maxSendFlushPackets :: u64
  maxSendFlushBytes :: u64
  maxTransportCallsPerFlush :: u64
  zeroSendFlushesWithPendingData :: u64
  packetWriteCalls :: u64
  zeroPacketWriteCalls :: u64
  packetWriteDurationNS :: u64
  maxPacketWriteDurationNS :: u64
  packetWritePackets :: u64
  packetWriteBytes :: u64
  transportSendCalls :: u64
  transportSendDurationNS :: u64
  maxTransportSendDurationNS :: u64
  transportSentBytes :: u64
  receiveFlushCalls :: u64
  receiveFlushDurationNS :: u64
  maxReceiveFlushDurationNS :: u64
  timerCalls :: u64
  timerDurationNS :: u64
  maxTimerDurationNS :: u64

text \<open>\<open>elapsedSince\<close> with the clock's answer as an argument.\<close>

definition runtime_elapsedSince :: "timestamp \<Rightarrow> timestamp \<Rightarrow> u64" where
  "runtime_elapsedSince now startedAt = now - startedAt"

type_synonym rt_prog = "(runtime_counter, unit) prog"

definition recordScheduled :: "timestamp \<Rightarrow> rt_prog" where
  "recordScheduled timestamp = blockP
     [store_atomic ScheduledAt timestamp,
      fetch_add ScheduleCount 1]"

definition recordWorkerStarted :: "timestamp \<Rightarrow> rt_prog" where
  "recordWorkerStarted timestamp = bindP (exchange_atomic ScheduledAt 0) (\<lambda>scheduledAt.
     if scheduledAt = 0 \<or> timestamp < scheduledAt then blockP []
     else
       let latency = timestamp - scheduledAt in
       blockP
         [fetch_add ScheduleLatencySamples 1,
          fetch_add ScheduleLatencyNS latency,
          updateMaximum MaxScheduleLatencyNS latency])"

definition recordSendFlush :: "timestamp \<Rightarrow> u64 \<Rightarrow> u64 \<Rightarrow> u64 \<Rightarrow> u64 \<Rightarrow> bool \<Rightarrow> rt_prog" where
  "recordSendFlush startedAt durationNS packetCount byteCount transportCalls pendingDataWithoutPackets = blockP
     [fetch_add SendFlushCalls 1,
      bindP (exchange_atomic PreviousSendFlushAt startedAt) (\<lambda>previousStartedAt.
        whenP (previousStartedAt \<noteq> 0 \<and> startedAt \<ge> previousStartedAt)
          (let interval = startedAt - previousStartedAt in
           blockP
             [fetch_add SendFlushIntervalSamples 1,
              fetch_add SendFlushIntervalNS interval,
              updateMaximum MaxSendFlushIntervalNS interval])),
      fetch_add SendFlushDurationNS durationNS,
      fetch_add SendFlushPackets packetCount,
      fetch_add SendFlushBytes byteCount,
      fetch_add SendFlushTransportCalls transportCalls,
      updateMaximum MaxSendFlushDurationNS durationNS,
      updateMaximum MaxSendFlushPackets packetCount,
      updateMaximum MaxSendFlushBytes byteCount,
      updateMaximum MaxTransportCallsPerFlush transportCalls,
      whenP pendingDataWithoutPackets (fetch_add ZeroSendFlushesWithPendingData 1)]"

definition recordPacketWrite :: "u64 \<Rightarrow> u64 \<Rightarrow> u64 \<Rightarrow> rt_prog" where
  "recordPacketWrite durationNS packetCount byteCount = blockP
     [fetch_add PacketWriteCalls 1,
      fetch_add PacketWriteDurationNS durationNS,
      fetch_add PacketWritePackets packetCount,
      fetch_add PacketWriteBytes byteCount,
      updateMaximum MaxPacketWriteDurationNS durationNS,
      whenP (packetCount = 0 \<or> byteCount = 0) (fetch_add ZeroPacketWriteCalls 1)]"

definition recordTransportSend :: "u64 \<Rightarrow> u64 \<Rightarrow> rt_prog" where
  "recordTransportSend durationNS sentBytes = blockP
     [fetch_add TransportSendCalls 1,
      fetch_add TransportSendDurationNS durationNS,
      fetch_add TransportSentBytes sentBytes,
      updateMaximum MaxTransportSendDurationNS durationNS]"

definition recordReceiveFlush :: "u64 \<Rightarrow> rt_prog" where
  "recordReceiveFlush durationNS = blockP
     [fetch_add ReceiveFlushCalls 1,
      fetch_add ReceiveFlushDurationNS durationNS,
      updateMaximum MaxReceiveFlushDurationNS durationNS]"

definition recordTimer :: "u64 \<Rightarrow> rt_prog" where
  "recordTimer durationNS = blockP
     [fetch_add TimerCalls 1,
      fetch_add TimerDurationNS durationNS,
      updateMaximum MaxTimerDurationNS durationNS]"

definition runtime_getSnapshot :: "(runtime_counter, RuntimeDiagnosticsSnapshot) prog" where
  "runtime_getSnapshot =
     bindP (load_atomic ScheduleCount) (\<lambda>a1.
     bindP (load_atomic ScheduleLatencySamples) (\<lambda>a2.
     bindP (load_atomic ScheduleLatencyNS) (\<lambda>a3.
     bindP (load_atomic MaxScheduleLatencyNS) (\<lambda>a4.
     bindP (load_atomic SendFlushCalls) (\<lambda>a5.
     bindP (load_atomic SendFlushIntervalSamples) (\<lambda>a6.
     bindP (load_atomic SendFlushIntervalNS) (\<lambda>a7.
     bindP (load_atomic MaxSendFlushIntervalNS) (\<lambda>a8.
     bindP (load_atomic SendFlushDurationNS) (\<lambda>a9.
     bindP (load_atomic MaxSendFlushDurationNS) (\<lambda>a10.
     bindP (load_atomic SendFlushPackets) (\<lambda>a11.
     bindP (load_atomic SendFlushBytes) (\<lambda>a12.
     bindP (load_atomic SendFlushTransportCalls) (\<lambda>a13.
     bindP (load_atomic MaxSendFlushPackets) (\<lambda>a14.
     bindP (load_atomic MaxSendFlushBytes) (\<lambda>a15.
     bindP (load_atomic MaxTransportCallsPerFlush) (\<lambda>a16.
     bindP (load_atomic ZeroSendFlushesWithPendingData) (\<lambda>a17.
     bindP (load_atomic PacketWriteCalls) (\<lambda>a18.
     bindP (load_atomic ZeroPacketWriteCalls) (\<lambda>a19.
     bindP (load_atomic PacketWriteDurationNS) (\<lambda>a20.
     bindP (load_atomic MaxPacketWriteDurationNS) (\<lambda>a21.
     bindP (load_atomic PacketWritePackets) (\<lambda>a22.
     bindP (load_atomic PacketWriteBytes) (\<lambda>a23.
     bindP (load_atomic TransportSendCalls) (\<lambda>a24.
     bindP (load_atomic TransportSendDurationNS) (\<lambda>a25.
     bindP (load_atomic MaxTransportSendDurationNS) (\<lambda>a26.
     bindP (load_atomic TransportSentBytes) (\<lambda>a27.
     bindP (load_atomic ReceiveFlushCalls) (\<lambda>a28.
     bindP (load_atomic ReceiveFlushDurationNS) (\<lambda>a29.
     bindP (load_atomic MaxReceiveFlushDurationNS) (\<lambda>a30.
     bindP (load_atomic TimerCalls) (\<lambda>a31.
     bindP (load_atomic TimerDurationNS) (\<lambda>a32.
     bindP (load_atomic MaxTimerDurationNS) (\<lambda>a33.
     Finished \<lparr>scheduleCount = a1, scheduleLatencySamples = a2, scheduleLatencyNS = a3,
       maxScheduleLatencyNS = a4, sendFlushCalls = a5, sendFlushIntervalSamples = a6,
       sendFlushIntervalNS = a7, maxSendFlushIntervalNS = a8, sendFlushDurationNS = a9,
       maxSendFlushDurationNS = a10, sendFlushPackets = a11, sendFlushBytes = a12,
       sendFlushTransportCalls = a13, maxSendFlushPackets = a14, maxSendFlushBytes = a15,
       maxTransportCallsPerFlush = a16, zeroSendFlushesWithPendingData = a17, packetWriteCalls = a18,
       zeroPacketWriteCalls = a19, packetWriteDurationNS = a20, maxPacketWriteDurationNS = a21,
       packetWritePackets = a22, packetWriteBytes = a23, transportSendCalls = a24,
       transportSendDurationNS = a25, maxTransportSendDurationNS = a26, transportSentBytes = a27,
       receiveFlushCalls = a28, receiveFlushDurationNS = a29, maxReceiveFlushDurationNS = a30,
       timerCalls = a31, timerDurationNS = a32, maxTimerDurationNS = a33\<rparr>)))))))))))))))))))))))))))))))))"

datatype runtime_call =
    Scheduled timestamp | WorkerStarted timestamp | SendFlush timestamp u64 u64 u64 u64 bool
  | PacketWrite u64 u64 u64 | TransportSend u64 u64 | ReceiveFlush u64 | Timer u64

fun runtime_record :: "runtime_call \<Rightarrow> rt_prog" where
  "runtime_record (Scheduled t) = recordScheduled t"
| "runtime_record (WorkerStarted t) = recordWorkerStarted t"
| "runtime_record (SendFlush t d n b c pending) = recordSendFlush t d n b c pending"
| "runtime_record (PacketWrite d n b) = recordPacketWrite d n b"
| "runtime_record (TransportSend d b) = recordTransportSend d b"
| "runtime_record (ReceiveFlush d) = recordReceiveFlush d"
| "runtime_record (Timer d) = recordTimer d"

lemmas runtime_record_defs = recordScheduled_def recordWorkerStarted_def recordSendFlush_def recordPacketWrite_def
  recordTransportSend_def recordReceiveFlush_def recordTimer_def prog_defs Let_def

lemma runtime_abs: "abs_prog (runtime_record c) = runtime_record c"
  by (cases c) (simp_all add: runtime_record_defs abs_bind fun_eq_iff)

section \<open>The maximum is atomic\<close>

text \<open>C16. The loops of \<open>updateMaximum\<close> are linearisable: whatever threads record and however their loads and attempts
  interleave and fail, each state of the counters is one that a run reaches in which every maximum is updated by a
  single atomic access, with the same threads finished.\<close>

theorem maximum_is_atomic:
  assumes "threads_run (map (calling runtime_record) css, s0) n f (ps, s)"
  shows "\<exists>ps'. atomic_run (map (calling runtime_record) css, s0) (ps', s) \<and>
    length ps' = length ps \<and> (\<forall>i < length ps. finished (ps ! i) \<longrightarrow> ps' ! i = ps ! i)"
proof (intro exI conjI allI impI)
  have "map abs_prog (map (calling runtime_record) css) = map (calling runtime_record) css"
    by (simp add: calling_def runtime_abs comp_def)
  then show "atomic_run (map (calling runtime_record) css, s0) (map abs_prog ps, s)" by (rule threads_atomic [OF assms])
qed (simp_all add: finished_abs)

text \<open>Two threads give the same maximum a value each; the loop of the smaller one finds it exceeded.\<close>

theorem maximum_is_atomic_witness:
  "\<exists>ps ps' s. threads_run (map (calling runtime_record) [[Timer 5], [Timer 9]], \<lambda>_. 0) 9 0 (ps, s) \<and>
     s MaxTimerDurationNS = 9 \<and> atomic_run (map (calling runtime_record) [[Timer 5], [Timer 9]], \<lambda>_. 0) (ps', s) \<and>
     ps' ! 1 = Finished ()"
proof -
  let ?c0 = "(map (calling runtime_record) [[Timer 5], [Timer 9]], \<lambda>_. 0 :: u64)"
  obtain ps s where last: "schedule (map (\<lambda>i. (i, False)) [0, 0, 1, 1, 0, 1, 1, 0, 0]) ?c0 = Some (ps, s)"
    "s MaxTimerDurationNS = 9" "length ps = 2" "ps ! 1 = Finished ()"
    by (auto simp: calling_def runtime_record_defs)
  from schedule_run [OF run_start last(1)]
  have run: "threads_run (map (calling runtime_record) [[Timer 5], [Timer 9]], \<lambda>_. 0) 9 0 (ps, s)"
    by (simp add: eval_nat_numeral)
  from maximum_is_atomic [OF run] last(3,4) obtain ps' where
    "atomic_run (map (calling runtime_record) [[Timer 5], [Timer 9]], \<lambda>_. 0) (ps', s)" "ps' ! 1 = Finished ()"
    by auto
  then show ?thesis using run last(2) by blast
qed

section \<open>Recording ends\<close>

lemma runtime_lasts: "lasts (runtime_record c) 19"
  by (cases c) (simp_all add: runtime_record_defs lasts_code)

text \<open>Recording is lock-free. Whatever \<open>T\<close> threads record, \<open>n\<close> atomic accesses are made only if the spurious
  failures among them and the accesses that the calls themselves need, 19 each at most and once more for each
  thread that may have interfered, account for them; and as long as a thread has not finished, some step of it can
  follow that is no such failure. So threads never keep each other from finishing for ever.\<close>

theorem recording_lock_free:
  assumes "threads_run (map (calling runtime_record) css, s0) n f (ps, s)"
  shows "n \<le> Suc (length css) * (19 * length (concat css)) + f \<and>
    ((\<exists>p\<in>set ps. \<not> finished p) \<longrightarrow> (\<exists>c. threads_run (map (calling runtime_record) css, s0) (Suc n) f c))"
  using calling_bounded [OF assms runtime_abs runtime_lasts] run_goes_on [OF assms] by blast


text \<open>Two threads record a timer call each; both raise the same maximum.\<close>

theorem recording_lock_free_witness:
  "\<exists>c. threads_run (map (calling runtime_record) [[Timer 5], [Timer 9]], \<lambda>_. 0) 5 0 c \<and> \<not> finished (fst c ! 1) \<and>
     (\<exists>c. threads_run (map (calling runtime_record) [[Timer 5], [Timer 9]], \<lambda>_. 0) 6 0 c)"
proof -
  obtain ps s where last: "schedule (map (\<lambda>i. (i, False)) [0, 0, 0, 1, 0])
      (map (calling runtime_record) [[Timer 5], [Timer 9]], \<lambda>_. 0) = Some (ps, s)" "length ps = 2" "\<not> finished (ps ! 1)"
    by (auto simp: calling_def runtime_record_defs)
  from schedule_run [OF run_start last(1)]
  have run: "threads_run (map (calling runtime_record) [[Timer 5], [Timer 9]], \<lambda>_. 0) 5 0 (ps, s)"
    by (simp add: eval_nat_numeral)
  moreover have "\<exists>p\<in>set ps. \<not> finished p" using last(2,3) by (metis nth_mem one_less_numeral_iff semiring_norm(76))
  ultimately have "\<exists>c. threads_run (map (calling runtime_record) [[Timer 5], [Timer 9]], \<lambda>_. 0) (Suc 5) 0 c"
    using recording_lock_free [OF run] by blast
  then show ?thesis using run last(3) by (auto simp: eval_nat_numeral)
qed

section \<open>Schedules are sampled once\<close>

text \<open>How many samples of the schedule latency a program may still add without a schedule that waits.\<close>

inductive budget :: "(runtime_counter, 'a) prog \<Rightarrow> nat \<Rightarrow> bool" where
  budget_finished: "budget (Finished x) n"
| budget_add: "budget p n \<Longrightarrow> (if j = ScheduleLatencySamples then v = 1 \<and> n < m else n \<le> m) \<Longrightarrow> j \<noteq> ScheduledAt \<Longrightarrow>
    budget (FetchAdd j v p) m"
| budget_max: "budget p n \<Longrightarrow> j \<notin> {ScheduledAt, ScheduleLatencySamples} \<Longrightarrow> n \<le> m \<Longrightarrow> budget (Maximum j v p) m"
| budget_store: "budget p n \<Longrightarrow> j \<noteq> ScheduleLatencySamples \<Longrightarrow> (if j = ScheduledAt then n < m else n \<le> m) \<Longrightarrow>
    budget (StoreAtomic j v p) m"
| budget_load: "(\<And>v. budget (f v) n) \<Longrightarrow> n \<le> m \<Longrightarrow> budget (LoadAtomic j f) m"
| budget_exchange: "(\<And>old. budget (f old) (n + (if j = ScheduledAt \<and> old \<noteq> 0 then 1 else 0))) \<Longrightarrow>
    j \<noteq> ScheduleLatencySamples \<Longrightarrow> (j = ScheduledAt \<longrightarrow> v = 0) \<Longrightarrow> n \<le> m \<Longrightarrow> budget (Exchange j v f) m"

lemma budget_more: "budget p n \<Longrightarrow> n \<le> m \<Longrightarrow> budget p m"
proof (erule budget.cases, goal_cases)
  case (5 f k l j)
  then show ?case by (auto intro: budget_load [of f k])
next
  case (6 f k j v l)
  then show ?case by (simp only:) (rule budget_exchange [of f k], auto)
qed (auto intro: budget.intros split: if_splits)

inductive_simps budget_simps:
  "budget (Finished x) m" "budget (FetchAdd j v p) m" "budget (StoreAtomic j v p) m" "budget (Maximum j v p) m"
  "budget (Exchange j v f) m"

lemma budget_add_code: "budget (FetchAdd j v p) m = (j \<noteq> ScheduledAt \<and>
    (if j = ScheduleLatencySamples then v = 1 \<and> 0 < m \<and> budget p (m - 1) else budget p m))"
  unfolding budget_simps by (cases m; cases "j = ScheduleLatencySamples"; auto intro: budget_more)

lemma budget_store_code: "budget (StoreAtomic j v p) m = (j \<noteq> ScheduleLatencySamples \<and>
    (if j = ScheduledAt then 0 < m \<and> budget p (m - 1) else budget p m))"
  unfolding budget_simps by (cases m; cases "j = ScheduledAt"; auto intro: budget_more)

lemma budget_max_code: "budget (Maximum j v p) m = (j \<notin> {ScheduledAt, ScheduleLatencySamples} \<and> budget p m)"
  unfolding budget_simps by (auto intro: budget_more)

lemma budget_exchange_code:
  "budget (Exchange j v f) m = (j \<noteq> ScheduleLatencySamples \<and> (j = ScheduledAt \<longrightarrow> v = 0) \<and>
    (\<forall>old. budget (f old) (m + (if j = ScheduledAt \<and> old \<noteq> 0 then 1 else 0))))"
proof
  assume "budget (Exchange j v f) m"
  then obtain n where n: "n \<le> m" "j \<noteq> ScheduleLatencySamples" "j = ScheduledAt \<longrightarrow> v = 0"
    "\<And>old. budget (f old) (n + (if j = ScheduledAt \<and> old \<noteq> 0 then 1 else 0))"
    unfolding budget_simps by blast
  have "budget (f old) (m + (if j = ScheduledAt \<and> old \<noteq> 0 then 1 else 0))" for old
    by (rule budget_more [OF n(4)]) (use n(1) in simp)
  then show "j \<noteq> ScheduleLatencySamples \<and> (j = ScheduledAt \<longrightarrow> v = 0) \<and>
      (\<forall>old. budget (f old) (m + (if j = ScheduledAt \<and> old \<noteq> 0 then 1 else 0)))" using n(2,3) by blast
qed (auto intro: budget_exchange)

lemmas budget_code = budget_finished budget_add_code budget_store_code budget_max_code budget_exchange_code

fun schedules :: "runtime_call \<Rightarrow> nat" where
  "schedules (Scheduled t) = 1"
| "schedules _ = 0"

lemma runtime_budget: "budget (runtime_record c) (schedules c)"
  by (cases c) (simp_all add: runtime_record_defs budget_code)

lemma budget_bind: "budget p n \<Longrightarrow> (\<And>a. budget (g a) m) \<Longrightarrow> budget (bindP p g) (n + m)"
proof (induction rule: budget.induct)
  case (budget_finished x n)
  then show ?case by (simp add: budget_more [of _ m])
next
  case (budget_load f n k j)
  then show ?case by (auto intro: budget.budget_load [where n = "n + m"])
next
  case (budget_exchange f n j v k)
  have "budget (bindP (f old) g) (n + m + (if j = ScheduledAt \<and> old \<noteq> 0 then 1 else 0))" for old
    by (rule budget_more [OF budget_exchange.IH [OF budget_exchange.prems]]) simp
  from budget.budget_exchange [of "\<lambda>old. bindP (f old) g", OF this] show ?case using budget_exchange.hyps by simp
qed (auto simp: budget_code split: if_splits elim: budget_more)

lemma budget_block: "\<forall>c\<in>set cs. budget (runtime_record c) (schedules c) \<Longrightarrow>
    budget (calling runtime_record cs) (sum_list (map schedules cs))"
  by (induction cs) (auto simp: calling_def intro: budget.intros budget_bind)

definition waiting :: "runtime_counter cells \<Rightarrow> nat" where
  "waiting s = (if s ScheduledAt \<noteq> 0 then 1 else 0)"

lemma budget_step:
  assumes "budget p b" and "\<not> finished p" and "atomic_step p s = (p', s')"
  shows "\<exists>b'. budget p' b' \<and>
    unat (s' ScheduleLatencySamples) + waiting s' + b' \<le> unat (s ScheduleLatencySamples) + waiting s + b"
proof (cases p)
  case (FetchAdd j v q)
  have grow: "unat (x + 1) \<le> Suc (unat x)" for x :: u64 by (simp add: unat_word_ariths)
  show ?thesis
  proof (cases "j = ScheduleLatencySamples")
    case True
    then have "0 < b" "budget q (b - 1)" "s' = s(j := s j + 1)" "p' = q" using FetchAdd assms by (simp_all add: budget_code)
    then show ?thesis using True grow [of "s j"] by (auto simp: waiting_def intro!: exI [of _ "b - 1"])
  next
    case False
    then show ?thesis using FetchAdd assms by (auto simp: budget_code waiting_def intro!: exI [of _ b])
  qed
next
  case (Exchange j v f)
  have "budget (Exchange j v f) b" "p' = f (s j)" and s': "s' = s(j := v)" using Exchange assms by auto
  then have "budget p' (b + (if j = ScheduledAt \<and> s j \<noteq> 0 then 1 else 0))"
    "j = ScheduledAt \<longrightarrow> v = 0" "j \<noteq> ScheduleLatencySamples" unfolding budget_exchange_code by blast+
  then show ?thesis
    by (intro exI [of _ "b + (if j = ScheduledAt \<and> s j \<noteq> 0 then 1 else 0)"]) (simp add: waiting_def s')
next
  case (LoadAtomic j f)
  then obtain n where "n \<le> b" "\<And>v. budget (f v) n" using assms(1) by (auto elim: budget.cases)
  then show ?thesis using LoadAtomic assms(3) by (auto intro: budget_more)
next
  case (CasLoop j c cur q)
  then show ?thesis using assms(1) by (auto elim: budget.cases)
qed (use assms in \<open>auto simp: budget_code budget_simps waiting_def split: if_splits intro: budget_more\<close>)


text \<open>A schedule is sampled at most once: whatever threads record, however their accesses interleave, and at any
  moment, the latencies sampled are no more than the schedules recorded, because the exchange hands the time of a
  schedule to one of the workers that start.\<close>

theorem schedule_sampled_once:
  assumes "threads_run (map (calling runtime_record) css, \<lambda>_. 0) n f (ps, s)"
  shows "unat (s ScheduleLatencySamples) \<le> sum_list (map schedules (concat css))"
proof -
  let ?N = "sum_list (map schedules (concat css))"
  let ?I = "\<lambda>ps s. \<exists>bs. list_all2 budget ps bs \<and> unat (s ScheduleLatencySamples) + waiting s + sum_list bs \<le> ?N"
  have "map abs_prog (map (calling runtime_record) css) = map (calling runtime_record) css"
    by (simp add: calling_def runtime_abs comp_def)
  from threads_atomic [OF assms this] have "?I (map abs_prog ps) s"
  proof (rule atomic_run_inv)
    have "list_all2 budget (map (calling runtime_record) css) (map (\<lambda>cs. sum_list (map schedules cs)) css)"
      by (auto simp: list_all2_conv_all_nth intro!: budget_block runtime_budget)
    moreover have "sum_list (map (\<lambda>cs. sum_list (map schedules cs)) css) = ?N" by (induction css) simp_all
    ultimately show "?I (map (calling runtime_record) css) (\<lambda>_. 0)" by (auto simp: waiting_def)
    fix ps :: "rt_prog list" and s i p' s'
    assume "?I ps s" and i: "i < length ps" and step: "\<not> finished (ps ! i)" "atomic_step (ps ! i) s = (p', s')"
    then obtain bs where bs: "list_all2 budget ps bs" "unat (s ScheduleLatencySamples) + waiting s + sum_list bs \<le> ?N" by blast
    from budget_step [OF list_all2_nthD [OF bs(1) i] step] obtain b where
      b: "budget p' b" "unat (s' ScheduleLatencySamples) + waiting s' + b \<le> unat (s ScheduleLatencySamples) + waiting s + bs ! i"
      by blast
    have "sum_list (bs[i := b]) + bs ! i = sum_list bs + b"
      using i list_all2_lengthD [OF bs(1)] elem_le_sum_list [of i bs] by (simp add: sum_list_update)
    then show "?I (ps[i := p']) s'" using bs b by (intro exI [of _ "bs[i := b]"] conjI list_all2_update_cong) simp_all
  qed
  then show ?thesis by auto
qed

text \<open>Two workers start after one schedule; one of them takes the sample.\<close>

theorem schedule_sampled_once_witness:
  "\<exists>n f ps s. threads_run (map (calling runtime_record) [[Scheduled 5], [WorkerStarted 7], [WorkerStarted 9]], \<lambda>_. 0) n f (ps, s) \<and>
     s ScheduleLatencySamples = 1 \<and> unat (s ScheduleLatencySamples) \<le> 1"
proof -
  let ?c0 = "(map (calling runtime_record) [[Scheduled 5], [WorkerStarted 7], [WorkerStarted 9]], \<lambda>_. 0 :: u64)"
  obtain ps s where last: "schedule (map (\<lambda>i. (i, False)) [0, 2, 1, 2, 0]) ?c0 = Some (ps, s)" "s ScheduleLatencySamples = 1"
    by (auto simp: calling_def runtime_record_defs)
  from schedule_run [OF run_start last(1)]
  have run: "threads_run (map (calling runtime_record) [[Scheduled 5], [WorkerStarted 7], [WorkerStarted 9]], \<lambda>_. 0) 5 0 (ps, s)"
    by (simp add: eval_nat_numeral)
  have "unat (s ScheduleLatencySamples) \<le> 1" using schedule_sampled_once [OF run] by simp
  then show ?thesis using run last(2) by blast
qed

end
