(* ===== verification/Datapath_Cosmo.thy ===== *)
theory Datapath_Cosmo
  imports Datapath
begin

text \<open>
  The Cosmopolitan branch of \<open>platform/DatagramBatch.cpp\<close>: the batch receiver over the raw system call, with a
  private declaration of Linux's message structures. The system call sees memory, not field names, so a
  message is an image that maps the offset of each scalar to its value; the kernel reads and writes it at the
  offsets of the Linux ABI, the program at those of its own declaration.
\<close>

section \<open>Layout\<close>

text \<open>Offsets of the scalar members of a structure; each is aligned to its size.\<close>

definition align_up :: "nat \<Rightarrow> nat \<Rightarrow> nat" where
  "align_up n a = (n + a - 1) div a * a"

fun member_offsets :: "nat \<Rightarrow> (string \<times> nat) list \<Rightarrow> (string \<times> nat) list" where
  "member_offsets n [] = []"
| "member_offsets n ((member, w) # ms) = (member, align_up n w) # member_offsets (align_up n w + w) ms"

fun struct_end :: "nat \<Rightarrow> (string \<times> nat) list \<Rightarrow> nat" where
  "struct_end n [] = align_up n 8"
| "struct_end n ((member, w) # ms) = struct_end (align_up n w + w) ms"

definition LinuxUserMessageHeader :: "(string \<times> nat) list" where
  "LinuxUserMessageHeader = [(''name'', 8), (''nameLength'', 4), (''namePadding'', 4), (''ioVectors'', 8),
     (''ioVectorCount'', 8), (''control'', 8), (''controlLength'', 8), (''flags'', 4), (''flagsPadding'', 4)]"

definition header_offset :: "string \<Rightarrow> nat" where
  "header_offset member = the (map_of (member_offsets 0 LinuxUserMessageHeader) member)"

text \<open>\<open>LinuxMultiMessageHeader\<close>: the header, then \<open>length\<close> and its padding.\<close>

definition length_offset :: nat where
  "length_offset = struct_end 0 LinuxUserMessageHeader"

section \<open>The system call\<close>

type_synonym image = "nat \<Rightarrow> int option"

text \<open>A message after the call: its image and the memory its pointers lead to.\<close>

record linux_message =
  lm_image :: image
  lm_payload :: bytes
  lm_address :: bytes

text \<open>The call has the images and the lengths of the I/O vectors; it answers with its result, \<open>errno\<close> and the messages.\<close>

record 'k cosmo =
  c_isLinux :: bool
  c_sys_recvmmsg :: "nat \<Rightarrow> image list \<Rightarrow> nat list \<Rightarrow> 'k \<Rightarrow> (int \<times> int \<times> linux_message list) \<times> 'k"

text \<open>Error numbers on Linux.\<close>

definition errno_of :: "int \<Rightarrow> errno" where
  "errno_of n = (if n = 0 then E_NONE else if n = 22 then EINVAL else if n = 92 then ENOPROTOOPT
     else if n = 95 then EOPNOTSUPP else if n = 38 then ENOSYS else if n = 11 then EAGAIN
     else if n = 104 then ECONNRESET else if n = 102 then ENETRESET else if n = 111 then ECONNREFUSED
     else if n = 90 then EMSGSIZE else if n = 5 then EIO else Errno n)"

definition normalizeSyscallError :: "int \<Rightarrow> int \<Rightarrow> errno" where
  "normalizeSyscallError result err =
     (if result = -1 then errno_of err
      else if result < 0 \<and> result \<ge> -4095 then errno_of (- result)
      else EIO)"

section \<open>The receiver\<close>

definition cosmo_buffer_invalid :: "receive_buffer_desc \<Rightarrow> bool" where
  "cosmo_buffer_invalid b \<longleftrightarrow> data_null b \<or> dataCapacity b = 0 \<or> address_null b \<or> sourceAddressCapacity b = 0 \<or>
     sourceAddressCapacity b > 2147483647"

text \<open>The structure is cleared and four members are set; \<open>index\<close> stands for the pointers to the buffer's memory
  and to its I/O vector.\<close>

definition message_image :: "nat \<Rightarrow> receive_buffer_desc \<Rightarrow> image" where
  "message_image index b = map_of
     [(header_offset ''name'', int index),
      (header_offset ''nameLength'', int (sourceAddressCapacity b)),
      (header_offset ''ioVectors'', int index),
      (header_offset ''ioVectorCount'', 1),
      (header_offset ''control'', 0), (header_offset ''controlLength'', 0), (header_offset ''flags'', 0),
      (length_offset, 0)]"

definition image_value :: "image \<Rightarrow> nat \<Rightarrow> int" where
  "image_value m off = (case m off of None \<Rightarrow> 0 | Some v \<Rightarrow> v)"

text \<open>\<open>MSG_TRUNC\<close> is the bit of weight 32.\<close>

definition read_message :: "linux_message \<Rightarrow> received_buffer" where
  "read_message m = \<lparr>rbuf_payload = lm_payload m, rbuf_address = lm_address m,
     dataSize = nat (image_value (lm_image m) length_offset),
     sourceAddressSize = nat (image_value (lm_image m) (header_offset ''nameLength'')),
     flag_truncated = odd (image_value (lm_image m) (header_offset ''flags'') div 32)\<rparr>"

definition cosmo_receive ::
  "'k cosmo \<Rightarrow> nat \<Rightarrow> receive_buffer_desc list \<Rightarrow> 'k \<Rightarrow> (errno + received_buffer list) \<times> 'k" where
  "cosmo_receive C fd buffers k =
     (if buffers = [] \<or> length buffers > MaxBatchSize then (Inl EINVAL, k)
      else if \<not> c_isLinux C then (Inl ENOSYS, k)
      else if list_ex cosmo_buffer_invalid buffers then (Inl EINVAL, k)
      else (case c_sys_recvmmsg C fd (map2 message_image [0..<length buffers] buffers) (map dataCapacity buffers) k of
          ((result, err, messages), k) \<Rightarrow>
            if result < 0 then (Inl (normalizeSyscallError result err), k)
            else if result > int (length buffers) then (Inl EIO, k)
            else (Inr (map read_message (take (nat result) messages)), k)))"

section \<open>The Linux ABI\<close>

text \<open>Where Linux reads and writes: \<open>msg_namelen\<close> at 8, \<open>msg_iov\<close> at 16, \<open>msg_iovlen\<close> at 24, \<open>msg_flags\<close> at 48 and
  \<open>msg_len\<close> at 56. A message with one I/O vector has the capacity of that vector.\<close>

definition linux_capacity :: "nat list \<Rightarrow> image \<Rightarrow> nat" where
  "linux_capacity iovs m = (if image_value m 24 = 1 then iovs ! nat (image_value m 16) else 0)"

definition linux_wrote :: "linux_message \<Rightarrow> kernel_message \<Rightarrow> bool" where
  "linux_wrote m km \<longleftrightarrow> lm_payload m = km_payload km \<and> lm_address m = km_address km \<and>
     image_value (lm_image m) 56 = int (km_length km) \<and> image_value (lm_image m) 8 = int (km_address_length km) \<and>
     odd (image_value (lm_image m) 48 div 32) = km_truncated km"

text \<open>The raw call answers with a negative error number, or as a C function with -1 and \<open>errno\<close>. \<open>K\<close> is the same
  kernel as the C library's \<open>recvmmsg\<close> shows it.\<close>

definition linux_abi :: "'k kernel \<Rightarrow> 'k cosmo \<Rightarrow> bool" where
  "linux_abi K C \<longleftrightarrow> c_isLinux C = k_isLinux K \<and>
     (\<forall>fd images iovs k.
        case k_recvmmsg K fd (map (linux_capacity iovs) images) k of
          (Inl e, k') \<Rightarrow> \<exists>result err ms. c_sys_recvmmsg C fd images iovs k = ((result, err, ms), k') \<and>
            (result = -1 \<and> errno_of err = e \<or> -4095 \<le> result \<and> result < -1 \<and> errno_of (- result) = e)
        | (Inr kms, k') \<Rightarrow> \<exists>err ms. c_sys_recvmmsg C fd images iovs k = ((int (length kms), err, ms), k') \<and>
            length kms \<le> length images \<and> length kms \<le> length ms \<and> list_all2 linux_wrote (take (length kms) ms) kms)"

lemma offsets:
  "header_offset ''name'' = 0" "header_offset ''nameLength'' = 8" "header_offset ''ioVectors'' = 16"
  "header_offset ''ioVectorCount'' = 24" "header_offset ''control'' = 32" "header_offset ''controlLength'' = 40"
  "header_offset ''flags'' = 48" "length_offset = 56"
  by (simp_all add: header_offset_def length_offset_def LinuxUserMessageHeader_def align_up_def)

lemma image_capacity:
  "map (linux_capacity (map dataCapacity buffers)) (map2 message_image [0..<length buffers] buffers) = map dataCapacity buffers"
  by (rule nth_equalityI) (simp_all add: linux_capacity_def image_value_def message_image_def offsets)

lemma read_fill: "linux_wrote m km \<Longrightarrow> read_message m = fill_buffer km"
  by (simp add: linux_wrote_def read_message_def fill_buffer_def offsets)

text \<open>C21. On a kernel with the Linux ABI the Cosmopolitan branch of the batch receiver is equivalent to the Linux branch:
  for all buffers whose address capacity is an \<open>int\<close>, it hands the kernel the same requests and leaves the same result,
  error and buffers, although it declares the structures itself and calls the system directly.\<close>

theorem cosmo_receive_equiv:
  assumes "linux_abi K C" and "\<forall>b\<in>set buffers. sourceAddressCapacity b \<le> 2147483647"
  shows "cosmo_receive C fd buffers k = receiver_receive K fd buffers k"
proof -
  have valid: "list_ex cosmo_buffer_invalid buffers = list_ex buffer_invalid buffers"
    using assms(2) by (induction buffers) (auto simp: cosmo_buffer_invalid_def buffer_invalid_def)
  let ?images = "map2 message_image [0..<length buffers] buffers" and ?iovs = "map dataCapacity buffers"
  have call: "case k_recvmmsg K fd ?iovs k of
      (Inl e, k') \<Rightarrow> \<exists>result err ms. c_sys_recvmmsg C fd ?images ?iovs k = ((result, err, ms), k') \<and>
        (result = -1 \<and> errno_of err = e \<or> -4095 \<le> result \<and> result < -1 \<and> errno_of (- result) = e)
    | (Inr kms, k') \<Rightarrow> \<exists>err ms. c_sys_recvmmsg C fd ?images ?iovs k = ((int (length kms), err, ms), k') \<and>
        length kms \<le> length ?images \<and> length kms \<le> length ms \<and> list_all2 linux_wrote (take (length kms) ms) kms"
    using assms(1) [unfolded linux_abi_def, THEN conjunct2, THEN spec [where x = fd], THEN spec [where x = ?images],
        THEN spec [where x = ?iovs], THEN spec [where x = k]] unfolding image_capacity .
  have read: "map read_message ms = map fill_buffer kms" if "list_all2 linux_wrote ms kms" for ms kms
    using that by (induction rule: list_all2_induct) (simp_all add: read_fill)
  have linux: "c_isLinux C = k_isLinux K" using assms(1) by (simp add: linux_abi_def)
  show ?thesis
  proof (cases "buffers = [] \<or> length buffers > MaxBatchSize \<or> \<not> k_isLinux K \<or> list_ex buffer_invalid buffers")
    case True
    then show ?thesis using linux valid by (auto simp: cosmo_receive_def receiver_receive_def receiver_isSupported_def)
  next
    case False
    then have go: "cosmo_receive C fd buffers k = (case c_sys_recvmmsg C fd ?images ?iovs k of ((result, err, ms), k') \<Rightarrow>
          if result < 0 then (Inl (normalizeSyscallError result err), k')
          else if result > int (length buffers) then (Inl EIO, k')
          else (Inr (map read_message (take (nat result) ms)), k'))"
      and ref: "receiver_receive K fd buffers k = (case k_recvmmsg K fd ?iovs k of
          (Inl e, k') \<Rightarrow> (Inl e, k') | (Inr kms, k') \<Rightarrow> (Inr (map fill_buffer kms), k'))"
      using linux valid by (simp_all add: cosmo_receive_def receiver_receive_def receiver_isSupported_def)
    obtain r k' where K: "k_recvmmsg K fd ?iovs k = (r, k')" by fastforce
    show ?thesis
    proof (cases r)
      case (Inl e)
      then obtain result err ms where "c_sys_recvmmsg C fd ?images ?iovs k = ((result, err, ms), k')"
        "result = -1 \<and> errno_of err = e \<or> -4095 \<le> result \<and> result < -1 \<and> errno_of (- result) = e"
        using call K by auto
      then show ?thesis unfolding go ref K Inl by (auto simp: normalizeSyscallError_def)
    next
      case (Inr kms)
      then obtain err ms where "c_sys_recvmmsg C fd ?images ?iovs k = ((int (length kms), err, ms), k')"
        "length kms \<le> length buffers" "list_all2 linux_wrote (take (length kms) ms) kms"
        using call K by auto
      then show ?thesis unfolding go ref K Inr using read by simp
    qed
  qed
qed


text \<open>A kernel that reports one error as the raw call does and then fills two of three buffers.\<close>

definition demo_wrote :: "kernel_message \<Rightarrow> linux_message" where
  "demo_wrote km = \<lparr>lm_image = [8 \<mapsto> int (km_address_length km), 48 \<mapsto> (if km_truncated km then 32 else 0), 56 \<mapsto> int (km_length km)],
     lm_payload = km_payload km, lm_address = km_address km\<rparr>"

definition demo_cosmo :: "(nat \<times> nat) cosmo" where
  "demo_cosmo = \<lparr>c_isLinux = True, c_sys_recvmmsg = (\<lambda>fd images iovs (n, s).
     if n > 0 then ((-111, 0, []), (n - 1, s))
     else ((int (length (take (length images) [demo_message [1, 2] False, demo_message [3] True])), 0,
       map demo_wrote (take (length images) [demo_message [1, 2] False, demo_message [3] True])), (n, s)))\<rparr>"

definition demo_buffer :: receive_buffer_desc where
  "demo_buffer = \<lparr>data_null = False, dataCapacity = 4096, address_null = False, sourceAddressCapacity = 128\<rparr>"

lemma demo_linux_abi: "linux_abi (demo_kernel True) demo_cosmo"
proof -
  have "linux_wrote (demo_wrote km) km" for km
    by (simp add: linux_wrote_def demo_wrote_def image_value_def)
  then have "list_all2 linux_wrote (map demo_wrote kms) kms" for kms
    by (induction kms) simp_all
  then show ?thesis
    by (auto simp: linux_abi_def demo_kernel_def demo_cosmo_def errno_of_def simp del: take_Cons_numeral)
qed

theorem cosmo_receive_equiv_witness:
  "cosmo_receive demo_cosmo 4 [demo_buffer, demo_buffer, demo_buffer] (0, 0) =
     (Inr (map fill_buffer [demo_message [1, 2] False, demo_message [3] True]), (0, 0)) \<and>
   cosmo_receive demo_cosmo 4 [demo_buffer] (1, 0) = (Inl ECONNREFUSED, (0, 0))"
proof -
  have small: "\<forall>b\<in>set bs. sourceAddressCapacity b \<le> 2147483647" if "set bs \<subseteq> {demo_buffer}" for bs
    using that by (auto simp: demo_buffer_def)
  show ?thesis
    using cosmo_receive_equiv [OF demo_linux_abi small, of "[demo_buffer, demo_buffer, demo_buffer]" 4 "(0, 0)"]
      cosmo_receive_equiv [OF demo_linux_abi small, of "[demo_buffer]" 4 "(1, 0)"]
    by (simp add: receiver_receive_def demo_kernel_def receiver_isSupported_def MaxBatchSize_def buffer_invalid_def demo_buffer_def)
qed

end
