(* ===== verification/Module_Init.thy ===== *)
theory Module_Init
  imports Prelude
begin

text \<open>
  The initialisation of the extension module: \<open>PyInit__ffl_p2p\<close> in \<open>P2P.c\<close> and \<open>registerFFLP2PQUIC\<close> in
  \<open>Quic.cpp\<close>, with the references the code owns. Whether a call of the Python C API succeeds is an argument.
\<close>

datatype pyobj = AgentType | PortMappingType | ModuleObject | CredentialsType | SessionType

datatype init_call = TypeFromSpec pyobj | ModuleCreate | AddObject string | AddConstant string

text \<open>The references of each object, the attributes of the module in the order they were added, the two global
  pointers, and whether an exception is set.\<close>

record init_world =
  refs :: "pyobj \<Rightarrow> nat"
  attributes :: "(string \<times> pyobj option) list"
  gAgentType :: "pyobj option"
  gCredentialsType :: "pyobj option"
  exception_set :: bool

definition init_world_new :: init_world where
  "init_world_new = \<lparr>refs = (\<lambda>_. 0), attributes = [], gAgentType = None, gCredentialsType = None, exception_set = False\<rparr>"

section \<open>The Python C API\<close>

text \<open>A new object has one reference. \<open>PyModule_AddObject\<close> takes the caller's reference over if it succeeds. The module
  gives its references back when its own last one goes.\<close>

definition create :: "(init_call \<Rightarrow> bool) \<Rightarrow> init_call \<Rightarrow> pyobj \<Rightarrow> init_world \<Rightarrow> bool \<times> init_world" where
  "create ok call obj w = (if ok call then (True, w\<lparr>refs := (refs w)(obj := 1)\<rparr>) else (False, w\<lparr>exception_set := True\<rparr>))"

definition PyModule_Add :: "(init_call \<Rightarrow> bool) \<Rightarrow> init_call \<Rightarrow> string \<Rightarrow> pyobj option \<Rightarrow> init_world \<Rightarrow> bool \<times> init_world" where
  "PyModule_Add ok call name v w =
     (if ok call then (True, w\<lparr>attributes := attributes w @ [(name, v)]\<rparr>) else (False, w\<lparr>exception_set := True\<rparr>))"

definition drop_ref :: "pyobj \<Rightarrow> init_world \<Rightarrow> init_world" where
  "drop_ref obj w = w\<lparr>refs := (refs w)(obj := refs w obj - 1)\<rparr>"

definition Py_DECREF :: "pyobj \<Rightarrow> init_world \<Rightarrow> init_world" where
  "Py_DECREF obj w =
     (let w1 = drop_ref obj w in
      if obj = ModuleObject \<and> refs w1 obj = 0
      then (fold (\<lambda>(name, v). case v of None \<Rightarrow> id | Some x \<Rightarrow> drop_ref x) (attributes w1) w1)\<lparr>attributes := []\<rparr>
      else w1)"

section \<open>Registration\<close>

definition registerFFLP2PQUIC :: "(init_call \<Rightarrow> bool) \<Rightarrow> init_world \<Rightarrow> int \<times> init_world" where
  "registerFFLP2PQUIC ok w =
     (case create ok (TypeFromSpec CredentialsType) CredentialsType w of
        (False, w1) \<Rightarrow> (-1, w1)
      | (True, w1) \<Rightarrow>
     (let w2 = w1\<lparr>gCredentialsType := Some CredentialsType\<rparr> in
      case PyModule_Add ok (AddObject ''QUICCredentials'') ''QUICCredentials'' (Some CredentialsType) w2 of
        (False, w3) \<Rightarrow> (-1, (Py_DECREF CredentialsType w3)\<lparr>gCredentialsType := None\<rparr>)
      | (True, w3) \<Rightarrow>
     (case create ok (TypeFromSpec SessionType) SessionType w3 of
        (False, w4) \<Rightarrow> (-1, w4)
      | (True, w4) \<Rightarrow>
     (case PyModule_Add ok (AddObject ''QUICSession'') ''QUICSession'' (Some SessionType) w4 of
        (False, w5) \<Rightarrow> (-1, Py_DECREF SessionType w5)
      | (True, w5) \<Rightarrow>
     (case PyModule_Add ok (AddConstant ''QUIC_ALPN'') ''QUIC_ALPN'' None w5 of
        (False, w6) \<Rightarrow> (-1, w6)
      | (True, w6) \<Rightarrow> (0, w6))))))"

definition module_constants :: "string list" where
  "module_constants = [''JUICE_STATE_DISCONNECTED'', ''JUICE_STATE_GATHERING'', ''JUICE_STATE_CONNECTING'',
     ''JUICE_STATE_CONNECTED'', ''JUICE_STATE_COMPLETED'', ''JUICE_STATE_FAILED'', ''FFL_P2P_NATIVE_BUILD'']"

text \<open>The results of adding these are not looked at.\<close>

definition addConstants :: "(init_call \<Rightarrow> bool) \<Rightarrow> init_world \<Rightarrow> init_world" where
  "addConstants ok = fold (\<lambda>name w. snd (PyModule_Add ok (AddConstant name) name None w)) module_constants"

text \<open>\<open>True\<close> stands for the module, \<open>False\<close> for a null pointer.\<close>

definition PyInit_ffl_p2p :: "(init_call \<Rightarrow> bool) \<Rightarrow> init_world \<Rightarrow> bool \<times> init_world" where
  "PyInit_ffl_p2p ok w =
     (case create ok (TypeFromSpec AgentType) AgentType w of
        (False, w1) \<Rightarrow> (False, w1)
      | (True, w1) \<Rightarrow>
     (let w2 = w1\<lparr>gAgentType := Some AgentType\<rparr> in
      case create ok (TypeFromSpec PortMappingType) PortMappingType w2 of
        (False, w3) \<Rightarrow> (False, Py_DECREF AgentType w3)
      | (True, w3) \<Rightarrow>
     (case create ok ModuleCreate ModuleObject w3 of
        (False, w4) \<Rightarrow> (False, Py_DECREF PortMappingType (Py_DECREF AgentType w4))
      | (True, w4) \<Rightarrow>
     (case PyModule_Add ok (AddObject ''Agent'') ''Agent'' (Some AgentType) w4 of
        (False, w5) \<Rightarrow> (False, Py_DECREF ModuleObject (Py_DECREF PortMappingType (Py_DECREF AgentType w5)))
      | (True, w5) \<Rightarrow>
     (case PyModule_Add ok (AddObject ''PortMapping'') ''PortMapping'' (Some PortMappingType) w5 of
        (False, w6) \<Rightarrow> (False, Py_DECREF ModuleObject (Py_DECREF PortMappingType w6))
      | (True, w6) \<Rightarrow>
     (let w7 = addConstants ok w6 in
      case registerFFLP2PQUIC ok w7 of
        (r, w8) \<Rightarrow> if r < 0 then (False, Py_DECREF ModuleObject w8) else (True, w8)))))))"

section \<open>All or nothing\<close>

definition module_objects :: "(string \<times> pyobj) list" where
  "module_objects = [(''Agent'', AgentType), (''PortMapping'', PortMappingType),
     (''QUICCredentials'', CredentialsType), (''QUICSession'', SessionType)]"

lemma addConstants_eq:
  "addConstants ok w = w\<lparr>attributes := attributes w @ map (\<lambda>name. (name, None)) (filter (\<lambda>name. ok (AddConstant name)) module_constants),
     exception_set := (exception_set w \<or> (\<exists>name\<in>set module_constants. \<not> ok (AddConstant name)))\<rparr>"
proof -
  have "fold (\<lambda>name w. snd (PyModule_Add ok (AddConstant name) name None w)) names w =
      w\<lparr>attributes := attributes w @ map (\<lambda>name. (name, None)) (filter (\<lambda>name. ok (AddConstant name)) names),
        exception_set := (exception_set w \<or> (\<exists>name\<in>set names. \<not> ok (AddConstant name)))\<rparr>" for names
    by (induction names arbitrary: w) (auto simp: PyModule_Add_def)
  then show ?thesis by (simp add: addConstants_def)
qed

lemma drop_constants: "fold (\<lambda>(name, v). case v of None \<Rightarrow> id | Some x \<Rightarrow> drop_ref x) (map (\<lambda>name. (name, None)) names) w = w"
  by (induction names arbitrary: w) auto

text \<open>Initialising the module is all or nothing. If it returns the module, the module is complete: it owns the only
  reference to each of the four types, under their names. If it returns null, an exception is set and every reference
  has been given back, whichever call failed.\<close>

theorem module_init_all_or_nothing:
  "case PyInit_ffl_p2p ok init_world_new of (module, w) \<Rightarrow>
     (if module
      then (\<forall>x. refs w x = 1) \<and> (\<forall>name x. (name, Some x) \<in> set (attributes w) \<longleftrightarrow> (name, x) \<in> set module_objects) \<and>
        (exception_set w \<longleftrightarrow> (\<exists>name\<in>set module_constants. \<not> ok (AddConstant name)))
      else (\<forall>x. refs w x = 0) \<and> attributes w = [] \<and> exception_set w)"
proof -
  have all: "(\<forall>x. P x) = (P AgentType \<and> P PortMappingType \<and> P ModuleObject \<and> P CredentialsType \<and> P SessionType)" for P
    by (metis pyobj.exhaust)
  show ?thesis
    by (simp add: PyInit_ffl_p2p_def registerFFLP2PQUIC_def create_def PyModule_Add_def addConstants_eq Py_DECREF_def
        drop_ref_def drop_constants init_world_new_def all module_objects_def Let_def split: prod.split) auto
qed

end
