(* ===== verification/End_To_End.thy ===== *)
theory End_To_End
  imports Connection_Published Connection_Rx
begin

text \<open>
  Two connections, each run by its own application and worker: what one application writes is what the
  other reads, if QUIC between them delivers what it has accepted.
\<close>



end
