(* ===== verification/Change_Wait.thy ===== *)
theory Change_Wait
  imports Demo_Run
begin

text \<open>
  How the application learns of changes: a thread looks at the published state and, if what it wants has
  not happened, waits in \<open>waitForChange\<close>; others publish under \<open>appMutex_\<close>, advance the generation and then,
  with the mutex released, notify the condition variable. Sections under the mutex, notifications and
  wake-ups interleave.
\<close>

section \<open>Publishing\<close>

datatype publication =
    PubNotify | PubError string | PubState | PubHandshakeComplete | PubHandshakeConfirmed | PubStreamClosed
  | PubAcknowledged | PubReceived

fun publish_section :: "publication \<Rightarrow> ('w, unit) cact" where
  "publish_section PubNotify = notifyApplication"
| "publish_section (PubError m) = setError m"
| "publish_section PubState = publishApplicationState"
| "publish_section PubHandshakeComplete = markHandshakeComplete"
| "publish_section PubHandshakeConfirmed = markHandshakeConfirmed"
| "publish_section PubStreamClosed = markStreamClosed"
| "publish_section PubAcknowledged = markAcknowledged"
| "publish_section PubReceived = processStreamReceive"

text \<open>Only \<open>processStreamReceive\<close> may return without having published anything.\<close>

definition publishes :: "publication \<Rightarrow> 'w conn \<Rightarrow> bool" where
  "publishes p c \<longleftrightarrow> p \<noteq> PubReceived \<or> streamReceiveBatch c \<noteq> [] \<or> peerFinishedPending c"

lemma publish_effect:
  "publish_section p c = (Inr (), c') \<Longrightarrow>
   if publishes p c then appGeneration (app c') = appGeneration (app c) + 1 else app c' = app c"
  by (cases p) (auto simp: publishes_def notifyApplication_def setError_def publishApplicationState_def
      markHandshakeComplete_def markHandshakeConfirmed_def markStreamClosed_def markAcknowledged_def publishWriteState_def
      processStreamReceive_def assertWorkerOwner_def modApp_def bumpGeneration_def act_simps Let_def split: if_splits)

section \<open>The system\<close>

text \<open>A waiting thread keeps the generation it has read; the number is that of the publications before it read it,
  a ghost.\<close>

datatype waiter = AppIdle | Looked bool | Asleep u64 nat | Awake u64 nat | Back bool

record 'w wait_sys =
  ws_conn :: "'w conn"
  ws_waiter :: "nat \<Rightarrow> waiter"
  ws_notifying :: nat
  ws_published :: nat

definition wait_new :: "'w conn \<Rightarrow> 'w wait_sys" where
  "wait_new c = \<lparr>ws_conn = c, ws_waiter = (\<lambda>_. AppIdle), ws_notifying = 0, ws_published = 0\<rparr>"

definition generation :: "'w wait_sys \<Rightarrow> u64" where
  "generation s = appGeneration (app (ws_conn s))"

definition put_to_sleep :: "nat \<Rightarrow> 'w wait_sys \<Rightarrow> 'w wait_sys" where
  "put_to_sleep i s = s\<lparr>ws_waiter := (ws_waiter s)(i := Asleep (generation s) (ws_published s))\<rparr>"

definition published :: "'w conn \<Rightarrow> nat \<Rightarrow> 'w wait_sys \<Rightarrow> 'w wait_sys" where
  "published c' k s = s\<lparr>ws_conn := c', ws_notifying := ws_notifying s + k, ws_published := ws_published s + k\<rparr>"

fun wake :: "waiter \<Rightarrow> waiter" where
  "wake (Asleep g n) = Awake g n"
| "wake x = x"

text \<open>With \<open>together\<close>, a thread would look and read the generation in one section; as the code is, these are two.\<close>

inductive wait_step :: "bool \<Rightarrow> 'w wait_sys \<Rightarrow> 'w wait_sys \<Rightarrow> bool" for together where
  ws_look: "ws_waiter s i = AppIdle \<Longrightarrow>
    wait_step together s (s\<lparr>ws_waiter := (ws_waiter s)(i := Looked (isHandshakeComplete (ws_conn s)))\<rparr>)"
| ws_begin: "\<not> together \<Longrightarrow> ws_waiter s i = Looked False \<Longrightarrow> wait_step together s (put_to_sleep i s)"
| ws_look_begin: "together \<Longrightarrow> ws_waiter s i = AppIdle \<Longrightarrow> \<not> isHandshakeComplete (ws_conn s) \<Longrightarrow>
    wait_step together s (put_to_sleep i s)"
| ws_publish: "publish_section p (ws_conn s) = (Inr (), c') \<Longrightarrow> k = (if publishes p (ws_conn s) then 1 else 0) \<Longrightarrow>
    wait_step together s (published c' k s)"
| ws_notify_all: "0 < ws_notifying s \<Longrightarrow>
    wait_step together s (s\<lparr>ws_notifying := ws_notifying s - 1, ws_waiter := wake \<circ> ws_waiter s\<rparr>)"
| ws_spurious: "ws_waiter s i = Asleep g n \<Longrightarrow> wait_step together s (s\<lparr>ws_waiter := (ws_waiter s)(i := Awake g n)\<rparr>)"
| ws_recheck: "ws_waiter s i = Awake g n \<Longrightarrow>
    wait_step together s (s\<lparr>ws_waiter := (ws_waiter s)(i := if waitForChange g (ws_conn s) then Back True else Asleep g n)\<rparr>)"
| ws_timeout: "ws_waiter s i = Asleep g n \<Longrightarrow>
    wait_step together s (s\<lparr>ws_waiter := (ws_waiter s)(i := Back (waitForChange g (ws_conn s)))\<rparr>)"
| ws_return: "ws_waiter s i \<in> {Back b, Looked b} \<Longrightarrow> wait_step together s (s\<lparr>ws_waiter := (ws_waiter s)(i := AppIdle)\<rparr>)"

inductive wait_reachable :: "bool \<Rightarrow> 'w conn \<Rightarrow> 'w wait_sys \<Rightarrow> bool" for together c0 where
  wr_init: "wait_reachable together c0 (wait_new c0)"
| wr_step: "wait_reachable together c0 s \<Longrightarrow> wait_step together s s' \<Longrightarrow> wait_reachable together c0 s'"

section \<open>Inside the wait nothing is missed\<close>

text \<open>What holds of a thread that has read generation \<open>g\<close> after \<open>n\<close> publications.\<close>

definition waiter_ok :: "bool \<Rightarrow> 'w wait_sys \<Rightarrow> u64 \<Rightarrow> nat \<Rightarrow> bool" where
  "waiter_ok together s g n \<longleftrightarrow> n \<le> ws_published s \<and> generation s = g + of_nat (ws_published s - n) \<and>
     (together \<and> ws_published s = n \<longrightarrow> \<not> isHandshakeComplete (ws_conn s))"

fun waiter_fine :: "bool \<Rightarrow> 'w wait_sys \<Rightarrow> waiter \<Rightarrow> bool" where
  "waiter_fine together s (Asleep g n) \<longleftrightarrow> waiter_ok together s g n \<and> (generation s \<noteq> g \<longrightarrow> 0 < ws_notifying s)"
| "waiter_fine together s (Awake g n) \<longleftrightarrow> waiter_ok together s g n"
| "waiter_fine together s x \<longleftrightarrow> True"

definition wait_inv :: "bool \<Rightarrow> 'w wait_sys \<Rightarrow> bool" where
  "wait_inv together s \<longleftrightarrow> (\<forall>i. waiter_fine together s (ws_waiter s i))"

lemma waiter_ok_waiters: "waiter_ok together (s\<lparr>ws_waiter := W\<rparr>) g n = waiter_ok together s g n"
  by (simp add: waiter_ok_def generation_def)

lemma waiter_fine_waiters: "waiter_fine together (s\<lparr>ws_waiter := W\<rparr>) x = waiter_fine together s x"
  by (cases x) (simp_all add: waiter_ok_waiters generation_def)

lemma wait_inv_upd:
  "wait_inv together s \<Longrightarrow> waiter_fine together s x \<Longrightarrow> wait_inv together (s\<lparr>ws_waiter := (ws_waiter s)(i := x)\<rparr>)"
  by (simp add: wait_inv_def waiter_fine_waiters)

lemma wait_inv_at: "wait_inv together s \<Longrightarrow> ws_waiter s i = x \<Longrightarrow> waiter_fine together s x"
  by (auto simp: wait_inv_def)

lemma waiter_fine_sleep:
  "(together \<Longrightarrow> \<not> isHandshakeComplete (ws_conn s)) \<Longrightarrow> waiter_fine together s (Asleep (generation s) (ws_published s))"
  by (simp add: waiter_ok_def)

lemma waiter_fine_wake:
  "waiter_fine together s x \<Longrightarrow> waiter_fine together (s\<lparr>ws_notifying := k, ws_waiter := W\<rparr>) (wake x)"
  by (cases x) (simp_all add: waiter_ok_def generation_def)

lemma waiter_ok_published:
  assumes ok: "waiter_ok together s g n" and pub: "publish_section p (ws_conn s) = (Inr (), c')"
    and k: "k = (if publishes p (ws_conn s) then 1 else 0)"
  shows "waiter_ok together (published c' k s) g n"
proof (cases "publishes p (ws_conn s)")
  case True
  then have g: "appGeneration (app c') = appGeneration (app (ws_conn s)) + 1" using publish_effect [OF pub] by simp
  have n: "n \<le> ws_published s" using ok by (simp add: waiter_ok_def)
  then have "ws_published s + 1 - n = Suc (ws_published s - n)" by simp
  then show ?thesis using ok g n True k by (simp add: waiter_ok_def generation_def published_def)
next
  case False
  then have "app c' = app (ws_conn s)" using publish_effect [OF pub] by simp
  then show ?thesis using ok False k by (simp add: waiter_ok_def generation_def published_def isHandshakeComplete_def)
qed

lemma waiter_fine_published:
  assumes fine: "waiter_fine together s x" and pub: "publish_section p (ws_conn s) = (Inr (), c')"
    and k: "k = (if publishes p (ws_conn s) then 1 else 0)"
  shows "waiter_fine together (published c' k s) x"
proof (cases x)
  case (Asleep g n)
  have "0 < ws_notifying (published c' k s)" if "generation (published c' k s) \<noteq> g"
  proof (cases "publishes p (ws_conn s)")
    case False
    then have "app c' = app (ws_conn s)" using publish_effect [OF pub] by simp
    then show ?thesis using fine that Asleep by (simp add: generation_def published_def)
  qed (simp add: published_def k)
  then show ?thesis using fine Asleep waiter_ok_published [OF _ pub k] by simp
qed (use fine waiter_ok_published [OF _ pub k] in simp_all)

lemma wait_inv_step: "wait_step together s s' \<Longrightarrow> wait_inv together s \<Longrightarrow> wait_inv together s'"
proof (induction rule: wait_step.induct)
  case (ws_publish p s c' k)
  have "ws_waiter (published c' k s) = ws_waiter s" by (simp add: published_def)
  then show ?case using waiter_fine_published [OF _ ws_publish.hyps] ws_publish.prems by (simp only: wait_inv_def simp_thms)
next
  case (ws_notify_all s)
  then show ?case using waiter_fine_wake [of together s] by (simp add: wait_inv_def)
next
  case (ws_begin s i)
  then show ?case by (simp only: put_to_sleep_def) (intro wait_inv_upd waiter_fine_sleep; simp)
next
  case (ws_look_begin s i)
  then show ?case by (simp only: put_to_sleep_def) (intro wait_inv_upd waiter_fine_sleep; simp)
next
  case (ws_spurious s i g n)
  then show ?case using wait_inv_at [of together s i] by (intro wait_inv_upd) simp_all
next
  case (ws_recheck s i g n)
  then show ?case using wait_inv_at [of together s i "Awake g n"]
    by (intro wait_inv_upd) (simp_all add: waitForChange_def generation_def)
qed (intro wait_inv_upd; simp)+

lemma wait_inv_reachable: "wait_reachable together c0 s \<Longrightarrow> wait_inv together s"
proof (induction rule: wait_reachable.induct)
  case wr_init
  show ?case by (simp add: wait_inv_def wait_new_def)
next
  case (wr_step s s')
  show ?case using wait_inv_step [OF wr_step.hyps(2) wr_step.IH] .
qed

text \<open>C28. Once a thread is inside \<open>waitForChange\<close>, no change published afterwards is lost to it: in every reachable
  state, under any interleaving of threads that wait and threads that publish, if it sleeps although the
  generation differs from the one it has read, then a publisher is still on its way to notify.\<close>

theorem change_not_missed:
  assumes "wait_reachable together c0 s" and "ws_waiter s i = Asleep g n" and "waitForChange g (ws_conn s)"
  shows "0 < ws_notifying s"
  using wait_inv_at [OF wait_inv_reachable [OF assms(1)] assms(2)] assms(3) by (simp add: waitForChange_def generation_def)

lemma handshake_published:
  "publish_section PubHandshakeComplete c = (Inr (), c\<lparr>app := bumpGeneration ((app c)\<lparr>appHandshakeComplete := True\<rparr>)\<rparr>)"
  by (simp add: markHandshakeComplete_def modApp_def act_simps)

abbreviation after_handshake :: "'w conn \<Rightarrow> 'w conn" where
  "after_handshake c \<equiv> c\<lparr>app := bumpGeneration ((app c)\<lparr>appHandshakeComplete := True\<rparr>)\<rparr>"

lemma reach_sleep_publish:
  assumes "\<not> isHandshakeComplete c"
  shows "wait_reachable True c (published (after_handshake c) 1 (put_to_sleep 0 (wait_new c)))"
proof -
  have "wait_step True (wait_new c) (put_to_sleep 0 (wait_new c))"
    by (rule ws_look_begin) (simp_all add: wait_new_def assms)
  then have r: "wait_reachable True c (put_to_sleep 0 (wait_new c))" by (rule wr_step [OF wr_init])
  have "ws_conn (put_to_sleep 0 (wait_new c)) = c" by (simp add: put_to_sleep_def wait_new_def)
  then show ?thesis by (intro wr_step [OF r] ws_publish [of PubHandshakeComplete])
      (simp_all only: handshake_published publishes_def, simp)
qed

lemma generation_advances: "(g :: u64) + 1 \<noteq> g"
  by (metis add_cancel_left_right zero_neq_one)

lemma demo_incomplete: "\<not> isHandshakeComplete demo_conn"
  by (simp add: isHandshakeComplete_def demo_conn_def connection_new_def app_new_def)

theorem change_not_missed_witness:
  "0 < ws_notifying (published (after_handshake demo_conn) 1 (put_to_sleep 0 (wait_new demo_conn)))"
  by (rule change_not_missed [OF reach_sleep_publish [OF demo_incomplete], where i = 0 and g = "appGeneration (app demo_conn)" and n = 0])
    (simp_all add: published_def put_to_sleep_def wait_new_def waitForChange_def generation_def bumpGeneration_def generation_advances)

section \<open>Between the look and the wait\<close>

definition overlooked :: "'w wait_sys \<Rightarrow> nat \<Rightarrow> bool" where
  "overlooked s i \<longleftrightarrow> (case ws_waiter s i of Asleep _ _ \<Rightarrow> True | _ \<Rightarrow> False) \<and> ws_notifying s = 0 \<and>
     isHandshakeComplete (ws_conn s)"

lemma together_not_overlooked:
  assumes "wait_reachable True c0 s" and "ws_published s < 2 ^ 64"
  shows "\<not> overlooked s i"
proof
  assume "overlooked s i"
  then obtain g n where "ws_waiter s i = Asleep g n" and 0: "ws_notifying s = 0" and hs: "isHandshakeComplete (ws_conn s)"
    by (auto simp: overlooked_def split: waiter.splits)
  then have fine: "waiter_fine True s (Asleep g n)" using wait_inv_at [OF wait_inv_reachable] assms(1) by blast
  then have ok: "waiter_ok True s g n" and "generation s = g" using 0 by auto
  then have "of_nat (ws_published s - n) = (0 :: u64)" by (simp add: waiter_ok_def)
  then have "2 ^ 64 dvd ws_published s - n" by (simp add: word_of_nat_eq_0_iff)
  then have "ws_published s = n" using assms(2) ok by (auto simp: waiter_ok_def dest: dvd_imp_le)
  then show False using ok hs by (simp add: waiter_ok_def)
qed

text \<open>The thread looks, the handshake completes, its publisher notifies, and only then the thread begins to wait.\<close>

lemma apart_overlooked:
  assumes "\<not> isHandshakeComplete c"
  obtains s where "wait_reachable False c s" and "ws_published s = 1" and "overlooked s 0"
proof -
  define s1 where "s1 = (wait_new c)\<lparr>ws_waiter := (ws_waiter (wait_new c))(0 := Looked False)\<rparr>"
  define s2 where "s2 = published (after_handshake c) 1 s1"
  define s3 where "s3 = s2\<lparr>ws_notifying := ws_notifying s2 - 1, ws_waiter := wake \<circ> ws_waiter s2\<rparr>"
  have "isHandshakeComplete (ws_conn (wait_new c)) = False" using assms by (simp add: wait_new_def)
  then have "wait_step False (wait_new c) s1"
    using ws_look [of "wait_new c" 0 False] by (simp add: s1_def wait_new_def)
  then have 1: "wait_reachable False c s1" by (rule wr_step [OF wr_init])
  have "ws_conn s1 = c" by (simp add: s1_def wait_new_def)
  then have "wait_step False s1 s2"
    unfolding s2_def by (intro ws_publish [of PubHandshakeComplete]) (simp_all only: handshake_published publishes_def, simp)
  then have 2: "wait_reachable False c s2" by (rule wr_step [OF 1])
  have "wait_step False s2 s3" unfolding s3_def by (rule ws_notify_all) (simp add: s2_def published_def)
  then have 3: "wait_reachable False c s3" by (rule wr_step [OF 2])
  have "wait_step False s3 (put_to_sleep 0 s3)"
    by (rule ws_begin) (simp_all add: s1_def s2_def s3_def published_def wait_new_def)
  then have "wait_reachable False c (put_to_sleep 0 s3)" by (rule wr_step [OF 3])
  moreover have "overlooked (put_to_sleep 0 s3) 0" "ws_published (put_to_sleep 0 s3) = 1"
    by (simp_all add: overlooked_def put_to_sleep_def s3_def s2_def s1_def published_def wait_new_def isHandshakeComplete_def
        bumpGeneration_def)
  ultimately show thesis using that by blast
qed

text \<open>C29. What a thread does before the wait is not covered: since \<open>waitForChange\<close> reads the generation itself, a
  thread may find the handshake incomplete, the handshake complete and be notified, and the thread then go to
  sleep with nobody left to wake it but its timeout. That happens exactly because looking and reading the
  generation are two sections: were they one, no reachable state (within \<open>2 ^ 64\<close> publications) would have a
  thread asleep, the handshake complete and no notification due.\<close>

theorem change_overlooked:
  assumes "\<not> isHandshakeComplete c0"
  shows "(\<exists>s i. wait_reachable together c0 s \<and> ws_published s < 2 ^ 64 \<and> overlooked s i) \<longleftrightarrow> \<not> together"
proof (cases together)
  case True
  then have "\<not> overlooked s i" if "wait_reachable together c0 s" and "ws_published s < 2 ^ 64" for s i
    using that together_not_overlooked by simp
  then show ?thesis using True by blast
next
  case False
  obtain s where "wait_reachable False c0 s" and "ws_published s = 1" and "overlooked s 0"
    using apart_overlooked [OF assms] .
  then have "wait_reachable False c0 s \<and> ws_published s < 2 ^ 64 \<and> overlooked s 0" by simp
  then show ?thesis using False by (metis (full_types))
qed

theorem change_overlooked_witness:
  "\<exists>s i. wait_reachable False demo_conn s \<and> ws_published s < 2 ^ 64 \<and> overlooked s i"
  using change_overlooked [OF demo_incomplete, of False] by simp

end
