(* ===== verification/Connection_Frame.thy ===== *)
theory Connection_Frame
  imports Connection_Run
begin

text \<open>
  What the handlers leave alone that neither write nor send a packet. The locale \<open>conn_frame\<close> takes a property
  of the sending side (what waits for a retry, when it is retried, what has been dropped) and carries it
  through these handlers; \<open>conn_alive\<close> carries a property of running connections through whole runs, given that
  an operation that ends normally keeps it.
\<close>

section \<open>The environment apart from writing and sending\<close>

definition env_quiet :: "'w quic_env \<Rightarrow> ('w \<Rightarrow> 'o) \<Rightarrow> bool" where
  "env_quiet E obs \<longleftrightarrow>
     keeps obs (q_now E) \<and> (\<forall>c. keeps obs (q_tls E c)) \<and> (\<forall>n. keeps obs (q_random E n)) \<and>
     keeps obs (\<lambda>w. ((), q_tls_release E w)) \<and> keeps obs (\<lambda>w. ((), q_credentials_release E w)) \<and>
     keeps obs (\<lambda>w. ((), q_conn_del E w)) \<and> keeps obs (\<lambda>w. ((), q_set_tls_native_handle E w)) \<and>
     (\<forall>srv d c p. keeps obs (q_conn_new E srv d c p)) \<and> keeps obs (q_open_bidi_stream E) \<and>
     (\<forall>t. keeps obs (\<lambda>w. ((), q_update_pkt_tx_time E t w))) \<and> keeps obs (q_arrivals E) \<and>
     (\<forall>sid n. keeps obs (q_extend_max_stream_offset E sid n)) \<and> (\<forall>n. keeps obs (\<lambda>w. ((), q_extend_max_offset E n w))) \<and>
     (\<forall>path pk t w. ng_tree obs (\<lambda>_ _. True) ret_keeps (q_read_pkt E path pk t w) (obs w)) \<and>
     (\<forall>t w. ng_tree obs (\<lambda>_ _. True) ret_keeps (q_handle_expiry E t w) (obs w))"

lemma env_quiet_trivial: "env_quiet E (\<lambda>_. ())"
  by (simp add: env_quiet_def keeps_def ng_tree_trivial ret_keeps_def)

section \<open>Handlers that do not send\<close>

locale conn_frame =
  fixes E :: "'w quic_env" and obs :: "'w \<Rightarrow> 'o" and I :: "'w conn \<Rightarrow> bool"
  assumes quiet: "env_quiet E obs"
    and frame: "I s \<Longrightarrow> obs (world s') = obs (world s) \<Longrightarrow> pendingSend s' = pendingSend s \<Longrightarrow>
      tooLargeSendDrops s' = tooLargeSendDrops s \<Longrightarrow> sendRetryExpiry s' = sendRetryExpiry s \<Longrightarrow> stopped s' = stopped s \<Longrightarrow>
      (hasConn (proto s) \<longrightarrow> hasConn (proto s')) \<Longrightarrow> (sendOperationPending s \<longrightarrow> sendOperationPending s') \<Longrightarrow> I s'"
begin

lemma quiet_keeps:
  "keeps obs (q_now E)" "keeps obs (q_tls E c)" "keeps obs (q_random E n)" "keeps obs (\<lambda>w. ((), q_tls_release E w))"
  "keeps obs (\<lambda>w. ((), q_credentials_release E w))" "keeps obs (\<lambda>w. ((), q_conn_del E w))"
  "keeps obs (\<lambda>w. ((), q_set_tls_native_handle E w))" "keeps obs (q_conn_new E srv d cid p)" "keeps obs (q_open_bidi_stream E)"
  "keeps obs (q_arrivals E)" "keeps obs (q_extend_max_stream_offset E sid n)" "keeps obs (\<lambda>w. ((), q_extend_max_offset E n w))"
  "ng_tree obs (\<lambda>_ _. True) ret_keeps (q_read_pkt E path pk ts w) (obs w)"
  "ng_tree obs (\<lambda>_ _. True) ret_keeps (q_handle_expiry E ts w) (obs w)"
  using quiet by (simp_all add: env_quiet_def del: split_paired_All)

lemma frame_proto: "(\<And>p. hasConn p \<Longrightarrow> hasConn (f p)) \<Longrightarrow> preserves I (modProto f)"
  unfolding modProto_def by (rule preserves_modify) (erule frame; simp)

lemma frame_basic:
  "preserves I (modApp g)" "preserves I (queueOperation oper)" "preserves I (queueInternalOperation ty)"
  by (auto simp: preserves_def act_simps queueInternalOperation_def queueOperation_def completeOperation_def
      scheduleIfIdle_def split: option.split; erule frame; simp)+

lemma frame_extern: "keeps obs f \<Longrightarrow> preserves I (extern f)"
  by (auto simp: preserves_def act_simps keeps_def; erule frame; simp)

lemma frame_flush:
  "preserves I queueSendFlush" "preserves I queueStreamReceiveFlush" "preserves I publishApplicationState"
  "preserves I notifyApplication" "preserves I (setError m)"
  unfolding queueSendFlush_def queueStreamReceiveFlush_def publishApplicationState_def notifyApplication_def setError_def
    assertWorkerOwner_def
  by (intro preserves_intros preserves_modify frame_basic; erule frame; simp add: Let_def)+

lemma frame_callbacks: "preserves I (callbacks E cb)"
proof -
  note steps = preserves_intros frame_proto frame_basic frame_flush frame_extern quiet_keeps preserves_modify
  have mark: "preserves I markHandshakeComplete" "preserves I markHandshakeConfirmed" "preserves I markAcknowledged" "preserves I markStreamClosed"
    unfolding markHandshakeComplete_def markHandshakeConfirmed_def markAcknowledged_def markStreamClosed_def
    by (intro steps; (erule frame)?; simp add: Let_def)+
  have "preserves I (newCIDCallback E n)" for n
    unfolding newCIDCallback_def cb_fail_def by (intro steps)
  moreover have "preserves I handshakeCompletedCallback" "preserves I handshakeConfirmedCallback" "preserves I (streamCloseCallback fl sid)" for fl sid
    unfolding handshakeCompletedCallback_def handshakeConfirmedCallback_def streamCloseCallback_def cb_ok_def
    by (intro preserves_intros frame_proto mark; simp)+
  moreover have "preserves I (receiveStreamDataCallback fin sid off data)" for fin sid off data
    unfolding receiveStreamDataCallback_def appendReceivedStreamData_def markPeerFinished_def assertWorkerOwner_def cb_fail_def cb_ok_def
    by (intro preserves_intros frame_proto frame_flush preserves_modify; (erule frame)?; simp)
  moreover have "preserves I (acknowledgedStreamDataCallback sid off len)" for sid off len
    unfolding acknowledgedStreamDataCallback_def cb_fail_def cb_ok_def
    by (intro preserves_intros frame_proto mark; simp)
  ultimately show ?thesis
    by (cases cb) (simp_all add: callbacks_def cb_fail_def preserves_ret)
qed

lemma frame_call:
  assumes "\<And>s. ng_tree obs (\<lambda>_ _. True) ret_keeps (t s) (obs (world s))"
  shows "preserves I (\<lambda>s. run_ng (callbacks E) (t s) s)"
proof (rule run_ng_preserves [where obs = obs and okcb = "\<lambda>_ _. True"])
  show "obs (world (snd (callbacks E cb s))) = obs (world s)" for cb and s :: "'w conn"
    using preservesD [OF callbacks_obs [of obs E "obs (world s)" cb], of s] quiet_keeps(3) by simp
  show "I (s\<lparr>io := (io s)\<lparr>io_world := w\<rparr>\<rparr>)" if "I s" "obs w = obs (world s)" for s w
    using that(1) by (rule frame) (use that(2) in simp_all)
  show "I (snd (callbacks E cb s))" if "I s" for cb s
    by (rule preservesD [OF frame_callbacks that])
qed (rule assms)

lemma frame_set_up:
  "preserves I (tlsChecked E c m)" "preserves I (checkNgtcp2 E code m)" "preserves I (ensureGnuTLS E)"
  "preserves I (generateRandomCID E)" "preserves I (getCurrentTimestampNS E)"
  unfolding tlsChecked_def checkGnuTLS_def checkNgtcp2_def ensureGnuTLS_def generateRandomCID_def getCurrentTimestampNS_def
  by (intro preserves_intros preserves_modify frame_extern quiet_keeps; erule frame; simp)+

lemma frame_initialize: "preserves I (initializeClient E)" "preserves I (initializeServer E pk)"
  unfolding initializeClient_def initializeServer_def initializeFixedPath_def initializeTLS_def initializeQUIC_def
  by (intro preserves_intros frame_extern frame_proto frame_set_up quiet_keeps; simp)+

lemma frame_queueReceive: "preserves I (queueReceive d)"
  unfolding queueReceive_def
  by (intro preserves_intros preserves_modify preserves_zoom frame_basic; erule frame; simp)

lemma frame_arrive: "preserves I (arrive ds)"
  unfolding arrive_def by (rule preserves_block) (auto intro!: preserves_intros frame_queueReceive)

lemma frame_feed: "preserves I (feedPacket E pk)"
  unfolding feedPacket_def
  by (intro preserves_intros preserves_call frame_call frame_initialize frame_set_up quiet_keeps)

lemma frame_feed_all: "preserves I (blockA (map (feedPacket E) pks))"
  by (rule preserves_block) (auto intro: frame_feed)

lemma frame_handlers:
  "preserves I (processStart E)" "preserves I (processSend E oper)" "preserves I (processReceive E)"
  "preserves I processStreamReceive" "preserves I (processReleaseStreamReceiveCredit E)"
  "preserves I (modify (\<lambda>s. s\<lparr>streamReceiveOperationPending := False\<rparr>))"
proof -
  note steps = preserves_intros frame_proto frame_basic frame_flush frame_extern frame_set_up frame_initialize frame_arrive
    frame_feed_all quiet_keeps preserves_modify
  show "preserves I (processStart E)"
    unfolding processStart_def by (intro steps; erule frame; simp)
  show "preserves I (processSend E oper)"
    unfolding processSend_def chooseStream_def by (intro steps; simp add: add_chunk_def)
  show "preserves I (processReceive E)"
    unfolding processReceive_def by (intro steps; erule frame; simp)
  show "preserves I processStreamReceive"
    unfolding processStreamReceive_def assertWorkerOwner_def by (intro steps; erule frame; simp)
  show "preserves I (processReleaseStreamReceiveCredit E)"
    unfolding processReleaseStreamReceiveCredit_def assertWorkerOwner_def by (intro steps; erule frame; simp)
  show "preserves I (modify (\<lambda>s. s\<lparr>streamReceiveOperationPending := False\<rparr>))"
    by (intro steps; erule frame; simp)
qed

text \<open>The timer and the release of the transport, for properties that allow what these change.\<close>

lemma frame_timer: "preserves I clearSendRetry \<Longrightarrow> preserves I (processTimer E)"
  unfolding processTimer_def
  by (intro preserves_intros preserves_call frame_call frame_flush frame_set_up quiet_keeps)

lemma frame_release:
  assumes "\<And>s. I s \<Longrightarrow> I (s\<lparr>proto := (proto s)\<lparr>hasConn := False\<rparr>\<rparr>)"
  shows "preserves I (releaseTransport E)"
proof -
  have down: "preserves I (modProto (\<lambda>p. p\<lparr>hasConn := False\<rparr>))"
    unfolding modProto_def by (rule preserves_modify) (erule assms)
  show ?thesis
    unfolding releaseTransport_def by (intro preserves_intros frame_extern down frame_proto quiet_keeps; simp)
qed

lemma frame_binding_onReceive: "preserves I (binding_onReceive d)"
  unfolding binding_onReceive_def by (intro preserves_intros frame_queueReceive)

lemma frame_other:
  assumes "op_type oper \<notin> {FlushSend, TimerExpired, Shutdown}"
  shows "preserves I (processOperation E oper)"
  using assms frame_handlers unfolding processOperation_def
  by (cases "op_type oper") (auto intro!: preserves_intros)

end

section \<open>Running connections\<close>

text \<open>A failed operation stops the connection, so a property of running connections only has to survive normal ends.\<close>

locale conn_alive = conn_frame +
  assumes halt: "stopped s \<Longrightarrow> I s"
    and work: "post I (processOperation E oper) (\<lambda>_. I)"
begin

lemma alive_complete: "preserves I (completeOperation oper m)" "preserves I (drainFailedOperations m)"
  unfolding completeOperation_def drainFailedOperations_def
  by (rule preserves_modify, erule frame; simp split: option.split)+

lemma alive_next:
  assumes start: "I s" and run: "processNext E s = (r, s')" and r: "r \<noteq> Inl Undefined"
  shows "I s'"
proof (cases "queue_pop (operationQueue s)")
  case None
  then show ?thesis using run start by (simp add: processNext_def act_simps)
next
  case (Some p)
  obtain oper q where p: "queue_pop (operationQueue s) = Some (oper, q)" using Some by (cases p) simp
  let ?s = "s\<lparr>operationQueue := q\<rparr>"
  have start': "I ?s" using start by (rule frame) simp_all
  obtain r1 s1 where one: "processOperation E oper ?s = (r1, s1)" by fastforce
  obtain t s2 where tried: "tryOperation E oper ?s = (t, s2)" by fastforce
  have s': "s' = s2 \<or> s' = snd (drainFailedOperations ''QUIC runtime is stopped'' s2)"
    and rt: "r = Inl Undefined \<or> t \<noteq> Inl Undefined"
    using run p tried by (auto simp: processNext_def bindA_def gets_def modify_def ret_def split: sum.splits if_splits prod.splits)
  have "I s2"
  proof (cases r1)
    case (Inr x)
    then have "s2 = snd (completeOperation oper '''' s1)"
      using tried one by (auto simp: tryOperation_def completeOperation_def act_simps split: option.splits)
    then show ?thesis using postD [OF work start' one [unfolded Inr]] preservesD [OF alive_complete(1)] by simp
  next
    case (Inl e)
    then have fail: "failOperation E oper e s1 = (t, s2)" using tried one by (simp add: tryOperation_def act_simps)
    then have e: "e \<noteq> Undefined" using rt r by (auto simp: failOperation_def act_simps)
    obtain ok where "t = Inr ok" using failOperation_nothrow [OF e] fail by (metis nothrowE prod.inject)
    then show ?thesis using fail_result [OF e, of E oper s1 ok s2] fail by (intro halt) simp
  qed
  then show ?thesis using s' preservesD [OF alive_complete(2)] by auto
qed

lemma alive_fail:
  assumes "I s" and "failFromRuntime E m s = (r, s')"
  shows "I s'"
proof (cases "onWorker s")
  case True
  then obtain s1 where "failFromRuntime E m s = (Inr (), s1)" using fail_runtime_nothrow by blast
  then have "failFromRuntime E m s = (Inr (), s')" using assms(2) by simp
  then have "stopped s'"
    by (auto simp: failFromRuntime_def act_simps drainFailedOperations_def setError_def
        assertWorkerOwner_def split: if_splits prod.splits sum.splits)
  then show ?thesis by (rule halt)
next
  case False
  then show ?thesis using assms by (simp add: failFromRuntime_def assertWorkerOwner_def act_simps split: if_splits)
qed

lemma alive_step:
  assumes "I s" and "conn_step E s s'"
  shows "I s'"
  using assms(2)
proof (rule conn_stepE)
  fix c r
  assume run: "run_call E c (s\<lparr>onWorker := by_worker c\<rparr>) = (r, s')" and r: "r \<noteq> Inl Undefined"
  have start: "I (s\<lparr>onWorker := by_worker c\<rparr>)" using assms(1) by (rule frame) simp_all
  have calls: "preserves I (start_request a g n)" "preserves I (start_finish k)" "preserves I close_request"
    "preserves I (close_finish k)" "preserves I (queueDataAsync d fin)" "preserves I takeReceivedStreamData"
    "preserves I beginWorkerProcessing" "preserves I publishApplicationState" "preserves I finishWorkerProcessing"
    "preserves I queueTimerExpired" for a g n k d fin
    by (rule calls_frame; erule frame; simp)+
  consider (process) "c = WorkerNext" | (fail) m where "c = WorkerFail m"
    | (other) "c \<noteq> WorkerNext" "\<And>m. c \<noteq> WorkerFail m" by blast
  then show "I s'"
  proof cases
    case process
    obtain q s1 where one: "processNext E (s\<lparr>onWorker := by_worker c\<rparr>) = (q, s1)" by fastforce
    then have "s1 = s'" "q \<noteq> Inl Undefined" using run r process by (auto simp: bindA_def ret_def split: sum.splits)
    then show ?thesis using alive_next [OF start one] by simp
  next
    case (fail m)
    then show ?thesis using alive_fail [OF start] run by simp
  next
    case other
    then have "preserves I (run_call E c)"
      by (cases c) (auto intro!: preserves_intros calls frame_binding_onReceive)
    then show ?thesis using start run by (rule preservesD2)
  qed
qed

lemma alive_reachable: "conn_reachable E s0 s \<Longrightarrow> I s0 \<Longrightarrow> I s"
  by (rule conn_reachable_inv) (assumption | rule alive_step)+

end

end
