(* ===== verification/Connection_Packets.thy ===== *)
theory Connection_Packets
  imports Demo_Run Connection_Frame Segments
begin

text \<open>
  The way of a packet out of the connection: ngtcp2 writes it, alone or into an aggregate, a send flush hands
  it to libjuice, and what the transport does not take yet is kept for a retry. Whether packets are
  aggregated or not, the datagrams that libjuice takes are those that ngtcp2 has written, in the order
  they were written, each once; what is left out is counted.
\<close>

section \<open>What is assumed of the external code\<close>

text \<open>The observation: the packets that ngtcp2 has written, and the datagrams that libjuice has taken.\<close>

type_synonym outward = "bytes list \<times> bytes list"

definition packet :: "ng_written \<Rightarrow> bytes list" where
  "packet r = (case r of Inr out \<Rightarrow> if out = [] then [] else [out] | Inl _ \<Rightarrow> [])"

definition writes :: "bytes list \<Rightarrow> outward \<Rightarrow> outward" where
  "writes ps b = (fst b @ ps, snd b)"

definition takes :: "bytes list \<Rightarrow> outward \<Rightarrow> outward" where
  "takes ps b = (fst b, snd b @ ps)"

text \<open>\<open>ngtcp2_conn_write_aggregate_pkt2\<close> has its packets written by the callback, one by one, and returns them
  end to end, with the size that all have but the last. \<open>ps\<close> is what the callback has written so far.\<close>

primrec aggregates :: "('w \<Rightarrow> outward) \<Rightarrow> ('w, ng_written \<times> nat) ng \<Rightarrow> bytes list \<Rightarrow> outward \<Rightarrow> bool" where
  "aggregates obs (NgReturn r w) = (\<lambda>ps b. obs w = b \<and>
     (case r of (Inr out, seg) \<Rightarrow> ps = segments (if seg = 0 then length out else seg) out | (Inl _, _) \<Rightarrow> True))"
| "aggregates obs (NgCallback cb w k) = (\<lambda>ps b. obs w = b \<and>
     (\<forall>reply w'. let new = (if is_write cb then packet reply else []) in
        obs w' = writes new b \<longrightarrow> aggregates obs (k (reply, w')) (ps @ new) (obs w')))"

text \<open>libjuice takes a datagram or not; of an aggregate it takes whole segments from the front and says how many
  bytes that is.\<close>

definition juice_takes :: "'w juice_env \<Rightarrow> ('w \<Rightarrow> outward) \<Rightarrow> bool" where
  "juice_takes J obs \<longleftrightarrow>
     (\<forall>a d w. case juice_send J a d w of (r, w') \<Rightarrow>
        obs w' = takes (if r = JUICE_ERR_SUCCESS then [d] else []) (obs w)) \<and>
     (\<forall>a d g w. 0 < g \<longrightarrow> g \<le> length d \<longrightarrow> (case juice_send_aggregate_progress J a d g w of ((r, sent), w') \<Rightarrow>
        obs w' = takes (segments g (take sent d)) (obs w) \<and> (g dvd sent \<or> length d \<le> sent)))"

text \<open>Nothing else writes a packet or hands one over.\<close>

definition pk_env :: "'w quic_env \<Rightarrow> ('w \<Rightarrow> outward) \<Rightarrow> bool" where
  "pk_env E obs \<longleftrightarrow>
     env_quiet E obs \<and>
     (\<forall>n f sid d t w. ng_tree obs (\<lambda>_ _. True) (\<lambda>r b b'. b' = writes (packet (fst r)) b) (q_write_stream E n f sid d t w) (obs w)) \<and>
     (\<forall>n t w. ng_tree obs (\<lambda>_ _. True) (\<lambda>r b b'. b' = writes (packet r) b) (q_write_pkt E n t w) (obs w)) \<and>
     (\<forall>n m t w. aggregates obs (q_write_aggregate E n m t w) [] (obs w)) \<and>
     juice_takes (q_juice E) obs"

section \<open>Handing over\<close>

text \<open>The datagrams a buffer stands for.\<close>

definition outgoing :: "bool \<Rightarrow> nat \<Rightarrow> bytes \<Rightarrow> bytes list" where
  "outgoing aggregate seg data = (if aggregate then segments seg data else if data = [] then [] else [data])"

lemma outgoing_Nil [simp]: "outgoing aggregate seg [] = []"
  by (simp add: outgoing_def)

lemma outgoing_split:
  assumes "k = 0 \<or> length data \<le> k \<or> (aggregate \<and> seg dvd k)"
  shows "outgoing aggregate seg data = outgoing aggregate seg (take k data) @ outgoing aggregate seg (drop k data)"
proof (cases "k = 0 \<or> length data \<le> k")
  case False
  then have "aggregate" and "segments seg data = segments seg (take k data) @ segments seg (drop k data)"
    using assms by (auto intro: segments_split)
  then show ?thesis by (simp add: outgoing_def)
qed auto

lemma juice_send_takes:
  assumes "juice_takes J obs" and "juice_send J a d w = (r, w')"
  shows "obs w' = takes (if r = JUICE_ERR_SUCCESS then [d] else []) (obs w)"
proof -
  have "case juice_send J a d w of (r, w') \<Rightarrow> obs w' = takes (if r = JUICE_ERR_SUCCESS then [d] else []) (obs w)"
    using assms(1) [unfolded juice_takes_def] by (elim conjE allE) assumption
  then show ?thesis using assms(2) by simp
qed

lemma juice_aggregate_takes:
  assumes "juice_takes J obs" and "juice_send_aggregate_progress J a d g w = ((r, sent), w')" and "0 < g" and "g \<le> length d"
  shows "obs w' = takes (segments g (take sent d)) (obs w)" and "g dvd sent \<or> length d \<le> sent"
proof -
  have "case juice_send_aggregate_progress J a d g w of ((r, sent), w') \<Rightarrow>
      obs w' = takes (segments g (take sent d)) (obs w) \<and> (g dvd sent \<or> length d \<le> sent)"
    using assms(1) [unfolded juice_takes_def] assms(3,4) by (elim conjE allE impE) assumption+
  then show "obs w' = takes (segments g (take sent d)) (obs w)" and "g dvd sent \<or> length d \<le> sent"
    using assms(2) by simp_all
qed

lemma takes_Nil [simp]: "takes [] b = b"
  by (simp add: takes_def)

lemma agent_send_takes:
  assumes J: "juice_takes J obs" and send: "sendFFLP2PAgentNative J h data agents w = (r, w')"
  shows "obs w' = takes (if r = JUICE_ERR_SUCCESS then [data] else []) (obs w)"
proof -
  have "(r, w') = (JUICE_ERR_INVALID, w) \<or> (\<exists>a. juice_send J a data w = (r, w'))"
    using send by (auto simp: sendFFLP2PAgentNative_def sendFFLP2PJuice_def split: option.splits if_splits)
  then show ?thesis using juice_send_takes [OF J] by auto
qed

lemma agent_aggregate_takes:
  assumes J: "juice_takes J obs" and g: "0 < g" "g \<le> length data"
    and send: "sendFFLP2PAgentNativeAggregateProgress J h data g agents w = ((r, sent), w')"
  shows "obs w' = takes (segments g (take sent data)) (obs w) \<and> (g dvd sent \<or> length data \<le> sent)"
proof -
  have "((r, sent), w') = ((JUICE_ERR_INVALID, 0), w) \<or> (\<exists>a. juice_send_aggregate_progress J a data g w = ((r, sent), w'))"
    using send
    by (auto simp: sendFFLP2PAgentNativeAggregateProgress_def sendFFLP2PJuiceAggregateProgress_def split: option.splits if_splits)
  then show ?thesis using juice_aggregate_takes [OF J _ g] by fastforce
qed

lemma translated_size: "translateSendResult text res n sent oper = Inr r \<Longrightarrow> sentSize r = sent"
  by (auto simp: translateSendResult_def split: if_splits)

text \<open>What a send hands over is what it says it has sent.\<close>

lemma binding_send_out:
  assumes J: "juice_takes J obs" and run: "binding_send J data t = (Inr r, t')" and data: "data \<noteq> []"
  shows "obs (io_world t') = takes (outgoing False seg (take (sentSize r) data)) (obs (io_world t)) \<and>
    (sentSize r = 0 \<or> length data \<le> sentSize r)"
proof (cases "datagramLimit (io_binding t) \<noteq> 0 \<and> datagramLimit (io_binding t) < length data")
  case True
  then show ?thesis using run by (auto simp: binding_send_def Let_def translateSendResult_def split: if_splits)
next
  case False
  obtain res w where send: "sendFFLP2PAgentNative J (agentHandle (io_binding t)) data (io_agents t) (io_world t) = (res, w)"
    by fastforce
  then have "t' = t\<lparr>io_world := w\<rparr>" "sentSize r = (if res = JUICE_ERR_SUCCESS then length data else 0)"
    using run False by (auto simp: binding_send_def Let_def dest: translated_size split: if_splits)
  then show ?thesis using agent_send_takes [OF J send] data by (simp add: outgoing_def)
qed

lemma binding_sendAggregate_out:
  assumes J: "juice_takes J obs" and data: "data \<noteq> []" and seg: "0 < seg"
    and run: "binding_sendAggregate J data (min seg (length data)) t = (Inr r, t')"
  shows "obs (io_world t') = takes (outgoing True seg (take (sentSize r) data)) (obs (io_world t)) \<and>
    (sentSize r = 0 \<or> length data \<le> sentSize r \<or> seg dvd sentSize r)"
proof -
  let ?g = "min seg (length data)"
  have g: "0 < ?g" "?g \<le> length data" using data seg by auto
  show ?thesis
  proof (cases "datagramLimit (io_binding t) \<noteq> 0 \<and> datagramLimit (io_binding t) < ?g")
    case True
    then show ?thesis using run by (auto simp: binding_sendAggregate_def Let_def translateSendResult_def split: if_splits)
  next
    case False
    obtain res sent w where send: "sendFFLP2PAgentNativeAggregateProgress J (agentHandle (io_binding t)) data ?g
        (io_agents t) (io_world t) = ((res, sent), w)" by (metis surj_pair)
    then have r: "t' = t\<lparr>io_world := w\<rparr>" "sentSize r = sent"
      using run False by (auto simp: binding_sendAggregate_def Let_def dest: translated_size split: if_splits)
    note out = agent_aggregate_takes [OF J g send]
    then have "sent = 0 \<or> length data \<le> sent \<or> seg dvd sent" by (auto simp: min_def split: if_splits dest: dvd_imp_le)
    moreover have "segments ?g (take sent data) = outgoing True seg (take sent data)"
    proof (cases "seg \<le> length data")
      case False
      then have "take sent data = [] \<or> take sent data = data" using out by (auto dest: dvd_imp_le)
      then show ?thesis using segments_min [of seg data] by (auto simp: outgoing_def)
    qed (simp add: outgoing_def min_def)
    ultimately show ?thesis using out r by simp
  qed
qed

section \<open>The state that matters\<close>

definition outpart :: "('w \<Rightarrow> outward) \<Rightarrow> 'w conn \<Rightarrow> outward \<times> pending_send \<times> u64 \<times> nat" where
  "outpart obs s = (obs (world s), pendingSend s, tooLargeSendDrops s, aggregatePacketCount (proto s))"

lemma sendTransportOnce_out:
  assumes E: "keeps obs (q_now E)" "\<And>t. keeps obs (\<lambda>w. ((), q_update_pkt_tx_time E t w))" "juice_takes (q_juice E) obs"
    and data: "data \<noteq> []" and seg: "aggregate \<Longrightarrow> 0 < seg"
    and run: "sendTransportOnce E data seg aggregate s = (Inr r, s')"
    and at: "outpart obs s = (b, ps, d, n)"
  shows "outpart obs s' = (takes (outgoing aggregate seg (take (sentSize r) data)) b, ps, d, n) \<and> send_ok (length data) r \<and>
    outgoing aggregate seg data = outgoing aggregate seg (take (sentSize r) data) @ outgoing aggregate seg (drop (sentSize r) data) \<and>
    (\<not> aggregate \<longrightarrow> sentSize r = 0 \<or> sentSize r = length data)"
proof -
  let ?send = "if aggregate then binding_sendAggregate (q_juice E) data (min seg (length data)) else binding_send (q_juice E) data"
  obtain q t where send: "?send (io s) = (q, t)" by fastforce
  have q: "q = Inr r" and s': "outpart obs s' = outpart obs (s\<lparr>io := t\<rparr>)"
    using run send E(1,2)
    by (auto simp: sendTransportOnce_def getCurrentTimestampNS_def act_simps keeps_def outpart_def split: sum.splits if_splits prod.splits)
  have "t = (io s)\<lparr>io_world := io_world t\<rparr> \<and> send_ok (length data) r"
    using send q binding_send_result [of "q_juice E" data "io s" q t]
      binding_sendAggregate_result [of "q_juice E" data "min seg (length data)" "io s" q t] by (cases aggregate) auto
  moreover have "obs (io_world t) = takes (outgoing aggregate seg (take (sentSize r) data)) b \<and>
      (sentSize r = 0 \<or> length data \<le> sentSize r \<or> (aggregate \<and> seg dvd sentSize r))"
  proof (cases aggregate)
    case True
    then show ?thesis using send q at binding_sendAggregate_out [OF E(3) data seg] by (auto simp: outpart_def world_def)
  next
    case False
    then show ?thesis using send q at binding_send_out [OF E(3) _ data, of "io s" r t] by (auto simp: outpart_def world_def outgoing_def)
  qed
  ultimately show ?thesis using s' at outgoing_split [of "sentSize r" data aggregate seg]
    by (auto simp: outpart_def send_ok_def)
qed

section \<open>The account\<close>

text \<open>\<open>P\<close> is what waits for a retry. Every send that was too large has cut the sequence: its first component went
  out before it, the second was dropped.\<close>

definition account :: "outward \<Rightarrow> bytes list \<Rightarrow> u64 \<Rightarrow> bool" where
  "account b P d \<longleftrightarrow> (\<exists>B L. fst b = concat (map (\<lambda>(x, y). x @ y) B) @ L @ P \<and> snd b = concat (map fst B) @ L \<and>
     d = of_nat (length B))"

lemma account_new: "account ([], []) [] 0"
  unfolding account_def by (rule exI [of _ "[]"]) simp

lemma account_writes: "account b [] d \<Longrightarrow> account (writes ps b) ps d"
  unfolding account_def writes_def by fastforce

lemma account_takes: "account b (x @ y) d \<Longrightarrow> account (takes x b) y d"
  unfolding account_def takes_def by (elim exE, rule_tac x = B in exI, rule_tac x = "L @ x" in exI) simp

lemma account_drop: "account b P d \<Longrightarrow> account b [] (d + 1)"
  unfolding account_def
  by (elim exE, rule_tac x = "B @ [(L, P)]" in exI, rule_tac x = "[]" in exI) (simp add: add.commute)

definition waiting_packets :: "pending_send \<Rightarrow> bytes list" where
  "waiting_packets ps = outgoing (ps_aggregate ps) (ps_segmentSize ps) (drop (ps_offset ps) (ps_data ps))"

lemma waiting_none: "\<not> ps_hasRemainingData ps \<Longrightarrow> waiting_packets ps = []"
  by (simp add: waiting_packets_def ps_hasRemainingData_def)

definition pending_ok :: "pending_send \<Rightarrow> bool" where
  "pending_ok ps \<longleftrightarrow> ps_hasRemainingData ps \<and> ps_aggregate ps \<longrightarrow> 0 < ps_segmentSize ps"

definition out_ok :: "('w \<Rightarrow> outward) \<Rightarrow> 'w conn \<Rightarrow> bool" where
  "out_ok obs s \<longleftrightarrow> account (obs (world s)) (waiting_packets (pendingSend s)) (tooLargeSendDrops s) \<and> pending_ok (pendingSend s)"

definition out_empty :: "('w \<Rightarrow> outward) \<Rightarrow> 'w conn \<Rightarrow> bool" where
  "out_empty obs s \<longleftrightarrow> account (obs (world s)) [] (tooLargeSendDrops s) \<and> \<not> ps_hasRemainingData (pendingSend s)"

lemma out_empty_ok: "out_empty obs s \<Longrightarrow> out_ok obs s"
  by (simp add: out_empty_def out_ok_def waiting_none pending_ok_def)

lemma out_ok_cases: "out_ok obs s \<Longrightarrow> \<not> ps_hasRemainingData (pendingSend s) \<Longrightarrow> out_empty obs s"
  by (simp add: out_empty_def out_ok_def waiting_none)

lemma pk_env_parts:
  assumes "pk_env E obs"
  shows "keeps obs (q_now E)" and "keeps obs (\<lambda>w. ((), q_update_pkt_tx_time E ts w))" and "keeps obs (q_random E n)"
    and "ng_tree obs (\<lambda>_ _. True) (\<lambda>r b b'. b' = writes (packet (fst r)) b) (q_write_stream E n f sid d ts w) (obs w)"
    and "ng_tree obs (\<lambda>_ _. True) (\<lambda>r b b'. b' = writes (packet r) b) (q_write_pkt E n ts w) (obs w)"
    and "aggregates obs (q_write_aggregate E n m ts w) [] (obs w)"
    and "juice_takes (q_juice E) obs"
  using assms by (simp_all add: pk_env_def env_quiet_def)

definition settled :: "('w \<Rightarrow> outward) \<Rightarrow> send_outcome \<Rightarrow> 'w conn \<Rightarrow> bool" where
  "settled obs r s \<longleftrightarrow> out_ok obs s \<and> (r = OutcomeComplete \<longrightarrow> out_empty obs s)"

lemma settled_retry: "settled obs r (s\<lparr>sendRetryExpiry := x\<rparr>) = settled obs r s"
  by (simp add: settled_def out_ok_def out_empty_def)

lemma now_out: "pk_env E obs \<Longrightarrow> getCurrentTimestampNS E s = (Inr ts, s') \<Longrightarrow> outpart obs s' = outpart obs s"
  using pk_env_parts(1) by (fastforce simp: getCurrentTimestampNS_def act_simps keeps_def outpart_def)

lemma retry_out: "pk_env E obs \<Longrightarrow> scheduleSendRetry E s = (Inr u, s') \<Longrightarrow> outpart obs s' = outpart obs s"
  by (auto simp: scheduleSendRetry_def act_simps outpart_def dest!: now_out [rotated] split: sum.splits prod.splits)

lemma once_out:
  assumes E: "pk_env E obs" and one: "sendTransportOnce E data seg aggregate s = (Inr r, s')" and data: "data \<noteq> []" and seg: "aggregate \<Longrightarrow> 0 < seg"
    and acc: "account (obs (world s)) (outgoing aggregate seg data) (tooLargeSendDrops s)"
  shows "account (obs (world s')) (outgoing aggregate seg (drop (sentSize r) data)) (tooLargeSendDrops s')"
    and "pendingSend s' = pendingSend s" and "send_ok (length data) r"
    and "\<not> aggregate \<Longrightarrow> sentSize r = 0 \<or> sentSize r = length data"
proof -
  have at: "outpart obs s = (obs (world s), pendingSend s, tooLargeSendDrops s, aggregatePacketCount (proto s))"
    by (simp add: outpart_def)
  note out = sendTransportOnce_out [OF pk_env_parts(1,2,7) [OF E] data seg one at]
  then show "account (obs (world s')) (outgoing aggregate seg (drop (sentSize r) data)) (tooLargeSendDrops s')"
    using acc account_takes by (auto simp: outpart_def)
  show "pendingSend s' = pendingSend s" "send_ok (length data) r" "\<not> aggregate \<Longrightarrow> sentSize r = 0 \<or> sentSize r = length data"
    using out by (simp_all add: outpart_def)
qed

lemma retain_out:
  assumes E: "pk_env E obs" and run: "retainPendingTransportSend E data sent seg k aggregate s = (Inr u, s')"
    and acc: "account (obs (world s)) (outgoing aggregate seg (drop sent data)) (tooLargeSendDrops s)" and seg: "aggregate \<Longrightarrow> 0 < seg"
  shows "out_ok obs s'"
proof -
  let ?ps = "\<lparr>ps_data = drop sent data, ps_offset = 0, ps_segmentSize = seg, ps_packetCount = k,
      ps_logicalBytes = length data, ps_aggregate = aggregate\<rparr>"
  have "outpart obs s' = outpart obs (s\<lparr>pendingSend := ?ps\<rparr>)"
    using run by (auto simp: retainPendingTransportSend_def act_simps dest!: retry_out [OF E] split: if_splits sum.splits prod.splits)
  then show ?thesis using acc seg
    by (auto simp: outpart_def out_ok_def waiting_packets_def pending_ok_def)
qed

lemma buffer_out:
  assumes E: "pk_env E obs" and run: "sendTransportBuffer E data seg k aggregate s = (Inr r, s')" and data: "data \<noteq> []" and seg: "aggregate \<Longrightarrow> 0 < seg"
    and acc: "account (obs (world s)) (outgoing aggregate seg data) (tooLargeSendDrops s)"
  shows "settled obs r s'"
proof -
  have free: "\<not> ps_hasRemainingData (pendingSend s)" using run by (auto simp: sendTransportBuffer_def act_simps split: if_splits)
  obtain res s1 where once: "sendTransportOnce E data seg aggregate s = (Inr res, s1)"
    and rest: "(case status res of
        Complete \<Rightarrow> bindA clearSendRetry (\<lambda>_. ret OutcomeComplete)
      | TooLarge \<Rightarrow> bindA (blockA [dropTooLarge, clearSendRetry]) (\<lambda>_. ret OutcomeComplete)
      | Blocked \<Rightarrow> bindA (retainPendingTransportSend E data (sentSize res) seg k aggregate) (\<lambda>_. ret OutcomeBlocked)) s1 = (Inr r, s')"
    using run free by (auto simp: sendTransportBuffer_def bind_gets bindA_apply [of "sendTransportOnce E data seg aggregate"] split: prod.splits sum.splits)
  note out = once_out [OF E once data seg acc]
  show ?thesis
  proof (cases "status res")
    case Complete
    then have "drop (sentSize res) data = []" using out(3) by (simp add: send_ok_def)
    then show ?thesis using rest out(1,2) free Complete
      by (auto simp: settled_def out_empty_def clearSendRetry_def act_simps intro!: out_empty_ok)
  next
    case TooLarge
    have "out_empty obs (s1\<lparr>tooLargeSendDrops := tooLargeSendDrops s1 + 1\<rparr>)"
      using account_drop [OF out(1)] out(2) free by (simp add: out_empty_def)
    then show ?thesis using rest TooLarge
      by (auto simp: settled_def out_empty_def dropTooLarge_def clearSendRetry_def act_simps intro!: out_empty_ok)
  next
    case Blocked
    then obtain u where "retainPendingTransportSend E data (sentSize res) seg k aggregate s1 = (Inr u, s')" "r = OutcomeBlocked"
      using rest by (auto simp: act_simps split: prod.splits sum.splits)
    then show ?thesis using retain_out [OF E _ out(1)] seg by (simp add: settled_def)
  qed
qed

lemma pending_out:
  assumes E: "pk_env E obs" and run: "flushPendingTransportSend E s = (Inr r, s')" and ok: "out_ok obs s"
  shows "settled obs r s'"
proof (cases "ps_hasRemainingData (pendingSend s)")
  case False
  then show ?thesis using run ok by (auto simp: flushPendingTransportSend_def act_simps settled_def intro: out_ok_cases)
next
  case True
  let ?ps = "pendingSend s"
  let ?data = "drop (ps_offset ?ps) (ps_data ?ps)" and ?seg = "ps_segmentSize ?ps" and ?agg = "ps_aggregate ?ps"
  have data: "?data \<noteq> []" and seg: "?agg \<Longrightarrow> 0 < ?seg"
    and acc: "account (obs (world s)) (outgoing ?agg ?seg ?data) (tooLargeSendDrops s)"
    using True ok by (auto simp: ps_hasRemainingData_def out_ok_def pending_ok_def waiting_packets_def)
  obtain res s1 where once: "sendTransportOnce E ?data ?seg ?agg s = (Inr res, s1)"
    using run True by (auto simp: flushPendingTransportSend_def act_simps split: prod.splits sum.splits)
  note out = once_out [OF E once data seg acc]
  let ?s2 = "s1\<lparr>pendingSend := (pendingSend s1)\<lparr>ps_offset := ps_offset (pendingSend s1) + sentSize res\<rparr>\<rparr>"
  have rest: "(if status res = TooLarge then
         bindA (blockA [dropTooLarge, modify (\<lambda>s. s\<lparr>pendingSend := ps_clear\<rparr>), clearSendRetry]) (\<lambda>_. ret OutcomeComplete)
       else if status res = Complete then
         (if ps_hasRemainingData (pendingSend ?s2)
          then throw (RuntimeError ''libjuice completed a QUIC retry with pending bytes remaining'')
          else bindA (blockA [modify (\<lambda>s. s\<lparr>pendingSend := ps_clear\<rparr>), clearSendRetry]) (\<lambda>_. ret OutcomeComplete))
       else if \<not> ps_hasRemainingData (pendingSend ?s2)
       then throw (RuntimeError ''libjuice blocked a QUIC retry after reporting all bytes sent'')
       else bindA (scheduleSendRetry E) (\<lambda>_. ret OutcomeBlocked)) ?s2 = (Inr r, s')"
    using run True once
    by (simp add: flushPendingTransportSend_def bind_gets bindA_apply [of "sendTransportOnce E data seg agg" for data seg agg]
        bindA_apply [of "modify f" for f] modify_apply)
  have acc2: "account (obs (world ?s2)) (waiting_packets (pendingSend ?s2)) (tooLargeSendDrops ?s2)"
    using out(1,2) by (simp add: waiting_packets_def add.commute)
  show ?thesis
  proof (cases "status res")
    case Complete
    then show ?thesis using rest acc2
      by (auto simp: settled_def out_empty_def clearSendRetry_def act_simps waiting_none ps_clear_def ps_hasRemainingData_def
          intro!: out_empty_ok split: if_splits)
  next
    case TooLarge
    then show ?thesis using rest account_drop [OF acc2]
      by (auto simp: settled_def out_empty_def clearSendRetry_def dropTooLarge_def act_simps ps_clear_def ps_hasRemainingData_def
          intro!: out_empty_ok)
  next
    case Blocked
    then have "outpart obs s' = outpart obs ?s2" "r = OutcomeBlocked"
      using rest by (auto simp: act_simps split: prod.splits sum.splits if_splits dest!: retry_out [OF E])
    then show ?thesis using acc2 seg out(2) by (auto simp: settled_def out_ok_def outpart_def pending_ok_def)
  qed
qed

section \<open>Writing\<close>

lemma preserves_outpart:
  "preserves (\<lambda>s. Q (outpart obs s)) (modify f)" if "\<And>s. outpart obs (f s) = outpart obs s"
  using that by (simp add: preserves_def act_simps)

lemma callbacks_out:
  assumes "pk_env E obs"
  shows "preserves (\<lambda>s. outpart obs s = x) (callbacks E cb)"
proof -
  have "preserves (\<lambda>s. outpart obs s = x) (extern (q_random E n))" for n
    using pk_env_parts(3) [OF assms, of n] by (auto simp: preserves_def act_simps keeps_def outpart_def)
  then show ?thesis
    unfolding callback_defs queue_defs modProto_def modApp_def
    by (cases cb) (auto intro!: preserves_intros preserves_modify simp: outpart_def split: option.split if_splits)
qed

lemma run_callbacks_out:
  assumes E: "pk_env E obs" and tree: "ng_tree obs (\<lambda>_ _. True) (\<lambda>r b b'. b' = writes (f r) b) t (obs (world s))"
    and at: "outpart obs s = (b, ps, d, n)"
  shows "run_ng (callbacks E) t s = (Inr r, s') \<Longrightarrow> outpart obs s' = (writes (f r) b, ps, d, n)"
    and "run_ng (callbacks E) t s = (Inl e, s') \<Longrightarrow> outpart obs s' = (b, ps, d, n)"
proof -
  have res: "case run_ng (callbacks E) t s of (Inl e, s') \<Rightarrow> outpart obs s' = (b, ps, d, n)
      | (Inr r, s') \<Rightarrow> outpart obs s' = (writes (f r) b, ps, d, n)"
  proof (rule run_ng_inv [where I = "\<lambda>s. outpart obs s = (b, ps, d, n)" and s = s, OF tree at])
    show "outpart obs (snd (callbacks E cb s)) = (b, ps, d, n)" if "outpart obs s = (b, ps, d, n)" for cb and s :: "'a conn"
      by (rule preservesD [OF callbacks_out [OF E] that])
    show "obs (world (snd (callbacks E cb s))) = obs (world s)" for cb and s :: "'a conn"
      using preservesD [OF callbacks_out [OF E, of "outpart obs s" cb], of s] by (simp add: outpart_def)
  qed (auto simp: outpart_def)
  then show "outpart obs s' = (writes (f r) b, ps, d, n)" if "run_ng (callbacks E) t s = (Inr r, s')" for r s' using that by simp
  show "outpart obs s' = (b, ps, d, n)" if "run_ng (callbacks E) t s = (Inl e, s')" for e s' using that res by simp
qed

text \<open>A packet that is written is added to what ngtcp2 has written, and is counted if it belongs to an aggregate.\<close>

abbreviation written_at :: "('w \<Rightarrow> outward) \<Rightarrow> outward \<Rightarrow> pending_send \<Rightarrow> u64 \<Rightarrow> nat \<Rightarrow> bool \<Rightarrow> bytes \<Rightarrow> 'w conn \<Rightarrow> bool" where
  "written_at obs b ps d n pad out s \<equiv>
     outpart obs s = (writes (packet (Inr out)) b, ps, d, n + (if pad then length (packet (Inr out)) else 0))"

lemma packet_simps [simp]: "packet (Inl e) = []" "packet (Inr []) = []" "out \<noteq> [] \<Longrightarrow> packet (Inr out) = [out]"
  by (simp_all add: packet_def)

lemma writes_Nil [simp]: "writes [] b = b"
  by (simp add: writes_def)

lemma post_call:
  assumes "\<And>s r s'. P s \<Longrightarrow> run_ng h (t s) s = (Inr r, s') \<Longrightarrow> R r s'" and "\<And>r. post (R r) (k r) Q"
  shows "post P (bindA (gets t) (\<lambda>call. bindA (run_ng h call) k)) Q"
  using assms by (fastforce simp: post_def act_simps split: prod.splits sum.splits)

lemma packet_written:
  assumes E: "pk_env E obs" and at: "outpart obs s = (b, ps, d, n)" and run: "writeOnePacket E sz ts pad s = (Inr out, s')"
  shows "written_at obs b ps d n pad out s'"
proof -
  let ?at = "\<lambda>r s. outpart obs s = (writes (case r of None \<Rightarrow> [] | Some out \<Rightarrow> packet (Inr out)) b, ps, d, n)"
  have chunk: "preserves (\<lambda>s. outpart obs s = x) (chunk_accepted c k)" for c k x
    unfolding chunk_accepted_def modProto_def by (auto intro!: preserves_intros preserves_modify simp: outpart_def)
  have proto: "preserves (\<lambda>s. outpart obs s = x) (modProto f)" if "\<And>p. aggregatePacketCount (f p) = aggregatePacketCount p" for f x
    using that by (simp add: preserves_def act_simps outpart_def)
  have stream: "post (\<lambda>s. outpart obs s = (b, ps, d, n))
      (bindA (gets (\<lambda>s. q_write_stream E sz fl sid dat ts (world s))) (\<lambda>call. bindA (run_ng (callbacks E) call) k)) ?at"
    if "\<And>written accepted. post (\<lambda>s. outpart obs s = (writes (packet written) b, ps, d, n)) (k (written, accepted)) ?at"
    for fl sid dat k
    by (rule post_call [OF run_callbacks_out(1) [OF E pk_env_parts(4) [OF E]]]) (use that in \<open>auto split: prod.split\<close>)
  have plain: "post (\<lambda>s. outpart obs s = (b, ps, d, n))
      (bindA (gets (\<lambda>s. q_write_pkt E sz ts (world s))) (\<lambda>call. bindA (run_ng (callbacks E) call) k)) ?at"
    if "\<And>written. post (\<lambda>s. outpart obs s = (writes (packet written) b, ps, d, n)) (k written) ?at" for k
    by (rule post_call [OF run_callbacks_out(1) [OF E pk_env_parts(5) [OF E]]]) (use that in auto)
  have failed: "post (\<lambda>s. outpart obs s = (b, ps, d, n)) (ret None) ?at"
    by (simp add: post_ret)
  have written: "post (\<lambda>s. outpart obs s = (writes (packet (Inr out)) b, ps, d, n))
     (bindA (case ch of Some c \<Rightarrow> whenA (0 < acc) (chunk_accepted c (nat acc)) | None \<Rightarrow> ret ()) (\<lambda>_.
      bindA (modProto (\<lambda>p. if fin p then p\<lparr>txFinSubmitted := True\<rparr> else p)) (\<lambda>_. ret (Some out)))) ?at" for ch acc fin out
    by (rule post_bind [OF preserves_post], intro preserves_intros chunk, rule post_bind [OF preserves_post [OF proto]])
      (simp_all add: post_ret)
  have counted: "post (?at r) (case r of None \<Rightarrow> ret [] | Some out \<Rightarrow> bindA (whenA (out \<noteq> [] \<and> pad)
      (modProto (\<lambda>p. p\<lparr>aggregatePacketCount := aggregatePacketCount p + 1\<rparr>))) (\<lambda>_. ret out)) (written_at obs b ps d n pad)" for r
    by (rule postI) (auto simp: act_simps outpart_def split: option.splits if_splits)
  have "post (\<lambda>s. outpart obs s = (b, ps, d, n)) (writeOnePacket E sz ts pad) (written_at obs b ps d n pad)"
    unfolding writeOnePacket_def Let_def
  proof (rule post_bind [OF post_gets [where Q = "\<lambda>_ s. outpart obs s = (b, ps, d, n)"]], assumption,
      rule post_bind [OF _ counted], rule post_if, goal_cases)
    case (1 p)
    show ?case by (rule stream) (auto intro!: post_if post_throw failed written split: sum.split)
  next
    case (2 p)
    show ?case by (rule plain) (auto intro!: post_throw post_ret split: sum.split)
  qed
  then show ?thesis using at run by (rule postD)
qed

lemma chunk_accepted_error: "chunk_accepted c k s = (Inl e, s') \<Longrightarrow> e = Undefined"
  by (auto simp: chunk_accepted_def act_simps split: if_splits)

text \<open>\<open>fails_in m Q\<close>: an exception of \<open>m\<close> leaves a state in \<open>Q\<close>.\<close>

definition fails_in :: "('s \<Rightarrow> bool) \<Rightarrow> ('s, 'a) act \<Rightarrow> ('s \<Rightarrow> bool) \<Rightarrow> bool" where
  "fails_in P m Q \<longleftrightarrow> (\<forall>s e s'. P s \<longrightarrow> m s = (Inl e, s') \<longrightarrow> e \<noteq> Undefined \<longrightarrow> Q s')"

lemma fails_in_bind: "fails_in P m Q \<Longrightarrow> post P m R \<Longrightarrow> (\<And>x. fails_in (R x) (f x) Q) \<Longrightarrow> fails_in P (bindA m f) Q"
  unfolding fails_in_def post_def by (auto simp: bindA_def split: prod.splits sum.splits)

lemma fails_in_if: "(b \<Longrightarrow> fails_in P m Q) \<Longrightarrow> (\<not> b \<Longrightarrow> fails_in P n Q) \<Longrightarrow> fails_in P (if b then m else n) Q"
  by simp

lemma fails_in_never: "(\<And>s e s'. m s = (Inl e, s') \<Longrightarrow> e = Undefined) \<Longrightarrow> fails_in P m Q"
  by (auto simp: fails_in_def)

lemma fails_in_throw: "(\<And>s. P s \<Longrightarrow> Q s) \<Longrightarrow> fails_in P (throw e) Q"
  by (simp add: fails_in_def act_simps)

lemma fails_in_call:
  assumes "\<And>s r s'. P s \<Longrightarrow> run_ng h (t s) s = (Inr r, s') \<Longrightarrow> R r s'"
    and "\<And>s e s'. P s \<Longrightarrow> run_ng h (t s) s = (Inl e, s') \<Longrightarrow> Q s'" and "\<And>r. fails_in (R r) (k r) Q"
  shows "fails_in P (bindA (gets t) (\<lambda>call. bindA (run_ng h call) k)) Q"
  using assms by (fastforce simp: fails_in_def act_simps split: prod.splits sum.splits)

lemma packet_not_written:
  assumes E: "pk_env E obs" and at: "outpart obs s = (b, ps, d, n)" and run: "writeOnePacket E sz ts pad s = (Inl e, s')"
    and e: "e \<noteq> Undefined"
  shows "outpart obs s' = (b, ps, d, n)"
proof -
  let ?at = "\<lambda>s. outpart obs s = (b, ps, d, n)"
  let ?written = "\<lambda>written s. outpart obs s = (writes (packet written) b, ps, d, n)"
  have written: "fails_in P (bindA (case ch of Some c \<Rightarrow> whenA (0 < acc) (chunk_accepted c (nat acc)) | None \<Rightarrow> ret ()) (\<lambda>_.
      bindA (modProto f) (\<lambda>_. ret (Some out)))) ?at" for P ch acc f and out :: bytes
    by (rule fails_in_never) (auto simp: act_simps dest: chunk_accepted_error split: option.splits if_splits sum.splits prod.splits)
  have counted: "fails_in P (case r of None \<Rightarrow> ret [] | Some out \<Rightarrow> bindA (whenA (out \<noteq> [] \<and> pad)
      (modProto (\<lambda>p. p\<lparr>aggregatePacketCount := aggregatePacketCount p + 1\<rparr>))) (\<lambda>_. ret out)) ?at" for P and r :: "bytes option"
    by (rule fails_in_never) (auto simp: act_simps split: option.splits if_splits)
  have ret: "fails_in P (ret x) ?at" for P and x :: "bytes option"
    by (rule fails_in_never) (simp add: act_simps)
  have whole: "fails_in ?at (bindA m k) ?at" if "fails_in ?at m ?at" and "\<And>P x. fails_in P (k x) ?at"
    for m :: "('a, bytes option) cact" and k :: "bytes option \<Rightarrow> ('a, bytes) cact"
    by (rule fails_in_bind [OF that(1), of "\<lambda>_ _. True"]) (simp_all add: post_def that(2))
  have stream: "fails_in ?at (bindA (gets (\<lambda>s. q_write_stream E sz fl sid dat ts (world s))) (\<lambda>call. bindA (run_ng (callbacks E) call) k)) ?at"
    if "\<And>written accepted. fails_in (?written written) (k (written, accepted)) ?at" for fl sid dat k
    by (rule fails_in_call [OF run_callbacks_out [OF E pk_env_parts(4) [OF E]]]) (use that in \<open>auto split: prod.split\<close>)
  have plain: "fails_in ?at (bindA (gets (\<lambda>s. q_write_pkt E sz ts (world s))) (\<lambda>call. bindA (run_ng (callbacks E) call) k)) ?at"
    if "\<And>written. fails_in (?written written) (k written) ?at" for k
    by (rule fails_in_call [OF run_callbacks_out [OF E pk_env_parts(5) [OF E]]]) (use that in auto)
  have "fails_in ?at (writeOnePacket E sz ts pad) ?at"
    unfolding writeOnePacket_def Let_def
  proof (rule fails_in_bind [OF _ post_gets [where Q = "\<lambda>_. ?at"]], rule fails_in_never, simp add: act_simps, assumption,
      rule whole [OF _ counted], rule fails_in_if, goal_cases)
    case (1 p)
    show ?case by (rule stream) (auto intro!: fails_in_if fails_in_throw ret written split: sum.split)
  next
    case (2 p)
    show ?case by (rule plain) (auto intro!: fails_in_throw ret split: sum.split)
  qed
  then show ?thesis using at run e by (simp add: fails_in_def)
qed

text \<open>An aggregate: what its packets are, and how many.\<close>

lemma aggregate_callback_out:
  assumes E: "pk_env E obs" and at: "outpart obs s = (b, ps, d, n)" and run: "aggregate_callbacks E cb s = (Inr reply, s')"
  shows "outpart obs s' = (writes (if is_write cb then packet reply else []) b, ps, d,
    n + length (if is_write cb then packet reply else []))"
proof (cases "is_write cb")
  case False
  then have "snd (callbacks E cb s) = s'" using run by (cases cb) (simp_all add: aggregate_callbacks_def)
  then show ?thesis using False at preservesD [OF callbacks_out [OF E] at, of cb] by simp
next
  case True
  then obtain sz ts where cb: "cb = CbWritePacket sz ts" by (cases cb) simp_all
  then have run: "writeAggregatePacketCallback E sz ts s = (Inr reply, s')" using run by (simp add: aggregate_callbacks_def)
  obtain q s1 where one: "writeOnePacket E sz ts True s = (q, s1)" by fastforce
  show ?thesis
  proof (cases q)
    case (Inr out)
    then have "reply = Inr out" "s' = s1" using run one by (simp_all add: writeAggregatePacketCallback_def act_simps)
    then show ?thesis using packet_written [OF E at one [unfolded Inr]] True by simp
  next
    case (Inl e)
    then have "e \<noteq> Undefined" "reply = Inl NGTCP2_ERR_CALLBACK_FAILURE" "outpart obs s' = outpart obs s1"
      using run one by (auto simp: writeAggregatePacketCallback_def act_simps cb_fail_def outpart_def split: if_splits)
    then show ?thesis using packet_not_written [OF E at one [unfolded Inl]] by simp
  qed
qed

lemma writes_writes: "writes y (writes x b) = writes (x @ y) b"
  by (simp add: writes_def)

lemma aggregate_run:
  assumes E: "pk_env E obs"
  shows "aggregates obs t before b \<Longrightarrow> outpart obs s = (b, ps, d, n) \<Longrightarrow> run_ng (aggregate_callbacks E) t s = (Inr (r, seg), s') \<Longrightarrow>
    \<exists>new. outpart obs s' = (writes new b, ps, d, n + length new) \<and>
      (\<forall>out. r = Inr out \<longrightarrow> before @ new = segments (if seg = 0 then length out else seg) out)"
proof (induction t arbitrary: before b s n)
  case (NgReturn q w)
  then show ?case by (intro exI [of _ "[]"]) (auto simp: act_simps outpart_def split: prod.splits)
next
  case (NgCallback cb w k)
  let ?s = "s\<lparr>io := (io s)\<lparr>io_world := w\<rparr>\<rparr>"
  have "obs w = b" using NgCallback.prems(1) by simp
  then have at: "outpart obs ?s = (b, ps, d, n)" using NgCallback.prems(2) by (simp add: outpart_def)
  obtain q s1 where one: "aggregate_callbacks E cb ?s = (q, s1)" by fastforce
  show ?case
  proof (cases q)
    case (Inl e)
    then show ?thesis using NgCallback.prems(3) one by (simp add: act_simps)
  next
    case (Inr reply)
    let ?new = "if is_write cb then packet reply else []"
    note at1 = aggregate_callback_out [OF E at one [unfolded Inr]]
    then have "obs (world s1) = writes ?new b" by (simp add: outpart_def)
    then have "aggregates obs (k (reply, world s1)) (before @ ?new) (writes ?new b)"
      using NgCallback.prems(1) by (auto simp: Let_def)
    moreover have "run_ng (aggregate_callbacks E) (k (reply, world s1)) s1 = (Inr (r, seg), s')"
      using NgCallback.prems(3) one Inr by (simp add: act_simps)
    ultimately obtain more where "outpart obs s' = (writes more (writes ?new b), ps, d, n + length ?new + length more)"
      "\<forall>out. r = Inr out \<longrightarrow> (before @ ?new) @ more = segments (if seg = 0 then length out else seg) out"
      using NgCallback.IH [OF rangeI _ at1] by blast
    then show ?thesis by (intro exI [of _ "?new @ more"]) (simp add: writes_writes)
  qed
qed

section \<open>The flush\<close>

lemma out_empty_part: "out_empty obs s \<Longrightarrow> outpart obs s' = outpart obs s \<Longrightarrow> out_empty obs s'"
  by (simp add: out_empty_def outpart_def)

lemma out_ok_part: "out_ok obs s \<Longrightarrow> outpart obs s' = outpart obs s \<Longrightarrow> out_ok obs s'"
  by (simp add: out_ok_def outpart_def)

lemma account_written:
  assumes "out_empty obs s" and "outpart obs s = (b, ps, d, n)" and "outpart obs s' = (writes new b, ps, d, m)"
  shows "account (obs (world s')) new (tooLargeSendDrops s')"
  using assms account_writes by (auto simp: out_empty_def outpart_def)

lemma flushSingle_out:
  assumes E: "pk_env E obs"
  shows "out_empty obs s \<Longrightarrow> flushSingle E k s = (Inr r, s') \<Longrightarrow> out_ok obs s'"
proof (induction k arbitrary: s)
  case 0
  then show ?case by (simp add: act_simps out_empty_ok)
next
  case (Suc k)
  obtain ts s1 out s2 where now: "getCurrentTimestampNS E s = (Inr ts, s1)"
    and one: "writeOnePacket E kSendBufferPayloadSize ts False s1 = (Inr out, s2)"
    and rest: "(if out = [] then ret False
       else bindA (sendTransportBuffer E out (length out) 1 False) (\<lambda>outcome.
         case outcome of OutcomeBlocked \<Rightarrow> ret False | OutcomeComplete \<Rightarrow> flushSingle E k)) s2 = (Inr r, s')"
    using Suc.prems(2) by (auto simp: act_simps split: prod.splits sum.splits)
  have empty: "out_empty obs s1" by (rule out_empty_part [OF Suc.prems(1) now_out [OF E now]])
  obtain b ps d n where at: "outpart obs s1 = (b, ps, d, n)" by (metis surj_pair)
  note written = packet_written [OF E at one]
  show ?case
  proof (cases "out = []")
    case True
    then show ?thesis using rest written at empty out_empty_part [of obs s1 s2] by (simp add: act_simps out_empty_ok)
  next
    case False
    have "account (obs (world s2)) (outgoing False (length out) out) (tooLargeSendDrops s2)"
      using account_written [OF empty at written] False by (simp add: outgoing_def)
    moreover obtain outcome s3 where "sendTransportBuffer E out (length out) 1 False s2 = (Inr outcome, s3)"
      and "(case outcome of OutcomeBlocked \<Rightarrow> ret False | OutcomeComplete \<Rightarrow> flushSingle E k) s3 = (Inr r, s')"
      using rest False by (auto simp: act_simps split: prod.splits sum.splits)
    ultimately show ?thesis
      using buffer_out [OF E _ False] Suc.IH [of s3] by (cases outcome) (auto simp: settled_def act_simps)
  qed
qed

lemma aggregateRound_out:
  assumes E: "pk_env E obs" and empty: "out_empty obs s" and run: "aggregateRound E i s = (Inr r, s')"
  shows "out_ok obs s' \<and> (r \<noteq> RoundBlocked \<longrightarrow> out_empty obs s')"
proof -
  obtain ts s1 where now: "getCurrentTimestampNS E s = (Inr ts, s1)"
    using run by (auto simp: aggregateRound_def act_simps split: prod.splits sum.splits)
  let ?s2 = "s1\<lparr>proto := (proto s1)\<lparr>aggregateWriteError := ''''\<rparr>\<rparr>"
  let ?t = "q_write_aggregate E kSendBufferPayloadSize (kMaxPacketsPerFlush - i) ts (world ?s2)"
  obtain out seg s3 where call: "run_ng (aggregate_callbacks E) ?t ?s2 = (Inr (Inr out, seg), s3)"
    and rest: "(let packetCount = aggregatePacketCount (proto s3) - aggregatePacketCount (proto s1) in
            if out = [] \<or> packetCount = 0 then ret RoundBreak
            else bindA (sendTransportBuffer E out (if seg = 0 then length out else seg) packetCount True)
                   (\<lambda>outcome. case outcome of OutcomeBlocked \<Rightarrow> ret RoundBlocked
                     | OutcomeComplete \<Rightarrow> ret (RoundSent packetCount))) s3 = (Inr r, s')"
    using run now by (auto simp: aggregateRound_def act_simps split: prod.splits sum.splits if_splits)
  have empty2: "out_empty obs ?s2"
    by (rule out_empty_part [OF out_empty_part [OF empty now_out [OF E now]]]) (simp add: outpart_def)
  obtain b ps d where at: "outpart obs ?s2 = (b, ps, d, aggregatePacketCount (proto s1))" by (simp add: outpart_def)
  then have b: "b = obs (world ?s2)" by (simp add: outpart_def)
  let ?seg = "if seg = 0 then length out else seg"
  obtain new where new: "outpart obs s3 = (writes new b, ps, d, aggregatePacketCount (proto s1) + length new)"
    and out: "new = segments ?seg out"
    using aggregate_run [OF E pk_env_parts(6) [OF E] at [unfolded b] call] b by auto
  then have n: "aggregatePacketCount (proto s3) - aggregatePacketCount (proto s1) = length new" by (simp add: outpart_def)
  show ?thesis
  proof (cases "out = []")
    case True
    then have "outpart obs s3 = outpart obs ?s2" using new out at by simp
    then show ?thesis using rest True out_empty_part [OF empty2] by (simp add: act_simps out_empty_ok)
  next
    case False
    then have "0 < ?seg" "new \<noteq> []" using out by (auto simp: segments_eq_Nil)
    then obtain outcome where "sendTransportBuffer E out ?seg (length new) True s3 = (Inr outcome, s')"
      and "r = (case outcome of OutcomeBlocked \<Rightarrow> RoundBlocked | OutcomeComplete \<Rightarrow> RoundSent (length new))"
      using rest False n by (auto simp: Let_def act_simps split: prod.splits sum.splits send_outcome.splits)
    moreover have "account (obs (world s3)) (outgoing True ?seg out) (tooLargeSendDrops s3)"
      using account_written [OF empty2 at new] out by (simp add: outgoing_def)
    ultimately show ?thesis
      using buffer_out [OF E _ False _ , of ?seg "length new" True s3 outcome s'] \<open>0 < ?seg\<close>
      by (cases outcome) (auto simp: settled_def)
  qed
qed

lemma flushAggregate_out:
  assumes E: "pk_env E obs"
  shows "out_empty obs s \<Longrightarrow> flushAggregate E i s = (Inr r, s') \<Longrightarrow> out_ok obs s'"
proof (induction "kMaxPacketsPerFlush - i" arbitrary: i s rule: less_induct)
  case less
  show ?case
  proof (cases "i < kMaxPacketsPerFlush")
    case False
    then show ?thesis using less.prems by (simp add: flushAggregate.simps [of E i] out_empty_ok)
  next
    case True
    obtain q s1 where one: "aggregateRound E i s = (Inr q, s1)"
      using less.prems(2) True by (auto simp: flushAggregate.simps [of E i] split: prod.splits sum.splits)
    note res = aggregateRound_out [OF E less.prems(1) one]
    show ?thesis
    proof (cases q)
      case (RoundSent n)
      then have "flushAggregate E (i + n) s1 = (Inr r, s')" "out_empty obs s1"
        using less.prems(2) True one res by (simp_all add: flushAggregate.simps [of E i])
      then show ?thesis using less.hyps [of "i + n" s1] aggregateRound_sent [of E i s n s1] one RoundSent True by simp
    qed (use less.prems(2) True one res in \<open>auto simp: flushAggregate.simps [of E i]\<close>)
  qed
qed

lemma flushPackets_out:
  assumes E: "pk_env E obs"
  shows "post (out_ok obs) (flushPackets E) (\<lambda>_. out_ok obs)"
proof -
  have pend: "post (out_ok obs) (flushPendingTransportSend E) (settled obs)"
    by (rule postI) (rule pending_out [OF E])
  have empty: "post (\<lambda>s. outcome \<noteq> OutcomeBlocked \<and> settled obs outcome s)
      (bindA (gets aggregatePackets) (\<lambda>aggregate. if \<not> aggregate then flushSingle E kMaxPacketsPerFlush else flushAggregate E 0))
      (\<lambda>_. out_ok obs)" for outcome
  proof (rule post_bind [OF post_gets [where Q = "\<lambda>_. out_empty obs"]])
    show "out_empty obs s" if "outcome \<noteq> OutcomeBlocked \<and> settled obs outcome s" for s :: "'a conn"
      using that by (cases outcome) (simp_all add: settled_def)
    show "post (out_empty obs) (if \<not> a then flushSingle E kMaxPacketsPerFlush else flushAggregate E 0) (\<lambda>_. out_ok obs)" for a
      using flushSingle_out [OF E] flushAggregate_out [OF E] by (auto intro!: postI)
  qed
  show ?thesis
    unfolding flushPackets_def
  proof (rule post_bind [OF post_gets [where Q = "\<lambda>_. out_ok obs"]], assumption, rule post_if, goal_cases)
    case (2 p)
    show ?case
      by (rule post_bind [OF pend], rule post_if, rule post_ret, simp add: settled_def)
        (rule post_weaken [OF empty], simp_all)
  qed (rule post_ret)
qed

section \<open>Runs\<close>

text \<open>Once stopped, a connection stays stopped.\<close>

interpretation halted_plain: conn_plain E "\<lambda>_. ()" "\<lambda>_ _. True" "\<lambda>_ _ _ _. True" stopped for E
proof unfold_locales
  have flush: "preserves stopped queueSendFlush" "preserves stopped queueStreamReceiveFlush"
    by (simp_all add: preserves_def queue_defs act_simps)
  show "stopped s \<Longrightarrow> stopped (snd (receiveStreamDataCallback fin sid off data s))"
    "stopped s \<Longrightarrow> stopped (snd (acknowledgedStreamDataCallback sid off len s))" for s :: "'a conn" and fin sid off data len
    unfolding callback_defs modProto_def modApp_def assertWorkerOwner_def
    by (rule preservesD, intro preserves_intros preserves_modify flush; simp)+
qed (rule env_calls_trivial | simp)+

interpretation halted: conn_sender E "\<lambda>_. ()" "\<lambda>_ _. True" "\<lambda>_ _ _ _. True" stopped for E
  by unfold_locales (simp_all add: preserves_def queue_defs act_simps)

definition kept :: "('w \<Rightarrow> outward) \<Rightarrow> 'w conn \<Rightarrow> bool" where
  "kept obs s \<longleftrightarrow> stopped s \<or> out_ok obs s"

lemma kept_cong:
  "kept obs s \<Longrightarrow> obs (world s') = obs (world s) \<Longrightarrow> pendingSend s' = pendingSend s \<Longrightarrow>
   tooLargeSendDrops s' = tooLargeSendDrops s \<Longrightarrow> stopped s' = stopped s \<Longrightarrow> kept obs s'"
  by (simp add: kept_def out_ok_def)

lemma kept_frame: "pk_env E obs \<Longrightarrow> conn_frame E obs (kept obs)"
  by unfold_locales (simp add: pk_env_def, erule kept_cong)

lemma processSendFlush_out:
  assumes E: "pk_env E obs"
  shows "post (kept obs) (processSendFlush E) (\<lambda>_. kept obs)"
proof (rule postI)
  fix s x s' assume start: "kept obs s" and run: "processSendFlush E s = (Inr x, s')"
  have flush: "preserves (kept obs) queueSendFlush"
    by (rule conn_frame.frame_flush(1) [OF kept_frame [OF E]])
  show "kept obs s'"
  proof (cases "stopped s")
    case True
    then show ?thesis using preservesD2 [OF halted.processSendFlush_inv _ run] by (simp add: kept_def)
  next
    case False
    have "post (out_ok obs) (processSendFlush E) (\<lambda>_. kept obs)"
      unfolding processSendFlush_def
      by (rule post_bind [OF post_gets [where Q = "\<lambda>_. out_ok obs"]], assumption, rule post_if, rule post_ret, simp add: kept_def,
          rule post_bind [OF flushPackets_out [OF E]], rule post_weaken [OF preserves_post [OF preserves_when [OF flush]]])
        (simp_all add: kept_def)
    then show ?thesis by (rule postD) (use start False run in \<open>simp_all add: kept_def\<close>)
  qed
qed

lemma kept_alive:
  assumes E: "pk_env E obs"
  shows "conn_alive E obs (kept obs)"
proof (intro conn_alive.intro conn_alive_axioms.intro kept_frame E)
  note frame = kept_frame [OF E]
  show "post (kept obs) (processOperation E oper) (\<lambda>_. kept obs)" for oper
  proof (cases "op_type oper = FlushSend")
    case True
    have "preserves (kept obs) (modify (\<lambda>s. s\<lparr>sendOperationPending := False\<rparr>))"
      by (rule preserves_modify) (erule kept_cong; simp)
    from post_bind [OF preserves_post [OF this] processSendFlush_out [OF E]]
    show ?thesis using True by (simp add: processOperation_def)
  next
    case False
    have release: "preserves (kept obs) (releaseTransport E)"
      by (rule conn_frame.frame_release [OF frame]) (erule kept_cong; simp)
    have stop: "preserves (kept obs) (modify (\<lambda>s. s\<lparr>stopped := True\<rparr>))"
      by (rule preserves_modify) (simp add: kept_def)
    have "preserves (kept obs) (processTimer E)"
      by (rule conn_frame.frame_timer [OF frame]) (unfold clearSendRetry_def, rule preserves_modify, erule kept_cong; simp)
    moreover have "preserves (kept obs) (processShutdown E)"
      unfolding processShutdown_def by (intro preserves_intros conn_frame.frame_flush [OF frame] release stop)
    ultimately have "preserves (kept obs) (processOperation E oper)"
      using False conn_frame.frame_other [OF frame, of oper] by (cases "op_type oper") (auto simp: processOperation_def)
    then show ?thesis by (rule preserves_post)
  qed
qed (simp add: kept_def)


section \<open>A concrete run\<close>

text \<open>Packets carry at most two bytes of the stream, an aggregate has at most two packets, and libjuice takes one
  segment first and later all it is given.\<close>

definition pack_writer :: "nat \<Rightarrow> stream_flags \<Rightarrow> int \<Rightarrow> bytes option \<Rightarrow> timestamp \<Rightarrow> outward \<Rightarrow> (outward, ng_written \<times> int) ng" where
  "pack_writer n f sid d t w = (case d of
      None \<Rightarrow> NgReturn (Inr [], -1) w
    | Some bs \<Rightarrow> NgReturn (Inr (take 2 bs), int (length (take 2 bs))) (writes (packet (Inr (take 2 bs))) w))"

definition pack_reader :: "nat option \<times> nat option \<Rightarrow> bytes \<Rightarrow> timestamp \<Rightarrow> outward \<Rightarrow> (outward, ng_code) ng" where
  "pack_reader path pk t w = NgReturn (Inr 0) w"

definition pack_aggregate :: "nat \<Rightarrow> nat \<Rightarrow> timestamp \<Rightarrow> outward \<Rightarrow> (outward, ng_written \<times> nat) ng" where
  "pack_aggregate n m t w = NgCallback (CbWritePacket n t) w (\<lambda>(r1, w1). case r1 of
      Inl e \<Rightarrow> NgReturn (Inl e, 0) w1
    | Inr out1 \<Rightarrow> if out1 = [] then NgReturn (Inr [], 0) w1 else NgCallback (CbWritePacket n t) w1 (\<lambda>(r2, w2). case r2 of
          Inl e \<Rightarrow> NgReturn (Inl e, 0) w2
        | Inr out2 \<Rightarrow> if length out1 < length out2 then NgReturn (Inl (NgError 0), 0) w2
            else NgReturn (Inr (out1 @ out2), length out1) w2))"

definition pack_juice :: "outward juice_env" where
  "pack_juice = \<lparr>juice_send = (\<lambda>_ d w. (JUICE_ERR_SUCCESS, takes [d] w)),
     juice_send_aggregate_progress = (\<lambda>_ d g w. if snd w = [] \<and> g < length d
       then ((JUICE_ERR_AGAIN, g), takes (segments g (take g d)) w)
       else ((JUICE_ERR_SUCCESS, length d), takes (segments g d) w)),
     juice_text = (\<lambda>_. ''0'')\<rparr>"

definition pack_env :: "outward quic_env" where
  "pack_env = demo_with pack_reader pack_writer (Pair []) pack_aggregate pack_juice"

definition pack_conn :: "outward conn" where
  "pack_conn = connection_new Client ''PEM'' '''' 1 2 True demo_agents ([], [])"

lemma pack_aggregates: "aggregates id (pack_aggregate n m t w) [] w"
proof -
  have one: "segments (length out1) out1 = [out1]" if "out1 \<noteq> []" for out1 :: bytes
    using that by (simp add: segments_short)
  have two: "segments (length out1) (out1 @ out2) = [out1, out2]"
    if "out1 \<noteq> []" "out2 \<noteq> []" "\<not> length out1 < length out2" for out1 out2 :: bytes
    using that by (subst segments_Cons) (auto simp: segments_short)
  show ?thesis
    by (auto simp: pack_aggregate_def Let_def packet_def one two split: sum.split)
qed

lemma pack_pk_env: "pk_env pack_env id"
proof -
  have "juice_takes pack_juice id" by (auto simp: juice_takes_def pack_juice_def)
  moreover have "ng_tree id (\<lambda>_ _. True) (\<lambda>r b b'. b' = writes (packet (fst r)) b) (pack_writer n f sid d t w) w" for n f sid d t w
    by (cases d) (simp_all add: pack_writer_def)
  ultimately show ?thesis
    using pack_aggregates by (simp add: pk_env_def env_quiet_def pack_env_def demo_with_def keeps_def ret_keeps_def pack_reader_def del: split_paired_All)
qed

lemmas pack_sel = demo_with_sel [of pack_reader pack_writer "Pair []" pack_aggregate pack_juice, folded pack_env_def]
  with_start [of _ pack_reader pack_writer "Pair []" pack_aggregate pack_juice, folded pack_env_def]

text \<open>The round that finds nothing to send, and the one that sends three bytes.\<close>

lemma pack_round:
  "hasConn (proto s) \<Longrightarrow> pendingSend s = ps_clear \<Longrightarrow> aggregatePackets s \<Longrightarrow>
   processSendFlush pack_env s = (case flushAggregate pack_env 0 s of (Inl e, s') \<Rightarrow> (Inl e, s')
     | (Inr b, s') \<Rightarrow> whenA b queueSendFlush s')"
  by (simp add: processSendFlush_def flushPackets_def flushPendingTransportSend_def act_simps ps_clear_def ps_hasRemainingData_def
      split: prod.split sum.split)

lemma pending_write_error [simp]: "proto_hasPendingWrite (p\<lparr>aggregateWriteError := x\<rparr>) = proto_hasPendingWrite p"
  by (simp add: proto_hasPendingWrite_def)

lemma pack_idle:
  "hasConn (proto s) \<Longrightarrow> pendingSend s = ps_clear \<Longrightarrow> aggregatePackets s \<Longrightarrow> \<not> proto_hasPendingWrite (proto s) \<Longrightarrow>
   processSendFlush pack_env s = (Inr (), s\<lparr>proto := (proto s)\<lparr>aggregateWriteError := ''''\<rparr>\<rparr>)"
  by (simp add: pack_round flushAggregate.simps [of _ 0] kMaxPacketsPerFlush_def aggregateRound_def getCurrentTimestampNS_def pack_sel
      pack_aggregate_def aggregate_callbacks_def writeAggregatePacketCallback_def writeOnePacket_def
      act_simps world_def Let_def)

definition pack_proto :: "nat \<Rightarrow> nat \<Rightarrow> proto \<Rightarrow> proto" where
  "pack_proto k n p = p\<lparr>txStreamID := 0, txChunks := [\<lparr>tc_offset = 0, tc_data = [1, 2, 3], tc_submitted = k\<rparr>], txNextOffset := 3,
     txSubmittedOffset := k, txFinRequested := False, aggregatePacketCount := n, aggregateWriteError := ''''\<rparr>"

lemma pack_write:
  assumes "proto s = pack_proto k n p" and "k = 0 \<or> k = 2"
  shows "writeOnePacket pack_env sz t True s = (Inr (take 2 (drop k [1, 2, 3])),
    s\<lparr>proto := pack_proto (k + length (take 2 (drop k [1, 2, 3 :: byte]))) (n + 1) p,
      io := (io s)\<lparr>io_world := writes [take 2 (drop k [1, 2, 3])] (world s)\<rparr>\<rparr>)"
  using assms(2)
  by (elim disjE) (simp_all add: writeOnePacket_def proto_hasPendingWrite_def assms(1) pack_proto_def act_simps pack_sel
      pack_writer_def Let_def chunk_accepted_def advance_chunk_def world_def)

lemma pack_call:
  assumes "proto s = pack_proto 0 n p" and "world s = ([], [])"
  shows "run_ng (aggregate_callbacks pack_env) (q_write_aggregate pack_env sz m t (world s)) s =
    (Inr (Inr [1, 2, 3], 2), s\<lparr>proto := pack_proto 3 (n + 2) p, io := (io s)\<lparr>io_world := ([[1, 2], [3]], [])\<rparr>\<rparr>)"
proof -
  let ?s1 = "s\<lparr>proto := pack_proto 2 (n + 1) p, io := (io s)\<lparr>io_world := ([[1, 2]], [])\<rparr>\<rparr>"
  have "aggregate_callbacks pack_env (CbWritePacket sz t) s = (Inr (Inr [1, 2]), ?s1)"
    using assms pack_write [OF assms(1), of sz t]
    by (simp add: aggregate_callbacks_def writeAggregatePacketCallback_def act_simps writes_def numeral_2_eq_2)
  moreover have "aggregate_callbacks pack_env (CbWritePacket sz t) ?s1 =
      (Inr (Inr [3]), s\<lparr>proto := pack_proto 3 (n + 2) p, io := (io s)\<lparr>io_world := ([[1, 2], [3]], [])\<rparr>\<rparr>)"
    using pack_write [of ?s1 2 "n + 1" p sz t]
    by (simp add: aggregate_callbacks_def writeAggregatePacketCallback_def act_simps writes_def world_def)
  ultimately show ?thesis
    by (simp add: pack_sel pack_aggregate_def act_simps world_def)
qed

lemma pack_send:
  assumes p: "proto s = pack_proto 0 n p" "hasConn p" and "pendingSend s = ps_clear" "aggregatePackets s"
    and "io s = \<lparr>io_binding = \<lparr>agentHandle = Some 0, bconnection = c, datagramLimit = 1200\<rparr>, io_agents = ag, io_world = ([], [])\<rparr>"
    and "ag 0 = \<lparr>agent_juice = Some \<lparr>jh_agent = Some 9\<rparr>, agent_lock = True, agent_closed = False, dataSink = sk, dataSinkUserPtr = su\<rparr>"
  shows "processSendFlush pack_env s = (Inr (), s\<lparr>proto := pack_proto 3 (n + 2) p,
    io := (io s)\<lparr>io_world := ([[1, 2], [3]], [[1, 2]])\<rparr>,
    pendingSend := \<lparr>ps_data = [3], ps_offset = 0, ps_segmentSize = 2, ps_packetCount = 2, ps_logicalBytes = 3, ps_aggregate = True\<rparr>,
    sendRetryExpiry := 5 + kSendRetryDelayNS\<rparr>)"
proof -
  have w: "world s = ([], [])" using assms(5) by (simp add: world_def)
  have now: "getCurrentTimestampNS pack_env u = (Inr 5, u)" for u :: "outward conn"
    by (simp add: getCurrentTimestampNS_def act_simps pack_sel world_def)
  have clear: "modProto (\<lambda>p. p\<lparr>aggregateWriteError := ''''\<rparr>) s = (Inr (), s)"
    using p by (simp add: modProto_apply pack_proto_def)
  have count: "aggregatePacketCount (pack_proto k m p) = m" for k m by (simp add: pack_proto_def)
  let ?s = "s\<lparr>proto := pack_proto 3 (n + 2) p, io := (io s)\<lparr>io_world := ([[1, 2], [3]], [])\<rparr>\<rparr>"
  let ?s' = "s\<lparr>proto := pack_proto 3 (n + 2) p,
      io := (io s)\<lparr>io_world := ([[1, 2], [3]], [[1, 2]])\<rparr>,
      pendingSend := \<lparr>ps_data = [3], ps_offset = 0, ps_segmentSize = 2, ps_packetCount = 2, ps_logicalBytes = 3, ps_aggregate = True\<rparr>,
      sendRetryExpiry := 5 + kSendRetryDelayNS\<rparr>"
  have "segments 2 [1, 2 :: byte] = [[1, 2]]" by (simp add: segments_short)
  then have send: "sendTransportBuffer pack_env [1, 2, 3] 2 2 True ?s = (Inr OutcomeBlocked, ?s')"
    using assms
    by (simp add: sendTransportBuffer_def sendTransportOnce_def retainPendingTransportSend_def scheduleSendRetry_def now act_simps pack_sel
        binding_sendAggregate_def sendFFLP2PAgentNativeAggregateProgress_def sendFFLP2PJuiceAggregateProgress_def pack_juice_def
        translateSendResult_def ps_clear_def ps_hasRemainingData_def takes_def world_def numeral_2_eq_2 numeral_3_eq_3)
  have "aggregateRound pack_env 0 s = (Inr RoundBlocked, ?s')"
    using pack_call [OF p(1) w, of kSendBufferPayloadSize "kMaxPacketsPerFlush - 0" 5] send p(1)
    by (simp add: aggregateRound_def bindA_apply [of "getCurrentTimestampNS E" for E] bindA_apply [of "modProto f" for f]
        bindA_apply [of "run_ng h c" for h c] bindA_apply [of "sendTransportBuffer E d g k a" for E d g k a] bind_gets now clear count ret_apply)
  then show ?thesis
    using assms(2-4) p by (simp add: pack_round flushAggregate.simps [of _ 0] kMaxPacketsPerFlush_def whenA_simps ret_apply pack_proto_def)
qed

text \<open>The connection starts and sends three bytes: two packets in one aggregate, of which libjuice takes the first.\<close>

lemma pack_proto_is:
  "txStreamID p = 0 \<Longrightarrow> txChunks p = [\<lparr>tc_offset = 0, tc_data = [1, 2, 3], tc_submitted = 0\<rparr>] \<Longrightarrow> txNextOffset p = 3 \<Longrightarrow>
   txSubmittedOffset p = 0 \<Longrightarrow> \<not> txFinRequested p \<Longrightarrow> aggregatePacketCount p = 0 \<Longrightarrow> aggregateWriteError p = '''' \<Longrightarrow>
   p = pack_proto 0 0 p"
  by (simp add: pack_proto_def)

lemmas pack_flush = pack_send [OF pack_proto_is]

definition pack_calls :: "conn_call list" where
  "pack_calls = [CallStart (Some 0) True 1200, WorkerBegin, WorkerNext, WorkerNext, CallSend (Span [1, 2, 3]) False, WorkerNext, WorkerNext]"

lemma pack_run:
  "\<exists>s. run_calls pack_env pack_calls ([], [], pack_conn) = Some ([1, 2, 3], [], s) \<and> \<not> stopped s \<and>
     world s = ([[1, 2], [3]], [[1, 2]]) \<and> waiting_packets (pendingSend s) = [[3]] \<and> tooLargeSendDrops s = 0 \<and>
     sendRetryExpiry s = 5 + kSendRetryDelayNS \<and> queued FlushSend (operationQueue s) = 0"
  by (simp add: pack_calls_def pack_conn_def beginWorkerProcessing_def demo_simps call_writes_def
      call_takes_def pack_sel pack_idle pack_flush proto_hasPendingWrite_def proto_new_def queueDataAsync_def
      createSendOperation_def processSend_def chooseStream_def add_chunk_def
      publishApplicationState_def world_def checkNgtcp2_def Let_def whenA_simps waiting_packets_def outgoing_def segments_short)


end
