(* ===== verification/Connection_Retry.thy ===== *)
theory Connection_Retry
  imports Connection_Packets
begin

text \<open>
  Packets that the transport has not taken wait for a retry (\<open>pendingSend\<close>). They never wait for ever: while the
  connection runs, a send flush is queued or the time of the retry is set, and the worker is told to come
  back by then.
\<close>

section \<open>Parts of the sending side\<close>

definition unsent :: "'w conn \<Rightarrow> bool" where
  "unsent s \<longleftrightarrow> ps_hasRemainingData (pendingSend s)"

interpretation clear_plain: conn_plain E "\<lambda>_. ()" "\<lambda>_ _. True" "\<lambda>_ _ _ _. True" "\<lambda>s. \<not> unsent s" for E
proof unfold_locales
  have flush: "preserves (\<lambda>s. \<not> unsent s) queueSendFlush" "preserves (\<lambda>s. \<not> unsent s) queueStreamReceiveFlush"
    by (simp_all add: preserves_def queue_defs act_simps unsent_def)
  show "\<not> unsent s \<Longrightarrow> \<not> unsent (snd (receiveStreamDataCallback fin sid off data s))"
    "\<not> unsent s \<Longrightarrow> \<not> unsent (snd (acknowledgedStreamDataCallback sid off len s))" for s :: "'a conn" and fin sid off data len
    unfolding callback_defs modProto_def modApp_def assertWorkerOwner_def
    by (rule preservesD [where I = "\<lambda>s. \<not> unsent s"], intro preserves_intros preserves_modify flush; simp add: unsent_def)+
qed (rule env_calls_trivial | simp add: unsent_def)+

interpretation linked_plain: conn_plain E "\<lambda>_. ()" "\<lambda>_ _. True" "\<lambda>_ _ _ _. True" "\<lambda>s. hasConn (proto s)" for E
proof unfold_locales
  have flush: "preserves (\<lambda>s. hasConn (proto s)) queueSendFlush" "preserves (\<lambda>s. hasConn (proto s)) queueStreamReceiveFlush"
    by (simp_all add: preserves_def queue_defs act_simps)
  show "hasConn (proto s) \<Longrightarrow> hasConn (proto (snd (receiveStreamDataCallback fin sid off data s)))"
    "hasConn (proto s) \<Longrightarrow> hasConn (proto (snd (acknowledgedStreamDataCallback sid off len s)))" for s :: "'a conn" and fin sid off data len
    unfolding callback_defs modProto_def modApp_def assertWorkerOwner_def
    by (rule preservesD [where I = "\<lambda>s. hasConn (proto s)"], intro preserves_intros preserves_modify flush; simp)+
qed (rule env_calls_trivial | simp)+

interpretation linked: conn_sender E "\<lambda>_. ()" "\<lambda>_ _. True" "\<lambda>_ _ _ _. True" "\<lambda>s. hasConn (proto s)" for E
  by unfold_locales (simp_all add: preserves_def queue_defs act_simps)

section \<open>The flush sets the retry\<close>

text \<open>The clock counts nanoseconds since the start of the machine and stays below \<open>2 ^ 63\<close> for 292 years.\<close>

definition clock_in_range :: "'w quic_env \<Rightarrow> bool" where
  "clock_in_range E \<longleftrightarrow> (\<forall>w. fst (q_now E w) < 2 ^ 63)"

definition due :: "send_outcome \<Rightarrow> 'w conn \<Rightarrow> bool" where
  "due r s \<longleftrightarrow> (unsent s \<longrightarrow> r = OutcomeBlocked \<and> sendRetryExpiry s \<noteq> InfiniteTimestamp)"

lemma retry_finite: "ts < 2 ^ 63 \<Longrightarrow> ts + kSendRetryDelayNS \<noteq> InfiniteTimestamp"
proof
  assume small: "ts < 2 ^ 63" and "ts + kSendRetryDelayNS = InfiniteTimestamp"
  then have "ts = InfiniteTimestamp - kSendRetryDelayNS" by (metis add_diff_cancel_right')
  then show False using small by (simp add: InfiniteTimestamp_def kSendRetryDelayNS_def)
qed

lemma schedule_due: "clock_in_range E \<Longrightarrow> scheduleSendRetry E s = (Inr u, s') \<Longrightarrow> due OutcomeBlocked s'"
  by (auto simp: scheduleSendRetry_def getCurrentTimestampNS_def clock_in_range_def act_simps due_def retry_finite split: prod.splits)

lemma once_pending: "sendTransportOnce E data seg aggregate s = (r, s') \<Longrightarrow> pendingSend s' = pendingSend s"
  by (auto simp: sendTransportOnce_def getCurrentTimestampNS_def act_simps split: prod.splits sum.splits if_splits)

lemma buffer_due:
  assumes E: "clock_in_range E" and run: "sendTransportBuffer E data seg k aggregate s = (Inr r, s')"
  shows "due r s'"
proof -
  have free: "\<not> unsent s" using run by (auto simp: sendTransportBuffer_def act_simps unsent_def split: if_splits)
  obtain res s1 where once: "sendTransportOnce E data seg aggregate s = (Inr res, s1)"
    and rest: "(case status res of
        Complete \<Rightarrow> bindA clearSendRetry (\<lambda>_. ret OutcomeComplete)
      | TooLarge \<Rightarrow> bindA (blockA [dropTooLarge, clearSendRetry]) (\<lambda>_. ret OutcomeComplete)
      | Blocked \<Rightarrow> bindA (retainPendingTransportSend E data (sentSize res) seg k aggregate) (\<lambda>_. ret OutcomeBlocked)) s1 = (Inr r, s')"
    using run free by (auto simp: sendTransportBuffer_def unsent_def bind_gets bindA_apply [of "sendTransportOnce E data seg aggregate"]
        split: prod.splits sum.splits)
  have free1: "\<not> unsent s1" using free once_pending [OF once] by (simp add: unsent_def)
  show ?thesis
  proof (cases "status res")
    case Blocked
    then have "r = OutcomeBlocked" and "\<exists>u. \<exists>t. scheduleSendRetry E t = (Inr u, s')"
      using rest by (auto simp: retainPendingTransportSend_def act_simps split: prod.splits sum.splits if_splits)
    then show ?thesis using schedule_due [OF E] by blast
  qed (use rest free1 in \<open>auto simp: due_def unsent_def clearSendRetry_def dropTooLarge_def act_simps\<close>)
qed

lemma pending_due:
  assumes E: "clock_in_range E" and run: "flushPendingTransportSend E s = (Inr r, s')"
  shows "due r s'"
proof (cases "unsent s")
  case False
  then show ?thesis using run by (auto simp: flushPendingTransportSend_def act_simps due_def unsent_def)
next
  case True
  then have "(r = OutcomeComplete \<and> \<not> unsent s') \<or> (r = OutcomeBlocked \<and> (\<exists>u t. scheduleSendRetry E t = (Inr u, s')))"
    using run unfolding flushPendingTransportSend_def
    by (auto simp: act_simps clearSendRetry_def dropTooLarge_def unsent_def ps_clear_def ps_hasRemainingData_def
        split: prod.splits sum.splits if_splits)
  then show ?thesis using schedule_due [OF E] by (auto simp: due_def)
qed

lemma clear_due: "\<not> unsent s \<Longrightarrow> due r s"
  by (simp add: due_def)

lemma buffer_due_post: "clock_in_range E \<Longrightarrow> post P (sendTransportBuffer E data seg k aggregate) due"
  by (rule postI) (rule buffer_due)

lemma flushSingle_due:
  assumes E: "clock_in_range E"
  shows "post (\<lambda>s. \<not> unsent s) (flushSingle E k) (\<lambda>_. due OutcomeBlocked)"
proof (induction k)
  case 0
  show ?case by (simp add: post_ret clear_due)
next
  case (Suc k)
  have outcome: "post (due r) (case r of OutcomeBlocked \<Rightarrow> ret False | OutcomeComplete \<Rightarrow> flushSingle E k) (\<lambda>_. due OutcomeBlocked)" for r
    by (cases r) (auto intro: post_ret post_weaken [OF Suc.IH] simp: due_def)
  have out: "post (\<lambda>s. \<not> unsent s) (if out = [] then ret False
       else bindA (sendTransportBuffer E out (length out) 1 False) (\<lambda>outcome.
         case outcome of OutcomeBlocked \<Rightarrow> ret False | OutcomeComplete \<Rightarrow> flushSingle E k)) (\<lambda>_. due OutcomeBlocked)" for out
    by (rule post_if) (simp add: post_ret clear_due, rule post_bind [OF buffer_due_post [OF E] outcome])
  show ?case
    unfolding flushSingle.simps
    by (rule post_bind [OF preserves_post [OF clear_plain.now_inv] post_bind [OF preserves_post [OF clear_plain.plain_write] out]])
qed

lemma aggregateRound_due:
  assumes E: "clock_in_range E"
  shows "post (\<lambda>s. \<not> unsent s) (aggregateRound E i) (\<lambda>r. due (if r = RoundBlocked then OutcomeBlocked else OutcomeComplete))"
proof -
  have outcome: "post (due r) (case r of OutcomeBlocked \<Rightarrow> ret RoundBlocked | OutcomeComplete \<Rightarrow> ret (RoundSent n))
      (\<lambda>r. due (if r = RoundBlocked then OutcomeBlocked else OutcomeComplete))" for r n
    by (cases r) (simp_all add: post_ret)
  have break: "post (\<lambda>s. \<not> unsent s) (ret RoundBreak) (\<lambda>r. due (if r = RoundBlocked then OutcomeBlocked else OutcomeComplete))"
    by (rule post_ret) (simp add: clear_due)
  have call: "post (\<lambda>s. \<not> unsent s) (bindA (gets (\<lambda>s. q_write_aggregate E n m ts (world s))) (\<lambda>call. bindA (run_ng (aggregate_callbacks E) call) k)) Q"
    if "\<And>r. post (\<lambda>s. \<not> unsent s) (k r) Q" for n m ts k Q
    by (rule post_call [OF preservesD2 [OF clear_plain.aggregate_call_inv] that])
  show ?thesis
    unfolding aggregateRound_def
    by (rule post_bind [OF preserves_post [OF clear_plain.now_inv]], rule post_bind [OF preserves_post [OF preserves_gets]],
        rule post_bind [OF preserves_post [OF clear_plain.proto_inv]], (simp add: proto_core_def)+, rule call)
      (auto intro!: post_bind [OF preserves_post [OF preserves_gets]] post_throw post_if break post_bind [OF buffer_due_post [OF E] outcome]
        simp: Let_def split: prod.split sum.split)
qed

lemma flushAggregate_due:
  assumes E: "clock_in_range E"
  shows "\<not> unsent s \<Longrightarrow> flushAggregate E i s = (Inr r, s') \<Longrightarrow> due OutcomeBlocked s'"
proof (induction "kMaxPacketsPerFlush - i" arbitrary: i s rule: less_induct)
  case less
  show ?case
  proof (cases "i < kMaxPacketsPerFlush")
    case False
    then show ?thesis using less.prems by (simp add: flushAggregate.simps [of E i] clear_due)
  next
    case True
    obtain q s1 where one: "aggregateRound E i s = (Inr q, s1)"
      using less.prems(2) True by (auto simp: flushAggregate.simps [of E i] split: prod.splits sum.splits)
    note res = postD [OF aggregateRound_due [OF E] less.prems(1) one]
    show ?thesis
    proof (cases q)
      case (RoundSent n)
      then have "flushAggregate E (i + n) s1 = (Inr r, s')" "\<not> unsent s1"
        using less.prems(2) True one res by (auto simp: flushAggregate.simps [of E i] due_def)
      then show ?thesis using less.hyps [of "i + n" s1] aggregateRound_sent [of E i s n s1] one RoundSent True by simp
    qed (use less.prems(2) True one res in \<open>auto simp: flushAggregate.simps [of E i] due_def\<close>)
  qed
qed

lemma flushPackets_due:
  assumes E: "clock_in_range E"
  shows "post (\<lambda>s. hasConn (proto s)) (flushPackets E) (\<lambda>_. due OutcomeBlocked)"
proof -
  have loops: "post (\<lambda>s. \<not> unsent s) (if \<not> a then flushSingle E kMaxPacketsPerFlush else flushAggregate E 0) (\<lambda>_. due OutcomeBlocked)" for a
    using flushSingle_due [OF E] flushAggregate_due [OF E] by (auto intro!: postI dest: postD)
  have rest: "post (due r) (if r = OutcomeBlocked then ret False else bindA (gets aggregatePackets)
      (\<lambda>aggregate. if \<not> aggregate then flushSingle E kMaxPacketsPerFlush else flushAggregate E 0)) (\<lambda>_. due OutcomeBlocked)" for r
  proof (cases r)
    case OutcomeComplete
    have "post (due OutcomeComplete) (bindA (gets aggregatePackets)
        (\<lambda>aggregate. if \<not> aggregate then flushSingle E kMaxPacketsPerFlush else flushAggregate E 0)) (\<lambda>_. due OutcomeBlocked)"
      by (rule post_bind [OF post_gets [where Q = "\<lambda>_ s. \<not> unsent s"] loops]) (simp add: due_def)
    then show ?thesis using OutcomeComplete by simp
  qed (simp add: post_ret)
  show ?thesis
    unfolding flushPackets_def
  proof (rule post_bind [OF post_gets [where Q = "\<lambda>p s. hasConn p"]], assumption, rule post_if, goal_cases)
    case (1 p)
    then show ?case by (simp add: post_def)
  next
    case (2 p)
    show ?case by (rule post_bind [OF postI [OF pending_due [OF E]] rest])
  qed
qed

section \<open>Runs\<close>

definition retried :: "'w conn \<Rightarrow> bool" where
  "retried s \<longleftrightarrow> stopped s \<or> \<not> unsent s \<or>
     (hasConn (proto s) \<and> (sendRetryExpiry s \<noteq> InfiniteTimestamp \<or> sendOperationPending s))"

interpretation retry: conn_frame E "\<lambda>_. ()" retried for E
  by unfold_locales (rule env_quiet_trivial, auto simp: retried_def unsent_def)

lemma flush_retried:
  assumes E: "clock_in_range E" and oper: "op_type oper = FlushSend"
  shows "post retried (processOperation E oper) (\<lambda>_. retried)"
proof (rule postI)
  fix s x s' assume start: "retried s" and run: "processOperation E oper s = (Inr x, s')"
  let ?s = "s\<lparr>sendOperationPending := False\<rparr>"
  have run: "processSendFlush E ?s = (Inr x, s')" using run oper by (simp add: processOperation_def act_simps)
  show "retried s'"
  proof (cases "stopped s \<or> \<not> hasConn (proto s)")
    case True
    then show ?thesis
    proof
      assume "stopped s"
      then show ?thesis using preservesD2 [OF halted.processSendFlush_inv _ run] by (simp add: retried_def)
    next
      assume "\<not> hasConn (proto s)"
      then show ?thesis using run start by (auto simp: processSendFlush_def act_simps retried_def unsent_def)
    qed
  next
    case False
    then have conn: "hasConn (proto s')" using preservesD2 [OF linked.processSendFlush_inv _ run] by simp
    obtain b s1 where flush: "flushPackets E ?s = (Inr b, s1)" and rest: "whenA b queueSendFlush s1 = (Inr x, s')"
      using run False by (auto simp: processSendFlush_def act_simps split: prod.splits sum.splits)
    have "due OutcomeBlocked s1" by (rule postD [OF flushPackets_due [OF E] _ flush]) (use False in simp)
    moreover have "hasConn (proto s1)" using preservesD2 [OF linked.flushPackets_inv _ flush] False by simp
    ultimately have "retried s1" by (auto simp: due_def retried_def)
    then show ?thesis using preservesD2 [OF preserves_when [OF retry.frame_flush(1)] _ rest] by blast
  qed
qed

text \<open>A due retry is cleared only to queue a flush.\<close>

interpretation half: conn_frame E "\<lambda>_. ()" "\<lambda>s. stopped s \<or> \<not> unsent s \<or> hasConn (proto s)" for E
  by unfold_locales (rule env_quiet_trivial, auto simp: unsent_def)

lemma flush_sets: "queueSendFlush s = (Inr x, s') \<Longrightarrow> sendOperationPending s'"
  by (auto simp: queue_defs assertWorkerOwner_def act_simps split: if_splits)

lemma timer_retried: "post retried (processTimer E) (\<lambda>_. retried)"
proof (rule postI)
  fix s x s' assume start: "retried s" and run: "processTimer E s = (Inr x, s')"
  have "preserves (\<lambda>s. stopped s \<or> \<not> unsent s \<or> hasConn (proto s)) (processTimer E)"
    by (rule half.frame_timer) (simp add: clearSendRetry_def preserves_def act_simps unsent_def)
  from preservesD2 [OF this _ run] have half: "stopped s' \<or> \<not> unsent s' \<or> hasConn (proto s')"
    using start by (auto simp: retried_def)
  have "sendOperationPending s' \<or> getCurrentTimestampNS E s = (fst (getCurrentTimestampNS E s), s')"
    using run unfolding processTimer_def
    by (auto simp: bindA_def gets_def ret_def whenA_def dest: flush_sets split: prod.splits sum.splits if_splits)
  then show "retried s'"
    using half preservesD2 [OF retry.frame_set_up(5) start] by (auto simp: retried_def)
qed

lemma retried_alive:
  assumes E: "clock_in_range E"
  shows "conn_alive E (\<lambda>_. ()) retried"
proof (intro conn_alive.intro conn_alive_axioms.intro retry.conn_frame_axioms)
  have shutdown: "post retried (processShutdown E) (\<lambda>_. retried)"
    by (rule post_weaken [OF flags_processShutdown]) (simp_all add: retried_def)
  show "post retried (processOperation E oper) (\<lambda>_. retried)" for oper
  proof (cases "op_type oper \<in> {FlushSend, TimerExpired, Shutdown}")
    case True
    then show ?thesis using flush_retried [OF E] timer_retried shutdown by (auto simp: processOperation_def)
  next
    case False
    then show ?thesis by (intro preserves_post retry.frame_other)
  qed
qed (simp add: retried_def)

text \<open>C10. Packets that the transport refused are never forgotten: whatever calls are made, while the connection runs and
  data waits for a retry, a send flush is queued or the worker is told of a finite deadline no later than
  the time of the retry, and the timer operation that runs at that time or later queues the flush.\<close>

theorem blocked_send_retried:
  assumes "conn_reachable E (connection_new ro cert key addr baddr ready agents w) s" and E: "clock_in_range E"
    and "\<not> stopped s" and "ps_hasRemainingData (pendingSend s)"
  shows "queued FlushSend (operationQueue s) = 1 \<or>
    (\<exists>deadline. getNextExpiry E (s\<lparr>onWorker := True\<rparr>) = (Inr deadline, s\<lparr>onWorker := True\<rparr>) \<and>
       deadline \<le> sendRetryExpiry s \<and> sendRetryExpiry s \<noteq> InfiniteTimestamp \<and>
       (\<forall>s'. sendRetryExpiry s \<le> fst (q_now E (world s)) \<longrightarrow> processTimer E (s\<lparr>onWorker := True\<rparr>) = (Inr (), s') \<longrightarrow>
          sendOperationPending s'))"
proof (cases "sendOperationPending s")
  case True
  have "flags_inv None s" using queue_inv_reachable [OF assms(1)] by (simp add: queue_inv_def)
  then have "flagged t \<Longrightarrow> queued t (operationQueue s) = (if flag s t then 1 else 0)" for t
    using assms(3) by (simp add: flags_inv_def flag_count_def)
  then show ?thesis using True by (simp add: flagged_def flag_field)
next
  case False
  have "retried s"
    by (rule conn_alive.alive_reachable [OF retried_alive [OF E] assms(1)])
      (simp add: retried_def unsent_def connection_new_def ps_clear_def ps_hasRemainingData_def)
  then have finite: "sendRetryExpiry s \<noteq> InfiniteTimestamp" using assms(3,4) False by (auto simp: retried_def unsent_def)
  have "sendOperationPending s'"
    if "sendRetryExpiry s \<le> fst (q_now E (world s))" and "processTimer E (s\<lparr>onWorker := True\<rparr>) = (Inr (), s')" for s'
    using that unfolding processTimer_def
    by (auto simp: bindA_def gets_def ret_def whenA_def getCurrentTimestampNS_def extern_def setWorld_def modify_def world_def
        dest: flush_sets split: prod.splits sum.splits if_splits)
  then show ?thesis using finite assms(3)
    by (auto simp: getNextExpiry_def assertWorkerOwner_def act_simps)
qed

text \<open>The packet that waits at the end of the run with an aggregate.\<close>

theorem blocked_send_retried_witness:
  "\<exists>s. conn_reachable pack_env pack_conn s \<and> waiting_packets (pendingSend s) = [[3]] \<and> sendRetryExpiry s = 5 + kSendRetryDelayNS \<and>
     (\<exists>deadline. getNextExpiry pack_env (s\<lparr>onWorker := True\<rparr>) = (Inr deadline, s\<lparr>onWorker := True\<rparr>) \<and> deadline \<le> 5 + kSendRetryDelayNS)"
proof -
  obtain s where run: "run_calls pack_env pack_calls ([], [], pack_conn) = Some ([1, 2, 3], [], s)" and s: "\<not> stopped s"
    "waiting_packets (pendingSend s) = [[3]]" "sendRetryExpiry s = 5 + kSendRetryDelayNS" "queued FlushSend (operationQueue s) = 0"
    using pack_run by blast
  have reach: "conn_reachable pack_env pack_conn s" by (rule trace_reachable [OF run_calls_trace [OF trace_init run]])
  have "clock_in_range pack_env" by (simp add: clock_in_range_def pack_sel)
  moreover have "ps_hasRemainingData (pendingSend s)" using s(2) waiting_none [of "pendingSend s"] by (rule_tac ccontr) simp
  ultimately show ?thesis
    using blocked_send_retried [OF reach [unfolded pack_conn_def] _ s(1)] s reach by auto
qed

end
