(* ===== verification/Send_Diagnostics.thy ===== *)
theory Send_Diagnostics
  imports Connection_Packets
begin

text \<open>
  The sending side of a connection in a build with diagnostics (\<open>FFL_P2P_DIAGNOSTICS\<close>): the code of
  \<open>Connection_Send\<close> with the counters of sends that it keeps. The counters do not change what the connection
  does, and they add up. Left out are the timings, which \<open>Runtime_Diagnostics\<close> has, and the counters of packets written.
\<close>

section \<open>The counters\<close>

text \<open>The counters of \<open>Connection\<close> and \<open>ProtocolState\<close> that the sending side changes.\<close>

record send_counts =
  sendFlushes :: u64
  sendFlushBudgetRequeues :: u64
  txSendAttempts :: u64
  txSendRetryAttempts :: u64
  txSendBackpressureEvents :: u64
  txSendBackpressureBytes :: u64
  txSendCalls :: u64
  txAggregateSendCalls :: u64
  txAggregatePackets :: u64
  txAggregateBytes :: u64
  maxAggregatePackets :: u64
  maxAggregateBytes :: u64

record 'w counted =
  plain :: "'w conn"
  counts :: send_counts

type_synonym ('w, 'a) kact = "('w counted, 'a) act"

text \<open>Code that is the same in both builds, and a statement that only counts.\<close>

definition same :: "('w, 'a) cact \<Rightarrow> ('w, 'a) kact" where
  "same m = zoomA plain (\<lambda>t s. s\<lparr>plain := t\<rparr>) m"

definition counting :: "(send_counts \<Rightarrow> send_counts) \<Rightarrow> ('w, unit) kact" where
  "counting f = modify (\<lambda>s. s\<lparr>counts := f (counts s)\<rparr>)"

section \<open>The code\<close>

definition recordCompletedTransportSend :: "u64 \<Rightarrow> u64 \<Rightarrow> bool \<Rightarrow> ('w, unit) kact" where
  "recordCompletedTransportSend packetCount byteCount aggregate =
     bindA (counting (\<lambda>c. c\<lparr>txSendCalls := txSendCalls c + 1\<rparr>)) (\<lambda>_.
       if \<not> aggregate \<or> packetCount \<le> 1 then ret ()
       else counting (\<lambda>c. c\<lparr>txAggregateSendCalls := txAggregateSendCalls c + 1,
         txAggregatePackets := txAggregatePackets c + packetCount,
         txAggregateBytes := txAggregateBytes c + byteCount,
         maxAggregatePackets := max (maxAggregatePackets c) packetCount,
         maxAggregateBytes := max (maxAggregateBytes c) byteCount\<rparr>))"

definition recordSendBackpressure :: "u64 \<Rightarrow> ('w, unit) kact" where
  "recordSendBackpressure deferredBytes = counting (\<lambda>c. c\<lparr>txSendBackpressureEvents := txSendBackpressureEvents c + 1,
     txSendBackpressureBytes := txSendBackpressureBytes c + deferredBytes\<rparr>)"

definition countedSendOnce :: "'w quic_env \<Rightarrow> bytes \<Rightarrow> nat \<Rightarrow> bool \<Rightarrow> bool \<Rightarrow> ('w, send_result) kact" where
  "countedSendOnce E data segmentSize aggregate retry =
     bindA (counting (\<lambda>c. c\<lparr>txSendAttempts := txSendAttempts c + 1\<rparr>)) (\<lambda>_.
     bindA (whenA retry (counting (\<lambda>c. c\<lparr>txSendRetryAttempts := txSendRetryAttempts c + 1\<rparr>))) (\<lambda>_.
       same (sendTransportOnce E data segmentSize aggregate)))"

definition countedSendBuffer :: "'w quic_env \<Rightarrow> bytes \<Rightarrow> nat \<Rightarrow> nat \<Rightarrow> bool \<Rightarrow> ('w, send_outcome) kact" where
  "countedSendBuffer E data segmentSize packetCount aggregate =
     bindA (same (gets pendingSend)) (\<lambda>ps.
       if ps_hasRemainingData ps
       then throw (LogicError ''new QUIC transport send started while retry data is pending'')
       else bindA (countedSendOnce E data segmentSize aggregate False) (\<lambda>result.
         case status result of
           Complete \<Rightarrow>
             bindA (recordCompletedTransportSend (of_nat packetCount) (of_nat (length data)) aggregate) (\<lambda>_.
             bindA (same clearSendRetry) (\<lambda>_. ret OutcomeComplete))
         | TooLarge \<Rightarrow> bindA (same (blockA [dropTooLarge, clearSendRetry])) (\<lambda>_. ret OutcomeComplete)
         | Blocked \<Rightarrow>
             bindA (recordSendBackpressure (of_nat (length data) - of_nat (sentSize result))) (\<lambda>_.
             bindA (same (retainPendingTransportSend E data (sentSize result) segmentSize packetCount aggregate))
               (\<lambda>_. ret OutcomeBlocked))))"

definition countedFlushPending :: "'w quic_env \<Rightarrow> ('w, send_outcome) kact" where
  "countedFlushPending E = bindA (same (gets pendingSend)) (\<lambda>ps.
     if \<not> ps_hasRemainingData ps then ret OutcomeComplete
     else bindA (countedSendOnce E (drop (ps_offset ps) (ps_data ps)) (ps_segmentSize ps) (ps_aggregate ps) True)
       (\<lambda>result.
     bindA (same (modify (\<lambda>s. s\<lparr>pendingSend := (pendingSend s)\<lparr>ps_offset := ps_offset (pendingSend s) + sentSize result\<rparr>\<rparr>)))
       (\<lambda>_.
     bindA (same (gets pendingSend)) (\<lambda>ps'.
       if status result = TooLarge then
         bindA (same (blockA [dropTooLarge, modify (\<lambda>s. s\<lparr>pendingSend := ps_clear\<rparr>), clearSendRetry]))
           (\<lambda>_. ret OutcomeComplete)
       else if status result = Complete then
         (if ps_hasRemainingData ps'
          then throw (RuntimeError ''libjuice completed a QUIC retry with pending bytes remaining'')
          else bindA (same (blockA [modify (\<lambda>s. s\<lparr>pendingSend := ps_clear\<rparr>), clearSendRetry])) (\<lambda>_.
               bindA (recordCompletedTransportSend (of_nat (ps_packetCount ps')) (of_nat (ps_logicalBytes ps')) (ps_aggregate ps'))
                 (\<lambda>_. ret OutcomeComplete)))
       else if \<not> ps_hasRemainingData ps'
       then throw (RuntimeError ''libjuice blocked a QUIC retry after reporting all bytes sent'')
       else bindA (recordSendBackpressure (of_nat (ps_getRemainingSize ps'))) (\<lambda>_.
            bindA (same (scheduleSendRetry E)) (\<lambda>_. ret OutcomeBlocked))))))"

primrec countedFlushSingle :: "'w quic_env \<Rightarrow> nat \<Rightarrow> ('w, bool) kact" where
  "countedFlushSingle E 0 = ret True"
| "countedFlushSingle E (Suc left) =
     bindA (same (getCurrentTimestampNS E)) (\<lambda>ts.
     bindA (same (writeOnePacket E kSendBufferPayloadSize ts False)) (\<lambda>out.
       if out = [] then ret False
       else bindA (countedSendBuffer E out (length out) 1 False) (\<lambda>outcome.
         case outcome of
           OutcomeBlocked \<Rightarrow> ret False
         | OutcomeComplete \<Rightarrow> countedFlushSingle E left)))"

definition countedRound :: "'w quic_env \<Rightarrow> nat \<Rightarrow> ('w, round) kact" where
  "countedRound E batchIndex =
     bindA (same (getCurrentTimestampNS E)) (\<lambda>ts.
     bindA (same (gets (\<lambda>s. aggregatePacketCount (proto s)))) (\<lambda>packetsBefore.
     bindA (same (modProto (\<lambda>p. p\<lparr>aggregateWriteError := ''''\<rparr>))) (\<lambda>_.
     bindA (same (gets (\<lambda>s. q_write_aggregate E kSendBufferPayloadSize (kMaxPacketsPerFlush - batchIndex) ts (world s))))
       (\<lambda>call.
     bindA (same (run_ng (aggregate_callbacks E) call)) (\<lambda>(written, segmentSize).
     bindA (same (gets proto)) (\<lambda>p.
       case written of
         Inl e \<Rightarrow>
           if aggregateWriteError p \<noteq> [] then throw (RuntimeError (aggregateWriteError p))
           else throw (RuntimeError (''ngtcp2_conn_write_aggregate_pkt2: '' @ q_strerror E e))
       | Inr out \<Rightarrow>
           (let packetCount = aggregatePacketCount p - packetsBefore in
            if out = [] \<or> packetCount = 0 then ret RoundBreak
            else bindA (countedSendBuffer E out (if segmentSize = 0 then length out else segmentSize)
                          packetCount True)
                   (\<lambda>outcome. case outcome of
                       OutcomeBlocked \<Rightarrow> ret RoundBlocked
                     | OutcomeComplete \<Rightarrow> ret (RoundSent packetCount)))))))))"

section \<open>The counters do not matter\<close>

text \<open>\<open>mirrors m n\<close>: apart from the counters, \<open>m\<close> does what \<open>n\<close> does.\<close>

definition mirrors :: "('w, 'a) kact \<Rightarrow> ('w, 'a) cact \<Rightarrow> bool" where
  "mirrors m n \<longleftrightarrow> (\<forall>s. n (plain s) = (fst (m s), plain (snd (m s))))"

named_theorems mirror_intros \<open>steps that both builds make\<close>

lemma mirrors_same [mirror_intros]: "mirrors (same m) m"
  by (simp add: mirrors_def same_def zoomA_def split: prod.split)

lemma mirrors_ret [mirror_intros]: "mirrors (ret x) (ret x)"
  by (simp add: mirrors_def act_simps)

lemma mirrors_throw [mirror_intros]: "mirrors (throw e) (throw e)"
  by (simp add: mirrors_def act_simps)

lemma mirrors_bind [mirror_intros]: "mirrors m n \<Longrightarrow> (\<And>x. mirrors (f x) (g x)) \<Longrightarrow> mirrors (bindA m f) (bindA n g)"
  by (simp add: mirrors_def bindA_def split: prod.split sum.split)

lemma mirrors_counting: "mirrors (counting f) (ret ())"
  by (simp add: mirrors_def counting_def act_simps)

lemma bind_retA: "bindA (ret x) f = f x"
  by (simp add: fun_eq_iff act_simps)

lemma mirrors_skip: "mirrors m (ret ()) \<Longrightarrow> mirrors k n \<Longrightarrow> mirrors (bindA m (\<lambda>_. k)) n"
  using mirrors_bind [of m "ret ()" "\<lambda>_. k" "\<lambda>_. n"] by (simp add: bind_retA)

lemma mirrors_if [mirror_intros]: "mirrors m n \<Longrightarrow> mirrors m' n' \<Longrightarrow> mirrors (if b then m else m') (if b then n else n')"
  by simp

lemma mirrors_record: "mirrors (recordCompletedTransportSend k n a) (ret ())" "mirrors (recordSendBackpressure n) (ret ())"
  by (auto simp: mirrors_def recordCompletedTransportSend_def recordSendBackpressure_def counting_def act_simps)

lemma mirrors_once [mirror_intros]: "mirrors (countedSendOnce E data seg a r) (sendTransportOnce E data seg a)"
  unfolding countedSendOnce_def whenA_def
  by (cases r) (auto intro!: mirrors_skip [OF mirrors_counting] mirrors_skip [OF mirrors_ret] mirrors_same)

lemma mirrors_buffer [mirror_intros]: "mirrors (countedSendBuffer E data seg k a) (sendTransportBuffer E data seg k a)"
  unfolding countedSendBuffer_def sendTransportBuffer_def
  by (auto intro!: mirror_intros mirrors_skip [OF mirrors_record(1)] mirrors_skip [OF mirrors_record(2)] split: send_status.split)

lemma mirrors_pending [mirror_intros]: "mirrors (countedFlushPending E) (flushPendingTransportSend E)"
proof -
  have done_then: "mirrors (bindA (same m) (\<lambda>_. bindA r (\<lambda>_. ret x))) (bindA m (\<lambda>_. ret x))" if "mirrors r (ret ())" for m r and x :: send_outcome
    by (intro mirror_intros mirrors_skip [OF that])
  show ?thesis
    unfolding countedFlushPending_def flushPendingTransportSend_def
    by (intro mirror_intros done_then mirrors_record mirrors_skip [OF mirrors_record(2)])
qed

lemma mirrors_single [mirror_intros]: "mirrors (countedFlushSingle E n) (flushSingle E n)"
  by (induction n) (auto intro!: mirror_intros split: send_outcome.split)

lemma mirrors_round [mirror_intros]: "mirrors (countedRound E i) (aggregateRound E i)"
  unfolding countedRound_def aggregateRound_def Let_def
  by (intro mirror_intros) (auto intro!: mirror_intros split: prod.split sum.split send_outcome.split)

section \<open>The flush\<close>

lemma mirrorsD: "mirrors m n \<Longrightarrow> m s = (r, s') \<Longrightarrow> n (plain s) = (r, plain s')"
  by (simp add: mirrors_def)

function countedFlushAggregate :: "'w quic_env \<Rightarrow> nat \<Rightarrow> ('w, bool) kact" where
  "countedFlushAggregate E batchIndex s =
     (if batchIndex < kMaxPacketsPerFlush then
        (case countedRound E batchIndex s of
           (Inl e, s') \<Rightarrow> (Inl e, s')
         | (Inr r, s') \<Rightarrow>
             (case r of
                RoundBreak \<Rightarrow> (Inr (batchIndex \<ge> kMaxPacketsPerFlush), s')
              | RoundBlocked \<Rightarrow> (Inr False, s')
              | RoundSent packetCount \<Rightarrow> countedFlushAggregate E (batchIndex + packetCount) s'))
      else (Inr (batchIndex \<ge> kMaxPacketsPerFlush), s))"
  by pat_completeness auto
termination
  by (relation "measure (\<lambda>(E, i, s). kMaxPacketsPerFlush - i)")
    (auto dest!: mirrorsD [OF mirrors_round, OF sym] aggregateRound_sent)

declare countedFlushAggregate.simps [simp del]

definition countedFlushPackets :: "'w quic_env \<Rightarrow> ('w, bool) kact" where
  "countedFlushPackets E = bindA (same (gets proto)) (\<lambda>p.
     if \<not> hasConn p then ret False
     else bindA (countedFlushPending E) (\<lambda>outcome.
       if outcome = OutcomeBlocked then ret False
       else bindA (same (gets aggregatePackets)) (\<lambda>aggregate.
         if \<not> aggregate then countedFlushSingle E kMaxPacketsPerFlush else countedFlushAggregate E 0)))"

definition countedSendFlush :: "'w quic_env \<Rightarrow> ('w, unit) kact" where
  "countedSendFlush E = bindA (same (gets proto)) (\<lambda>p.
     if \<not> hasConn p then ret ()
     else bindA (counting (\<lambda>c. c\<lparr>sendFlushes := sendFlushes c + 1\<rparr>)) (\<lambda>_.
          bindA (countedFlushPackets E) (\<lambda>budgetExhausted. whenA budgetExhausted
            (bindA (counting (\<lambda>c. c\<lparr>sendFlushBudgetRequeues := sendFlushBudgetRequeues c + 1\<rparr>)) (\<lambda>_. same queueSendFlush)))))"

lemma mirrors_loop [mirror_intros]: "mirrors (countedFlushAggregate E i) (flushAggregate E i)"
  unfolding mirrors_def
proof
  fix s show "flushAggregate E i (plain s) = (fst (countedFlushAggregate E i s), plain (snd (countedFlushAggregate E i s)))"
  proof (induction E i s rule: countedFlushAggregate.induct)
    case (1 E i s)
    obtain r s1 where one: "countedRound E i s = (r, s1)" by fastforce
    note mirrorsD [OF mirrors_round one]
    then show ?case using 1 one
      by (auto simp: countedFlushAggregate.simps [of E i] flushAggregate.simps [of E i] split: sum.split round.split)
  qed
qed

lemma mirrors_flush: "mirrors (countedSendFlush E) (processSendFlush E)"
  unfolding countedSendFlush_def processSendFlush_def countedFlushPackets_def flushPackets_def whenA_def
  by (intro mirror_intros mirrors_skip [OF mirrors_counting])

section \<open>The counters add up\<close>

text \<open>The attempts that have no outcome yet; every attempt has one when a flush ends.\<close>

definition unaccounted :: "'w counted \<Rightarrow> u64" where
  "unaccounted s = txSendAttempts (counts s) -
     (txSendCalls (counts s) + txSendBackpressureEvents (counts s) + tooLargeSendDrops (plain s))"

text \<open>\<open>books k m\<close>: an execution of \<open>m\<close> that ends normally leaves \<open>k\<close> attempts to account for.\<close>

definition books :: "u64 \<Rightarrow> u64 \<Rightarrow> ('w, 'a) kact \<Rightarrow> bool" where
  "books k l m \<longleftrightarrow> (\<forall>b. post (\<lambda>s. unaccounted s = b + k) m (\<lambda>_ s. unaccounted s = b + l))"

lemma books_bind: "books k l m \<Longrightarrow> (\<And>x. books l n (f x)) \<Longrightarrow> books k n (bindA m f)"
  unfolding books_def by (blast intro: post_bind)

lemma books_ret: "books k k (ret x)"
  by (simp add: books_def post_ret)

lemma books_throw: "books k l (throw e)"
  by (simp add: books_def post_throw)

lemma books_if: "books k l m \<Longrightarrow> books k l m' \<Longrightarrow> books k l (if c then m else m')"
  by simp

definition drops_are :: "u64 \<Rightarrow> 'w conn \<Rightarrow> bool" where
  "drops_are d s \<longleftrightarrow> tooLargeSendDrops s = d"

lemma books_same:
  assumes "\<And>d. preserves (drops_are d) m"
  shows "books k k (same m)"
  unfolding books_def
proof (intro allI postI)
  fix b s x s' assume "unaccounted s = b + k" and "same m s = (Inr x, s')"
  then show "unaccounted s' = b + k"
    using preservesD [OF assms [of "tooLargeSendDrops (plain s)"], of "plain s"]
    by (auto simp: same_def zoomA_def unaccounted_def drops_are_def split: prod.splits)
qed

lemma books_counts:
  "books 0 1 (counting (\<lambda>c. c\<lparr>txSendAttempts := txSendAttempts c + 1\<rparr>))"
  "books 1 0 (recordCompletedTransportSend n b a)" "books 1 0 (recordSendBackpressure b)"
  "books k k (counting (\<lambda>c. c\<lparr>txSendRetryAttempts := txSendRetryAttempts c + 1\<rparr>))"
  "books k k (counting (\<lambda>c. c\<lparr>sendFlushes := sendFlushes c + 1\<rparr>))"
  "books k k (counting (\<lambda>c. c\<lparr>sendFlushBudgetRequeues := sendFlushBudgetRequeues c + 1\<rparr>))"
  by (auto simp: books_def post_def unaccounted_def recordCompletedTransportSend_def recordSendBackpressure_def counting_def
      act_simps algebra_simps split: if_splits)

interpretation drops_plain: conn_plain E "\<lambda>_. ()" "\<lambda>_ _. True" "\<lambda>_ _ _ _. True" "drops_are d" for E d
proof unfold_locales
  have flush: "preserves (drops_are d) queueSendFlush" "preserves (drops_are d) queueStreamReceiveFlush"
    by (simp_all add: preserves_def queue_defs act_simps drops_are_def)
  show "drops_are d s \<Longrightarrow> drops_are d (snd (receiveStreamDataCallback fin sid off data s))"
    "drops_are d s \<Longrightarrow> drops_are d (snd (acknowledgedStreamDataCallback sid off len s))" for s :: "'a conn" and fin sid off data len
    unfolding callback_defs modProto_def modApp_def assertWorkerOwner_def
    by (rule preservesD [where I = "drops_are d"], intro preserves_intros preserves_modify flush; simp add: drops_are_def)+
qed (rule env_calls_trivial | simp add: drops_are_def)+

lemma drops_frame:
  "preserves (drops_are d) (modProto f)" "preserves (drops_are d) clearSendRetry" "preserves (drops_are d) (scheduleSendRetry E)"
  "preserves (drops_are d) (modify (\<lambda>s. s\<lparr>pendingSend := g s\<rparr>))" "preserves (drops_are d) queueSendFlush"
  "preserves (drops_are d) (retainPendingTransportSend E data n seg k a)"
  "preserves (drops_are d) (sendTransportOnce E data seg a)"
  unfolding modProto_def clearSendRetry_def scheduleSendRetry_def retainPendingTransportSend_def sendTransportOnce_def
    getCurrentTimestampNS_def extern_def withIo_def
  by (auto simp: preserves_def act_simps queue_defs drops_are_def split: prod.split sum.split)

lemma drops_aggregate: "preserves (drops_are d) (run_ng (aggregate_callbacks E) call)"
proof -
  have "preserves (drops_are d) (\<lambda>s. run_ng (aggregate_callbacks E) call s)"
    by (rule run_ng_preserves [where obs = "\<lambda>_. ()" and okcb = "\<lambda>_ _. True"])
      (simp_all add: ng_tree_trivial ret_keeps_def drops_are_def drops_plain.aggregate_callback_inv [unfolded drops_are_def])
  then show ?thesis by simp
qed

lemma books_once: "books 0 1 (countedSendOnce E data seg a r)"
  unfolding countedSendOnce_def whenA_def
  by (intro books_bind [OF books_counts(1)] books_bind [OF books_if [OF books_counts(4) books_ret]] books_same drops_frame)

lemma books_drop:
  assumes "\<And>d. preserves (drops_are d) (blockA ms)"
  shows "books 1 0 (same (blockA (dropTooLarge # ms)))"
  unfolding books_def
proof (intro allI postI)
  fix b s x s' assume start: "unaccounted s = b + 1" and run: "same (blockA (dropTooLarge # ms)) s = (Inr x, s')"
  let ?t = "(plain s)\<lparr>tooLargeSendDrops := tooLargeSendDrops (plain s) + 1\<rparr>"
  have "drops_are (tooLargeSendDrops ?t) (snd (blockA ms ?t))"
    by (rule preservesD [OF assms]) (simp add: drops_are_def)
  then show "unaccounted s' = b + 0"
    using start run by (auto simp: same_def zoomA_def blockA_Cons dropTooLarge_def bindA_def modify_def unaccounted_def drops_are_def
        algebra_simps split: prod.splits)
qed

lemma books_buffer: "books 0 0 (countedSendBuffer E data seg k a)"
proof -
  have "books 1 0 (case status r of
        Complete \<Rightarrow> bindA (recordCompletedTransportSend (of_nat k) (of_nat (length data)) a) (\<lambda>_.
             bindA (same clearSendRetry) (\<lambda>_. ret OutcomeComplete))
      | TooLarge \<Rightarrow> bindA (same (blockA [dropTooLarge, clearSendRetry])) (\<lambda>_. ret OutcomeComplete)
      | Blocked \<Rightarrow> bindA (recordSendBackpressure (of_nat (length data) - of_nat (sentSize r))) (\<lambda>_.
             bindA (same (retainPendingTransportSend E data (sentSize r) seg k a)) (\<lambda>_. ret OutcomeBlocked)))" for r
    by (cases "status r"; simp only: send_status.case)
      (intro books_bind [OF books_counts(2)] books_bind [OF books_counts(3)] books_bind [OF books_drop] books_bind [OF books_same]
        books_ret drops_frame preserves_intros)+
  then show ?thesis
    unfolding countedSendBuffer_def
    by (intro books_bind [OF books_same [OF preserves_gets]] books_if books_throw books_bind [OF books_once])
qed

lemma books_pending: "books 0 0 (countedFlushPending E)"
  unfolding countedFlushPending_def
  by (intro books_bind [OF books_same [OF preserves_gets]] books_if books_ret books_throw books_bind [OF books_once]
      books_bind [OF books_same [OF drops_frame(4)]] books_bind [OF books_drop] books_bind [OF books_counts(2)]
      books_bind [OF books_counts(3)] books_bind [OF books_same] drops_frame preserves_intros)

lemma books_single: "books 0 0 (countedFlushSingle E n)"
proof (induction n)
  case (Suc n)
  have "books 0 0 (case r of OutcomeBlocked \<Rightarrow> ret False | OutcomeComplete \<Rightarrow> countedFlushSingle E n)" for r
    by (cases r) (simp_all add: Suc.IH books_ret)
  then show ?case
    unfolding countedFlushSingle.simps
    by (intro books_bind [OF books_same [OF drops_plain.now_inv]] books_bind [OF books_same [OF drops_plain.plain_write]] books_if
        books_ret books_bind [OF books_buffer])
qed (simp add: books_ret)

lemma books_round: "books 0 0 (countedRound E i)"
proof -
  have "books 0 0 (case r of OutcomeBlocked \<Rightarrow> ret RoundBlocked | OutcomeComplete \<Rightarrow> ret (RoundSent n))" for r n
    by (cases r) (simp_all add: books_ret)
  then show ?thesis
    unfolding countedRound_def Let_def
    by (intro books_bind [OF books_same [OF drops_plain.now_inv]] books_bind [OF books_same [OF preserves_gets]]
        books_bind [OF books_same [OF drops_frame(1)]] books_bind [OF books_same [OF drops_aggregate]])
      (auto intro!: books_bind [OF books_same [OF preserves_gets]] books_if books_throw books_ret books_bind [OF books_buffer]
        split: prod.split sum.split)
qed

lemma books_loop: "books 0 0 (countedFlushAggregate E i)"
  unfolding books_def
proof (intro allI postI)
  fix b s x s' assume "unaccounted s = b + 0" and "countedFlushAggregate E i s = (Inr x, s')"
  then show "unaccounted s' = b + 0"
  proof (induction E i s rule: countedFlushAggregate.induct)
    case (1 E i s)
    show ?case
    proof (cases "i < kMaxPacketsPerFlush")
      case True
      obtain r s1 where one: "countedRound E i s = (Inr r, s1)"
        using 1(3) True by (auto simp: countedFlushAggregate.simps [of E i] split: prod.splits sum.splits)
      have "unaccounted s1 = b + 0" by (rule postD [OF books_round [unfolded books_def, rule_format] 1(2) one])
      then show ?thesis using 1(1) [OF True _ refl] 1(3) True one
        by (auto simp: countedFlushAggregate.simps [of E i] split: round.splits)
    qed (use 1 in \<open>simp add: countedFlushAggregate.simps [of E i]\<close>)
  qed
qed

lemma books_flush: "books 0 0 (countedSendFlush E)"
  unfolding countedSendFlush_def countedFlushPackets_def whenA_def
  by (intro books_bind [OF books_same [OF preserves_gets]] books_if books_ret books_bind [OF books_counts(5)]
      books_bind [OF books_pending] books_single books_loop books_bind [OF books_counts(6)] books_same drops_frame
      books_bind [of 0 0 "bindA (same (gets proto)) f" for f] books_bind)

lemma balance:
  fixes a :: "'g::ab_group_add"
  assumes "a' - (c' + b' + d') = a - (c + b + d)"
  shows "a' - a = (c' - c) + (b' - b) + (d' - d)"
proof -
  have "a' = a - (c + b + d) + (c' + b' + d')" using assms by (simp only: diff_eq_eq)
  then show ?thesis by (simp add: algebra_simps)
qed

text \<open>C18. Diagnostics of the sending side only look: a send flush that counts ends as the one that does not, with the
  same result or exception and the same connection, and if it ends normally it has counted every attempt to
  send exactly once, as a completed call, as backpressure or as a datagram dropped as too large.\<close>

theorem sends_accounted:
  shows "processSendFlush E (plain s) = (fst (countedSendFlush E s), plain (snd (countedSendFlush E s))) \<and>
    (\<forall>s'. countedSendFlush E s = (Inr (), s') \<longrightarrow>
       txSendAttempts (counts s') - txSendAttempts (counts s) =
         (txSendCalls (counts s') - txSendCalls (counts s)) +
         (txSendBackpressureEvents (counts s') - txSendBackpressureEvents (counts s)) +
         (getTooLargeSendDrops (plain s') - getTooLargeSendDrops (plain s)))"
proof (intro conjI allI impI)
  show "processSendFlush E (plain s) = (fst (countedSendFlush E s), plain (snd (countedSendFlush E s)))"
    by (rule mirrorsD [OF mirrors_flush]) (rule prod.collapse [symmetric])
  fix s' assume "countedSendFlush E s = (Inr (), s')"
  from postD [OF books_flush [unfolded books_def, rule_format, of "unaccounted s"] _ this]
  have "unaccounted s' = unaccounted s" by simp
  then show "txSendAttempts (counts s') - txSendAttempts (counts s) =
      (txSendCalls (counts s') - txSendCalls (counts s)) +
      (txSendBackpressureEvents (counts s') - txSendBackpressureEvents (counts s)) +
      (getTooLargeSendDrops (plain s') - getTooLargeSendDrops (plain s))"
    unfolding getTooLargeSendDrops_def unaccounted_def by (rule balance)
qed

text \<open>A packet of one byte that waits is sent again, and the transport takes it.\<close>

definition no_counts :: send_counts where
  "no_counts = \<lparr>sendFlushes = 0, sendFlushBudgetRequeues = 0, txSendAttempts = 0, txSendRetryAttempts = 0,
     txSendBackpressureEvents = 0, txSendBackpressureBytes = 0, txSendCalls = 0, txAggregateSendCalls = 0,
     txAggregatePackets = 0, txAggregateBytes = 0, maxAggregatePackets = 0, maxAggregateBytes = 0\<rparr>"

definition waiting_conn :: "outward conn" where
  "waiting_conn = pack_conn\<lparr>proto := (proto pack_conn)\<lparr>hasConn := True\<rparr>, aggregatePackets := False,
     io := \<lparr>io_binding = \<lparr>agentHandle = Some 0, bconnection = None, datagramLimit = 1200\<rparr>,
       io_agents = (\<lambda>_. \<lparr>agent_juice = Some \<lparr>jh_agent = Some 9\<rparr>, agent_lock = True, agent_closed = False,
         dataSink = None, dataSinkUserPtr = None\<rparr>), io_world = ([[3]], [])\<rparr>,
     pendingSend := \<lparr>ps_data = [3], ps_offset = 0, ps_segmentSize = 2, ps_packetCount = 2, ps_logicalBytes = 3, ps_aggregate = True\<rparr>\<rparr>"

lemma countedSingle_pos:
  "0 < n \<Longrightarrow> countedFlushSingle E n = bindA (same (getCurrentTimestampNS E)) (\<lambda>ts.
     bindA (same (writeOnePacket E kSendBufferPayloadSize ts False)) (\<lambda>out.
       if out = [] then ret False
       else bindA (countedSendBuffer E out (length out) 1 False) (\<lambda>outcome.
         case outcome of
           OutcomeBlocked \<Rightarrow> ret False
         | OutcomeComplete \<Rightarrow> countedFlushSingle E (n - 1))))"
  by (cases n) (simp, simp only: countedFlushSingle.simps diff_Suc_1)

lemma waiting_flush:
  "\<exists>s'. countedSendFlush pack_env \<lparr>plain = waiting_conn, counts = no_counts\<rparr> = (Inr (), s') \<and>
     world (plain s') = ([[3]], [[3]]) \<and> counts s' = no_counts\<lparr>sendFlushes := 1, txSendAttempts := 1, txSendRetryAttempts := 1,
       txSendCalls := 1, txAggregateSendCalls := 1, txAggregatePackets := 2, txAggregateBytes := 3,
       maxAggregatePackets := 2, maxAggregateBytes := 3\<rparr>"
  by (simp add: countedSendFlush_def countedFlushPackets_def countedFlushPending_def countedSendOnce_def same_def zoomA_def
      counting_def act_simps waiting_conn_def pack_conn_def connection_new_def proto_new_def proto_hasPendingWrite_def no_counts_def
      ps_hasRemainingData_def sendTransportOnce_def pack_sel countedSingle_pos kMaxPacketsPerFlush_def writeOnePacket_def
      binding_sendAggregate_def sendFFLP2PAgentNativeAggregateProgress_def sendFFLP2PJuiceAggregateProgress_def pack_juice_def
      translateSendResult_def ps_clear_def takes_def world_def getCurrentTimestampNS_def clearSendRetry_def whenA_simps
      recordCompletedTransportSend_def segments_short word_le_nat_alt)

theorem sends_accounted_witness:
  "\<exists>s'. countedSendFlush pack_env \<lparr>plain = waiting_conn, counts = no_counts\<rparr> = (Inr (), s') \<and>
     txSendAttempts (counts s') = 1 \<and> txSendAttempts (counts s') = txSendCalls (counts s') +
       txSendBackpressureEvents (counts s') + getTooLargeSendDrops (plain s')"
proof -
  obtain s' where run: "countedSendFlush pack_env \<lparr>plain = waiting_conn, counts = no_counts\<rparr> = (Inr (), s')"
    and "txSendAttempts (counts s') = 1" using waiting_flush by (auto simp: no_counts_def)
  then show ?thesis
    using sends_accounted [of pack_env "\<lparr>plain = waiting_conn, counts = no_counts\<rparr>", THEN conjunct2, rule_format, OF run]
    by (simp add: no_counts_def waiting_conn_def pack_conn_def connection_new_def getTooLargeSendDrops_def)
qed

end
