(* ===== verification/Spec2Isabelle.thy ===== *)
theory Spec2Isabelle
  imports Connection_Published Connection_Rx Scheduling Worker_Inv Port_Mapping Session_Inv Datapath Datapath_Windows
    Connection_Datagrams Transport_Sys Worker_Diagnostics Datapath_Diagnostics Runtime_Diagnostics
    Datapath_Cosmo Module_Init End_To_End Change_Wait Connection_Retry Send_Diagnostics
begin

text \<open>
  A model of the native part of ffl-p2p (\<open>src/native\<close>, C and C++): a Python extension that sends one
  reliable byte stream per connection over QUIC (ngtcp2, GnuTLS) through an ICE agent (libjuice), with
  a pool of worker threads, and opens port mappings (libplum).

  \<^bold>\<open>The program.\<close> A Python \<open>QUICSession\<close> (\<open>Quic.cpp\<close>) owns a \<open>Connection\<close> (\<open>quic/Connection.cpp\<close>) and
  holds a reference to a Python \<open>Agent\<close> (\<open>P2P.c\<close>). The connection is attached to the agent by a
  \<open>JuiceBinding\<close> (\<open>ice/JuiceBinding.cpp\<close>): datagrams that libjuice receives go to the connection's
  receive batch instead of the agent's queue, and what ngtcp2 wants sent goes to libjuice. Python and
  libjuice threads only append to batches and queue operations (\<open>core/Operation.cpp\<close>); the protocol
  state belongs to the worker the connection was assigned to (\<open>core/Worker.cpp\<close>), which takes
  connections from its queue, processes their operations, and keeps their deadlines in a timer wheel
  (\<open>core/TimerWheel.cpp\<close>). Buffers come from per-worker pools (\<open>datapath/Buffer.cpp\<close>).

  \<^bold>\<open>Conventions\<close> (\<open>Prelude\<close>). A member function is an action: a function from the object to a result or
  an exception, and the object as it was left. A section under a mutex is one step; the \<open>_Sys\<close> and
  \<open>Scheduling\<close> theories interleave such sections. \<open>Undefined\<close> stands for undefined behaviour and
  \<open>PyCrash\<close> for a null lock. Third-party code is a parameter: a record of functions over an external
  state. The build modelled is the release build for Linux, with the Windows datapath and the
  Cosmopolitan batch receiver beside it.

  \<^bold>\<open>Theories.\<close>
  \<^item> \<open>Fifo\<close>: the contract of a first-in first-out queue, as a locale. It is interpreted on the operation
    queue (\<open>Operation\<close>), the queue of a worker (\<open>Worker\<close>) and the linked lists of an agent (\<open>Node_Queue\<close>).
  \<^item> \<open>Operation\<close>, \<open>Timer_Wheel\<close>, \<open>Platform\<close>: \<open>core/Operation\<close>, \<open>core/TimerWheel\<close>, \<open>platform/Platform\<close> and
    \<open>core/RuntimeConfiguration\<close>. Completions keep the first error, expiry is exact.
  \<^item> \<open>Buffer_Pool\<close>, \<open>Buffer_Batch\<close>, \<open>Receive_Batch\<close>, \<open>Stream_Batch\<close>: \<open>datapath/Buffer\<close>, with memory as a list of
    cells and explicit links, refined to lists of datagrams and byte strings. No buffer leaks or has
    two owners.
  \<^item> \<open>Juice_Binding\<close>: \<open>ice/JuiceBinding\<close> and the data sink of an agent. \<open>Quic_Env\<close>: ngtcp2, GnuTLS and the
    clock; a call of ngtcp2 is a finite tree of the callbacks it makes.
  \<^item> \<open>Connection_State\<close>, \<open>_Ops\<close>, \<open>_Send\<close>, \<open>_Handlers\<close>, \<open>_API\<close>: \<open>quic/Connection\<close>, every operation that
    changes its state. \<open>Connection_Inv\<close> has locales that carry an invariant through all handlers from a few
    laws, and \<open>Connection_Frame\<close> two for properties of the sending side; \<open>_Queue\<close>, \<open>_Run\<close>, \<open>_Tx\<close>, \<open>_Published\<close>, \<open>_Rx\<close>,
    \<open>_Datagrams\<close>, \<open>_Packets\<close>, \<open>_Retry\<close> use them: waiters are served, queued work and its
    flags agree, the stream goes out and comes in unchanged, what is published is never ahead of the
    transport, datagrams reach ngtcp2, and its packets libjuice, in order and once, and what libjuice refuses is
    sent again. \<open>Segments\<close>: a buffer as the datagrams of one size it stands for. \<open>Demo_Env\<close> and \<open>Demo_Run\<close> are a concrete run for the witnesses.
  \<^item> \<open>Change_Wait\<close>: threads of the application in \<open>waitForChange\<close>, interleaved with the sections that publish; what is
    published during the wait is not missed, what is published just before it can be.
  \<^item> \<open>Worker\<close>: \<open>core/Worker\<close> over a store of connections. \<open>Worker_Frame\<close> and \<open>Worker_Inv\<close>: its loop round by
    round, with the invariant between queue, wheel and connections. \<open>Scheduling\<close>: the same queueing
    protocol at the grain of atomic accesses; no wake-up is lost and the worker comes to rest.
  \<^item> \<open>Node_Queue\<close>, \<open>Agent\<close>, \<open>Agent_Sys\<close>, \<open>Agent_Life\<close>: the agent object of \<open>P2P.c\<close> and the libjuice wrapper
    \<open>Juice.c\<close>. Its two wake tokens are never released twice and never missing when something is queued,
    under any interleaving; construction is all or nothing; deallocation returns everything.
  \<^item> \<open>Transport_Sys\<close>: libjuice's callback, attaching, sending and closing interleaved; detaching is a synchronisation
    point, and closing an agent is one only if its connections have stopped.
  \<^item> \<open>Port_Mapping\<close>: \<open>Plum.c\<close>, \<open>Log.c\<close> and the \<open>PortMapping\<close> object of \<open>P2P.c\<close>.
  \<^item> \<open>Datapath\<close>: \<open>datapath/Datapath\<close>, \<open>datapath/DatapathPOSIX\<close> and \<open>platform/DatagramBatch\<close>, the Linux branches
    over a kernel given as a parameter: what is sent and delivered, the fallbacks, the receive loops return.
  \<^item> \<open>Datapath_Cosmo\<close>: the Cosmopolitan branch of \<open>platform/DatagramBatch\<close>, with the layout of the structures it declares;
    on the Linux ABI it is equivalent to the Linux branch.
  \<^item> \<open>Datapath_Windows\<close>: \<open>datapath/DatapathWindows\<close>; a coalesced buffer is handed out as the datagrams it stands for.
  \<^item> \<open>Atomics\<close>, \<open>Worker_Diagnostics\<close>, \<open>Datapath_Diagnostics\<close>, \<open>Runtime_Diagnostics\<close>: the three classes of counters, as
    programs of atomic accesses. The loops of \<open>updateMaximum\<close> are linearisable and lock-free, and totals are exact. \<open>Send_Diagnostics\<close>: the sending side of a
    connection in a build with diagnostics; it does what the release build does, and its counters of sends add up.
  \<^item> \<open>Credentials\<close>, \<open>Quic_Session\<close>, \<open>Session_Inv\<close>: \<open>quic/Credentials\<close> and the Python objects of \<open>Quic.cpp\<close>. A
    connection is attached only to an agent its session holds a reference to. \<open>Module_Init\<close>: the initialisation of the
    extension module, all or nothing.
  \<^item> \<open>End_To_End\<close>: a sender and a receiver together; a stream arrives as it was written.

  \<^bold>\<open>Bounds and fuel.\<close> Loops over a list, a queue of known length or a constant budget (512 packets per flush,
  64 operations per turn of a connection, the size of a buffer) recurse on that; \<open>flushAggregate\<close> has a
  measure, since every round sends at least one packet. A walk over linked nodes takes as many steps as
  addresses have been given out, which the invariant shows to be enough. The receive loops of the datapath have no
  bound: they are partial functions, shown to return while the kernel reports finitely many errors. Reference counts, offsets and
  sizes that the code cannot overflow within a machine's life are natural numbers; generation
  counters, ports and drop counters are words.

  \<^bold>\<open>Not modelled.\<close> What diagnostics, compiled in only on demand, add to a connection apart from its counters
  of sends: the calls of the diagnostics classes, the other counters, the snapshot that collects them. The
  method tables of the Python types. Failure of C++ allocations. Memory orderings weaker than sequential
  consistency. The Python package.
\<close>

end
